(* ===== verification/Ledger_Prelude.thy ===== *)
theory Ledger_Prelude
  imports Main "HOL-Library.Word"
begin

text \<open>
  Shared vocabulary of the development: rows of SQL tables as records kept in lists, the two
  statements the ledger issues against them (an \<open>UPDATE \<dots> WHERE\<close> and a count of the rows it
  touches), primary keys, transactions, and the few functions of the Go standard library the
  components use on strings and integers.  The collection \<open>row_simps\<close> gathers the rewrite
  rules about tables; every component theory adds its own facts to it.
\<close>

named_theorems row_simps \<open>rewrite rules about table rows and updates\<close>

subsection \<open>Types shared by the components\<close>

text \<open>
  An instant is a number of nanoseconds.  The code stores instants as fixed-width UTC text
  (\<^verbatim>\<open>tsformat.Layout\<close>, nine fractional digits), so the text comparisons of its SQL are
  comparisons of the instants.  A zero \<^verbatim>\<open>time.Time\<close> and an SQL \<open>NULL\<close> are \<open>None\<close>.
  A \<^verbatim>\<open>float64\<close> is its bit pattern: the ledger stores costs and never computes with them.
\<close>

type_synonym time = int
type_synonym float64 = "64 word"

definition second :: time where
  "second = 1000000000"

subsection \<open>Tables\<close>

definition upd_where :: "('r \<Rightarrow> bool) \<Rightarrow> ('r \<Rightarrow> 'r) \<Rightarrow> 'r list \<Rightarrow> 'r list" where
  "upd_where P f t = map (\<lambda>r. if P r then f r else r) t"

definition count_where :: "('r \<Rightarrow> bool) \<Rightarrow> 'r list \<Rightarrow> nat" where
  "count_where P t = length (filter P t)"

lemma upd_where_Nil [simp]: "upd_where P f [] = []"
  by (simp add: upd_where_def)

lemma upd_where_Cons [simp]:
  "upd_where P f (r # t) = (if P r then f r else r) # upd_where P f t"
  by (simp add: upd_where_def)

lemma set_upd_where: "set (upd_where P f t) = (\<lambda>r. if P r then f r else r) ` set t"
  by (simp add: upd_where_def)

lemma in_upd_where: "x \<in> set (upd_where P f t) \<longleftrightarrow> (\<exists>r\<in>set t. x = (if P r then f r else r))"
  by (auto simp: set_upd_where)

lemma length_upd_where [simp]: "length (upd_where P f t) = length t"
  by (simp add: upd_where_def)

lemma upd_where_id [simp]: "upd_where P id t = t"
  by (induction t) auto

lemma upd_where_none: "(\<And>r. r \<in> set t \<Longrightarrow> \<not> P r) \<Longrightarrow> upd_where P f t = t"
  by (induction t) auto

lemma map_upd_where:
  assumes "\<And>r. r \<in> set t \<Longrightarrow> P r \<Longrightarrow> g (f r) = h (g r)" and "\<And>r. r \<in> set t \<Longrightarrow> P r = Q (g r)"
  shows "map g (upd_where P f t) = upd_where Q h (map g t)"
  using assms by (induction t) auto

lemma map_upd_where_keep:
  assumes "\<And>r. r \<in> set t \<Longrightarrow> P r \<Longrightarrow> g (f r) = g r"
  shows "map g (upd_where P f t) = map g t"
  using assms by (induction t) auto

lemma filter_upd_where_keep:
  assumes "\<And>r. r \<in> set t \<Longrightarrow> P r \<Longrightarrow> f r = r \<or> \<not> Q r \<and> \<not> Q (f r)"
  shows "filter Q (upd_where P f t) = filter Q t"
  using assms by (induction t) (auto, metis+)

lemma image_upd_where_keep:
  assumes "\<And>r. r \<in> set t \<Longrightarrow> P r \<Longrightarrow> g (f r) = g r"
  shows "g ` set (upd_where P f t) = g ` set t"
  using assms by (induction t) auto

lemma find_take_least:
  assumes "sorted (map k ys)" "find P (take n ys) = Some y" "x \<in> set ys" "P x"
  shows "k y \<le> (k x :: 'k :: linorder)"
proof -
  obtain i where i: "i < length (take n ys)" "y = take n ys ! i" "\<forall>j<i. \<not> P (take n ys ! j)"
    using assms(2) by (auto simp: find_Some_iff)
  obtain j where j: "j < length ys" "x = ys ! j" using assms(3) by (auto simp: in_set_conv_nth)
  have "i \<le> j"
  proof (rule ccontr)
    assume "\<not> i \<le> j"
    then show False using i assms(4) j by (auto simp: nth_take)
  qed
  then show ?thesis using assms(1) i j by (auto simp: sorted_iff_nth_mono nth_take)
qed

lemma upd_where_cong: "(\<And>r. r \<in> set t \<Longrightarrow> P r = Q r) \<Longrightarrow> upd_where P f t = upd_where Q f t"
  by (induction t) auto

lemma find_the: "x \<in> set xs \<Longrightarrow> P x \<Longrightarrow> (\<And>y. y \<in> set xs \<Longrightarrow> P y \<Longrightarrow> y = x) \<Longrightarrow> find P xs = Some x"
proof (induction xs)
  case (Cons a xs)
  show ?case
  proof (cases "P a")
    case True
    then have "a = x" by (intro Cons.prems(3)) simp_all
    then show ?thesis using True by simp
  next
    case False
    then have "x \<in> set xs" using Cons.prems(1,2) by auto
    then have "find P xs = Some x" by (rule Cons.IH) (use Cons.prems(2,3) in \<open>simp, meson list.set_intros(2)\<close>)
    then show ?thesis using False by simp
  qed
qed simp

lemma find_append: "find P (s @ t) = (case find P s of None \<Rightarrow> find P t | Some x \<Rightarrow> Some x)"
  by (induction s) auto

lemma filter_upd_where:
  assumes "\<And>r. Q (f r) = Q r"
  shows "filter Q (upd_where P f t) = upd_where P f (filter Q t)"
  using assms by (induction t) auto

lemma count_where_pos: "0 < count_where P t \<longleftrightarrow> (\<exists>r\<in>set t. P r)"
  by (induction t) (auto simp: count_where_def)

lemma count_where_0: "count_where P t = 0 \<longleftrightarrow> (\<forall>r\<in>set t. \<not> P r)"
  by (induction t) (auto simp: count_where_def)

lemma count_where_Cons [simp]:
  "count_where P (r # t) = (if P r then Suc (count_where P t) else count_where P t)"
  by (simp add: count_where_def)

lemma count_where_Nil [simp]: "count_where P [] = 0"
  by (simp add: count_where_def)

lemma count_where_append [simp]: "count_where P (s @ t) = count_where P s + count_where P t"
  by (simp add: count_where_def)

lemma count_where_mono:
  assumes "\<And>r. r \<in> set t \<Longrightarrow> P r \<Longrightarrow> Q r"
  shows "count_where P t \<le> count_where Q t"
  using assms by (induction t) auto

lemma count_where_ge2:
  assumes "x \<in> set t" "y \<in> set t" "x \<noteq> y" "P x" "P y"
  shows "2 \<le> count_where P t"
proof -
  have "{x, y} \<subseteq> set (filter P t)" using assms by auto
  then have "card {x, y} \<le> card (set (filter P t))" by (intro card_mono) auto
  also have "\<dots> \<le> length (filter P t)" by (rule card_length)
  finally show ?thesis using \<open>x \<noteq> y\<close> by (simp add: count_where_def)
qed

lemma map_int_upto: "map int [1..<Suc n] = [1..int n]"
proof (induction n)
  case (Suc n)
  have "[1..int (Suc n)] = [1..int n] @ [int (Suc n)]" by (simp add: upto_rec2)
  then show ?case using Suc by simp
qed simp

subsection \<open>Primary keys\<close>

text \<open>
  A table with a primary key: \<open>key\<close> reads the key column, and every fact assumes what the
  \<open>PRIMARY KEY\<close> clause enforces, that the keys of a table are distinct.  The interpretations
  are the ledger's tables.
\<close>

locale keyed_rows =
  fixes key :: "'r \<Rightarrow> 'k"
begin

lemma find_key_Some: "find (\<lambda>r. key r = k) t = Some r \<Longrightarrow> r \<in> set t \<and> key r = k"
  by (auto simp: find_Some_iff)

lemma find_key_None: "find (\<lambda>r. key r = k) t = None \<longleftrightarrow> (\<forall>r\<in>set t. key r \<noteq> k)"
  by (auto simp: find_None_iff)

lemma key_unique:
  assumes "distinct (map key t)" "r \<in> set t" "s \<in> set t" "key r = key s"
  shows "r = s"
  using assms by (auto simp: distinct_map dest: inj_onD)

lemma find_key_in:
  assumes "distinct (map key t)" "r \<in> set t"
  shows "find (\<lambda>s. key s = key r) t = Some r"
proof (cases "find (\<lambda>s. key s = key r) t")
  case None
  then show ?thesis using assms(2) by (auto simp: find_None_iff)
next
  case (Some s)
  then have "s \<in> set t" "key s = key r" by (auto dest: find_key_Some)
  then show ?thesis using key_unique [OF assms(1), of s r] assms(2) Some by simp
qed

lemma find_key_iff:
  assumes "distinct (map key t)"
  shows "find (\<lambda>s. key s = k) t = Some r \<longleftrightarrow> r \<in> set t \<and> key r = k"
  using find_key_in [OF assms, of r] by (auto dest: find_key_Some)

lemma find_key_upd:
  assumes "\<And>r. r \<in> set t \<Longrightarrow> P r \<Longrightarrow> key (f r) = key r"
  shows "find (\<lambda>r. key r = k) (upd_where P f t)
       = map_option (\<lambda>r. if P r then f r else r) (find (\<lambda>r. key r = k) t)"
  using assms by (induction t) auto

lemma count_key_le1:
  assumes "distinct (map key t)" "\<And>r. r \<in> set t \<Longrightarrow> P r \<Longrightarrow> key r = k"
  shows "count_where P t \<le> 1"
  using assms
proof (induction t)
  case Nil
  then show ?case by simp
next
  case (Cons a t)
  show ?case
  proof (cases "P a")
    case True
    then have "key a = k" using Cons.prems by simp
    then have "count_where P t = 0"
      using Cons.prems by (auto simp: count_where_0 image_iff)
    then show ?thesis by simp
  next
    case False
    then show ?thesis using Cons by simp
  qed
qed

lemma count_key_eq1:
  assumes "distinct (map key t)" "\<And>r. r \<in> set t \<Longrightarrow> P r \<Longrightarrow> key r = k" "r \<in> set t" "P r"
  shows "count_where P t = 1"
proof -
  have "0 < count_where P t" using assms(3,4) by (auto simp: count_where_pos)
  moreover have "count_where P t \<le> 1" using assms(1,2) by (rule count_key_le1)
  ultimately show ?thesis by simp
qed

end

subsection \<open>Histories of events\<close>

text \<open>
  A component whose events each may or may not be possible, and its runs over a list of events.  The
  interpretations are the concurrent scheduler of routines, the registry of runs, the leader election and the writes of the paymaster.
\<close>

locale event_runs =
  fixes step :: "'e \<Rightarrow> 's \<Rightarrow> 's option" and run :: "'e list \<Rightarrow> 's \<Rightarrow> 's option"
  assumes run_Nil: "run [] s = Some s"
    and run_Cons: "run (e # es) s = (case step e s of None \<Rightarrow> None | Some t \<Rightarrow> run es t)"
begin

lemma run_append: "run (es @ fs) s = (case run es s of None \<Rightarrow> None | Some t \<Rightarrow> run fs t)"
  by (induction es arbitrary: s) (auto simp: run_Nil run_Cons split: option.split)

lemma run_invariant:
  assumes "run es s = Some t" and "I s" and "\<And>e r u. e \<in> set es \<Longrightarrow> step e r = Some u \<Longrightarrow> I r \<Longrightarrow> I u"
  shows "I t"
  using assms
proof (induction es arbitrary: s)
  case (Cons e es)
  then obtain r where r: "step e s = Some r" "run es r = Some t" by (auto simp: run_Cons split: option.splits)
  have "I r" by (rule Cons.prems(3) [OF _ r(1) Cons.prems(2)]) simp
  then show ?case by (rule Cons.IH [OF r(2)]) (use Cons.prems(3) in auto)
qed (simp add: run_Nil)

lemma run_measure:
  assumes "run es s = Some t" and "I s"
    and "\<And>e r u. step e r = Some u \<Longrightarrow> I r \<Longrightarrow> I u \<and> f u < (f r :: nat)"
  shows "f t + length es \<le> f s"
  using assms(1,2)
proof (induction es arbitrary: s)
  case (Cons e es)
  then obtain r where r: "step e s = Some r" "run es r = Some t" by (auto simp: run_Cons split: option.splits)
  have "I r" "f r < f s" using assms(3) [OF r(1) Cons.prems(2)] by blast+
  then show ?case using Cons.IH [OF r(2)] by simp
qed (simp add: run_Nil)

lemma run_total:
  assumes "I s" and "\<And>e r. I r \<Longrightarrow> \<exists>u. step e r = Some u \<and> I u"
  shows "\<exists>t. run es s = Some t \<and> I t"
  using assms(1)
proof (induction es arbitrary: s)
  case (Cons e es)
  then obtain u where u: "step e s = Some u" "I u" using assms(2) [OF Cons.prems] by blast
  from Cons.IH [OF u(2)] show ?case by (simp add: run_Cons u(1))
qed (simp add: run_Nil)

end

subsection \<open>Transactions\<close>

text \<open>
  The body of a transaction either fails, and the deferred rollback restores the database, or
  it returns a result together with the database to commit.
\<close>

definition in_tx :: "'d \<Rightarrow> 'e + ('a \<times> 'd) \<Rightarrow> ('e + 'a) \<times> 'd" where
  "in_tx db r = (case r of Inl e \<Rightarrow> (Inl e, db) | Inr (x, db') \<Rightarrow> (Inr x, db'))"

lemma in_tx_Inl [simp]: "in_tx db (Inl e) = (Inl e, db)"
  by (simp add: in_tx_def)

lemma in_tx_Inr [simp]: "in_tx db (Inr (x, db')) = (Inr x, db')"
  by (simp add: in_tx_def)

lemma in_tx_eq_Inr: "in_tx db r = (Inr x, db') \<longleftrightarrow> r = Inr (x, db')"
  by (cases r) (auto simp: in_tx_def)

lemma in_tx_eq_Inl: "in_tx db r = (Inl e, db') \<longleftrightarrow> r = Inl e \<and> db' = db"
  by (cases r) (auto simp: in_tx_def)

lemma in_tx_cases:
  obtains (rolled_back) e where "r = Inl e" "in_tx db r = (Inl e, db)"
    | (committed) x db' where "r = Inr (x, db')" "in_tx db r = (Inr x, db')"
  by (cases r) (auto simp: in_tx_def)

subsection \<open>The Go library\<close>

text \<open>
  Integer division of Go and of SQLite truncates towards zero, and Go leaves a division by
  zero to its caller (none of the divisors used here is zero).
\<close>

definition go_div :: "int \<Rightarrow> int \<Rightarrow> int" where
  "go_div a b = sgn a * sgn b * (\<bar>a\<bar> div \<bar>b\<bar>)"

text \<open>The value of a 64-bit signed expression whose exact value is \<open>n\<close>.\<close>

definition wrap64 :: "int \<Rightarrow> int" where
  "wrap64 n = sint (word_of_int n :: 64 word)"

lemma wrap64_id: "- (2 ^ 63) \<le> n \<Longrightarrow> n < 2 ^ 63 \<Longrightarrow> wrap64 n = n"
  by (simp add: wrap64_def signed_of_int signed_take_bit_int_eq_self)

text \<open>\<^verbatim>\<open>strings.TrimSpace(s) == ""\<close>, on the ASCII white space \<open>unicode.IsSpace\<close> knows.\<close>

definition is_space :: "char \<Rightarrow> bool" where
  "is_space c \<longleftrightarrow> (of_char c :: nat) \<in> {9, 10, 11, 12, 13, 32}"

definition blank :: "string \<Rightarrow> bool" where
  "blank s \<longleftrightarrow> list_all is_space s"

text \<open>\<^verbatim>\<open>strings.TrimSpace\<close>, and \<^verbatim>\<open>strings.ToLower\<close> on ASCII.\<close>

definition trim_space :: "string \<Rightarrow> string" where
  "trim_space s = rev (dropWhile is_space (rev (dropWhile is_space s)))"

definition lower_char :: "char \<Rightarrow> char" where
  "lower_char c = (let n = (of_char c :: nat) in if 65 \<le> n \<and> n \<le> 90 then char_of (n + 32) else c)"

definition to_lower :: "string \<Rightarrow> string" where
  "to_lower s = map lower_char s"

text \<open>Decimal text of an integer (\<^verbatim>\<open>strconv.Itoa\<close>, the verb \<^verbatim>\<open>%d\<close>).\<close>

definition digit_char :: "nat \<Rightarrow> char" where
  "digit_char d = char_of (48 + d)"

fun nat_digits :: "nat \<Rightarrow> string" where
  "nat_digits n = (if n < 10 then [digit_char n] else nat_digits (n div 10) @ [digit_char (n mod 10)])"

declare nat_digits.simps [simp del]

definition go_itoa :: "int \<Rightarrow> string" where
  "go_itoa n = (if n < 0 then CHR ''-'' # nat_digits (nat (- n)) else nat_digits (nat n))"

text \<open>
  \<^verbatim>\<open>strconv.Atoi\<close>: an optional sign, then one or more decimal digits, and a value that fits
  in 64 bits; everything else is a parse error.
\<close>

definition char_digit :: "char \<Rightarrow> nat option" where
  "char_digit c = (let n = (of_char c :: nat) in if 48 \<le> n \<and> n \<le> 57 then Some (n - 48) else None)"

fun digits_value :: "nat \<Rightarrow> string \<Rightarrow> nat option" where
  "digits_value acc [] = Some acc"
| "digits_value acc (c # cs) =
     (case char_digit c of None \<Rightarrow> None | Some d \<Rightarrow> digits_value (10 * acc + d) cs)"

definition go_atoi :: "string \<Rightarrow> int option" where
  "go_atoi s =
     (let (neg, ds) = (case s of [] \<Rightarrow> (False, [])
                      | c # cs \<Rightarrow> if c = CHR ''-'' then (True, cs)
                                  else if c = CHR ''+'' then (False, cs) else (False, s))
      in if ds = [] then None
         else case digits_value 0 ds of None \<Rightarrow> None
              | Some n \<Rightarrow>
                  (let v = (if neg then - int n else int n)
                   in if - (2 ^ 63) \<le> v \<and> v < 2 ^ 63 then Some v else None))"

text \<open>
  The verb \<^verbatim>\<open>%q\<close>: a double-quoted literal.  Exact on ASCII; a byte above 127 is kept, which
  is what the verb does with the bytes of a printable character.
\<close>

definition hex_char :: "nat \<Rightarrow> char" where
  "hex_char d = char_of (if d < 10 then 48 + d else 87 + d)"

definition quote_char :: "char \<Rightarrow> string" where
  "quote_char c =
     (let n = (of_char c :: nat); bs = char_of (92::nat)
      in if n = 34 then [bs, c] else if n = 92 then [bs, bs]
         else if n = 7 then [bs, CHR ''a''] else if n = 8 then [bs, CHR ''b'']
         else if n = 9 then [bs, CHR ''t''] else if n = 10 then [bs, CHR ''n'']
         else if n = 11 then [bs, CHR ''v''] else if n = 12 then [bs, CHR ''f'']
         else if n = 13 then [bs, CHR ''r'']
         else if n < 32 \<or> n = 127 then [bs, CHR ''x'', hex_char (n div 16), hex_char (n mod 16)]
         else [c])"

text \<open>
  A string of \<^verbatim>\<open>encoding/json\<close>, which also escapes the HTML metacharacters.  Exact on ASCII; a byte
  above 127 is kept.
\<close>

definition json_char :: "char \<Rightarrow> string" where
  "json_char c =
     (let n = (of_char c :: nat); bs = char_of (92::nat)
      in if n = 34 then [bs, c] else if n = 92 then [bs, bs]
         else if n = 8 then [bs, CHR ''b''] else if n = 9 then [bs, CHR ''t'']
         else if n = 10 then [bs, CHR ''n''] else if n = 12 then [bs, CHR ''f'']
         else if n = 13 then [bs, CHR ''r'']
         else if n < 32 \<or> n = 60 \<or> n = 62 \<or> n = 38
           then [bs, CHR ''u'', CHR ''0'', CHR ''0'', hex_char (n div 16), hex_char (n mod 16)]
         else [c])"

definition json_string :: "string \<Rightarrow> string" where
  "json_string s = [char_of (34::nat)] @ concat (map json_char s) @ [char_of (34::nat)]"

text \<open>An object with string members.\<close>

fun json_members :: "(string \<times> string) list \<Rightarrow> string" where
  "json_members [] = ''''"
| "json_members [(k, v)] = json_string k @ '':'' @ v"
| "json_members ((k, v) # kv # kvs) = json_string k @ '':'' @ v @ '','' @ json_members (kv # kvs)"

definition json_object :: "(string \<times> string) list \<Rightarrow> string" where
  "json_object kvs = [char_of (123::nat)] @ json_members kvs @ [char_of (125::nat)]"

definition go_quote :: "string \<Rightarrow> string" where
  "go_quote s = [char_of (34::nat)] @ concat (map quote_char s) @ [char_of (34::nat)]"

end
