(* ===== verification/Work_State.thy ===== *)
theory Work_State
  imports Ledger_Prelude
begin

text \<open>
  The vocabulary of the work ledger (\<^verbatim>\<open>internal/work/work.go\<close>): the ten lifecycle states, the
  predicates the capacity queries are derived from, the transition table, classes, sources, the
  sentinel errors, the lease geometry and the retry backoff.  A Go value of the string type
  \<open>State\<close>, \<open>Class\<close> or \<open>Source\<close> that is none of the declared constants is the last constructor of
  its datatype.
\<close>

subsection \<open>States\<close>

datatype State = StateQueued | StateStarting | StateRunning | StateWaiting | StateRetryWait
  | StateSucceeded | StateFailed | StateExpired | StateCancelled | StateNeedsReconciliation
  | StateOther string

fun state_string :: "State \<Rightarrow> string" where
  "state_string StateQueued = ''queued''"
| "state_string StateStarting = ''starting''"
| "state_string StateRunning = ''running''"
| "state_string StateWaiting = ''waiting''"
| "state_string StateRetryWait = ''retry_wait''"
| "state_string StateSucceeded = ''succeeded''"
| "state_string StateFailed = ''failed''"
| "state_string StateExpired = ''expired''"
| "state_string StateCancelled = ''cancelled''"
| "state_string StateNeedsReconciliation = ''needs_reconciliation''"
| "state_string (StateOther s) = s"

definition Terminal :: "State \<Rightarrow> bool" where
  "Terminal s = (case s of StateSucceeded \<Rightarrow> True | StateFailed \<Rightarrow> True | StateExpired \<Rightarrow> True
                 | StateCancelled \<Rightarrow> True | _ \<Rightarrow> False)"

definition HoldsExecutionSlot :: "State \<Rightarrow> bool" where
  "HoldsExecutionSlot s \<longleftrightarrow> s = StateStarting \<or> s = StateRunning \<or> s = StateNeedsReconciliation"

definition OccupiesSession :: "State \<Rightarrow> bool" where
  "OccupiesSession s \<longleftrightarrow> HoldsExecutionSlot s \<or> s = StateWaiting"

definition Live :: "State \<Rightarrow> bool" where
  "Live s \<longleftrightarrow> s = StateStarting \<or> s = StateRunning"

definition allStates :: "State list" where
  "allStates = [StateQueued, StateStarting, StateRunning, StateWaiting, StateRetryWait,
     StateSucceeded, StateFailed, StateExpired, StateCancelled, StateNeedsReconciliation]"

text \<open>
  \<open>stateList\<close> renders an SQL list of quoted state names; \<open>in_state_list\<close> is the membership test
  \<open>state IN (\<dots>)\<close> that list stands for.
\<close>

fun join_comma :: "string list \<Rightarrow> string" where
  "join_comma [] = ''''"
| "join_comma [x] = x"
| "join_comma (x # y # ys) = x @ '','' @ join_comma (y # ys)"

definition sql_quote :: "string \<Rightarrow> string" where
  "sql_quote s = [char_of (39::nat)] @ s @ [char_of (39::nat)]"

definition stateList :: "(State \<Rightarrow> bool) \<Rightarrow> string" where
  "stateList pred = join_comma (map (\<lambda>s. sql_quote (state_string s)) (filter pred allStates))"

definition in_state_list :: "(State \<Rightarrow> bool) \<Rightarrow> State \<Rightarrow> bool" where
  "in_state_list pred s \<longleftrightarrow> s \<in> set (filter pred allStates)"

definition valid_state :: "State \<Rightarrow> bool" where
  "valid_state s = (case s of StateOther _ \<Rightarrow> False | _ \<Rightarrow> True)"

fun allowed :: "State \<Rightarrow> State list" where
  "allowed StateQueued =
     [StateStarting, StateCancelled, StateExpired, StateFailed, StateNeedsReconciliation]"
| "allowed StateStarting =
     [StateRunning, StateRetryWait, StateFailed, StateCancelled, StateNeedsReconciliation,
      StateQueued, StateSucceeded]"
| "allowed StateRunning =
     [StateSucceeded, StateFailed, StateWaiting, StateRetryWait, StateCancelled,
      StateNeedsReconciliation]"
| "allowed StateWaiting =
     [StateRunning, StateQueued, StateFailed, StateCancelled, StateExpired, StateNeedsReconciliation]"
| "allowed StateRetryWait =
     [StateQueued, StateStarting, StateFailed, StateCancelled, StateExpired, StateNeedsReconciliation]"
| "allowed StateNeedsReconciliation =
     [StateQueued, StateSucceeded, StateFailed, StateCancelled]"
| "allowed _ = []"

definition CanTransition :: "State \<Rightarrow> State \<Rightarrow> bool" where
  "CanTransition from to =
     (if from = to then False else list_ex (\<lambda>s. s = to) (allowed from))"

subsection \<open>Classes, sources and kinds\<close>

datatype Class = ClassChat | ClassBackground | ClassOther string

definition valid_class :: "Class \<Rightarrow> bool" where
  "valid_class c \<longleftrightarrow> c = ClassChat \<or> c = ClassBackground"

datatype Source = SourceWebhook | SourceChat | SourceAssignment | SourceSchedule
  | SourcePipelineStep | SourceManual | SourceOther string

record Kind =
  k_Source :: Source
  k_DomainKind :: string

fun source_string :: "Source \<Rightarrow> string" where
  "source_string SourceWebhook = ''webhook''"
| "source_string SourceChat = ''chat''"
| "source_string SourceAssignment = ''assignment''"
| "source_string SourceSchedule = ''schedule''"
| "source_string SourcePipelineStep = ''pipeline_step''"
| "source_string SourceManual = ''manual''"
| "source_string (SourceOther s) = s"

definition Kind_String :: "Kind \<Rightarrow> string" where
  "Kind_String k =
     (if k_DomainKind k = '''' then source_string (k_Source k) @ ''/(no domain)''
      else source_string (k_Source k) @ ''/'' @ k_DomainKind k)"

subsection \<open>Errors\<close>

text \<open>
  The sentinel errors of the package.  Every returned error wraps at most one of them; the
  text wrapped around it is not modelled.  \<open>ErrInvalid\<close> stands for the errors that wrap no
  sentinel, \<open>ErrConstraint\<close> for a violated constraint of the schema.
\<close>

datatype work_error = ErrNotFound | ErrIllegalTransition | ErrStaleGeneration | ErrNotBound
  | ErrTerminal | ErrDuplicateDelivery | ErrDeliveryConflict | ErrNoWork
  | ErrEndpointFull | ErrWorkspaceFull | ErrWorkspaceBytesFull | ErrDiskPressure
  | ErrRunResultUnstored | ErrInvalid | ErrConstraint

subsection \<open>Lease and attempt geometry\<close>

definition HeartbeatInterval :: time where "HeartbeatInterval = 10 * second"
definition LeaseDuration :: time where "LeaseDuration = 60 * second"
definition RecoveryScanMax :: time where "RecoveryScanMax = 5 * second"
definition MaxAttempts :: int where "MaxAttempts = 5"
definition BackoffBase :: time where "BackoffBase = 2 * second"
definition BackoffCap :: time where "BackoffCap = 300 * second"
definition CancelGrace :: time where "CancelGrace = 10 * second"

text \<open>
  The doubling loop of \<open>Backoff\<close>: \<open>i\<close> runs from 1 to \<open>attempt - 1\<close> and the loop breaks at the cap.
  The cap keeps the window below \<open>2 * BackoffCap\<close>, far from the range of a 64-bit duration.
\<close>

function backoff_window :: "int \<Rightarrow> int \<Rightarrow> time \<Rightarrow> time" where
  "backoff_window i attempt window =
     (if i < attempt
      then (if window * 2 \<ge> BackoffCap then BackoffCap
            else backoff_window (i + 1) attempt (window * 2))
      else window)"
  by pat_completeness auto
termination
  by (relation "measure (\<lambda>(i, attempt, window). nat (attempt - i))") auto

declare backoff_window.simps [simp del]

definition Backoff :: "int \<Rightarrow> (int \<Rightarrow> int) \<Rightarrow> time" where
  "Backoff attempt rnd =
     (let attempt = (if attempt < 1 then 1 else attempt);
          window = backoff_window 1 attempt BackoffBase;
          window = (if window > BackoffCap then BackoffCap else window)
      in rnd window)"

subsection \<open>Facts about the state machine\<close>

named_theorems state_simps \<open>the state predicates, unfolded\<close>

lemmas state_defs [state_simps] =
  Terminal_def HoldsExecutionSlot_def OccupiesSession_def Live_def valid_state_def

lemma Terminal_simps [simp]:
  "\<not> Terminal StateQueued" "\<not> Terminal StateStarting" "\<not> Terminal StateRunning"
  "\<not> Terminal StateWaiting" "\<not> Terminal StateRetryWait" "\<not> Terminal StateNeedsReconciliation"
  "\<not> Terminal (StateOther s)" "Terminal StateSucceeded" "Terminal StateFailed"
  "Terminal StateExpired" "Terminal StateCancelled"
  by (simp_all add: Terminal_def)

lemma valid_state_simps [simp]:
  "valid_state StateQueued" "valid_state StateStarting" "valid_state StateRunning"
  "valid_state StateWaiting" "valid_state StateRetryWait" "valid_state StateNeedsReconciliation"
  "valid_state StateSucceeded" "valid_state StateFailed" "valid_state StateExpired"
  "valid_state StateCancelled" "\<not> valid_state (StateOther s)"
  by (simp_all add: valid_state_def)

lemma CanTransition_iff: "CanTransition f t \<longleftrightarrow> t \<in> set (allowed f) \<and> f \<noteq> t"
  by (auto simp: CanTransition_def list_ex_iff)

lemma in_state_list_iff: "in_state_list pred s \<longleftrightarrow> valid_state s \<and> pred s"
  by (cases s) (auto simp: in_state_list_def allStates_def valid_state_def)

lemma in_state_list_Holds [simp]: "in_state_list HoldsExecutionSlot s = HoldsExecutionSlot s"
  by (cases s) (auto simp: in_state_list_iff state_simps)

lemma in_state_list_Occupies [simp]: "in_state_list OccupiesSession s = OccupiesSession s"
  by (cases s) (auto simp: in_state_list_iff state_simps)

lemma in_state_list_Terminal [simp]: "in_state_list Terminal s = Terminal s"
  by (cases s) (auto simp: in_state_list_iff state_simps)

lemma in_state_list_nonterminal:
  "in_state_list (\<lambda>s. \<not> Terminal s) s \<longleftrightarrow> valid_state s \<and> \<not> Terminal s"
  by (simp add: in_state_list_iff)

lemma CanTransition_not_from_terminal: "Terminal f \<Longrightarrow> \<not> CanTransition f t"
  by (cases f) (auto simp: CanTransition_iff Terminal_def)

lemma CanTransition_valid: "CanTransition f t \<Longrightarrow> valid_state f \<and> valid_state t"
  by (cases f) (auto simp: CanTransition_iff valid_state_def)

lemma Holds_Occupies: "HoldsExecutionSlot s \<Longrightarrow> OccupiesSession s"
  by (simp add: OccupiesSession_def)

lemma Occupies_not_Terminal: "OccupiesSession s \<Longrightarrow> \<not> Terminal s"
  by (auto simp: state_simps)

text \<open>The backoff window: \<open>2 s\<close> doubled per attempt, capped at \<open>300 s\<close>.\<close>

lemma backoff_window_bounds:
  "0 < window \<Longrightarrow> window \<le> BackoffCap \<Longrightarrow>
     0 < backoff_window i attempt window \<and> backoff_window i attempt window \<le> BackoffCap"
proof (induction i attempt window rule: backoff_window.induct)
  case (1 i attempt window)
  then show ?case
    by (subst (1 2) backoff_window.simps) (auto simp: BackoffCap_def second_def)
qed

lemma backoff_window_eq:
  "0 < window \<Longrightarrow> window \<le> BackoffCap \<Longrightarrow> i \<le> attempt \<Longrightarrow>
     backoff_window i attempt window = min BackoffCap (window * 2 ^ nat (attempt - i))"
proof (induction i attempt window rule: backoff_window.induct)
  case (1 i attempt window)
  show ?case
  proof (cases "i < attempt")
    case False
    then show ?thesis using "1.prems" by (subst backoff_window.simps) auto
  next
    case True
    then have pow: "nat (attempt - i) = Suc (nat (attempt - (i + 1)))" by simp
    show ?thesis
    proof (cases "window * 2 \<ge> BackoffCap")
      case capped: True
      have "(1::int) \<le> 2 ^ nat (attempt - (i + 1))" by simp
      then have "window * 2 \<le> window * 2 ^ nat (attempt - i)"
        using "1.prems" unfolding pow by simp
      then show ?thesis using True capped by (subst backoff_window.simps) auto
    next
      case False
      then have "backoff_window (i + 1) attempt (window * 2)
                 = min BackoffCap (window * 2 * 2 ^ nat (attempt - (i + 1)))"
        using 1 True by simp
      then show ?thesis using True False unfolding pow
        by (subst backoff_window.simps) (simp add: mult.assoc)
    qed
  qed
qed

end
