(* ===== verification/Work_Store.thy ===== *)
theory Work_Store
  imports Work_State
begin

text \<open>
  The tables of the work ledger and the operations of \<^verbatim>\<open>internal/work/store.go\<close>.  A table is the
  list of its rows in insertion order; the constraints the schema declares
  (\<^verbatim>\<open>internal/database/migrations\<close>: primary keys, unique indexes, foreign keys) are checked by the
  inserts and answered with \<open>ErrConstraint\<close>.  The clock, the jitter and the identifier generator
  the store is built with are arguments of the operations.
\<close>

subsection \<open>Rows\<close>

record Item =
  wi_id :: string
  wi_workspace_id :: string
  wi_source :: Source
  wi_source_ref :: string
  wi_domain_kind :: string
  wi_domain_id :: string
  wi_agent_id :: string
  wi_crew_id :: string
  wi_session_id :: string
  wi_class :: Class
  wi_authorized_by_user_id :: string
  wi_authorized_scope :: string
  wi_input_json :: string
  wi_input_sha256 :: string
  wi_target_revision :: string
  wi_state :: State
  wi_state_reason :: string
  wi_generation :: int
  wi_attempts :: int
  wi_priority :: int
  wi_eligible_at :: time
  wi_deadline_at :: "time option"
  wi_replay_of :: "string option"
  wi_replay_reason :: string
  wi_created_at :: time
  wi_updated_at :: time
  wi_terminal_at :: "time option"

datatype RuntimePhase = runtimePhasePlanned | runtimePhaseStarting | runtimePhaseRequested
  | runtimePhaseConfirmed

fun phase_string :: "RuntimePhase \<Rightarrow> string" where
  "phase_string runtimePhasePlanned = ''planned''"
| "phase_string runtimePhaseStarting = ''starting''"
| "phase_string runtimePhaseRequested = ''requested''"
| "phase_string runtimePhaseConfirmed = ''confirmed''"

text \<open>
  Captured output of a run.  The column \<open>run_result_json\<close> holds its JSON text, here the value the
  text encodes; the metadata, an arbitrary JSON object, is kept as its canonical text.
\<close>

record RunResult =
  rr_CompletedAt :: string
  rr_ExitCode :: "int option"
  rr_ErrorMessage :: "string option"
  rr_Metadata :: string

record Attempt =
  wa_run_id :: string
  wa_work_id :: string
  wa_attempt :: int
  wa_generation :: int
  wa_lease_owner :: string
  wa_lease_expires_at :: time
  wa_heartbeat_at :: time
  wa_runtime_locator :: string
  wa_runtime_phase :: RuntimePhase
  wa_started_at :: time
  wa_start_reason :: string
  wa_ended_at :: "time option"
  wa_end_reason :: string
  wa_exit_evidence :: string
  wa_cost_usd :: float64
  wa_cancel_requested_at :: "time option"
  wa_cancel_requested_by :: string
  wa_cancel_reason :: string
  wa_run_status :: string
  wa_run_result :: "RunResult option"
  wa_run_projected_at :: "time option"
  wa_run_projection_attempted_at :: "time option"

text \<open>An event's \<open>from_state\<close> is the empty string, here \<open>None\<close>, for the acceptance.\<close>

record Event =
  we_work_id :: string
  we_seq :: int
  we_at :: time
  we_from_state :: "State option"
  we_to_state :: State
  we_run_id :: string
  we_generation :: int
  we_reason :: string

datatype FilterDecision = FilterAccepted | FilterIgnored | FilterOther string

record Delivery =
  wd_id :: string
  wd_workspace_id :: string
  wd_endpoint_id :: string
  wd_endpoint_kind :: string
  wd_profile :: string
  wd_source_delivery_id :: string
  wd_content_key :: string
  wd_body_sha256 :: string
  wd_body_bytes :: int
  wd_raw_body :: "string option"
  wd_raw_body_expires_at :: "time option"
  wd_event_type :: string
  wd_event_action :: string
  wd_signing_key_id :: string
  wd_filter_decision :: FilterDecision
  wd_filter_reason :: string
  wd_target_revision :: string
  wd_work_id :: "string option"
  wd_received_at :: time
  wd_dedup_expires_at :: time

text \<open>
  The tables of other subsystems that admission reads: legacy assignments, agents, crews and
  settings.  A column declared without a type can hold any SQL value, which the crew budget
  inspects with \<open>typeof\<close>.
\<close>

record assignment_row =
  as_id :: string
  as_workspace_id :: string
  as_assigned_to_id :: string
  as_session_id :: "string option"
  as_status :: string
  as_task :: string
  as_created_by_user_id :: "string option"
  as_assigned_by_id :: "string option"

record agent_row =
  ag_id :: string
  ag_workspace_id :: string
  ag_crew_id :: "string option"

datatype sql_value = SqlNull | SqlInteger int | SqlOther string

record crew_row =
  cr_id :: string
  cr_max_concurrent_agents :: sql_value
  cr_container_memory_mb :: sql_value

record work_db =
  work_items :: "Item list"
  work_attempts :: "Attempt list"
  work_events :: "Event list"
  webhook_deliveries :: "Delivery list"
  assignments :: "assignment_row list"
  agents :: "agent_row list"
  crews :: "crew_row list"
  app_settings :: "(string \<times> string) list"

subsection \<open>Reading and writing rows\<close>

definition item_row :: "work_db \<Rightarrow> string \<Rightarrow> Item option" where
  "item_row db workID = find (\<lambda>it. wi_id it = workID) (work_items db)"

definition attempt_row :: "work_db \<Rightarrow> string \<Rightarrow> Attempt option" where
  "attempt_row db runID = find (\<lambda>a. wa_run_id a = runID) (work_attempts db)"

definition getItemTx :: "work_db \<Rightarrow> string \<Rightarrow> work_error + Item" where
  "getItemTx db workID = (case item_row db workID of None \<Rightarrow> Inl ErrNotFound | Some it \<Rightarrow> Inr it)"

text \<open>\<open>COALESCE(MAX(seq), 0) + 1\<close> over the rows of one work item.\<close>

definition next_number :: "int list \<Rightarrow> int" where
  "next_number ns = (if ns = [] then 0 else Max (set ns)) + 1"

definition next_event_seq :: "work_db \<Rightarrow> string \<Rightarrow> int" where
  "next_event_seq db workID =
     next_number (map we_seq (filter (\<lambda>e. we_work_id e = workID) (work_events db)))"

definition appendEventTx :: "string \<Rightarrow> State option \<Rightarrow> State \<Rightarrow> string \<Rightarrow> int \<Rightarrow> string \<Rightarrow> time
    \<Rightarrow> work_db \<Rightarrow> work_db" where
  "appendEventTx workID from to runID generation reason at db =
     db\<lparr>work_events := work_events db @
          [\<lparr>we_work_id = workID, we_seq = next_event_seq db workID, we_at = at, we_from_state = from,
            we_to_state = to, we_run_id = runID, we_generation = generation, we_reason = reason\<rparr>]\<rparr>"

definition upd_items :: "(Item \<Rightarrow> bool) \<Rightarrow> (Item \<Rightarrow> Item) \<Rightarrow> work_db \<Rightarrow> work_db" where
  "upd_items P f db = db\<lparr>work_items := upd_where P f (work_items db)\<rparr>"

definition upd_attempts :: "(Attempt \<Rightarrow> bool) \<Rightarrow> (Attempt \<Rightarrow> Attempt) \<Rightarrow> work_db \<Rightarrow> work_db" where
  "upd_attempts P f db = db\<lparr>work_attempts := upd_where P f (work_attempts db)\<rparr>"

text \<open>
  \<open>setStateTx\<close> writes a state and its event together; \<open>terminal_at\<close> is set on reaching a
  terminal state and otherwise kept.
\<close>

definition setStateTx :: "Item \<Rightarrow> State \<Rightarrow> string \<Rightarrow> int \<Rightarrow> string \<Rightarrow> time \<Rightarrow> work_db \<Rightarrow> work_db" where
  "setStateTx it to runID generation reason now db =
     appendEventTx (wi_id it) (Some (wi_state it)) to runID generation reason now
       (upd_items (\<lambda>r. wi_id r = wi_id it)
          (\<lambda>r. r\<lparr>wi_state := to, wi_state_reason := reason, wi_updated_at := now,
                 wi_terminal_at := (if Terminal to then Some now else wi_terminal_at r)\<rparr>) db)"

subsection \<open>Acceptance\<close>

record AcceptRequest =
  ar_WorkspaceID :: string
  ar_Source :: Source
  ar_SourceRef :: string
  ar_DomainKind :: string
  ar_DomainID :: string
  ar_AgentID :: string
  ar_CrewID :: string
  ar_SessionID :: string
  ar_Class :: Class
  ar_AuthorizedByUserID :: string
  ar_AuthorizedScope :: string
  ar_InputJSON :: string
  ar_InputSHA256 :: string
  ar_TargetRevision :: string
  ar_Priority :: int
  ar_EligibleAt :: "time option"
  ar_DeadlineAt :: "time option"
  ar_ReplayOf :: string
  ar_ReplayReason :: string

definition validate_accept :: "AcceptRequest \<Rightarrow> bool" where
  "validate_accept r =
     (if blank (ar_WorkspaceID r) then False
      else if source_string (ar_Source r) = '''' then False
      else if \<not> valid_class (ar_Class r) then False
      else if ar_ReplayReason r \<noteq> '''' \<and> ar_ReplayOf r = '''' then False
      else True)"

record Receipt =
  rc_WorkID :: string
  rc_DeliveryID :: string
  rc_State :: "State option"
  rc_Duplicate :: bool

definition defaultJSON :: "string \<Rightarrow> string" where
  "defaultJSON s = (if blank s then ''{}'' else s)"

text \<open>
  The unique indexes over \<open>work_items\<close> beside the primary key: one automatic schedule occurrence,
  one owner per assignment, one owner per restricted workflow.
\<close>

definition schedule_indexed :: "Item \<Rightarrow> bool" where
  "schedule_indexed r \<longleftrightarrow> wi_source r = SourceSchedule \<and> wi_domain_kind r = ''agent_run''
     \<and> wi_source_ref r \<noteq> '''' \<and> wi_replay_of r = None"

definition assignment_indexed :: "Item \<Rightarrow> bool" where
  "assignment_indexed r \<longleftrightarrow> wi_source r = SourceAssignment \<and> wi_domain_kind r = ''assignment''
     \<and> wi_replay_of r = None"

definition item_conflict :: "Item \<Rightarrow> Item \<Rightarrow> bool" where
  "item_conflict r s \<longleftrightarrow>
     wi_id r = wi_id s
   \<or> (schedule_indexed r \<and> schedule_indexed s \<and> wi_workspace_id r = wi_workspace_id s
        \<and> wi_agent_id r = wi_agent_id s \<and> wi_source_ref r = wi_source_ref s)
   \<or> (assignment_indexed r \<and> assignment_indexed s \<and> wi_workspace_id r = wi_workspace_id s
        \<and> wi_domain_id r = wi_domain_id s)
   \<or> (wi_domain_kind r = ''restricted_workflow'' \<and> wi_domain_kind s = ''restricted_workflow''
        \<and> wi_domain_id r = wi_domain_id s)"

definition insert_item :: "Item \<Rightarrow> work_db \<Rightarrow> work_error + work_db" where
  "insert_item r db =
     (if list_ex (item_conflict r) (work_items db) then Inl ErrConstraint
      else if (case wi_replay_of r of None \<Rightarrow> False | Some w \<Rightarrow> w \<noteq> wi_id r \<and> item_row db w = None)
        then Inl ErrConstraint
      else Inr (db\<lparr>work_items := work_items db @ [r]\<rparr>))"

definition accepted_item :: "time \<Rightarrow> string \<Rightarrow> AcceptRequest \<Rightarrow> Item" where
  "accepted_item now newid req =
     \<lparr>wi_id = newid, wi_workspace_id = ar_WorkspaceID req, wi_source = ar_Source req,
      wi_source_ref = ar_SourceRef req, wi_domain_kind = ar_DomainKind req,
      wi_domain_id = ar_DomainID req, wi_agent_id = ar_AgentID req, wi_crew_id = ar_CrewID req,
      wi_session_id = ar_SessionID req, wi_class = ar_Class req,
      wi_authorized_by_user_id = ar_AuthorizedByUserID req,
      wi_authorized_scope = ar_AuthorizedScope req, wi_input_json = defaultJSON (ar_InputJSON req),
      wi_input_sha256 = ar_InputSHA256 req, wi_target_revision = ar_TargetRevision req,
      wi_state = StateQueued, wi_state_reason = '''', wi_generation = 0, wi_attempts = 0,
      wi_priority = ar_Priority req,
      wi_eligible_at = (case ar_EligibleAt req of None \<Rightarrow> now | Some t \<Rightarrow> t),
      wi_deadline_at = ar_DeadlineAt req,
      wi_replay_of = (if ar_ReplayOf req \<noteq> '''' then Some (ar_ReplayOf req) else None),
      wi_replay_reason = ar_ReplayReason req, wi_created_at = now, wi_updated_at = now,
      wi_terminal_at = None\<rparr>"

definition AcceptTx :: "time \<Rightarrow> string \<Rightarrow> AcceptRequest \<Rightarrow> work_db \<Rightarrow> work_error + (Receipt \<times> work_db)" where
  "AcceptTx now newid req db =
     (if \<not> validate_accept req then Inl ErrInvalid
      else case insert_item (accepted_item now newid req) db of
             Inl e \<Rightarrow> Inl e
           | Inr db1 \<Rightarrow>
               Inr (\<lparr>rc_WorkID = newid, rc_DeliveryID = '''', rc_State = Some StateQueued,
                     rc_Duplicate = False\<rparr>,
                    appendEventTx newid None StateQueued '''' 0 ''accepted'' now db1))"

definition Get :: "work_db \<Rightarrow> string \<Rightarrow> work_error + Item" where
  "Get db workID = (case item_row db workID of None \<Rightarrow> Inl ErrNotFound | Some it \<Rightarrow> Inr it)"

text \<open>\<open>History\<close>: a work item's events in sequence order.\<close>

definition History :: "work_db \<Rightarrow> string \<Rightarrow> Event list" where
  "History db workID = sort_key we_seq (filter (\<lambda>e. we_work_id e = workID) (work_events db))"

subsection \<open>Identifiers\<close>

text \<open>
  \<open>newID\<close>: the letter c, the milliseconds in base 36, four hexadecimal digits of a counter and
  eight of random bytes.  The clock, the counter and the random bytes (or \<open>None\<close> when the random
  source fails) are arguments.
\<close>

fun base36 :: "nat \<Rightarrow> string" where
  "base36 n = (if n < 36 then [hex_char n] else base36 (n div 36) @ [hex_char (n mod 36)])"

declare base36.simps [simp del]

definition hex_byte :: "nat \<Rightarrow> string" where
  "hex_byte b = [hex_char (b div 16 mod 16), hex_char (b mod 16)]"

definition newID :: "nat \<Rightarrow> 64 word \<Rightarrow> nat list option \<Rightarrow> string" where
  "newID ts c rand =
     (let b = (case rand of
                 Some bs \<Rightarrow> bs
               | None \<Rightarrow> [unat (drop_bit 24 c) mod 256, unat (drop_bit 16 c) mod 256,
                          ts div 256 mod 256, ts mod 256]);
          tail = unat c mod 65536
      in ''c'' @ base36 ts
         @ [hex_char (tail div 4096 mod 16), hex_char (tail div 256 mod 16),
            hex_char (tail div 16 mod 16), hex_char (tail mod 16)]
         @ concat (map hex_byte b))"

subsection \<open>Facts about rows\<close>

interpretation items: keyed_rows wi_id .
interpretation attempts: keyed_rows wa_run_id .
interpretation deliveries: keyed_rows wd_id .

lemma upd_items_sel [row_simps]:
  "work_items (upd_items P f db) = upd_where P f (work_items db)"
  "work_attempts (upd_items P f db) = work_attempts db"
  "work_events (upd_items P f db) = work_events db"
  "webhook_deliveries (upd_items P f db) = webhook_deliveries db"
  "assignments (upd_items P f db) = assignments db"
  "agents (upd_items P f db) = agents db"
  "crews (upd_items P f db) = crews db"
  "app_settings (upd_items P f db) = app_settings db"
  by (simp_all add: upd_items_def)

lemma upd_attempts_sel [row_simps]:
  "work_attempts (upd_attempts P f db) = upd_where P f (work_attempts db)"
  "work_items (upd_attempts P f db) = work_items db"
  "work_events (upd_attempts P f db) = work_events db"
  "webhook_deliveries (upd_attempts P f db) = webhook_deliveries db"
  "assignments (upd_attempts P f db) = assignments db"
  "agents (upd_attempts P f db) = agents db"
  "crews (upd_attempts P f db) = crews db"
  "app_settings (upd_attempts P f db) = app_settings db"
  by (simp_all add: upd_attempts_def)

lemma appendEventTx_sel [row_simps]:
  "work_items (appendEventTx w f t r g s at db) = work_items db"
  "work_attempts (appendEventTx w f t r g s at db) = work_attempts db"
  "webhook_deliveries (appendEventTx w f t r g s at db) = webhook_deliveries db"
  "assignments (appendEventTx w f t r g s at db) = assignments db"
  "agents (appendEventTx w f t r g s at db) = agents db"
  "crews (appendEventTx w f t r g s at db) = crews db"
  "app_settings (appendEventTx w f t r g s at db) = app_settings db"
  by (simp_all add: appendEventTx_def)

lemma setStateTx_sel [row_simps]:
  "work_attempts (setStateTx it to r g s now db) = work_attempts db"
  "webhook_deliveries (setStateTx it to r g s now db) = webhook_deliveries db"
  "assignments (setStateTx it to r g s now db) = assignments db"
  "agents (setStateTx it to r g s now db) = agents db"
  "crews (setStateTx it to r g s now db) = crews db"
  "app_settings (setStateTx it to r g s now db) = app_settings db"
  by (simp_all add: setStateTx_def row_simps)

lemma getItemTx_Inr: "getItemTx db w = Inr it \<longleftrightarrow> item_row db w = Some it"
  by (auto simp: getItemTx_def split: option.splits)

lemma item_row_Some: "item_row db w = Some it \<Longrightarrow> it \<in> set (work_items db) \<and> wi_id it = w"
  by (auto simp: item_row_def dest: items.find_key_Some)

lemma attempt_row_Some: "attempt_row db r = Some a \<Longrightarrow> a \<in> set (work_attempts db) \<and> wa_run_id a = r"
  by (auto simp: attempt_row_def dest: attempts.find_key_Some)

end
