(* ===== verification/Work_Claim.thy ===== *)
theory Work_Claim
  imports Work_Store "HOL-Library.Char_ord" "HOL-Library.List_Lexorder" "HOL-Library.Product_Lexorder"
begin

text \<open>
  Claiming (\<^verbatim>\<open>internal/work/claim.go\<close>, \<^verbatim>\<open>claim_legacy.go\<close>): the live slots that admission counts,
  the crew budget, the server, session, agent and crew limits in the two forms the code has them
  (the SQL of the candidate scan and the Go re-check \<open>admitsTx\<close>), the candidate order, the attempt
  start that bumps the generation, and \<open>Claim\<close> itself as one transaction.
\<close>

subsection \<open>Limits and options\<close>

record Limits =
  ServerTotal :: int
  ServerBackground :: int
  ServerChatReserv :: int
  AgentTotal :: int
  AgentChat :: int
  AgentBackground :: int

definition DefaultLimits :: Limits where
  "DefaultLimits = \<lparr>ServerTotal = 8, ServerBackground = 6, ServerChatReserv = 2,
                    AgentTotal = 2, AgentChat = 1, AgentBackground = 1\<rparr>"

definition SerialAgentLimits :: Limits where
  "SerialAgentLimits = DefaultLimits\<lparr>AgentTotal := 1, AgentChat := 1, AgentBackground := 1\<rparr>"

definition ZeroLimits :: Limits where
  "ZeroLimits = \<lparr>ServerTotal = 0, ServerBackground = 0, ServerChatReserv = 0,
                 AgentTotal = 0, AgentChat = 0, AgentBackground = 0\<rparr>"

definition AgingThreshold :: time where "AgingThreshold = 60 * second"

record ClaimOptions =
  co_LeaseOwner :: string
  co_Limits :: Limits
  co_Class :: Class
  co_AgentID :: string
  co_Kinds :: "Kind list"
  co_WorkID :: string

record Claimed =
  cl_Item :: Item
  cl_RunID :: string
  cl_Attempt :: int
  cl_Generation :: int
  cl_LeaseUntil :: "time option"

subsection \<open>Live slots and the crew budget\<close>

record slot =
  sl_workspace_id :: string
  sl_agent_id :: string
  sl_crew_id :: string
  sl_session_id :: string
  sl_class :: Class

definition item_slot :: "Item \<Rightarrow> slot" where
  "item_slot w = \<lparr>sl_workspace_id = wi_workspace_id w, sl_agent_id = wi_agent_id w,
                  sl_crew_id = wi_crew_id w, sl_session_id = wi_session_id w, sl_class = wi_class w\<rparr>"

definition coalesce :: "string option \<Rightarrow> string" where
  "coalesce x = (case x of None \<Rightarrow> '''' | Some s \<Rightarrow> s)"

definition owned_assignment :: "work_db \<Rightarrow> assignment_row \<Rightarrow> bool" where
  "owned_assignment db a \<longleftrightarrow>
     (\<exists>w \<in> set (work_items db). wi_workspace_id w = as_workspace_id a \<and> wi_source w = SourceAssignment
        \<and> wi_domain_kind w = ''assignment'' \<and> wi_domain_id w = as_id a
        \<and> (in_state_list HoldsExecutionSlot (wi_state w) \<or> in_state_list Terminal (wi_state w)))"

definition legacy_slots :: "work_db \<Rightarrow> slot list" where
  "legacy_slots db =
     concat (map (\<lambda>a. map (\<lambda>g. \<lparr>sl_workspace_id = as_workspace_id a, sl_agent_id = as_assigned_to_id a,
                              sl_crew_id = coalesce (ag_crew_id g),
                              sl_session_id = coalesce (as_session_id a), sl_class = ClassBackground\<rparr>)
                 (filter (\<lambda>g. ag_id g = as_assigned_to_id a \<and> ag_workspace_id g = as_workspace_id a)
                         (agents db)))
        (filter (\<lambda>a. as_status a = ''RUNNING'' \<and> \<not> owned_assignment db a) (assignments db)))"

definition live_slots :: "work_db \<Rightarrow> slot list" where
  "live_slots db =
     map item_slot (filter (\<lambda>w. in_state_list HoldsExecutionSlot (wi_state w)) (work_items db))
     @ legacy_slots db"

definition crewMinMemory :: "work_db \<Rightarrow> int" where
  "crewMinMemory db =
     (let raw = coalesce (map_of (app_settings db) ''runtime.agent_min_memory_mb'')
      in case go_atoi raw of
           Some n \<Rightarrow> if 6 \<le> n \<and> n \<le> 262144 then n else 2048
         | None \<Rightarrow> 2048)"

definition crewBudget :: "work_db \<Rightarrow> string \<Rightarrow> int" where
  "crewBudget db crewID =
     (case find (\<lambda>c. cr_id c = crewID) (crews db) of
        None \<Rightarrow> 1
      | Some c \<Rightarrow>
          (case cr_max_concurrent_agents c of
             SqlInteger n \<Rightarrow> if n > 0 then n else 0
           | SqlOther _ \<Rightarrow> 0
           | SqlNull \<Rightarrow>
               (case cr_container_memory_mb c of
                  SqlNull \<Rightarrow> 1
                | SqlOther _ \<Rightarrow> 0
                | SqlInteger mb \<Rightarrow> max 1 (go_div mb (crewMinMemory db)))))"

record liveCounts =
  lc_total :: int
  lc_chat :: int
  lc_background :: int

definition slot_count :: "(slot \<Rightarrow> bool) \<Rightarrow> work_db \<Rightarrow> int" where
  "slot_count P db = int (count_where P (live_slots db))"

definition countLiveTx :: "work_db \<Rightarrow> liveCounts" where
  "countLiveTx db = \<lparr>lc_total = slot_count (\<lambda>_. True) db,
                     lc_chat = slot_count (\<lambda>s. sl_class s = ClassChat) db,
                     lc_background = slot_count (\<lambda>s. sl_class s = ClassBackground) db\<rparr>"

definition admissibleClasses :: "liveCounts \<Rightarrow> Limits \<Rightarrow> Class \<Rightarrow> Class list option" where
  "admissibleClasses c lim only =
     (if lc_total c \<ge> ServerTotal lim then None
      else let out = (if only = ClassOther '''' \<or> only = ClassChat then [ClassChat] else [])
                   @ (if (only = ClassOther '''' \<or> only = ClassBackground)
                         \<and> lc_background c < ServerBackground lim
                         \<and> lc_total c + 1 \<le> ServerTotal lim - ServerChatReserv lim + lc_chat c
                      then [ClassBackground] else [])
           in if out = [] then None else Some out)"

subsection \<open>The candidate scan\<close>

definition candidateBatch :: nat where "candidateBatch = 50"

definition claimable_state :: "State \<Rightarrow> bool" where
  "claimable_state s \<longleftrightarrow> s = StateQueued \<or> s = StateRetryWait"

definition session_free :: "work_db \<Rightarrow> string \<Rightarrow> bool" where
  "session_free db session \<longleftrightarrow>
     \<not> (\<exists>s \<in> set (work_items db). wi_session_id s = session \<and> in_state_list OccupiesSession (wi_state s))
   \<and> \<not> (\<exists>l \<in> set (live_slots db). sl_session_id l = session)"

definition candidate :: "work_db \<Rightarrow> ClaimOptions \<Rightarrow> Class list \<Rightarrow> time \<Rightarrow> Item \<Rightarrow> bool" where
  "candidate db opts classes now w \<longleftrightarrow>
     claimable_state (wi_state w) \<and> wi_eligible_at w \<le> now
   \<and> wi_class w \<in> set classes
   \<and> (co_AgentID opts \<noteq> '''' \<longrightarrow> wi_agent_id w = co_AgentID opts)
   \<and> (co_WorkID opts \<noteq> '''' \<longrightarrow> wi_id w = co_WorkID opts)
   \<and> (co_Kinds opts \<noteq> [] \<longrightarrow>
        list_ex (\<lambda>k. wi_source w = k_Source k \<and> wi_domain_kind w = k_DomainKind k) (co_Kinds opts))
   \<and> (wi_session_id w = '''' \<or> session_free db (wi_session_id w))
   \<and> (wi_agent_id w = ''''
        \<or> slot_count (\<lambda>a. sl_agent_id a = wi_agent_id w) db < AgentTotal (co_Limits opts))
   \<and> (wi_agent_id w = ''''
        \<or> slot_count (\<lambda>a. sl_agent_id a = wi_agent_id w \<and> sl_class a = wi_class w) db
          < (if wi_class w = ClassChat then AgentChat (co_Limits opts)
             else AgentBackground (co_Limits opts)))
   \<and> (wi_crew_id w = ''''
        \<or> slot_count (\<lambda>c. sl_crew_id c = wi_crew_id w) db < crewBudget db (wi_crew_id w))"

text \<open>
  The \<open>ORDER BY\<close>: priority descending, then aged work first, then the workspace and the agent with
  the fewest live slots, then eligibility, acceptance and identifier.
\<close>

definition claim_order :: "work_db \<Rightarrow> time \<Rightarrow> Item \<Rightarrow> int \<times> int \<times> int \<times> int \<times> time \<times> time \<times> string" where
  "claim_order db now w =
     (- wi_priority w,
      if wi_eligible_at w \<le> now - AgingThreshold then 0 else 1,
      slot_count (\<lambda>s. sl_workspace_id s = wi_workspace_id w) db,
      slot_count (\<lambda>s. sl_agent_id s = wi_agent_id w) db,
      wi_eligible_at w, wi_created_at w, wi_id w)"

definition scanCandidatesTx :: "ClaimOptions \<Rightarrow> Class list \<Rightarrow> time \<Rightarrow> work_db \<Rightarrow> Item list" where
  "scanCandidatesTx opts classes now db =
     take candidateBatch
       (sort_key (claim_order db now) (filter (candidate db opts classes now) (work_items db)))"

text \<open>The Go re-check of one candidate.\<close>

definition admitsTx :: "work_db \<Rightarrow> Item \<Rightarrow> Limits \<Rightarrow> liveCounts \<Rightarrow> bool" where
  "admitsTx db it lim live =
     (if lc_total live \<ge> ServerTotal lim then False
      else if wi_class it = ClassBackground \<and> lc_background live \<ge> ServerBackground lim then False
      else if wi_class it = ClassBackground
              \<and> lc_total live + 1 > ServerTotal lim - ServerChatReserv lim + lc_chat live then False
      else if wi_session_id it \<noteq> ''''
              \<and> count_where (\<lambda>s. wi_session_id s = wi_session_id it
                               \<and> in_state_list OccupiesSession (wi_state s)) (work_items db)
                + count_where (\<lambda>l. sl_session_id l = wi_session_id it) (live_slots db) > 0 then False
      else if wi_agent_id it \<noteq> ''''
              \<and> slot_count (\<lambda>a. sl_agent_id a = wi_agent_id it) db \<ge> AgentTotal lim then False
      else if wi_agent_id it \<noteq> '''' \<and> wi_class it = ClassChat
              \<and> slot_count (\<lambda>a. sl_agent_id a = wi_agent_id it \<and> sl_class a = ClassChat) db
                \<ge> AgentChat lim then False
      else if wi_agent_id it \<noteq> '''' \<and> wi_class it = ClassBackground
              \<and> slot_count (\<lambda>a. sl_agent_id a = wi_agent_id it \<and> sl_class a = ClassBackground) db
                \<ge> AgentBackground lim then False
      else if wi_crew_id it \<noteq> ''''
              \<and> \<not> slot_count (\<lambda>c. sl_crew_id c = wi_crew_id it) db < crewBudget db (wi_crew_id it)
        then False
      else True)"

subsection \<open>Starting an attempt\<close>

definition new_attempt :: "string \<Rightarrow> string \<Rightarrow> int \<Rightarrow> int \<Rightarrow> string \<Rightarrow> time \<Rightarrow> Attempt" where
  "new_attempt runID workID seq generation owner now =
     \<lparr>wa_run_id = runID, wa_work_id = workID, wa_attempt = seq, wa_generation = generation,
      wa_lease_owner = owner, wa_lease_expires_at = now + LeaseDuration, wa_heartbeat_at = now,
      wa_runtime_locator = '''', wa_runtime_phase = runtimePhasePlanned, wa_started_at = now,
      wa_start_reason = ''claimed'', wa_ended_at = None, wa_end_reason = '''', wa_exit_evidence = '''',
      wa_cost_usd = 0, wa_cancel_requested_at = None, wa_cancel_requested_by = '''',
      wa_cancel_reason = '''', wa_run_status = '''', wa_run_result = None, wa_run_projected_at = None,
      wa_run_projection_attempted_at = None\<rparr>"

definition attempt_conflict :: "Attempt \<Rightarrow> Attempt \<Rightarrow> bool" where
  "attempt_conflict a b \<longleftrightarrow> wa_run_id a = wa_run_id b
     \<or> (wa_work_id a = wa_work_id b \<and> wa_attempt a = wa_attempt b)"

definition insert_attempt :: "Attempt \<Rightarrow> work_db \<Rightarrow> work_error + work_db" where
  "insert_attempt a db =
     (if list_ex (attempt_conflict a) (work_attempts db) \<or> item_row db (wa_work_id a) = None
      then Inl ErrConstraint
      else Inr (db\<lparr>work_attempts := work_attempts db @ [a]\<rparr>))"

definition next_attempt_seq :: "work_db \<Rightarrow> string \<Rightarrow> int" where
  "next_attempt_seq db workID =
     next_number (map wa_attempt (filter (\<lambda>a. wa_work_id a = workID) (work_attempts db)))"

text \<open>
  \<open>Inr (None, db)\<close> is the internal result \<open>errAttemptsExhausted\<close>: the item was failed inside the
  transaction and the scan goes on with \<open>db\<close>.  An empty \<open>runID\<close> takes the fresh identifier.
\<close>

definition startAttemptWithRunIDTx :: "Item \<Rightarrow> string \<Rightarrow> time \<Rightarrow> string \<Rightarrow> string \<Rightarrow> work_db
    \<Rightarrow> work_error + (Claimed option \<times> work_db)" where
  "startAttemptWithRunIDTx it owner now newid runID db =
     (let spent = wi_attempts it + 1
      in if spent > MaxAttempts
         then Inr (None, setStateTx it StateFailed '''' (wi_generation it) ''max attempts exhausted'' now db)
         else
           let seq = next_attempt_seq db (wi_id it);
               generation = wi_generation it + 1;
               runID = (if runID = '''' then newid else runID);
               taken = (\<lambda>r. wi_id r = wi_id it \<and> wi_generation r = wi_generation it
                            \<and> claimable_state (wi_state r));
               db1 = upd_items taken
                       (\<lambda>r. r\<lparr>wi_state := StateStarting, wi_state_reason := '''',
                              wi_generation := generation, wi_attempts := spent,
                              wi_updated_at := now\<rparr>) db
           in if count_where taken (work_items db) \<noteq> 1 then Inl ErrNoWork
              else case insert_attempt (new_attempt runID (wi_id it) seq generation owner now) db1 of
                     Inl e \<Rightarrow> Inl e
                   | Inr db2 \<Rightarrow>
                       Inr (Some \<lparr>cl_Item = it\<lparr>wi_state := StateStarting, wi_generation := generation,
                                               wi_attempts := spent\<rparr>,
                                  cl_RunID = runID, cl_Attempt = seq, cl_Generation = generation,
                                  cl_LeaseUntil = Some (now + LeaseDuration)\<rparr>,
                            appendEventTx (wi_id it) (Some (wi_state it)) StateStarting runID generation
                              ''claimed'' now db2))"

definition startAttemptTx :: "Item \<Rightarrow> string \<Rightarrow> time \<Rightarrow> string \<Rightarrow> work_db
    \<Rightarrow> work_error + (Claimed option \<times> work_db)" where
  "startAttemptTx it owner now newid db = startAttemptWithRunIDTx it owner now newid '''' db"

definition overdue :: "time \<Rightarrow> Item \<Rightarrow> bool" where
  "overdue now w \<longleftrightarrow> (case wi_deadline_at w of None \<Rightarrow> False | Some d \<Rightarrow> d \<le> now)
     \<and> claimable_state (wi_state w)"

fun expire_all :: "time \<Rightarrow> Item list \<Rightarrow> work_db \<Rightarrow> work_db" where
  "expire_all now [] db = db"
| "expire_all now (it # its) db =
     expire_all now its
       (setStateTx it StateExpired '''' (wi_generation it) ''deadline passed before start'' now db)"

definition expireOverdueTx :: "time \<Rightarrow> work_db \<Rightarrow> work_db" where
  "expireOverdueTx now db = expire_all now (filter (overdue now) (work_items db)) db"

subsection \<open>Claim\<close>

definition claim_pending :: "time \<Rightarrow> work_db \<Rightarrow> bool" where
  "claim_pending hint db \<longleftrightarrow>
     list_ex (\<lambda>w. claimable_state (wi_state w) \<and> valid_class (wi_class w) \<and> wi_eligible_at w \<le> hint)
       (work_items db)
   \<or> list_ex (\<lambda>w. claimable_state (wi_state w)
                 \<and> (case wi_deadline_at w of None \<Rightarrow> False | Some d \<Rightarrow> d \<le> hint)) (work_items db)"

fun claim_loop :: "Limits \<Rightarrow> liveCounts \<Rightarrow> string \<Rightarrow> time \<Rightarrow> string \<Rightarrow> Item list \<Rightarrow> work_db
    \<Rightarrow> work_error + (Claimed option \<times> work_db)" where
  "claim_loop lim live owner now newid [] db = Inr (None, db)"
| "claim_loop lim live owner now newid (it # its) db =
     (if \<not> admitsTx db it lim live then claim_loop lim live owner now newid its db
      else case startAttemptTx it owner now newid db of
             Inl e \<Rightarrow> Inl e
           | Inr (None, db') \<Rightarrow> claim_loop lim live owner now newid its db'
           | Inr (Some c, db') \<Rightarrow> Inr (Some c, db'))"

definition claimTx :: "time \<Rightarrow> string \<Rightarrow> ClaimOptions \<Rightarrow> work_db
    \<Rightarrow> work_error + (Claimed option \<times> work_db)" where
  "claimTx now newid opts db =
     (let db1 = expireOverdueTx now db; live = countLiveTx db1
      in case admissibleClasses live (co_Limits opts) (co_Class opts) of
           None \<Rightarrow> Inr (None, db1)
         | Some classes \<Rightarrow>
             claim_loop (co_Limits opts) live (co_LeaseOwner opts) now newid
               (scanCandidatesTx opts classes now db1) db1)"

definition Claim :: "time \<Rightarrow> time \<Rightarrow> string \<Rightarrow> ClaimOptions \<Rightarrow> work_db
    \<Rightarrow> (work_error + Claimed) \<times> work_db" where
  "Claim hint now newid opts db =
     (if co_LeaseOwner opts = '''' then (Inl ErrInvalid, db)
      else
        let opts = (if co_Limits opts = ZeroLimits then opts\<lparr>co_Limits := DefaultLimits\<rparr> else opts)
        in if \<not> claim_pending hint db then (Inl ErrNoWork, db)
           else case in_tx db (claimTx now newid opts db) of
                  (Inl e, db') \<Rightarrow> (Inl e, db')
                | (Inr None, db') \<Rightarrow> (Inl ErrNoWork, db')
                | (Inr (Some c), db') \<Rightarrow> (Inr c, db'))"

end
