(* ===== verification/Work_Transition.thy ===== *)
theory Work_Transition
  imports Work_Claim
begin

text \<open>
  The fenced operations of the ledger (\<^verbatim>\<open>internal/work/transition.go\<close>): the binding check that
  proves a caller is the live attempt, the worker operations behind it (\<open>Transition\<close>,
  \<open>MarkStarting\<close>, \<open>MarkRuntimeRequested\<close>, \<open>StartRunning\<close>, \<open>Heartbeat\<close>, \<open>Defer\<close>), lease recovery,
  cancellation and the administrative \<open>Resolve\<close>.  Every operation is one transaction: its body
  fails and the database is unchanged, or it commits.
\<close>

subsection \<open>The fence\<close>

definition verifyAttemptBindingTx :: "work_db \<Rightarrow> string \<Rightarrow> string \<Rightarrow> int \<Rightarrow> int \<Rightarrow> work_error + unit" where
  "verifyAttemptBindingTx db workID runID reqGeneration itemGeneration =
     (if reqGeneration \<noteq> itemGeneration then Inl ErrStaleGeneration
      else case attempt_row db runID of
             None \<Rightarrow> Inl ErrNotBound
           | Some a \<Rightarrow>
               if wa_work_id a \<noteq> workID then Inl ErrNotBound
               else if wa_generation a \<noteq> reqGeneration then Inl ErrStaleGeneration
               else if wa_ended_at a \<noteq> None then Inl ErrStaleGeneration
               else Inr ())"

text \<open>The rows \<open>WHERE run_id = ? AND work_id = ? AND generation = ? AND ended_at IS NULL\<close>.\<close>

definition bound_row :: "string \<Rightarrow> string \<Rightarrow> int \<Rightarrow> Attempt \<Rightarrow> bool" where
  "bound_row workID runID generation a \<longleftrightarrow>
     wa_run_id a = runID \<and> wa_work_id a = workID \<and> wa_generation a = generation
     \<and> wa_ended_at a = None"

fun runStatusForState :: "State \<Rightarrow> string" where
  "runStatusForState StateSucceeded = ''COMPLETED''"
| "runStatusForState StateCancelled = ''CANCELLED''"
| "runStatusForState StateFailed = ''FAILED''"
| "runStatusForState StateRetryWait = ''FAILED''"
| "runStatusForState StateQueued = ''FAILED''"
| "runStatusForState _ = ''''"

subsection \<open>Worker operations\<close>

record TransitionRequest =
  tr_WorkID :: string
  tr_RunID :: string
  tr_Generation :: int
  tr_To :: State
  tr_Reason :: string
  tr_ExitEvidence :: string
  tr_CostUSD :: float64
  tr_StoppedRunFailed :: bool

definition closes_attempt :: "State \<Rightarrow> bool" where
  "closes_attempt to \<longleftrightarrow> Terminal to \<or> to = StateRetryWait \<or> to = StateQueued
     \<or> to = StateNeedsReconciliation"

definition transitionTx :: "time \<Rightarrow> (int \<Rightarrow> int) \<Rightarrow> TransitionRequest \<Rightarrow> work_db
    \<Rightarrow> work_error + (unit \<times> work_db)" where
  "transitionTx now rnd req db =
     (case getItemTx db (tr_WorkID req) of
        Inl e \<Rightarrow> Inl e
      | Inr it \<Rightarrow>
          if Terminal (wi_state it) then Inl ErrTerminal
          else case verifyAttemptBindingTx db (tr_WorkID req) (tr_RunID req) (tr_Generation req)
                      (wi_generation it) of
            Inl e \<Rightarrow> Inl e
          | Inr _ \<Rightarrow>
              if \<not> CanTransition (wi_state it) (tr_To req) then Inl ErrIllegalTransition
              else if tr_StoppedRunFailed req \<and> tr_To req \<noteq> StateNeedsReconciliation
                then Inl ErrIllegalTransition
              else
                let spent = tr_To req = StateRetryWait \<and> wi_attempts it \<ge> MaxAttempts;
                    to = (if spent then StateFailed else tr_To req);
                    reason = (if spent then tr_Reason req @ '' (no attempts left after ''
                                @ go_itoa (wi_attempts it) @ '')'' else tr_Reason req);
                    db1 = (if to = StateRetryWait
                           then upd_items (\<lambda>r. wi_id r = wi_id it)
                                  (\<lambda>r. r\<lparr>wi_eligible_at := now + Backoff (wi_attempts it) rnd\<rparr>) db
                           else db);
                    db2 = setStateTx it to (tr_RunID req) (wi_generation it) reason now db1;
                    bound = bound_row (tr_WorkID req) (tr_RunID req) (tr_Generation req);
                    status = (if tr_StoppedRunFailed req then ''FAILED'' else runStatusForState to)
                in if closes_attempt to
                   then (if count_where bound (work_attempts db2) \<noteq> 1 then Inl ErrNotBound
                         else Inr ((), upd_attempts bound
                                (\<lambda>a. a\<lparr>wa_ended_at := Some now, wa_end_reason := reason,
                                       wa_exit_evidence := tr_ExitEvidence req,
                                       wa_cost_usd := tr_CostUSD req, wa_run_status := status\<rparr>) db2))
                   else Inr ((), db2))"

definition Transition :: "time \<Rightarrow> (int \<Rightarrow> int) \<Rightarrow> TransitionRequest \<Rightarrow> work_db
    \<Rightarrow> (work_error + unit) \<times> work_db" where
  "Transition now rnd req db =
     (if \<not> valid_state (tr_To req) then (Inl ErrIllegalTransition, db)
      else if tr_RunID req = '''' \<or> tr_Generation req = 0 then (Inl ErrNotBound, db)
      else in_tx db (transitionTx now rnd req db))"

definition markStartingTx :: "string \<Rightarrow> string \<Rightarrow> int \<Rightarrow> string \<Rightarrow> work_db \<Rightarrow> work_error + (unit \<times> work_db)" where
  "markStartingTx workID runID generation plannedLocator db =
     (case getItemTx db workID of
        Inl e \<Rightarrow> Inl e
      | Inr it \<Rightarrow>
          (case verifyAttemptBindingTx db workID runID generation (wi_generation it) of
             Inl e \<Rightarrow> Inl e
           | Inr _ \<Rightarrow>
               let planned = (\<lambda>a. bound_row workID runID generation a
                                  \<and> wa_runtime_phase a = runtimePhasePlanned)
               in if count_where planned (work_attempts db) \<noteq> 1 then Inl ErrNotBound
                  else Inr ((), upd_attempts planned
                         (\<lambda>a. a\<lparr>wa_runtime_locator := plannedLocator,
                                wa_runtime_phase := runtimePhaseStarting\<rparr>) db)))"

definition MarkStarting :: "string \<Rightarrow> string \<Rightarrow> int \<Rightarrow> string \<Rightarrow> work_db \<Rightarrow> (work_error + unit) \<times> work_db" where
  "MarkStarting workID runID generation plannedLocator db =
     (if plannedLocator = '''' then (Inl ErrNotBound, db)
      else in_tx db (markStartingTx workID runID generation plannedLocator db))"

definition startRunningTx :: "time \<Rightarrow> string \<Rightarrow> string \<Rightarrow> int \<Rightarrow> string \<Rightarrow> work_db
    \<Rightarrow> work_error + (unit \<times> work_db)" where
  "startRunningTx now workID runID generation locator db =
     (case getItemTx db workID of
        Inl e \<Rightarrow> Inl e
      | Inr it \<Rightarrow>
          (case verifyAttemptBindingTx db workID runID generation (wi_generation it) of
             Inl e \<Rightarrow> Inl e
           | Inr _ \<Rightarrow>
               if \<not> CanTransition (wi_state it) StateRunning then Inl ErrIllegalTransition
               else
                 let started = (\<lambda>a. bound_row workID runID generation a
                        \<and> (wa_runtime_phase a = runtimePhaseStarting
                           \<or> wa_runtime_phase a = runtimePhaseRequested
                           \<or> wa_runtime_phase a = runtimePhaseConfirmed))
                 in if count_where started (work_attempts db) \<noteq> 1 then Inl ErrNotBound
                    else Inr ((), setStateTx it StateRunning runID generation ''runtime confirmed'' now
                           (upd_attempts started
                              (\<lambda>a. a\<lparr>wa_runtime_locator := (if locator \<noteq> '''' then locator
                                                            else wa_runtime_locator a),
                                     wa_runtime_phase := runtimePhaseConfirmed\<rparr>) db))))"

definition StartRunning :: "time \<Rightarrow> string \<Rightarrow> string \<Rightarrow> int \<Rightarrow> string \<Rightarrow> work_db
    \<Rightarrow> (work_error + unit) \<times> work_db" where
  "StartRunning now workID runID generation locator db =
     in_tx db (startRunningTx now workID runID generation locator db)"

definition heartbeat_row :: "work_db \<Rightarrow> string \<Rightarrow> int \<Rightarrow> Attempt \<Rightarrow> bool" where
  "heartbeat_row db runID generation a \<longleftrightarrow>
     wa_run_id a = runID \<and> wa_generation a = generation \<and> wa_ended_at a = None
     \<and> (\<exists>w \<in> set (work_items db). wi_id w = wa_work_id a \<and> wi_generation w = generation)"

definition Heartbeat :: "time \<Rightarrow> string \<Rightarrow> int \<Rightarrow> work_db \<Rightarrow> (work_error + unit) \<times> work_db" where
  "Heartbeat now runID generation db =
     (if count_where (heartbeat_row db runID generation) (work_attempts db) = 0
      then (Inl ErrStaleGeneration, db)
      else (Inr (), upd_attempts (heartbeat_row db runID generation)
                      (\<lambda>a. a\<lparr>wa_heartbeat_at := now, wa_lease_expires_at := now + LeaseDuration\<rparr>) db))"

definition MarkRuntimeRequestedTx :: "string \<Rightarrow> string \<Rightarrow> int \<Rightarrow> work_db \<Rightarrow> work_error + (unit \<times> work_db)" where
  "MarkRuntimeRequestedTx workID runID generation db =
     (case getItemTx db workID of
        Inl e \<Rightarrow> Inl e
      | Inr it \<Rightarrow>
          (case verifyAttemptBindingTx db workID runID generation (wi_generation it) of
             Inl e \<Rightarrow> Inl e
           | Inr _ \<Rightarrow>
               let waiting = (\<lambda>a. bound_row workID runID generation a
                                  \<and> wa_runtime_phase a = runtimePhaseStarting
                                  \<and> wa_cancel_requested_at a = None)
               in if count_where waiting (work_attempts db) \<noteq> 1 then Inl ErrNotBound
                  else Inr ((), upd_attempts waiting
                         (\<lambda>a. a\<lparr>wa_runtime_phase := runtimePhaseRequested\<rparr>) db)))"

definition MarkRuntimeRequested :: "string \<Rightarrow> string \<Rightarrow> int \<Rightarrow> work_db \<Rightarrow> (work_error + unit) \<times> work_db" where
  "MarkRuntimeRequested workID runID generation db =
     in_tx db (MarkRuntimeRequestedTx workID runID generation db)"

subsection \<open>Lease recovery\<close>

record RecoveryOutcome =
  ro_Requeued :: "string list"
  ro_Reconciliation :: "string list"

definition expired_lease :: "time \<Rightarrow> work_db \<Rightarrow> Attempt \<Rightarrow> bool" where
  "expired_lease now db a \<longleftrightarrow>
     wa_ended_at a = None \<and> wa_lease_expires_at a < now
     \<and> (\<exists>w \<in> set (work_items db). wi_id w = wa_work_id a
          \<and> (wi_state w = StateStarting \<or> wi_state w = StateRunning)
          \<and> wi_generation w = wa_generation a)"

definition recover_one :: "time \<Rightarrow> Attempt \<Rightarrow> Item \<Rightarrow> work_db \<Rightarrow> work_db" where
  "recover_one now e it db =
     (let planned = wa_runtime_phase e = runtimePhasePlanned;
          to = (if planned then StateQueued else StateNeedsReconciliation);
          reason = (if planned
            then ''lease expired while the attempt was still planned; no runtime was ever requested''
            else ''lease expired in runtime phase '' @ go_quote (phase_string (wa_runtime_phase e))
                 @ ''; a runtime may exist at '' @ go_quote (wa_runtime_locator e)
                 @ '' and must be checked'')
      in setStateTx it to (wa_run_id e) (wa_generation e) reason now
           (upd_attempts (\<lambda>a. wa_run_id a = wa_run_id e \<and> wa_ended_at a = None)
              (\<lambda>a. a\<lparr>wa_ended_at := Some now, wa_end_reason := reason\<rparr>) db))"

fun recover_loop :: "time \<Rightarrow> Attempt list \<Rightarrow> RecoveryOutcome \<Rightarrow> work_db
    \<Rightarrow> work_error + (RecoveryOutcome \<times> work_db)" where
  "recover_loop now [] out db = Inr (out, db)"
| "recover_loop now (e # es) out db =
     (case getItemTx db (wa_work_id e) of
        Inl err \<Rightarrow> Inl err
      | Inr it \<Rightarrow>
          recover_loop now es
            (if wa_runtime_phase e = runtimePhasePlanned
             then out\<lparr>ro_Requeued := ro_Requeued out @ [wa_work_id e]\<rparr>
             else out\<lparr>ro_Reconciliation := ro_Reconciliation out @ [wa_work_id e]\<rparr>)
            (recover_one now e it db))"

definition RecoverExpiredLeases :: "time \<Rightarrow> work_db \<Rightarrow> (work_error + RecoveryOutcome) \<times> work_db" where
  "RecoverExpiredLeases now db =
     in_tx db (recover_loop now (filter (expired_lease now db) (work_attempts db))
                 \<lparr>ro_Requeued = [], ro_Reconciliation = []\<rparr> db)"

subsection \<open>Cancellation\<close>

datatype CancelOutcome = CancelOutcomeCancelled | CancelOutcomeRequested | CancelOutcomeAlreadyTerminal

record CancelResult =
  cn_Outcome :: CancelOutcome
  cn_State :: State
  cn_RunID :: string
  cn_Generation :: int

text \<open>
  The branch for live work: the request is recorded against the attempt that is current now, or,
  with no open attempt, the work is parked.
\<close>

definition cancelLiveTx :: "time \<Rightarrow> Item \<Rightarrow> string \<Rightarrow> string \<Rightarrow> work_db
    \<Rightarrow> work_error + (CancelResult \<times> work_db)" where
  "cancelLiveTx now it requestedBy reason db =
     (case find (\<lambda>a. wa_work_id a = wi_id it \<and> wa_generation a = wi_generation it
                     \<and> wa_ended_at a = None) (work_attempts db) of
        None \<Rightarrow>
          if wi_state it = StateNeedsReconciliation
          then Inr (\<lparr>cn_Outcome = CancelOutcomeRequested, cn_State = wi_state it,
                     cn_RunID = '''', cn_Generation = 0\<rparr>, db)
          else Inr (\<lparr>cn_Outcome = CancelOutcomeRequested, cn_State = StateNeedsReconciliation,
                     cn_RunID = '''', cn_Generation = 0\<rparr>,
                    setStateTx it StateNeedsReconciliation '''' (wi_generation it)
                      (''cancel requested for '' @ state_string (wi_state it)
                       @ '' work with no open attempt'') now db)
      | Some a \<Rightarrow>
          let result = \<lparr>cn_Outcome = CancelOutcomeRequested, cn_State = wi_state it,
                        cn_RunID = wa_run_id a, cn_Generation = wa_generation a\<rparr>;
              bound = bound_row (wi_id it) (wa_run_id a) (wa_generation a)
          in if wa_cancel_requested_at a \<noteq> None then Inr (result, db)
             else if count_where bound (work_attempts db) \<noteq> 1 then Inl ErrNotBound
             else Inr (result,
                    appendEventTx (wi_id it) (Some (wi_state it)) (wi_state it) (wa_run_id a)
                      (wa_generation a) (''cancel requested: '' @ reason) now
                      (upd_attempts bound
                         (\<lambda>r. if wa_cancel_requested_at r = None
                              then r\<lparr>wa_cancel_requested_at := Some now,
                                     wa_cancel_requested_by := requestedBy,
                                     wa_cancel_reason := reason\<rparr>
                              else r) db)))"

definition RequestCancelTx :: "time \<Rightarrow> string \<Rightarrow> string \<Rightarrow> string \<Rightarrow> work_db
    \<Rightarrow> work_error + (CancelResult \<times> work_db)" where
  "RequestCancelTx now workID requestedBy reason db =
     (case getItemTx db workID of
        Inl e \<Rightarrow> Inl e
      | Inr it \<Rightarrow>
          if Terminal (wi_state it)
          then Inr (\<lparr>cn_Outcome = CancelOutcomeAlreadyTerminal, cn_State = wi_state it,
                     cn_RunID = '''', cn_Generation = 0\<rparr>, db)
          else if claimable_state (wi_state it)
          then let same = (\<lambda>r. wi_id r = wi_id it \<and> wi_state r = wi_state it
                               \<and> wi_generation r = wi_generation it)
               in if count_where same (work_items db) = 1
                  then Inr (\<lparr>cn_Outcome = CancelOutcomeCancelled, cn_State = StateCancelled,
                             cn_RunID = '''', cn_Generation = 0\<rparr>,
                         appendEventTx (wi_id it) (Some (wi_state it)) StateCancelled ''''
                           (wi_generation it) reason now
                           (upd_items same
                              (\<lambda>r. r\<lparr>wi_state := StateCancelled, wi_state_reason := reason,
                                     wi_updated_at := now, wi_terminal_at := Some now\<rparr>) db))
                  else (case getItemTx db workID of
                          Inl e \<Rightarrow> Inl e
                        | Inr it' \<Rightarrow>
                            if Terminal (wi_state it')
                            then Inr (\<lparr>cn_Outcome = CancelOutcomeAlreadyTerminal,
                                       cn_State = wi_state it', cn_RunID = '''', cn_Generation = 0\<rparr>, db)
                            else cancelLiveTx now it' requestedBy reason db)
          else cancelLiveTx now it requestedBy reason db)"

definition RequestCancel :: "time \<Rightarrow> string \<Rightarrow> string \<Rightarrow> string \<Rightarrow> work_db
    \<Rightarrow> (work_error + CancelResult) \<times> work_db" where
  "RequestCancel now workID requestedBy reason db =
     in_tx db (RequestCancelTx now workID requestedBy reason db)"

definition CancelRequested :: "work_db \<Rightarrow> string \<Rightarrow> work_error + bool" where
  "CancelRequested db runID =
     (case attempt_row db runID of
        None \<Rightarrow> Inl ErrNotFound
      | Some a \<Rightarrow> Inr (wa_cancel_requested_at a \<noteq> None))"

subsection \<open>Resolution and deferral\<close>

definition resolveTx :: "time \<Rightarrow> string \<Rightarrow> int \<Rightarrow> State \<Rightarrow> string \<Rightarrow> string \<Rightarrow> work_db
    \<Rightarrow> work_error + (unit \<times> work_db)" where
  "resolveTx now workID generation to resolvedBy reason db =
     (case getItemTx db workID of
        Inl e \<Rightarrow> Inl e
      | Inr it \<Rightarrow>
          if generation \<le> 0 \<or> wi_generation it \<noteq> generation then Inl ErrStaleGeneration
          else if wi_state it \<noteq> StateNeedsReconciliation then Inl ErrIllegalTransition
          else if \<not> CanTransition (wi_state it) to then Inl ErrIllegalTransition
          else
            let db1 = setStateTx it to '''' (wi_generation it)
                        (''resolved by '' @ resolvedBy @ '': '' @ reason) now db;
                status = runStatusForState to
            in if status \<noteq> ''''
               then Inr ((), upd_attempts
                      (\<lambda>a. wa_work_id a = workID \<and> wa_generation a = generation
                           \<and> wa_ended_at a \<noteq> None \<and> wa_run_status a = '''')
                      (\<lambda>a. a\<lparr>wa_run_status := status\<rparr>) db1)
               else Inr ((), db1))"

definition Resolve :: "time \<Rightarrow> string \<Rightarrow> int \<Rightarrow> State \<Rightarrow> string \<Rightarrow> string \<Rightarrow> work_db
    \<Rightarrow> (work_error + unit) \<times> work_db" where
  "Resolve now workID generation to resolvedBy reason db =
     (if resolvedBy = '''' \<or> reason = '''' then (Inl ErrIllegalTransition, db)
      else in_tx db (resolveTx now workID generation to resolvedBy reason db))"

definition deferTx :: "time \<Rightarrow> string \<Rightarrow> string \<Rightarrow> int \<Rightarrow> time \<Rightarrow> string \<Rightarrow> work_db
    \<Rightarrow> work_error + (unit \<times> work_db)" where
  "deferTx now workID runID generation until reason db =
     (case getItemTx db workID of
        Inl e \<Rightarrow> Inl e
      | Inr it \<Rightarrow>
          if Terminal (wi_state it) then Inl ErrTerminal
          else case verifyAttemptBindingTx db workID runID generation (wi_generation it) of
            Inl e \<Rightarrow> Inl e
          | Inr _ \<Rightarrow>
              let bound = bound_row workID runID generation;
                  planned = (\<lambda>a. bound a \<and> wa_runtime_phase a = runtimePhasePlanned)
              in case find planned (work_attempts db) of
                   None \<Rightarrow> Inl ErrNotBound
                 | Some a \<Rightarrow>
                     if wa_cancel_requested_at a \<noteq> None
                     then let why = ''cancelled while held: '' @ wa_cancel_reason a
                          in Inr ((), setStateTx it StateCancelled runID generation why now
                               (upd_attempts bound
                                  (\<lambda>a. a\<lparr>wa_ended_at := Some now, wa_end_reason := why\<rparr>) db))
                     else if count_where planned (work_attempts db) \<noteq> 1 then Inl ErrNotBound
                     else Inr ((),
                       appendEventTx workID (Some (wi_state it)) StateQueued runID generation reason now
                         (upd_items (\<lambda>r. wi_id r = workID \<and> wi_generation r = generation)
                            (\<lambda>r. r\<lparr>wi_state := StateQueued, wi_state_reason := reason,
                                   wi_attempts := max (wi_attempts r - 1) 0,
                                   wi_eligible_at := until, wi_updated_at := now\<rparr>)
                            (upd_attempts planned
                               (\<lambda>a. a\<lparr>wa_ended_at := Some now,
                                      wa_end_reason := ''deferred: '' @ reason\<rparr>) db))))"

definition Defer :: "time \<Rightarrow> string \<Rightarrow> string \<Rightarrow> int \<Rightarrow> time \<Rightarrow> string \<Rightarrow> work_db
    \<Rightarrow> (work_error + unit) \<times> work_db" where
  "Defer now workID runID generation until reason db =
     (if reason = '''' then (Inl ErrNotBound, db)
      else in_tx db (deferTx now workID runID generation until reason db))"

end
