(* ===== verification/Ledger_Protocol.thy ===== *)
theory Ledger_Protocol
  imports Work_State
begin

text \<open>
  What the work ledger promises, without its tables: a ledger maps a work identifier to an entry
  (state, generation, spent attempts, the attempts so far, the history so far), and changes by the
  steps of the inductive relation \<open>ledger_step\<close>.  The invariant \<open>ledger_ok\<close> is proved for it once,
  by rule induction.  \<^verbatim>\<open>Work_Refinement\<close> proves that every operation of \<^verbatim>\<open>internal/work\<close> is a
  sequence of such steps on the entries its tables hold.
\<close>

subsection \<open>Entries\<close>

record trial =
  t_run :: string
  t_seq :: int
  t_gen :: int
  t_open :: bool

record step_note =
  n_seq :: int
  n_from :: "State option"
  n_to :: State

record entry =
  e_session :: string
  e_state :: State
  e_gen :: int
  e_spent :: int
  e_done :: bool
  e_tries :: "trial list"
  e_notes :: "step_note list"

type_synonym ledger = "string \<Rightarrow> entry option"

definition attempt_active :: "State \<Rightarrow> bool" where
  "attempt_active s \<longleftrightarrow> s = StateStarting \<or> s = StateRunning \<or> s = StateWaiting"

definition idle :: "State \<Rightarrow> bool" where
  "idle s \<longleftrightarrow> s = StateQueued \<or> s = StateRetryWait"

lemma active_occupies: "attempt_active s \<Longrightarrow> OccupiesSession s"
  by (auto simp: attempt_active_def state_simps)

lemma occupies_iff: "OccupiesSession s \<longleftrightarrow> attempt_active s \<or> s = StateNeedsReconciliation"
  by (auto simp: attempt_active_def state_simps)

subsection \<open>Changes of one entry\<close>

definition fresh_entry :: "string \<Rightarrow> entry" where
  "fresh_entry session = \<lparr>e_session = session, e_state = StateQueued, e_gen = 0, e_spent = 0,
     e_done = False, e_tries = [], e_notes = [\<lparr>n_seq = 1, n_from = None, n_to = StateQueued\<rparr>]\<rparr>"

definition add_note :: "State option \<Rightarrow> State \<Rightarrow> entry \<Rightarrow> entry" where
  "add_note from to e =
     e\<lparr>e_notes := e_notes e @ [\<lparr>n_seq = int (length (e_notes e)) + 1, n_from = from, n_to = to\<rparr>]\<rparr>"

definition move_to :: "State \<Rightarrow> entry \<Rightarrow> entry" where
  "move_to to e = (add_note (Some (e_state e)) to e)\<lparr>e_state := to, e_done := (e_done e \<or> Terminal to)\<rparr>"

definition open_try :: "string \<Rightarrow> entry \<Rightarrow> entry" where
  "open_try r e = e\<lparr>e_gen := e_gen e + 1, e_spent := e_spent e + 1,
     e_tries := e_tries e @ [\<lparr>t_run = r, t_seq = int (length (e_tries e)) + 1, t_gen = e_gen e + 1,
                             t_open = True\<rparr>]\<rparr>"

definition close_tries :: "entry \<Rightarrow> entry" where
  "close_tries e = e\<lparr>e_tries := map (\<lambda>t. t\<lparr>t_open := False\<rparr>) (e_tries e)\<rparr>"

subsection \<open>Steps\<close>

text \<open>
  \<open>item_step free e e'\<close>: one change of an entry, where \<open>free\<close> says that no other entry occupies its
  session.  An attempt starts from an idle state with budget left; work in an active state moves
  along the transition table; an attempt that stops holding the work closes with the move, and may
  also put the work back on the queue; idle work ends without an attempt; reconciliation is
  resolved; and a cancel request leaves a note.
\<close>

inductive item_step :: "bool \<Rightarrow> entry \<Rightarrow> entry \<Rightarrow> bool" where
  start: "idle (e_state e) \<Longrightarrow> e_spent e < MaxAttempts \<Longrightarrow> e_session e = '''' \<or> free \<Longrightarrow>
            item_step free e (move_to StateStarting (open_try r e))"
| keep: "attempt_active (e_state e) \<Longrightarrow> CanTransition (e_state e) to \<Longrightarrow> attempt_active to \<Longrightarrow>
            item_step free e (move_to to e)"
| close: "attempt_active (e_state e) \<Longrightarrow> CanTransition (e_state e) to \<or> to = StateQueued \<Longrightarrow>
            \<not> attempt_active to \<Longrightarrow> item_step free e (move_to to (close_tries e))"
| give_back: "attempt_active (e_state e) \<Longrightarrow>
            item_step free e (move_to StateQueued (close_tries e)\<lparr>e_spent := max (e_spent e - 1) 0\<rparr>)"
| end_idle: "idle (e_state e) \<Longrightarrow> to \<in> {StateFailed, StateExpired, StateCancelled} \<Longrightarrow>
            item_step free e (move_to to e)"
| resolve: "e_state e = StateNeedsReconciliation \<Longrightarrow> CanTransition (e_state e) to \<Longrightarrow>
            item_step free e (move_to to e)"
| remark: "attempt_active (e_state e) \<Longrightarrow>
            item_step free e (add_note (Some (e_state e)) (e_state e) e)"

definition session_clear :: "ledger \<Rightarrow> string \<Rightarrow> string \<Rightarrow> bool" where
  "session_clear L w session \<longleftrightarrow>
     (\<forall>v e. v \<noteq> w \<longrightarrow> L v = Some e \<longrightarrow> e_session e = session \<longrightarrow> \<not> OccupiesSession (e_state e))"

inductive ledger_step :: "ledger \<Rightarrow> ledger \<Rightarrow> bool" where
  accept: "L w = None \<Longrightarrow> ledger_step L (L(w \<mapsto> fresh_entry session))"
| change: "L w = Some e \<Longrightarrow> item_step (session_clear L w (e_session e)) e e' \<Longrightarrow>
             ledger_step L (L(w \<mapsto> e'))"

subsection \<open>The invariant\<close>

text \<open>
  A history is linked when it starts with the acceptance, each event departs from where the
  previous one arrived, and every arrow is one of the transition table, a note that changes
  nothing, or the return of a running item to the queue.
\<close>

definition arrow_ok :: "State \<Rightarrow> State \<Rightarrow> bool" where
  "arrow_ok f t \<longleftrightarrow> CanTransition f t \<or> (f = t \<and> attempt_active f)
     \<or> (f = StateRunning \<and> t = StateQueued)"

fun linked :: "State \<Rightarrow> step_note list \<Rightarrow> State \<Rightarrow> bool" where
  "linked s [] s' \<longleftrightarrow> s = s'"
| "linked s (n # ns) s' \<longleftrightarrow> n_from n = Some s \<and> arrow_ok s (n_to n) \<and> linked (n_to n) ns s'"

definition history_ok :: "step_note list \<Rightarrow> State \<Rightarrow> bool" where
  "history_ok ns s \<longleftrightarrow>
     map n_seq ns = map int [1..<Suc (length ns)]
   \<and> (case ns of [] \<Rightarrow> False
      | n # ms \<Rightarrow> n_from n = None \<and> n_to n = StateQueued \<and> linked StateQueued ms s)"

definition tries_ok :: "trial list \<Rightarrow> int \<Rightarrow> bool \<Rightarrow> bool" where
  "tries_ok ts gen active \<longleftrightarrow>
     gen = int (length ts)
   \<and> map t_gen ts = map int [1..<Suc (length ts)] \<and> map t_seq ts = map int [1..<Suc (length ts)]
   \<and> (if active then ts \<noteq> [] \<and> t_open (last ts) \<and> (\<forall>t \<in> set (butlast ts). \<not> t_open t)
      else \<forall>t \<in> set ts. \<not> t_open t)"

definition entry_ok :: "entry \<Rightarrow> bool" where
  "entry_ok e \<longleftrightarrow>
     valid_state (e_state e)
   \<and> 0 \<le> e_spent e \<and> e_spent e \<le> MaxAttempts \<and> e_spent e \<le> e_gen e
   \<and> e_done e = Terminal (e_state e)
   \<and> tries_ok (e_tries e) (e_gen e) (attempt_active (e_state e))
   \<and> history_ok (e_notes e) (e_state e)"

definition ledger_ok :: "ledger \<Rightarrow> bool" where
  "ledger_ok L \<longleftrightarrow>
     (\<forall>w e. L w = Some e \<longrightarrow> entry_ok e)
   \<and> (\<forall>v w e f. L v = Some e \<longrightarrow> L w = Some f \<longrightarrow> v \<noteq> w \<longrightarrow> e_session e \<noteq> '''' \<longrightarrow>
        e_session e = e_session f \<longrightarrow> \<not> (OccupiesSession (e_state e) \<and> OccupiesSession (e_state f)))"

lemma linked_snoc: "linked s (ns @ [n]) s' \<longleftrightarrow>
   (\<exists>m. linked s ns m \<and> n_from n = Some m \<and> arrow_ok m (n_to n) \<and> n_to n = s')"
  by (induction s ns s' rule: linked.induct) auto

lemma upto_snoc: "map int [1..<Suc (Suc n)] = map int [1..<Suc n] @ [int n + 1]"
  by simp

lemma history_snoc:
  assumes "history_ok ns s" "arrow_ok s t"
  shows "history_ok (ns @ [\<lparr>n_seq = int (length ns) + 1, n_from = Some s, n_to = t\<rparr>]) t"
  using assms by (auto simp: history_ok_def linked_snoc split: list.splits)

lemma tries_close: "tries_ok ts gen a \<Longrightarrow> tries_ok (map (\<lambda>t. t\<lparr>t_open := False\<rparr>) ts) gen False"
  by (simp add: tries_ok_def comp_def)

lemma tries_open:
  assumes "tries_ok ts gen False"
  shows "tries_ok (ts @ [\<lparr>t_run = r, t_seq = int (length ts) + 1, t_gen = gen + 1, t_open = True\<rparr>])
           (gen + 1) True"
  using assms by (simp add: tries_ok_def)

lemmas entry_changes = fresh_entry_def add_note_def move_to_def open_try_def close_tries_def

lemma fresh_entry_ok: "entry_ok (fresh_entry s)"
  by (simp add: entry_ok_def fresh_entry_def history_ok_def tries_ok_def MaxAttempts_def
      state_simps attempt_active_def)

text \<open>Every step keeps an entry well formed.\<close>

lemma idle_facts:
  "idle s \<Longrightarrow> \<not> attempt_active s" "idle s \<Longrightarrow> \<not> Terminal s" "idle s \<Longrightarrow> arrow_ok s StateStarting"
  "idle s \<Longrightarrow> t \<in> {StateFailed, StateExpired, StateCancelled} \<Longrightarrow> arrow_ok s t"
  by (auto simp: idle_def attempt_active_def state_simps arrow_ok_def CanTransition_iff)

lemma active_facts:
  "attempt_active s \<Longrightarrow> \<not> Terminal s" "attempt_active s \<Longrightarrow> arrow_ok s s"
  "attempt_active s \<Longrightarrow> arrow_ok s StateQueued" "\<not> attempt_active StateQueued"
  by (auto simp: attempt_active_def state_simps arrow_ok_def CanTransition_iff)

lemma move_ok:
  assumes "history_ok (e_notes e) (e_state e)" "arrow_ok (e_state e) to" "valid_state to"
    "\<not> e_done e" "0 \<le> e_spent e" "e_spent e \<le> MaxAttempts" "e_spent e \<le> e_gen e"
    "tries_ok (e_tries e) (e_gen e) (attempt_active to)"
  shows "entry_ok (move_to to e)"
  using assms history_snoc [OF assms(1,2)] by (simp add: entry_ok_def entry_changes)

lemma entry_okD:
  assumes "entry_ok e"
  shows "history_ok (e_notes e) (e_state e)" "e_done e = Terminal (e_state e)" "valid_state (e_state e)"
    "0 \<le> e_spent e" "e_spent e \<le> MaxAttempts" "e_spent e \<le> e_gen e"
    "tries_ok (e_tries e) (e_gen e) (attempt_active (e_state e))"
  using assms by (simp_all add: entry_ok_def)

lemma close_tries_sel [simp]:
  "e_notes (close_tries e) = e_notes e" "e_state (close_tries e) = e_state e"
  "e_done (close_tries e) = e_done e" "e_spent (close_tries e) = e_spent e"
  "e_gen (close_tries e) = e_gen e" "e_session (close_tries e) = e_session e"
  by (simp_all add: close_tries_def)

lemma open_try_sel [simp]:
  "e_notes (open_try r e) = e_notes e" "e_state (open_try r e) = e_state e"
  "e_done (open_try r e) = e_done e" "e_spent (open_try r e) = e_spent e + 1"
  "e_gen (open_try r e) = e_gen e + 1" "e_session (open_try r e) = e_session e"
  by (simp_all add: open_try_def)

lemma close_tries_ok:
  "tries_ok (e_tries e) g a \<Longrightarrow> tries_ok (e_tries (close_tries e)) g False"
  using tries_close by (simp add: close_tries_def)

lemma attempt_active_simps [simp]:
  "attempt_active StateStarting" "attempt_active StateRunning" "attempt_active StateWaiting"
  "\<not> attempt_active StateQueued" "\<not> attempt_active StateRetryWait" "\<not> attempt_active StateFailed"
  "\<not> attempt_active StateExpired" "\<not> attempt_active StateCancelled"
  "\<not> attempt_active StateSucceeded" "\<not> attempt_active StateNeedsReconciliation"
  by (simp_all add: attempt_active_def)

lemma item_step_ok:
  assumes "item_step free e e'" "entry_ok e"
  shows "entry_ok e'"
  using assms(1)
proof cases
  case (start r)
  have "tries_ok (e_tries e) (e_gen e) False"
    using entry_okD(7) [OF assms(2)] idle_facts(1) [OF start(2)] by simp
  then have "tries_ok (e_tries (open_try r e)) (e_gen e + 1) True"
    using tries_open by (simp add: open_try_def)
  then show ?thesis unfolding start(1) using start entry_okD [OF assms(2)] idle_facts [OF start(2)]
    by (intro move_ok) auto
next
  case (keep to)
  then have "arrow_ok (e_state e) to" "valid_state to"
    using CanTransition_valid by (auto simp: arrow_ok_def)
  then show ?thesis unfolding keep(1) using keep entry_okD [OF assms(2)] active_facts(1)
    by (intro move_ok) auto
next
  case (close to)
  then have "arrow_ok (e_state e) to" "valid_state to"
    using CanTransition_valid active_facts(3) by (auto simp: arrow_ok_def)
  then show ?thesis unfolding close(1) using close entry_okD [OF assms(2)] active_facts(1) close_tries_ok
    by (intro move_ok) auto
next
  case give_back
  let ?e = "close_tries e\<lparr>e_spent := max (e_spent e - 1) 0\<rparr>"
  have "e' = move_to StateQueued ?e" by (simp add: give_back(1) entry_changes)
  moreover have "e_tries ?e = e_tries (close_tries e)" by simp
  ultimately show ?thesis
    using give_back(2) entry_okD [OF assms(2)] active_facts(1,3) close_tries_ok [OF entry_okD(7) [OF assms(2)]]
    by (simp only:) (intro move_ok, auto)
next
  case (end_idle to)
  then have "valid_state to" "\<not> attempt_active to" "arrow_ok (e_state e) to"
    using idle_facts(4) [OF end_idle(2,3)] by auto
  then show ?thesis unfolding end_idle(1)
    using entry_okD [OF assms(2)] idle_facts(1,2) [OF end_idle(2)] by (intro move_ok) simp_all
next
  case (resolve to)
  have "arrow_ok (e_state e) to" "valid_state to" "\<not> attempt_active to"
    using resolve CanTransition_valid [of "e_state e" to]
    by (auto simp: arrow_ok_def CanTransition_iff)
  then show ?thesis unfolding resolve(1) using resolve entry_okD [OF assms(2)]
    by (intro move_ok) auto
next
  case remark
  then show ?thesis using entry_okD [OF assms(2)] history_snoc [OF _ active_facts(2)]
    by (simp add: entry_ok_def add_note_def)
qed

text \<open>Only a start takes a session that the entry did not hold, and it finds the session free.\<close>

lemma item_step_session: "item_step free e e' \<Longrightarrow> e_session e' = e_session e"
  by (induction rule: item_step.induct) (simp_all add: entry_changes)

lemma active_target:
  "CanTransition StateNeedsReconciliation to \<Longrightarrow> \<not> OccupiesSession to"
  by (auto simp: CanTransition_iff occupies_iff attempt_active_def)

lemma item_step_occupies:
  assumes "item_step free e e'" "OccupiesSession (e_state e')"
  shows "OccupiesSession (e_state e) \<or> e_session e = '''' \<or> free"
  using assms
  by (induction rule: item_step.induct)
    (auto simp: add_note_def move_to_def occupies_iff dest: active_target)

lemma ledger_ok_upd:
  assumes "ledger_ok L" "entry_ok e'"
    and clear: "\<And>v f. v \<noteq> w \<Longrightarrow> L v = Some f \<Longrightarrow> e_session e' \<noteq> '''' \<Longrightarrow> e_session f = e_session e' \<Longrightarrow>
                 OccupiesSession (e_state e') \<Longrightarrow> \<not> OccupiesSession (e_state f)"
  shows "ledger_ok (L(w \<mapsto> e'))"
  unfolding ledger_ok_def
proof (intro conjI allI impI)
  fix v f assume "(L(w \<mapsto> e')) v = Some f"
  then show "entry_ok f" using assms(1,2) by (auto simp: ledger_ok_def split: if_splits)
next
  fix v u f g
  assume *: "(L(w \<mapsto> e')) v = Some f" "(L(w \<mapsto> e')) u = Some g" "v \<noteq> u"
    "e_session f \<noteq> ''''" "e_session f = e_session g"
  show "\<not> (OccupiesSession (e_state f) \<and> OccupiesSession (e_state g))"
  proof (cases "v = w \<or> u = w")
    case True
    then consider "v = w" "u \<noteq> w" "f = e'" "L u = Some g" | "u = w" "v \<noteq> w" "g = e'" "L v = Some f"
      using * by (auto split: if_splits)
    then show ?thesis
    proof cases
      case 1
      then show ?thesis using clear [of u g] *(4,5) by metis
    next
      case 2
      then show ?thesis using clear [of v f] *(4,5) by metis
    qed
  next
    case False
    then show ?thesis using * assms(1) unfolding ledger_ok_def by (metis fun_upd_other)
  qed
qed

lemma ledger_step_ok:
  assumes "ledger_step L L'" "ledger_ok L"
  shows "ledger_ok L'"
  using assms(1)
proof cases
  case (accept w session)
  have "\<not> OccupiesSession (e_state (fresh_entry session))" by (simp add: fresh_entry_def occupies_iff)
  then show ?thesis unfolding accept(1) using assms(2) fresh_entry_ok by (intro ledger_ok_upd) auto
next
  case (change w e e')
  note same = item_step_session [OF change(3)] item_step_occupies [OF change(3)]
  have "entry_ok e'" using item_step_ok [OF change(3)] assms(2) change(2) by (auto simp: ledger_ok_def)
  then show ?thesis unfolding change(1)
  proof (rule ledger_ok_upd [OF assms(2)])
    fix v f assume *: "v \<noteq> w" "L v = Some f" "e_session e' \<noteq> ''''" "e_session f = e_session e'"
      "OccupiesSession (e_state e')"
    then consider "OccupiesSession (e_state e)" | "session_clear L w (e_session e)" using same by auto
    then show "\<not> OccupiesSession (e_state f)"
    proof cases
      case 1
      then show ?thesis using * same(1) change(2) assms(2) unfolding ledger_ok_def by metis
    next
      case 2
      then show ?thesis using * same(1) unfolding session_clear_def by metis
    qed
  qed
qed

subsection \<open>What a step can do to an entry over time\<close>

text \<open>
  \<open>later\<close> is what survives any number of steps: an entry is never lost, its session is fixed,
  its generation never falls, its history and the attempts before the current one only grow, a
  closed attempt never reopens, and a terminal entry is final.
\<close>

definition entry_later :: "entry \<Rightarrow> entry \<Rightarrow> bool" where
  "entry_later e e' \<longleftrightarrow>
     e_session e' = e_session e \<and> e_gen e \<le> e_gen e'
   \<and> (\<exists>ns. e_notes e' = e_notes e @ ns)
   \<and> (\<exists>ts us. e_tries e' = ts @ us \<and> list_all2 (\<lambda>t t'. t_run t' = t_run t \<and> t_seq t' = t_seq t
          \<and> t_gen t' = t_gen t \<and> (t_open t' \<longrightarrow> t_open t)) (e_tries e) ts)
   \<and> (Terminal (e_state e) \<longrightarrow> e' = e)"

definition later :: "ledger \<Rightarrow> ledger \<Rightarrow> bool" where
  "later L L' \<longleftrightarrow> (\<forall>w e. L w = Some e \<longrightarrow> (\<exists>e'. L' w = Some e' \<and> entry_later e e'))"

abbreviation same_try :: "trial \<Rightarrow> trial \<Rightarrow> bool" where
  "same_try t t' \<equiv> t_run t' = t_run t \<and> t_seq t' = t_seq t \<and> t_gen t' = t_gen t
     \<and> (t_open t' \<longrightarrow> t_open t)"

lemma same_tries_refl: "list_all2 same_try ts ts"
  by (simp add: list_all2_same)

lemma same_tries_closed: "list_all2 same_try ts (map (\<lambda>t. t\<lparr>t_open := False\<rparr>) ts)"
  by (simp add: list_all2_conv_all_nth)

lemma kept_tries:
  "us = ts \<Longrightarrow> \<exists>ts' us'. us = ts' @ us' \<and> list_all2 same_try ts ts'"
  using same_tries_refl by auto

lemma entry_later_refl: "entry_later e e"
  using same_tries_refl by (auto simp: entry_later_def)

lemma entry_later_trans:
  assumes "entry_later a b" "entry_later b c"
  shows "entry_later a c"
proof -
  obtain ts us where 1: "e_tries b = ts @ us" "list_all2 same_try (e_tries a) ts"
    using assms(1) by (auto simp: entry_later_def)
  obtain vs xs where 2: "e_tries c = vs @ xs" "list_all2 same_try (e_tries b) vs"
    using assms(2) by (auto simp: entry_later_def)
  have "list_all2 same_try (ts @ us) vs" using 1(1) 2(2) by simp
  then obtain v1 v2 where "vs = v1 @ v2" "list_all2 same_try ts v1"
    by (auto simp: list_all2_append1)
  moreover have "list_all2 same_try (e_tries a) v1"
    by (rule list_all2_trans [OF _ 1(2) \<open>list_all2 same_try ts v1\<close>]) auto
  ultimately have "\<exists>ts us. e_tries c = ts @ us \<and> list_all2 same_try (e_tries a) ts"
    using 2(1) by auto
  moreover have "\<exists>ns. e_notes c = e_notes a @ ns"
    using assms by (auto simp: entry_later_def)
  ultimately show ?thesis using assms by (auto simp: entry_later_def)
qed

lemma item_step_later:
  assumes "item_step free e e'"
  shows "entry_later e e'"
proof -
  have "\<not> Terminal (e_state e)"
    using assms by (induction rule: item_step.induct) (auto dest: idle_facts(2) active_facts(1) simp: state_simps)
  moreover have "\<exists>ts us. e_tries e' = ts @ us \<and> list_all2 same_try (e_tries e) ts"
    using assms
  proof (induction rule: item_step.induct)
    case (start e free r)
    show ?case using same_tries_refl [of "e_tries e"] by (auto simp: entry_changes)
  next
    case (close e to free)
    show ?case using same_tries_closed [of "e_tries e"]
      by (intro exI [of _ "e_tries (close_tries e)"] exI [of _ "[]"]) (simp add: entry_changes)
  next
    case (give_back e free)
    show ?case using same_tries_closed [of "e_tries e"]
      by (intro exI [of _ "e_tries (close_tries e)"] exI [of _ "[]"]) (simp add: entry_changes)
  qed (intro kept_tries, simp add: entry_changes)+
  moreover have "e_session e' = e_session e \<and> e_gen e \<le> e_gen e' \<and> (\<exists>ns. e_notes e' = e_notes e @ ns)"
    using assms by (induction rule: item_step.induct) (auto simp: entry_changes)
  ultimately show ?thesis by (simp add: entry_later_def)
qed

lemma later_refl: "later L L"
  by (auto simp: later_def entry_later_refl)

lemma later_trans: "later L M \<Longrightarrow> later M N \<Longrightarrow> later L N"
  by (auto simp: later_def) (metis entry_later_trans)

lemma ledger_step_later: "ledger_step L L' \<Longrightarrow> later L L'"
  by (induction rule: ledger_step.induct)
    (auto simp: later_def entry_later_refl item_step_later)

end
