(* ===== verification/Work_Refinement.thy ===== *)
theory Work_Refinement
  imports Work_Transition Ledger_Protocol
begin

text \<open>
  The tables of \<^verbatim>\<open>internal/work\<close> implement the ledger protocol: \<open>abs_ledger\<close> reads the entries out of
  the tables, \<open>ledger_wf\<close> is what the keys and foreign keys of the schema guarantee, and every
  operation of the store is a sequence of protocol steps that keeps \<open>ledger_wf\<close>.
\<close>

subsection \<open>The abstraction\<close>

definition trial_of :: "Attempt \<Rightarrow> trial" where
  "trial_of a = \<lparr>t_run = wa_run_id a, t_seq = wa_attempt a, t_gen = wa_generation a,
                 t_open = (wa_ended_at a = None)\<rparr>"

definition note_of :: "Event \<Rightarrow> step_note" where
  "note_of e = \<lparr>n_seq = we_seq e, n_from = we_from_state e, n_to = we_to_state e\<rparr>"

definition item_attempts :: "work_db \<Rightarrow> string \<Rightarrow> Attempt list" where
  "item_attempts db w = filter (\<lambda>a. wa_work_id a = w) (work_attempts db)"

definition item_events :: "work_db \<Rightarrow> string \<Rightarrow> Event list" where
  "item_events db w = filter (\<lambda>e. we_work_id e = w) (work_events db)"

definition entry_of :: "work_db \<Rightarrow> Item \<Rightarrow> entry" where
  "entry_of db it =
     \<lparr>e_session = wi_session_id it, e_state = wi_state it, e_gen = wi_generation it,
      e_spent = wi_attempts it, e_done = (wi_terminal_at it \<noteq> None),
      e_tries = map trial_of (item_attempts db (wi_id it)),
      e_notes = map note_of (item_events db (wi_id it))\<rparr>"

definition abs_ledger :: "work_db \<Rightarrow> ledger" where
  "abs_ledger db w = map_option (entry_of db) (item_row db w)"

definition ledger_wf :: "work_db \<Rightarrow> bool" where
  "ledger_wf db \<longleftrightarrow>
     distinct (map wi_id (work_items db)) \<and> distinct (map wa_run_id (work_attempts db))
   \<and> wa_work_id ` set (work_attempts db) \<subseteq> wi_id ` set (work_items db)
   \<and> we_work_id ` set (work_events db) \<subseteq> wi_id ` set (work_items db)"

definition good :: "work_db \<Rightarrow> bool" where
  "good db \<longleftrightarrow> ledger_wf db \<and> ledger_ok (abs_ledger db)"

subsection \<open>Frames\<close>

text \<open>\<open>only_at w db db'\<close>: the two databases hold the same rows for every other work item.\<close>

definition only_at :: "string \<Rightarrow> work_db \<Rightarrow> work_db \<Rightarrow> bool" where
  "only_at w db db' \<longleftrightarrow> (\<forall>v. v \<noteq> w \<longrightarrow> item_row db' v = item_row db v
     \<and> item_attempts db' v = item_attempts db v \<and> item_events db' v = item_events db v)"

lemma only_at_refl: "only_at w db db"
  by (simp add: only_at_def)

lemma only_at_trans: "only_at w a b \<Longrightarrow> only_at w b c \<Longrightarrow> only_at w a c"
  by (simp add: only_at_def)

lemma item_row_upd:
  assumes "\<And>r. wi_id (f r) = wi_id r"
  shows "item_row (upd_items P f db) v = map_option (\<lambda>r. if P r then f r else r) (item_row db v)"
  unfolding item_row_def upd_items_sel using assms by (intro items.find_key_upd) auto

lemma item_row_append_attempts [simp]: "item_row (db\<lparr>work_attempts := as\<rparr>) v = item_row db v"
  by (simp add: item_row_def)

lemma item_row_other [row_simps]:
  "item_row (upd_attempts P g db) v = item_row db v"
  "item_row (appendEventTx w from to r gen s at db) v = item_row db v"
  by (simp_all add: item_row_def row_simps)

lemma item_attempts_other [row_simps]:
  "item_attempts (upd_items P f db) v = item_attempts db v"
  "item_attempts (appendEventTx w from to r gen s at db) v = item_attempts db v"
  "item_attempts (setStateTx it st r gen s at db) v = item_attempts db v"
  by (simp_all add: item_attempts_def row_simps)

lemma item_events_other [row_simps]:
  "item_events (upd_items P f db) v = item_events db v"
  "item_events (upd_attempts Q g db) v = item_events db v"
  by (simp_all add: item_events_def row_simps)

lemma item_events_append:
  "item_events (appendEventTx w from to r gen s at db) v = item_events db v @
     (if v = w then [\<lparr>we_work_id = w, we_seq = next_event_seq db w, we_at = at, we_from_state = from,
         we_to_state = to, we_run_id = r, we_generation = gen, we_reason = s\<rparr>] else [])"
  by (simp add: item_events_def appendEventTx_def)

lemma item_attempts_upd:
  assumes "\<And>a. wa_work_id (g a) = wa_work_id a"
  shows "item_attempts (upd_attempts P g db) v = upd_where P g (item_attempts db v)"
  using assms by (simp add: item_attempts_def upd_attempts_sel filter_upd_where)

lemma item_attempts_in: "a \<in> set (item_attempts db w) \<longleftrightarrow> a \<in> set (work_attempts db) \<and> wa_work_id a = w"
  by (auto simp: item_attempts_def)

lemma only_at_upd_items:
  assumes "\<And>r. wi_id (f r) = wi_id r" "\<And>r. P r \<Longrightarrow> wi_id r = w"
  shows "only_at w db (upd_items P f db)"
  unfolding only_at_def
proof (intro allI impI conjI)
  fix v assume "v \<noteq> w"
  then show "item_row (upd_items P f db) v = item_row db v"
    using assms by (cases "item_row db v") (auto simp: item_row_upd dest: item_row_Some)
qed (simp_all add: row_simps)

lemma only_at_upd_attempts:
  assumes "\<And>a. wa_work_id (g a) = wa_work_id a" "\<And>a. a \<in> set (work_attempts db) \<Longrightarrow> P a \<Longrightarrow> wa_work_id a = w"
  shows "only_at w db (upd_attempts P g db)"
  unfolding only_at_def
proof (intro allI impI conjI)
  fix v assume "v \<noteq> w"
  then show "item_attempts (upd_attempts P g db) v = item_attempts db v"
    using assms by (subst item_attempts_upd) (auto simp: item_attempts_in intro!: upd_where_none)
qed (simp_all add: row_simps)

lemma only_at_append: "only_at w db (appendEventTx w from to r gen s at db)"
  by (simp add: only_at_def row_simps item_events_append)

lemma only_at_setState: "only_at (wi_id it) db (setStateTx it to r gen s now db)"
  unfolding setStateTx_def
  by (rule only_at_trans [OF only_at_upd_items only_at_append]) simp_all

lemma abs_only_at:
  assumes "only_at w db db'"
  shows "abs_ledger db' = (abs_ledger db)(w := abs_ledger db' w)"
proof
  fix v
  show "abs_ledger db' v = ((abs_ledger db)(w := abs_ledger db' w)) v"
  proof (cases "v = w")
    case False
    then have "item_row db' v = item_row db v" "item_attempts db' v = item_attempts db v"
      "item_events db' v = item_events db v" using assms by (auto simp: only_at_def)
    then show ?thesis using False
      by (cases "item_row db v") (auto simp: abs_ledger_def entry_of_def dest: item_row_Some)
  qed simp
qed

subsection \<open>Abstract effects of the primitive writes\<close>

lemma abs_item: "item_row db w = Some it \<Longrightarrow> abs_ledger db w = Some (entry_of db it)"
  by (simp add: abs_ledger_def)

lemma abs_item_iff: "abs_ledger db w = Some e \<longleftrightarrow> (\<exists>it. item_row db w = Some it \<and> e = entry_of db it)"
  by (auto simp: abs_ledger_def)

lemma entry_of_sel [simp]:
  "e_session (entry_of db it) = wi_session_id it" "e_state (entry_of db it) = wi_state it"
  "e_gen (entry_of db it) = wi_generation it" "e_spent (entry_of db it) = wi_attempts it"
  "e_done (entry_of db it) \<longleftrightarrow> wi_terminal_at it \<noteq> None"
  "e_tries (entry_of db it) = map trial_of (item_attempts db (wi_id it))"
  "e_notes (entry_of db it) = map note_of (item_events db (wi_id it))"
  by (simp_all add: entry_of_def)

lemma next_number_upto: "next_number (map int [1..<Suc n]) = int n + 1"
proof (cases n)
  case (Suc m)
  have "Max (int ` {1..<Suc n}) = int n"
    using Suc by (intro Max_eqI) (auto intro: image_eqI [of _ _ n])
  then show ?thesis using Suc by (simp add: next_number_def del: upt_Suc)
qed (simp add: next_number_def)

lemma next_number_fresh: "n \<in> set ns \<Longrightarrow> n \<noteq> next_number ns"
proof
  assume *: "n \<in> set ns" "n = next_number ns"
  then have "n \<le> Max (set ns)" by simp
  moreover have "n = Max (set ns) + 1" using * by (auto simp: next_number_def)
  ultimately show False by simp
qed

lemma next_event_seq_eq:
  assumes "history_ok (map note_of (item_events db w)) s"
  shows "next_event_seq db w = int (length (item_events db w)) + 1"
proof -
  have "map we_seq (item_events db w) = map n_seq (map note_of (item_events db w))"
    by (simp add: note_of_def)
  also have "\<dots> = map int [1..<Suc (length (item_events db w))]"
    using assms by (simp add: history_ok_def)
  finally show ?thesis
    unfolding next_event_seq_def item_events_def [symmetric] by (simp only: next_number_upto)
qed

lemma entry_ext:
  "e = f \<longleftrightarrow> e_session e = e_session f \<and> e_state e = e_state f \<and> e_gen e = e_gen f \<and> e_spent e = e_spent f
     \<and> e_done e = e_done f \<and> e_tries e = e_tries f \<and> e_notes e = e_notes (f :: entry)"
  by auto

lemma abs_append:
  assumes "item_row db w = Some it" "history_ok (map note_of (item_events db w)) s"
  shows "abs_ledger (appendEventTx w from to r gen why at db)
       = (abs_ledger db)(w \<mapsto> add_note from to (entry_of db it))"
proof -
  have "abs_ledger (appendEventTx w from to r gen why at db) w = Some (add_note from to (entry_of db it))"
    using assms(1) next_event_seq_eq [OF assms(2)] item_row_Some [OF assms(1)]
    by (simp add: abs_ledger_def row_simps entry_of_def add_note_def item_events_append note_of_def)
  then show ?thesis using abs_only_at [OF only_at_append [of w db]] by metis
qed

lemma abs_setState:
  assumes "item_row db w = Some r" "wi_id it = w" "wi_state it = wi_state r"
    "history_ok (map note_of (item_events db w)) s"
  shows "abs_ledger (setStateTx it to run gen why now db)
       = (abs_ledger db)(w \<mapsto> move_to to (entry_of db r))"
proof -
  define f :: "Item \<Rightarrow> Item" where "f = (\<lambda>r. r\<lparr>wi_state := to, wi_state_reason := why, wi_updated_at := now,
                 wi_terminal_at := (if Terminal to then Some now else wi_terminal_at r)\<rparr>)"
  let ?db = "upd_items (\<lambda>r. wi_id r = w) f db"
  have only: "only_at w db ?db" by (rule only_at_upd_items) (auto simp: f_def)
  have r: "item_row ?db w = Some (f r)"
    using assms(1) item_row_Some [OF assms(1)] by (subst item_row_upd) (auto simp: f_def)
  have "abs_ledger (setStateTx it to run gen why now db)
      = (abs_ledger ?db)(w \<mapsto> add_note (Some (wi_state r)) to (entry_of ?db (f r)))"
    unfolding setStateTx_def assms(2,3) f_def [symmetric]
    by (rule abs_append [OF r]) (use assms(4) in \<open>simp add: row_simps\<close>)
  also have "add_note (Some (wi_state r)) to (entry_of ?db (f r)) = move_to to (entry_of db r)"
    by (auto simp: entry_of_def row_simps f_def add_note_def move_to_def)
  finally show ?thesis using abs_only_at [OF only] by (simp add: fun_upd_def) metis
qed

lemma item_row_setState:
  "item_row (setStateTx it to run gen why now db) v =
     map_option (\<lambda>r. if wi_id r = wi_id it
        then r\<lparr>wi_state := to, wi_state_reason := why, wi_updated_at := now,
               wi_terminal_at := (if Terminal to then Some now else wi_terminal_at r)\<rparr> else r)
       (item_row db v)"
  unfolding setStateTx_def by (simp add: row_simps item_row_upd)

lemma item_row_setState_other:
  assumes "item_row db v = Some r" "v \<noteq> wi_id it"
  shows "item_row (setStateTx it to run gen why now db) v = Some r"
  using assms item_row_Some [OF assms(1)] by (simp add: item_row_setState)

lemma abs_items_keep:
  assumes "\<And>r. wi_id (f r) = wi_id r" "\<And>r. P r \<Longrightarrow> entry_of db (f r) = entry_of db r"
  shows "abs_ledger (upd_items P f db) = abs_ledger db"
proof
  fix v
  show "abs_ledger (upd_items P f db) v = abs_ledger db v"
    using assms unfolding abs_ledger_def item_row_upd [OF assms(1)]
    by (cases "item_row db v") (auto simp: entry_of_def row_simps)
qed

lemma abs_attempts_keep:
  assumes "\<And>a. wa_work_id (g a) = wa_work_id a" "\<And>a. P a \<Longrightarrow> trial_of (g a) = trial_of a"
  shows "abs_ledger (upd_attempts P g db) = abs_ledger db"
proof -
  have "map trial_of (upd_where P g as) = map trial_of as" for as
    using assms(2) by (intro map_upd_where_keep)
  then have "entry_of (upd_attempts P g db) = entry_of db"
    using assms(1) by (simp add: fun_eq_iff row_simps entry_of_def item_attempts_upd)
  then show ?thesis unfolding abs_ledger_def item_row_other by metis
qed

lemma abs_attempts_close:
  assumes "item_row db w = Some it" "\<And>a. wa_work_id (g a) = wa_work_id a"
    "\<And>a. a \<in> set (work_attempts db) \<Longrightarrow> P a \<Longrightarrow> wa_work_id a = w"
    "\<And>a. a \<in> set (item_attempts db w) \<Longrightarrow> wa_ended_at a = None \<Longrightarrow> P a"
    "\<And>a. P a \<Longrightarrow> trial_of (g a) = trial_of a\<lparr>t_open := False\<rparr>"
  shows "abs_ledger (upd_attempts P g db) = (abs_ledger db)(w \<mapsto> close_tries (entry_of db it))"
proof -
  have "map trial_of (upd_where P g (item_attempts db w))
      = map (\<lambda>t. t\<lparr>t_open := False\<rparr>) (map trial_of (item_attempts db w))"
    using assms(4,5) by (auto simp: upd_where_def trial_of_def)
  then have "abs_ledger (upd_attempts P g db) w = Some (close_tries (entry_of db it))"
    using assms(1,2) item_row_Some [OF assms(1)]
    by (simp add: abs_ledger_def row_simps entry_of_def close_tries_def item_attempts_upd)
  then show ?thesis using abs_only_at [OF only_at_upd_attempts [OF assms(2,3)]] by metis
qed

subsection \<open>Well-formedness of the tables\<close>

lemma wf_upd_items: "ledger_wf db \<Longrightarrow> (\<And>r. wi_id (f r) = wi_id r) \<Longrightarrow> ledger_wf (upd_items P f db)"
  by (simp add: ledger_wf_def row_simps map_upd_where_keep image_upd_where_keep)

lemma wf_upd_attempts:
  assumes "ledger_wf db" "\<And>a. wa_run_id (g a) = wa_run_id a" "\<And>a. wa_work_id (g a) = wa_work_id a"
  shows "ledger_wf (upd_attempts P g db)"
  using assms by (simp add: ledger_wf_def row_simps map_upd_where_keep image_upd_where_keep)

lemma wf_append:
  "ledger_wf db \<Longrightarrow> item_row db w = Some it \<Longrightarrow> ledger_wf (appendEventTx w from to r gen why at db)"
  using item_row_Some [of db w it] by (auto simp: ledger_wf_def appendEventTx_def)

lemma wf_setState:
  assumes "ledger_wf db" "item_row db w = Some r" "wi_id it = w"
  shows "ledger_wf (setStateTx it to run gen why now db)"
  unfolding setStateTx_def assms(3)
proof (rule wf_append)
  show "item_row (upd_items (\<lambda>r. wi_id r = w) (\<lambda>r. r\<lparr>wi_state := to, wi_state_reason := why,
      wi_updated_at := now, wi_terminal_at := (if Terminal to then Some now else wi_terminal_at r)\<rparr>) db) w
    = Some (r\<lparr>wi_state := to, wi_state_reason := why,
      wi_updated_at := now, wi_terminal_at := (if Terminal to then Some now else wi_terminal_at r)\<rparr>)"
    using assms(2) item_row_Some [OF assms(2)] by (subst item_row_upd) auto
qed (use assms(1) in \<open>simp add: wf_upd_items\<close>)

lemma wf_item_row: "ledger_wf db \<Longrightarrow> item_row db w = Some it \<longleftrightarrow> it \<in> set (work_items db) \<and> wi_id it = w"
  unfolding ledger_wf_def item_row_def by (intro items.find_key_iff) simp

lemma wf_attempt_row:
  "ledger_wf db \<Longrightarrow> attempt_row db r = Some a \<longleftrightarrow> a \<in> set (work_attempts db) \<and> wa_run_id a = r"
  unfolding ledger_wf_def attempt_row_def by (intro attempts.find_key_iff) simp

subsection \<open>Refinement of single operations\<close>

definition refines :: "work_db \<Rightarrow> work_db \<Rightarrow> bool" where
  "refines db db' \<longleftrightarrow> ledger_wf db' \<and> ledger_step\<^sup>*\<^sup>* (abs_ledger db) (abs_ledger db')"

lemma refines_good:
  assumes "good db" "refines db db'"
  shows "good db'"
proof -
  have "ledger_ok (abs_ledger db')"
    using assms(2) [unfolded refines_def, THEN conjunct2] assms(1)
    by (induction rule: rtranclp_induct) (auto simp: good_def ledger_step_ok)
  then show ?thesis using assms(2) by (simp add: good_def refines_def)
qed

lemma refines_refl: "good db \<Longrightarrow> refines db db"
  by (simp add: refines_def good_def)

lemma refines_trans: "refines a b \<Longrightarrow> refines b c \<Longrightarrow> refines a c"
  by (auto simp: refines_def)

lemma refines_same: "ledger_wf db' \<Longrightarrow> abs_ledger db' = abs_ledger db \<Longrightarrow> refines db db'"
  by (simp add: refines_def)

lemma refines_change:
  assumes "item_row db w = Some it" "ledger_wf db'" "abs_ledger db' = (abs_ledger db)(w \<mapsto> e')"
    "item_step (session_clear (abs_ledger db) w (wi_session_id it)) (entry_of db it) e'"
  shows "refines db db'"
proof -
  have "ledger_step (abs_ledger db) (abs_ledger db')"
    unfolding assms(3)
    using ledger_step.change [where L = "abs_ledger db" and w = w and e' = e', OF abs_item [OF assms(1)]]
      assms(4) by simp
  then show ?thesis using assms(2) by (auto simp: refines_def)
qed

lemma good_wf: "good db \<Longrightarrow> ledger_wf db"
  by (simp add: good_def)

lemma good_entry: "good db \<Longrightarrow> item_row db w = Some it \<Longrightarrow> entry_ok (entry_of db it)"
  by (auto simp: good_def ledger_ok_def dest: abs_item)

lemma good_history:
  assumes "good db" "item_row db w = Some it"
  shows "history_ok (map note_of (item_events db w)) (wi_state it)"
  using entry_okD(1) [OF good_entry [OF assms]] item_row_Some [OF assms(2)] by simp

lemma good_tries:
  assumes "good db" "item_row db w = Some it"
  shows "tries_ok (map trial_of (item_attempts db w)) (wi_generation it) (attempt_active (wi_state it))"
  using entry_okD(7) [OF good_entry [OF assms]] item_row_Some [OF assms(2)] by simp

lemma map_eq_last: "ts \<noteq> [] \<Longrightarrow> map f ts = map int [1..<Suc (length ts)] \<Longrightarrow> f (last ts) = int (length ts)"
  by (metis (no_types, lifting) last_map length_0_conv length_map map_append upto_snoc
      last_snoc length_Suc_conv_rev nat.exhaust of_nat_Suc add.commute)

lemma open_attempt:
  assumes "good db" "item_row db w = Some it" "a \<in> set (item_attempts db w)" "wa_ended_at a = None"
  shows "attempt_active (wi_state it) \<and> wa_generation a = wi_generation it
       \<and> a = last (item_attempts db w)"
proof -
  let ?ts = "item_attempts db w"
  note ok = good_tries [OF assms(1,2)]
  have active: "attempt_active (wi_state it)"
    using ok assms(3,4) by (auto simp: tries_ok_def trial_of_def split: if_splits)
  then have "\<forall>b \<in> set (butlast ?ts). wa_ended_at b \<noteq> None" "?ts \<noteq> []"
    using ok by (auto simp: tries_ok_def trial_of_def map_butlast [symmetric])
  then have "a = last ?ts"
    using assms(3,4) by (metis append_butlast_last_id in_set_conv_decomp Un_iff empty_iff list.set
        insert_iff set_append)
  moreover have "t_gen (last (map trial_of ?ts)) = wi_generation it"
    using ok \<open>?ts \<noteq> []\<close> map_eq_last [of "map trial_of ?ts" t_gen] by (simp add: tries_ok_def)
  ultimately show ?thesis using active \<open>?ts \<noteq> []\<close> by (simp add: last_map trial_of_def)
qed

lemma active_attempt:
  assumes "good db" "item_row db w = Some it" "attempt_active (wi_state it)"
  shows "\<exists>a. a \<in> set (item_attempts db w) \<and> wa_ended_at a = None"
proof -
  have "item_attempts db w \<noteq> []" "t_open (last (map trial_of (item_attempts db w)))"
    using good_tries [OF assms(1,2)] assms(3) by (auto simp: tries_ok_def)
  then show ?thesis by (intro exI [of _ "last (item_attempts db w)"]) (simp add: last_map trial_of_def)
qed

text \<open>
  The fence: the binding holds exactly for the open attempt of the item, which then is in an
  active state, and no other attempt of the item is open.
\<close>

lemma binding_iff:
  assumes "ledger_wf db"
  shows "verifyAttemptBindingTx db w run gen igen = Inr u \<longleftrightarrow>
           gen = igen \<and> (\<exists>a \<in> set (work_attempts db). bound_row w run gen a)"
proof (cases "attempt_row db run")
  case None
  then have "\<forall>a \<in> set (work_attempts db). wa_run_id a \<noteq> run"
    by (simp add: attempt_row_def attempts.find_key_None)
  then show ?thesis using None by (auto simp: verifyAttemptBindingTx_def bound_row_def)
next
  case (Some a)
  then have "b = a" if "b \<in> set (work_attempts db)" "wa_run_id b = run" for b
    using wf_attempt_row [OF assms, of run b] that by simp
  then have "(\<exists>b \<in> set (work_attempts db). bound_row w run gen b) \<longleftrightarrow> bound_row w run gen a"
    using attempt_row_Some [OF Some] unfolding bound_row_def by blast
  then show ?thesis using Some attempt_row_Some [OF Some]
    by (simp add: verifyAttemptBindingTx_def bound_row_def)
qed

lemma bound_unique:
  assumes "ledger_wf db" "a \<in> set (work_attempts db)" "bound_row w run gen a" "\<And>b. P b \<Longrightarrow> bound_row w run gen b"
  shows "count_where P (work_attempts db) = (if P a then 1 else 0)"
proof (cases "P a")
  case True
  have "count_where P (work_attempts db) = 1"
    using assms True by (intro attempts.count_key_eq1 [of _ _ run]) (auto simp: ledger_wf_def bound_row_def)
  then show ?thesis using True by simp
next
  case False
  have "b = a" if "b \<in> set (work_attempts db)" "P b" for b
    using assms that attempts.key_unique [of "work_attempts db" b a] by (auto simp: ledger_wf_def bound_row_def)
  then have "count_where P (work_attempts db) = 0" using False by (auto simp: count_where_0)
  then show ?thesis using False by simp
qed

lemma bound_facts:
  assumes "good db" "item_row db w = Some it" "a \<in> set (work_attempts db)" "bound_row w run gen a"
  shows "attempt_active (wi_state it)" "gen = wi_generation it"
    "\<And>b. b \<in> set (item_attempts db w) \<Longrightarrow> wa_ended_at b = None \<Longrightarrow> b = a"
proof -
  have a: "a \<in> set (item_attempts db w)" "wa_ended_at a = None"
    using assms(3,4) by (auto simp: item_attempts_in bound_row_def)
  note last = open_attempt [OF assms(1,2)]
  show "attempt_active (wi_state it)" "gen = wi_generation it"
    using last [OF a] assms(4) by (auto simp: bound_row_def)
  show "b = a" if "b \<in> set (item_attempts db w)" "wa_ended_at b = None" for b
    using last [OF a] last [OF that] by simp
qed

lemma close_bound:
  assumes "good db" "item_row db w = Some it" "a \<in> set (work_attempts db)" "bound_row w run gen a"
    "\<And>b. b \<in> set (work_attempts db) \<Longrightarrow> P b \<Longrightarrow> wa_work_id b = w" "P a"
    "\<And>b. wa_work_id (g b) = wa_work_id b" "\<And>b. P b \<Longrightarrow> trial_of (g b) = trial_of b\<lparr>t_open := False\<rparr>"
  shows "abs_ledger (upd_attempts P g db) = (abs_ledger db)(w \<mapsto> close_tries (entry_of db it))"
  using assms bound_facts(3) [OF assms(1-4)] by (intro abs_attempts_close) auto

text \<open>
  Moving work and closing its attempt, in either order: the shape that transitions, recovery and
  deferral share.
\<close>

lemma setState_upd_attempts:
  "setStateTx it to run gen why now (upd_attempts P g db)
     = upd_attempts P g (setStateTx it to run gen why now db)"
  by (simp add: setStateTx_def upd_attempts_def upd_items_def appendEventTx_def next_event_seq_def)

lemma entry_of_closed:
  assumes "abs_ledger db' = (abs_ledger db)(w \<mapsto> e)" "item_row db' w = Some r"
  shows "entry_of db' r = e"
  using abs_item [OF assms(2)] assms(1) by simp

lemma close_and_move:
  assumes "good db" "item_row db w = Some r" "a \<in> set (work_attempts db)" "bound_row w run gen a"
    "\<And>b. b \<in> set (work_attempts db) \<Longrightarrow> P b \<Longrightarrow> wa_work_id b = w" "P a"
    "\<And>b. wa_work_id (g b) = wa_work_id b" "\<And>b. wa_run_id (g b) = wa_run_id b"
    "\<And>b. P b \<Longrightarrow> trial_of (g b) = trial_of b\<lparr>t_open := False\<rparr>"
    and it: "wi_id it = w" "wi_state it = wi_state r"
    and to: "CanTransition (wi_state it) to \<or> to = StateQueued" "\<not> attempt_active to"
  shows "refines db (setStateTx it to run' gen' why now (upd_attempts P g db))"
proof -
  let ?db = "upd_attempts P g db"
  have row: "item_row ?db w = Some r" using assms(2) by (simp add: row_simps)
  have closed: "abs_ledger ?db = (abs_ledger db)(w \<mapsto> close_tries (entry_of db r))"
    using assms by (intro close_bound) auto
  have "abs_ledger (setStateTx it to run' gen' why now ?db)
      = (abs_ledger ?db)(w \<mapsto> move_to to (entry_of ?db r))"
    using good_history [OF assms(1,2)] by (intro abs_setState [OF row it]) (auto simp: row_simps)
  also have "\<dots> = (abs_ledger db)(w \<mapsto> move_to to (close_tries (entry_of db r)))"
    by (simp add: closed entry_of_closed [OF closed row])
  finally show ?thesis
  proof (rule refines_change [OF assms(2), rotated])
    show "item_step (session_clear (abs_ledger db) w (wi_session_id r)) (entry_of db r)
            (move_to to (close_tries (entry_of db r)))"
      using to it bound_facts(1) [OF assms(1-4)] by (intro item_step.close) auto
    show "ledger_wf (setStateTx it to run' gen' why now ?db)"
      using assms by (intro wf_setState [OF _ row] wf_upd_attempts good_wf) auto
  qed
qed

lemma move_refines:
  assumes "good db" "item_row db w = Some r" and it: "wi_id it = w" "wi_state it = wi_state r"
    and step: "item_step (session_clear (abs_ledger db) w (wi_session_id r)) (entry_of db r)
                 (move_to to (entry_of db r))"
  shows "refines db (setStateTx it to run gen why now db)"
proof (rule refines_change [OF assms(2) _ _ step])
  show "ledger_wf (setStateTx it to run gen why now db)"
    using assms(1,2) it by (intro wf_setState good_wf)
  show "abs_ledger (setStateTx it to run gen why now db) = (abs_ledger db)(w \<mapsto> move_to to (entry_of db r))"
    using good_history [OF assms(1,2)] by (intro abs_setState [OF assms(2) it])
qed

lemma open_attempt_count:
  assumes "good db" "item_row db (wi_id w) = Some w"
  shows "count_where (\<lambda>a. wa_work_id a = wi_id w \<and> wa_ended_at a = None) (work_attempts db)
           = (if attempt_active (wi_state w) then 1 else 0)
       \<and> (\<forall>a \<in> set (work_attempts db). wa_work_id a = wi_id w \<and> wa_ended_at a = None \<longrightarrow>
             wa_generation a = wi_generation w)"
    (is "count_where ?P ?as = _ \<and> _")
proof
  have opened: "attempt_active (wi_state w) \<and> wa_generation a = wi_generation w
      \<and> a = last (item_attempts db (wi_id w))" if "a \<in> set ?as" "?P a" for a
    by (rule open_attempt [OF assms]) (use that in \<open>simp_all add: item_attempts_in\<close>)
  then show "\<forall>a \<in> set ?as. ?P a \<longrightarrow> wa_generation a = wi_generation w" by blast
  show "count_where ?P ?as = (if attempt_active (wi_state w) then 1 else 0)"
  proof (cases "attempt_active (wi_state w)")
    case True
    then obtain a where a: "a \<in> set ?as" "?P a"
      using active_attempt [OF assms] by (auto simp: item_attempts_in)
    have same: "wa_run_id b = wa_run_id a" if "b \<in> set ?as" "?P b" for b
      using opened [OF a] opened [OF that] by metis
    have "distinct (map wa_run_id ?as)" using good_wf [OF assms(1)] by (simp add: ledger_wf_def)
    then have "count_where ?P ?as = 1" using same a by (rule attempts.count_key_eq1)
    then show ?thesis using True by simp
  next
    case False
    then have "count_where ?P ?as = 0" using opened unfolding count_where_0 by blast
    then show ?thesis using False by simp
  qed
qed

lemma History_events:
  assumes "good db" "item_row db w = Some it"
  shows "History db w = item_events db w"
proof -
  have "map we_seq (item_events db w) = map n_seq (map note_of (item_events db w))"
    by (simp add: note_of_def)
  also have "\<dots> = map int [1..<Suc (length (item_events db w))]"
    using good_history [OF assms] by (simp add: history_ok_def)
  finally have "sorted (map we_seq (item_events db w))"
    by (simp add: sorted_map sorted_wrt_map del: upt_Suc)
  then show ?thesis
    unfolding History_def item_events_def [symmetric] by (rule sort_key_id_if_sorted)
qed

lemma good_generation_pos:
  assumes "good db" "item_row db w = Some it" "attempt_active (wi_state it)"
  shows "0 < wi_generation it"
proof -
  have "map trial_of (item_attempts db w) \<noteq> []" "wi_generation it = int (length (map trial_of (item_attempts db w)))"
    using good_tries [OF assms(1,2)] assms(3) by (auto simp: tries_ok_def)
  then show ?thesis by (simp del: length_map)
qed

lemma setStateTx_attempt_row: "attempt_row (setStateTx it to run gen why now db) r = attempt_row db r"
  by (simp add: attempt_row_def row_simps)

end
