(* ===== verification/Work_Ingress.thy ===== *)
theory Work_Ingress
  imports Work_Store "HOL-Library.Char_ord" "HOL-Library.List_Lexorder"
begin

text \<open>
  Arrivals: the capacity contract of \<^verbatim>\<open>internal/work/capacity.go\<close> and the delivery ledger of
  \<^verbatim>\<open>internal/work/delivery.go\<close>.  A delivery is recorded together with the work it produced, a
  re-delivery gets the original receipt back, and a full endpoint or workspace refuses new work.
  The disk probe of the operating system is an argument of \<open>DiskGuard_Check\<close>.
\<close>

subsection \<open>Limits\<close>

definition IngressRetryAfter :: time where "IngressRetryAfter = 5 * second"

definition IsIngressFull :: "work_error \<Rightarrow> bool" where
  "IsIngressFull err \<longleftrightarrow> err = ErrEndpointFull \<or> err = ErrWorkspaceFull \<or> err = ErrWorkspaceBytesFull
     \<or> err = ErrDiskPressure"

definition DefaultEndpointNonTerminal :: int where "DefaultEndpointNonTerminal = 2000"
definition DefaultWorkspaceNonTerminal :: int where "DefaultWorkspaceNonTerminal = 10000"
definition DefaultWorkspaceRawBytes :: int where "DefaultWorkspaceRawBytes = 256 * 2 ^ 20"
definition DefaultMinFreeDiskBytes :: int where "DefaultMinFreeDiskBytes = 2 ^ 30"

record IngressLimits =
  EndpointNonTerminal :: int
  WorkspaceNonTerminal :: int
  WorkspaceRawBytes :: int

definition DefaultIngressLimits :: IngressLimits where
  "DefaultIngressLimits = \<lparr>EndpointNonTerminal = DefaultEndpointNonTerminal,
     WorkspaceNonTerminal = DefaultWorkspaceNonTerminal, WorkspaceRawBytes = DefaultWorkspaceRawBytes\<rparr>"

definition normalized_limits :: "IngressLimits \<Rightarrow> IngressLimits" where
  "normalized_limits l =
     \<lparr>EndpointNonTerminal =
        (if EndpointNonTerminal l \<le> 0 then DefaultEndpointNonTerminal else EndpointNonTerminal l),
      WorkspaceNonTerminal =
        (if WorkspaceNonTerminal l \<le> 0 then DefaultWorkspaceNonTerminal else WorkspaceNonTerminal l),
      WorkspaceRawBytes =
        (if WorkspaceRawBytes l \<le> 0 then DefaultWorkspaceRawBytes else WorkspaceRawBytes l)\<rparr>"

record IngressRequest =
  ig_WorkspaceID :: string
  ig_EndpointID :: string
  ig_SourceDeliveryID :: string
  ig_ContentKey :: string
  ig_BodyBytes :: int

subsection \<open>Deliveries\<close>

text \<open>The argument of an acceptance; a zero time and a nil body are \<open>None\<close>.\<close>

record NewDelivery =
  nd_ID :: string
  nd_WorkspaceID :: string
  nd_EndpointID :: string
  nd_EndpointKind :: string
  nd_Profile :: string
  nd_SourceDeliveryID :: string
  nd_ContentKey :: string
  nd_BodySHA256 :: string
  nd_BodyBytes :: int
  nd_RawBody :: "string option"
  nd_RawBodyExpiresAt :: "time option"
  nd_EventType :: string
  nd_EventAction :: string
  nd_SigningKeyID :: string
  nd_FilterDecision :: FilterDecision
  nd_FilterReason :: string
  nd_TargetRevision :: string
  nd_ReceivedAt :: "time option"
  nd_DedupExpiresAt :: "time option"

definition DefaultDedupWindow :: time where "DefaultDedupWindow = 30 * 24 * 3600 * second"

definition delivery_row :: "work_db \<Rightarrow> string \<Rightarrow> Delivery option" where
  "delivery_row db i = find (\<lambda>d. wd_id d = i) (webhook_deliveries db)"

text \<open>The state of the work behind a delivery: \<open>work_items\<close> joined on \<open>work_id\<close>.\<close>

definition joined_item :: "work_db \<Rightarrow> Delivery \<Rightarrow> Item option" where
  "joined_item db d = (case wd_work_id d of None \<Rightarrow> None | Some w \<Rightarrow> item_row db w)"

definition feeds_nonterminal :: "work_db \<Rightarrow> Delivery \<Rightarrow> bool" where
  "feeds_nonterminal db d =
     (case joined_item db d of None \<Rightarrow> False | Some w \<Rightarrow> in_state_list (\<lambda>s. \<not> Terminal s) (wi_state w))"

definition null_text :: "string option \<Rightarrow> string" where
  "null_text v = (case v of None \<Rightarrow> '''' | Some s \<Rightarrow> s)"

definition fillReceiptStateTx :: "work_db \<Rightarrow> Receipt \<Rightarrow> Receipt" where
  "fillReceiptStateTx db r =
     (if rc_WorkID r = '''' then r
      else case item_row db (rc_WorkID r) of None \<Rightarrow> r | Some w \<Rightarrow> r\<lparr>rc_State := Some (wi_state w)\<rparr>)"

definition recorded_receipt :: "work_db \<Rightarrow> Delivery \<Rightarrow> Receipt" where
  "recorded_receipt db d =
     fillReceiptStateTx db \<lparr>rc_WorkID = null_text (wd_work_id d), rc_DeliveryID = wd_id d,
                            rc_State = None, rc_Duplicate = True\<rparr>"

definition by_source :: "work_db \<Rightarrow> string \<Rightarrow> string \<Rightarrow> string \<Rightarrow> Delivery option" where
  "by_source db ws ep src = find (\<lambda>d. wd_workspace_id d = ws \<and> wd_endpoint_id d = ep
     \<and> wd_source_delivery_id d = src) (webhook_deliveries db)"

definition by_content :: "work_db \<Rightarrow> string \<Rightarrow> string \<Rightarrow> string \<Rightarrow> Delivery option" where
  "by_content db ws ep key = find (\<lambda>d. wd_workspace_id d = ws \<and> wd_endpoint_id d = ep
     \<and> wd_content_key d = key) (webhook_deliveries db)"

definition lookupDeliveryTx :: "work_db \<Rightarrow> string \<Rightarrow> string \<Rightarrow> string \<Rightarrow> string \<Rightarrow> string
    \<Rightarrow> work_error + Receipt option" where
  "lookupDeliveryTx db ws ep src key sha =
     (case by_source db ws ep src of
        Some d \<Rightarrow>
          if sha \<noteq> '''' \<and> wd_body_sha256 d \<noteq> sha then Inl ErrDeliveryConflict
          else Inr (Some (recorded_receipt db d))
      | None \<Rightarrow>
          if key = '''' then Inr None
          else case by_content db ws ep key of
                 None \<Rightarrow> Inr None
               | Some d \<Rightarrow> Inr (Some (recorded_receipt db d)))"

subsection \<open>Capacity\<close>

definition countEndpointNonTerminalTx :: "work_db \<Rightarrow> string \<Rightarrow> string \<Rightarrow> int" where
  "countEndpointNonTerminalTx db ws ep =
     int (count_where (\<lambda>d. wd_workspace_id d = ws \<and> wd_endpoint_id d = ep \<and> feeds_nonterminal db d)
       (webhook_deliveries db))"

text \<open>
  \<open>SUM\<close> fails when an intermediate sum leaves the 64-bit range; the sum of the two subqueries
  then turns into a real number, which does not scan into an \<open>int64\<close>.  Both are \<open>None\<close>.
\<close>

definition fits64 :: "int \<Rightarrow> bool" where
  "fits64 n \<longleftrightarrow> - (2 ^ 63) \<le> n \<and> n < 2 ^ 63"

fun sql_sum :: "int \<Rightarrow> int list \<Rightarrow> int option" where
  "sql_sum acc [] = Some acc"
| "sql_sum acc (n # ns) = (if fits64 (acc + n) then sql_sum (acc + n) ns else None)"

definition nonterminal_items :: "work_db \<Rightarrow> string \<Rightarrow> Item list" where
  "nonterminal_items db ws =
     filter (\<lambda>w. wi_workspace_id w = ws \<and> in_state_list (\<lambda>s. \<not> Terminal s) (wi_state w)) (work_items db)"

definition webhook_sizes :: "work_db \<Rightarrow> string \<Rightarrow> int list" where
  "webhook_sizes db ws =
     map wd_body_bytes (filter (\<lambda>d. wd_workspace_id d = ws \<and> feeds_nonterminal db d) (webhook_deliveries db))"

definition input_sizes :: "work_db \<Rightarrow> string \<Rightarrow> int list" where
  "input_sizes db ws =
     map (\<lambda>w. int (length (wi_input_json w)))
       (filter (\<lambda>w. source_string (wi_source w) \<noteq> ''webhook'') (nonterminal_items db ws))"

definition countWorkspaceNonTerminalTx :: "work_db \<Rightarrow> string \<Rightarrow> work_error + int \<times> int" where
  "countWorkspaceNonTerminalTx db ws =
     (case (sql_sum 0 (webhook_sizes db ws), sql_sum 0 (input_sizes db ws)) of
        (Some a, Some b) \<Rightarrow>
          if fits64 (a + b) then Inr (int (length (nonterminal_items db ws)), a + b) else Inl ErrInvalid
      | _ \<Rightarrow> Inl ErrInvalid)"

definition CheckIngressTx :: "IngressLimits \<Rightarrow> IngressRequest \<Rightarrow> work_db \<Rightarrow> work_error option" where
  "CheckIngressTx lim req db =
     (let lim = normalized_limits lim;
          dup = (if ig_SourceDeliveryID req \<noteq> ''''
                 then lookupDeliveryTx db (ig_WorkspaceID req) (ig_EndpointID req)
                        (ig_SourceDeliveryID req) (ig_ContentKey req) ''''
                 else Inr None)
      in case dup of
           Inl e \<Rightarrow> Some e
         | Inr (Some r) \<Rightarrow> None
         | Inr None \<Rightarrow>
             if countEndpointNonTerminalTx db (ig_WorkspaceID req) (ig_EndpointID req)
                  \<ge> EndpointNonTerminal lim then Some ErrEndpointFull
             else case countWorkspaceNonTerminalTx db (ig_WorkspaceID req) of
                    Inl e \<Rightarrow> Some e
                  | Inr (n, bytes) \<Rightarrow>
                      if n \<ge> WorkspaceNonTerminal lim then Some ErrWorkspaceFull
                      else if wrap64 (bytes + ig_BodyBytes req) > WorkspaceRawBytes lim
                        then Some ErrWorkspaceBytesFull
                      else None)"

subsection \<open>Acceptance of a delivery\<close>

definition new_delivery_row :: "NewDelivery \<Rightarrow> string \<Rightarrow> time \<Rightarrow> time \<Rightarrow> string option \<Rightarrow> Delivery" where
  "new_delivery_row d newid received dedup workID =
     \<lparr>wd_id = newid, wd_workspace_id = nd_WorkspaceID d, wd_endpoint_id = nd_EndpointID d,
      wd_endpoint_kind = nd_EndpointKind d, wd_profile = nd_Profile d,
      wd_source_delivery_id = nd_SourceDeliveryID d, wd_content_key = nd_ContentKey d,
      wd_body_sha256 = nd_BodySHA256 d, wd_body_bytes = nd_BodyBytes d, wd_raw_body = nd_RawBody d,
      wd_raw_body_expires_at = nd_RawBodyExpiresAt d, wd_event_type = nd_EventType d,
      wd_event_action = nd_EventAction d, wd_signing_key_id = nd_SigningKeyID d,
      wd_filter_decision = nd_FilterDecision d, wd_filter_reason = nd_FilterReason d,
      wd_target_revision = nd_TargetRevision d, wd_work_id = workID,
      wd_received_at = received, wd_dedup_expires_at = dedup\<rparr>"

text \<open>
  The primary key and the two unique indexes of \<open>webhook_deliveries\<close>, and its foreign key.  A
  violated unique index is answered with \<open>ErrDuplicateDelivery\<close>, which is how the caller
  recognises it.
\<close>

definition delivery_conflict :: "Delivery \<Rightarrow> Delivery \<Rightarrow> bool" where
  "delivery_conflict r s \<longleftrightarrow>
     wd_id r = wd_id s
   \<or> wd_workspace_id r = wd_workspace_id s \<and> wd_endpoint_id r = wd_endpoint_id s
       \<and> (wd_source_delivery_id r = wd_source_delivery_id s
          \<or> wd_content_key r \<noteq> '''' \<and> wd_content_key r = wd_content_key s)"

definition insert_delivery :: "Delivery \<Rightarrow> work_db \<Rightarrow> work_error + work_db" where
  "insert_delivery r db =
     (if list_ex (delivery_conflict r) (webhook_deliveries db) then Inl ErrDuplicateDelivery
      else if (case wd_work_id r of None \<Rightarrow> False | Some w \<Rightarrow> item_row db w = None) then Inl ErrConstraint
      else Inr (db\<lparr>webhook_deliveries := webhook_deliveries db @ [r]\<rparr>))"

text \<open>
  The work half of an acceptance: nothing for an ignored delivery, otherwise the capacity check
  and \<open>AcceptTx\<close>.
\<close>

definition accept_work :: "IngressLimits \<Rightarrow> time \<Rightarrow> string \<Rightarrow> string \<Rightarrow> NewDelivery \<Rightarrow> AcceptRequest
    \<Rightarrow> work_db \<Rightarrow> work_error + (Receipt \<times> string option \<times> work_db)" where
  "accept_work lim now deliveryID newid d w db =
     (if nd_FilterDecision d = FilterAccepted then
        case CheckIngressTx lim \<lparr>ig_WorkspaceID = nd_WorkspaceID d, ig_EndpointID = nd_EndpointID d,
               ig_SourceDeliveryID = nd_SourceDeliveryID d, ig_ContentKey = '''',
               ig_BodyBytes = nd_BodyBytes d\<rparr> db of
          Some e \<Rightarrow> Inl e
        | None \<Rightarrow>
            (case AcceptTx now newid
                    (w\<lparr>ar_SourceRef := deliveryID,
                       ar_TargetRevision := (if ar_TargetRevision w = '''' then nd_TargetRevision d
                                             else ar_TargetRevision w)\<rparr>) db of
               Inl e \<Rightarrow> Inl e
             | Inr (r, db1) \<Rightarrow> Inr (r, Some (rc_WorkID r), db1))
      else Inr (\<lparr>rc_WorkID = '''', rc_DeliveryID = '''', rc_State = None, rc_Duplicate = False\<rparr>, None, db))"

text \<open>
  \<open>AcceptDeliveryTx\<close>.  The generator is asked for the delivery's identifier first, when the caller
  gave none, and then for the work's.  After a violated unique index the lookup is repeated.
\<close>

definition AcceptDeliveryTx :: "IngressLimits \<Rightarrow> time \<Rightarrow> string \<Rightarrow> string \<Rightarrow> NewDelivery \<Rightarrow> AcceptRequest
    \<Rightarrow> work_db \<Rightarrow> work_error + (Receipt \<times> work_db)" where
  "AcceptDeliveryTx lim now idD idW d w db =
     (let lookup = lookupDeliveryTx db (nd_WorkspaceID d) (nd_EndpointID d) (nd_SourceDeliveryID d)
                     (nd_ContentKey d) (nd_BodySHA256 d)
      in if blank (nd_WorkspaceID d) \<or> blank (nd_EndpointID d) then Inl ErrInvalid
         else if blank (nd_SourceDeliveryID d) then Inl ErrInvalid
         else if nd_FilterDecision d \<noteq> FilterAccepted \<and> nd_FilterDecision d \<noteq> FilterIgnored
           then Inl ErrInvalid
         else case lookup of
           Inl e \<Rightarrow> Inl e
         | Inr (Some existing) \<Rightarrow> Inr (existing, db)
         | Inr None \<Rightarrow>
             (let received = (case nd_ReceivedAt d of None \<Rightarrow> now | Some t \<Rightarrow> t);
                  dedup = (case nd_DedupExpiresAt d of None \<Rightarrow> received + DefaultDedupWindow | Some t \<Rightarrow> t);
                  i = (if nd_ID d = '''' then idD else nd_ID d)
              in case accept_work lim now i idW d w db of
                   Inl e \<Rightarrow> Inl e
                 | Inr (receipt, workID, db1) \<Rightarrow>
                     (case insert_delivery (new_delivery_row d i received dedup workID) db1 of
                        Inl ErrDuplicateDelivery \<Rightarrow>
                          (case lookupDeliveryTx db1 (nd_WorkspaceID d) (nd_EndpointID d)
                                  (nd_SourceDeliveryID d) (nd_ContentKey d) (nd_BodySHA256 d) of
                             Inr (Some existing) \<Rightarrow> Inr (existing, db1)
                           | _ \<Rightarrow> Inl ErrDuplicateDelivery)
                      | Inl e \<Rightarrow> Inl e
                      | Inr db2 \<Rightarrow>
                          Inr (receipt\<lparr>rc_DeliveryID := i,
                                 rc_State := (if nd_FilterDecision d = FilterIgnored then None
                                              else rc_State receipt)\<rparr>, db2))))"

definition LookupDelivery :: "work_db \<Rightarrow> string \<Rightarrow> string \<Rightarrow> string \<Rightarrow> string list \<Rightarrow> work_error + Receipt" where
  "LookupDelivery db ws ep src expected =
     (case lookupDeliveryTx db ws ep src '''' (case expected of [] \<Rightarrow> '''' | e # _ \<Rightarrow> e) of
        Inl e \<Rightarrow> Inl e
      | Inr None \<Rightarrow> Inl ErrNotFound
      | Inr (Some r) \<Rightarrow> Inr r)"

subsection \<open>Disk pressure\<close>

record DiskGuard =
  dg_Path :: string
  dg_MinFree :: int

text \<open>
  The probe answers the free bytes of a volume (a \<open>uint64\<close>) or fails; the comparison reads them
  as an \<open>int64\<close>.
\<close>

definition DiskGuard_Check :: "(string \<Rightarrow> 64 word option) \<Rightarrow> DiskGuard option \<Rightarrow> work_error option" where
  "DiskGuard_Check probe g =
     (case g of
        None \<Rightarrow> None
      | Some g \<Rightarrow>
          if dg_Path g = '''' then None
          else case probe (dg_Path g) of
                 None \<Rightarrow> None
               | Some free \<Rightarrow>
                   if sint free < (if dg_MinFree g \<le> 0 then DefaultMinFreeDiskBytes else dg_MinFree g)
                   then Some ErrDiskPressure else None)"

definition NewDiskGuard :: "string \<Rightarrow> DiskGuard" where
  "NewDiskGuard path = \<lparr>dg_Path = path, dg_MinFree = DefaultMinFreeDiskBytes\<rparr>"

subsection \<open>The capacity report\<close>

record WorkspaceUsage =
  wu_WorkspaceID :: string
  wu_NonTerminalItems :: int
  wu_NonTerminalBytes :: int
  wu_TerminalPayloadBytes :: int
  wu_ExpiredPayloads :: int
  wu_Limits :: IngressLimits

definition Remaining :: "WorkspaceUsage \<Rightarrow> int \<times> int" where
  "Remaining u =
     (let items = WorkspaceNonTerminal (wu_Limits u) - wu_NonTerminalItems u;
          bytes = wrap64 (WorkspaceRawBytes (wu_Limits u) - wu_NonTerminalBytes u)
      in (if items < 0 then 0 else items, if bytes < 0 then 0 else bytes))"

text \<open>A delivery that does not feed live work: it has no work, or its work is terminal.\<close>

definition finished_delivery :: "work_db \<Rightarrow> Delivery \<Rightarrow> bool" where
  "finished_delivery db d =
     (wd_work_id d = None
      \<or> (case joined_item db d of None \<Rightarrow> False | Some w \<Rightarrow> in_state_list Terminal (wi_state w)))"

definition WorkspaceUsage_report :: "work_db \<Rightarrow> string \<Rightarrow> IngressLimits \<Rightarrow> work_error + WorkspaceUsage" where
  "WorkspaceUsage_report db ws lim =
     (let done = filter (\<lambda>d. wd_workspace_id d = ws \<and> finished_delivery db d) (webhook_deliveries db)
      in case countWorkspaceNonTerminalTx db ws of
           Inl e \<Rightarrow> Inl e
         | Inr (n, bytes) \<Rightarrow>
             (case sql_sum 0 (map (\<lambda>d. if wd_raw_body d \<noteq> None then wd_body_bytes d else 0) done) of
                None \<Rightarrow> Inl ErrInvalid
              | Some kept \<Rightarrow>
                  Inr \<lparr>wu_WorkspaceID = ws, wu_NonTerminalItems = n, wu_NonTerminalBytes = bytes,
                       wu_TerminalPayloadBytes = kept,
                       wu_ExpiredPayloads = int (count_where (\<lambda>d. wd_raw_body d = None
                         \<and> wd_raw_body_expires_at d \<noteq> None) done),
                       wu_Limits = normalized_limits lim\<rparr>))"

fun collect_reports :: "('a \<Rightarrow> 'e + 'b) \<Rightarrow> 'a list \<Rightarrow> 'e + 'b list" where
  "collect_reports f [] = Inr []"
| "collect_reports f (x # xs) =
     (case f x of Inl e \<Rightarrow> Inl e
      | Inr y \<Rightarrow> (case collect_reports f xs of Inl e \<Rightarrow> Inl e | Inr ys \<Rightarrow> Inr (y # ys)))"

definition usage_workspaces :: "work_db \<Rightarrow> string list" where
  "usage_workspaces db =
     sort (remdups (map wi_workspace_id (work_items db) @ map wd_workspace_id (webhook_deliveries db)))"

definition UsageReport :: "work_db \<Rightarrow> IngressLimits \<Rightarrow> work_error + WorkspaceUsage list" where
  "UsageReport db lim = collect_reports (\<lambda>ws. WorkspaceUsage_report db ws lim) (usage_workspaces db)"

definition ReferenceTerminalDeliveries :: int where "ReferenceTerminalDeliveries = 36000"
definition ReferenceBodyBytes :: int where "ReferenceBodyBytes = 64 * 2 ^ 10"

definition ProjectedTerminalPayloadBytes :: "int \<Rightarrow> int \<Rightarrow> int" where
  "ProjectedTerminalPayloadBytes n avg = (if n \<le> 0 \<or> avg \<le> 0 then 0 else wrap64 (n * avg))"

definition ReferenceTerminalPayloadBytes :: int where
  "ReferenceTerminalPayloadBytes = ProjectedTerminalPayloadBytes ReferenceTerminalDeliveries ReferenceBodyBytes"

subsection \<open>What an acceptance does\<close>

lemma AcceptTx_frame:
  assumes "AcceptTx now newid req db = Inr (r, db')"
  shows "webhook_deliveries db' = webhook_deliveries db"
    "work_items db' = work_items db @ [accepted_item now newid req]"
    "r = \<lparr>rc_WorkID = newid, rc_DeliveryID = '''', rc_State = Some StateQueued, rc_Duplicate = False\<rparr>"
  using assms by (auto simp: AcceptTx_def insert_item_def row_simps split: if_splits sum.splits)

lemma lookup_None:
  "lookupDeliveryTx db ws ep src key sha = Inr None \<longleftrightarrow>
     by_source db ws ep src = None \<and> (key = '''' \<or> by_content db ws ep key = None)"
  by (auto simp: lookupDeliveryTx_def split: option.splits)

lemma lookup_same_deliveries:
  assumes "webhook_deliveries db' = webhook_deliveries db" "lookupDeliveryTx db ws ep src key sha = Inr None"
  shows "lookupDeliveryTx db' ws ep src key sha = Inr None"
  using assms by (simp add: lookup_None by_source_def by_content_def)

definition delivered_row :: "time \<Rightarrow> string \<Rightarrow> NewDelivery \<Rightarrow> string option \<Rightarrow> Delivery" where
  "delivered_row now idD d workID =
     (let received = (case nd_ReceivedAt d of None \<Rightarrow> now | Some t \<Rightarrow> t)
      in new_delivery_row d (if nd_ID d = '''' then idD else nd_ID d) received
           (case nd_DedupExpiresAt d of None \<Rightarrow> received + DefaultDedupWindow | Some t \<Rightarrow> t) workID)"

lemma accept_work_cases:
  assumes "accept_work lim now i newid d w db = Inr (r, workID, db')"
  obtains (ignored) "nd_FilterDecision d \<noteq> FilterAccepted" "workID = None" "db' = db"
      "r = \<lparr>rc_WorkID = '''', rc_DeliveryID = '''', rc_State = None, rc_Duplicate = False\<rparr>"
  | (accepted) req where "nd_FilterDecision d = FilterAccepted" "workID = Some newid"
      "req = w\<lparr>ar_SourceRef := i, ar_TargetRevision := (if ar_TargetRevision w = '''' then nd_TargetRevision d
                                                      else ar_TargetRevision w)\<rparr>"
      "AcceptTx now newid req db = Inr (r, db')"
      "CheckIngressTx lim \<lparr>ig_WorkspaceID = nd_WorkspaceID d, ig_EndpointID = nd_EndpointID d,
         ig_SourceDeliveryID = nd_SourceDeliveryID d, ig_ContentKey = '''', ig_BodyBytes = nd_BodyBytes d\<rparr> db = None"
  using assms AcceptTx_frame(3)
  by (auto simp: accept_work_def split: if_splits option.splits sum.splits prod.splits) fastforce+

lemma insert_delivery_Inr:
  "insert_delivery r db = Inr db' \<longleftrightarrow>
     (\<forall>s \<in> set (webhook_deliveries db). \<not> delivery_conflict r s)
     \<and> (case wd_work_id r of None \<Rightarrow> True | Some w \<Rightarrow> item_row db w \<noteq> None)
     \<and> db' = db\<lparr>webhook_deliveries := webhook_deliveries db @ [r]\<rparr>"
  by (auto simp: insert_delivery_def list_ex_iff split: option.splits)

text \<open>
  A successful acceptance either found the delivery already recorded and wrote nothing, or it
  recorded it with the work it produced.  The repeated lookup after a violated index never
  answers: the lookup before it looked at the same rows.
\<close>

lemma AcceptDeliveryTx_cases:
  assumes "AcceptDeliveryTx lim now idD idW d w db = Inr (r, db')"
  obtains (duplicate) "lookupDeliveryTx db (nd_WorkspaceID d) (nd_EndpointID d) (nd_SourceDeliveryID d)
        (nd_ContentKey d) (nd_BodySHA256 d) = Inr (Some r)" "db' = db"
  | (recorded) r1 workID db1 row where
      "lookupDeliveryTx db (nd_WorkspaceID d) (nd_EndpointID d) (nd_SourceDeliveryID d)
        (nd_ContentKey d) (nd_BodySHA256 d) = Inr None"
      "nd_FilterDecision d = FilterAccepted \<or> nd_FilterDecision d = FilterIgnored"
      "row = delivered_row now idD d workID"
      "accept_work lim now (wd_id row) idW d w db = Inr (r1, workID, db1)"
      "insert_delivery row db1 = Inr db'"
      "r = r1\<lparr>rc_DeliveryID := wd_id row,
              rc_State := (if nd_FilterDecision d = FilterIgnored then None else rc_State r1)\<rparr>"
proof -
  let ?lookup = "\<lambda>db. lookupDeliveryTx db (nd_WorkspaceID d) (nd_EndpointID d) (nd_SourceDeliveryID d)
        (nd_ContentKey d) (nd_BodySHA256 d)"
  have dec: "nd_FilterDecision d = FilterAccepted \<or> nd_FilterDecision d = FilterIgnored"
    using assms by (auto simp: AcceptDeliveryTx_def Let_def split: if_splits)
  consider x where "?lookup db = Inr (Some x)" | "?lookup db = Inr None" | e where "?lookup db = Inl e"
    by (metis sum.exhaust option.exhaust)
  then show thesis
  proof cases
    case 1
    then show thesis using assms duplicate by (auto simp: AcceptDeliveryTx_def split: if_splits)
  next
    case 3
    then show thesis using assms by (auto simp: AcceptDeliveryTx_def split: if_splits)
  next
    case 2
    let ?i = "if nd_ID d = '''' then idD else nd_ID d"
    obtain r1 workID db1 where aw: "accept_work lim now ?i idW d w db = Inr (r1, workID, db1)"
      using assms 2 by (auto simp: AcceptDeliveryTx_def Let_def split: if_splits sum.splits)
    have "webhook_deliveries db1 = webhook_deliveries db"
      using aw by (cases rule: accept_work_cases) (auto dest: AcceptTx_frame)
    then have l1: "?lookup db1 = Inr None" using 2 by (rule lookup_same_deliveries)
    have id: "wd_id (delivered_row now idD d workID) = ?i"
      by (simp add: delivered_row_def new_delivery_row_def Let_def)
    have "insert_delivery (delivered_row now idD d workID) db1 = Inr db' \<and>
        r = r1\<lparr>rc_DeliveryID := ?i, rc_State := (if nd_FilterDecision d = FilterIgnored then None else rc_State r1)\<rparr>"
      using assms 2 l1 aw unfolding delivered_row_def
      by (auto simp: AcceptDeliveryTx_def Let_def split: if_splits sum.splits work_error.splits)
    then show thesis using recorded [OF 2 dec refl, of workID r1 db1] aw id by simp
  qed
qed

end
