(* ===== verification/Work_Retention.thy ===== *)
theory Work_Retention
  imports Work_Ingress
begin

text \<open>
  Retention of the delivery ledger (\<^verbatim>\<open>internal/work/retention.go\<close>): the sweep of raw bodies, the sweep
  of dedup keys, and the reading of the tombstone a swept payload leaves.  A walk reads a page of
  candidates outside any transaction and a batch writes them in one, so the batches take their
  candidates as arguments: whatever the ledger does between the walk and the write, the batch is
  this function of the database it finds.  \<^verbatim>\<open>quiesce.Yield\<close> is an argument too: the loop asks it
  before every page and stops with the context's error when it says so.
\<close>

subsection \<open>Policy\<close>

record RetentionPolicy =
  rp_DedupWindow :: time
  rp_RawBodyAfterTerminal :: time
  rp_Batch :: int

definition DefaultRawBodyRetention :: time where "DefaultRawBodyRetention = 7 * 24 * 3600 * second"
definition DefaultRetentionBatch :: int where "DefaultRetentionBatch = 200"

definition DefaultRetentionPolicy :: RetentionPolicy where
  "DefaultRetentionPolicy = \<lparr>rp_DedupWindow = DefaultDedupWindow,
     rp_RawBodyAfterTerminal = DefaultRawBodyRetention, rp_Batch = DefaultRetentionBatch\<rparr>"

definition normalized_policy :: "RetentionPolicy \<Rightarrow> RetentionPolicy" where
  "normalized_policy p =
     \<lparr>rp_DedupWindow = (if rp_DedupWindow p \<le> 0 then DefaultDedupWindow else rp_DedupWindow p),
      rp_RawBodyAfterTerminal =
        (if rp_RawBodyAfterTerminal p \<le> 0 then DefaultRawBodyRetention else rp_RawBodyAfterTerminal p),
      rp_Batch = (if rp_Batch p \<le> 0 then DefaultRetentionBatch else rp_Batch p)\<rparr>"

record SweepResult =
  RawBodiesExpired :: int
  RawBodyBytesFreed :: int
  DeliveriesRemoved :: int
  RawBodiesRetained :: int
  Batches :: int

definition empty_result :: SweepResult where
  "empty_result = \<lparr>RawBodiesExpired = 0, RawBodyBytesFreed = 0, DeliveriesRemoved = 0,
     RawBodiesRetained = 0, Batches = 0\<rparr>"

subsection \<open>Raw bodies\<close>

record rawBodyCandidate =
  rb_id :: string
  rb_bodyBytes :: int
  rb_terminalRef :: time
  rb_explicitExpiry :: "time option"

definition sql_limit :: "int \<Rightarrow> 'a list \<Rightarrow> 'a list" where
  "sql_limit n xs = (if n < 0 then xs else take (nat n) xs)"

text \<open>\<open>COALESCE(w.terminal_at, w.updated_at, d.received_at)\<close> over the left join.\<close>

definition terminal_ref :: "Item \<Rightarrow> time" where
  "terminal_ref w = (case wi_terminal_at w of Some t \<Rightarrow> t | None \<Rightarrow> wi_updated_at w)"

definition retention_ref :: "work_db \<Rightarrow> Delivery \<Rightarrow> time" where
  "retention_ref db d = (case joined_item db d of Some w \<Rightarrow> terminal_ref w | None \<Rightarrow> wd_received_at d)"

definition raw_candidate :: "work_db \<Rightarrow> string \<Rightarrow> Delivery \<Rightarrow> bool" where
  "raw_candidate db after d \<longleftrightarrow> wd_raw_body d \<noteq> None \<and> after < wd_id d \<and> finished_delivery db d"

definition walkRawBodyCandidates :: "int \<Rightarrow> string \<Rightarrow> work_db \<Rightarrow> rawBodyCandidate list" where
  "walkRawBodyCandidates limit after db =
     map (\<lambda>d. \<lparr>rb_id = wd_id d, rb_bodyBytes = wd_body_bytes d, rb_terminalRef = retention_ref db d,
               rb_explicitExpiry = wd_raw_body_expires_at d\<rparr>)
       (sql_limit limit (sort_key wd_id (filter (raw_candidate db after) (webhook_deliveries db))))"

definition deadline :: "RetentionPolicy \<Rightarrow> rawBodyCandidate \<Rightarrow> time" where
  "deadline p c =
     (let d = rb_terminalRef c + rp_RawBodyAfterTerminal p
      in case rb_explicitExpiry c of None \<Rightarrow> d | Some e \<Rightarrow> if e > d then e else d)"

text \<open>The guard of the batched \<open>UPDATE\<close>, restated in full.\<close>

definition raw_guard :: "work_db \<Rightarrow> time \<Rightarrow> time \<Rightarrow> string \<Rightarrow> Delivery \<Rightarrow> bool" where
  "raw_guard db cutoff now i d \<longleftrightarrow>
     wd_id d = i \<and> wd_raw_body d \<noteq> None
   \<and> (wd_work_id d = None \<and> wd_received_at d \<le> cutoff
      \<or> (case joined_item db d of None \<Rightarrow> False
         | Some w \<Rightarrow> in_state_list Terminal (wi_state w) \<and> terminal_ref w \<le> cutoff))
   \<and> (case wd_raw_body_expires_at d of None \<Rightarrow> True | Some e \<Rightarrow> e \<le> now)"

definition upd_deliveries :: "(Delivery \<Rightarrow> bool) \<Rightarrow> (Delivery \<Rightarrow> Delivery) \<Rightarrow> work_db \<Rightarrow> work_db" where
  "upd_deliveries P f db = db\<lparr>webhook_deliveries := upd_where P f (webhook_deliveries db)\<rparr>"

text \<open>The loop over the due candidates: expired rows, retained rows, bytes freed.\<close>

fun expire_rows :: "time \<Rightarrow> time \<Rightarrow> (rawBodyCandidate \<times> time) list \<Rightarrow> int \<times> int \<times> int \<Rightarrow> work_db
    \<Rightarrow> (int \<times> int \<times> int) \<times> work_db" where
  "expire_rows cutoff now [] acc db = (acc, db)"
| "expire_rows cutoff now ((c, dl) # cs) (expired, retained, freed) db =
     (let n = count_where (raw_guard db cutoff now (rb_id c)) (webhook_deliveries db);
          db' = upd_deliveries (raw_guard db cutoff now (rb_id c))
                  (\<lambda>d. d\<lparr>wd_raw_body := None, wd_raw_body_expires_at := Some dl\<rparr>) db
      in if n = 0 then expire_rows cutoff now cs (expired, retained + 1, freed) db'
         else expire_rows cutoff now cs (expired + int n, retained, wrap64 (freed + rb_bodyBytes c)) db')"

definition expireRawBodyBatch :: "(rawBodyCandidate \<times> time) list \<Rightarrow> time \<Rightarrow> time \<Rightarrow> SweepResult \<Rightarrow> work_db
    \<Rightarrow> SweepResult \<times> work_db" where
  "expireRawBodyBatch due cutoff now res db =
     (let ((expired, retained, freed), db') = expire_rows cutoff now due (0, 0, 0) db
      in (res\<lparr>RawBodiesExpired := RawBodiesExpired res + expired,
              RawBodiesRetained := RawBodiesRetained res + retained,
              RawBodyBytesFreed := wrap64 (RawBodyBytesFreed res + freed),
              Batches := Batches res + 1\<rparr>, db'))"

text \<open>One page: the candidates inside their window are counted, the others expired.\<close>

definition sweep_page :: "RetentionPolicy \<Rightarrow> time \<Rightarrow> rawBodyCandidate list \<Rightarrow> SweepResult \<Rightarrow> work_db
    \<Rightarrow> SweepResult \<times> work_db" where
  "sweep_page p now batch res db =
     (let due = filter (\<lambda>c. \<not> deadline p c > now) batch;
          res1 = res\<lparr>RawBodiesRetained := RawBodiesRetained res
                       + int (count_where (\<lambda>c. deadline p c > now) batch)\<rparr>
      in if due \<noteq> [] then expireRawBodyBatch (map (\<lambda>c. (c, deadline p c)) due)
                            (now - rp_RawBodyAfterTerminal p) now res1 db
         else (res1, db))"

subsection \<open>Facts the loops terminate by\<close>

lemma upd_deliveries_sel [row_simps]:
  "webhook_deliveries (upd_deliveries P f db) = upd_where P f (webhook_deliveries db)"
  "work_items (upd_deliveries P f db) = work_items db"
  "work_attempts (upd_deliveries P f db) = work_attempts db"
  "work_events (upd_deliveries P f db) = work_events db"
  "assignments (upd_deliveries P f db) = assignments db"
  "agents (upd_deliveries P f db) = agents db"
  "crews (upd_deliveries P f db) = crews db"
  "app_settings (upd_deliveries P f db) = app_settings db"
  by (simp_all add: upd_deliveries_def)

lemma expire_rows_ids:
  "map wd_id (webhook_deliveries (snd (expire_rows cutoff now cs acc db))) = map wd_id (webhook_deliveries db)"
  by (induction cutoff now cs acc db rule: expire_rows.induct)
    (simp_all add: Let_def row_simps map_upd_where_keep)

lemma sweep_page_ids:
  "map wd_id (webhook_deliveries (snd (sweep_page p now batch res db))) = map wd_id (webhook_deliveries db)"
  by (simp add: sweep_page_def expireRawBodyBatch_def Let_def expire_rows_ids split: prod.splits)
    (metis expire_rows_ids snd_conv)

lemma sql_limit_subset: "set (sql_limit n xs) \<subseteq> set xs"
  by (auto simp: sql_limit_def dest: in_set_takeD)

definition ids_after :: "string \<Rightarrow> work_db \<Rightarrow> string list" where
  "ids_after after db = filter (\<lambda>i. after < i) (map wd_id (webhook_deliveries db))"

lemma ids_after_decreases:
  assumes "map wd_id (webhook_deliveries db') = map wd_id (webhook_deliveries db)"
    "i \<in> set (map wd_id (webhook_deliveries db))" "after < i"
  shows "length (ids_after i db') < length (ids_after after db)"
proof -
  have *: "filter (\<lambda>j. i < j) xs = filter (\<lambda>j. i < j) (filter (\<lambda>j. after < j) xs)" for xs :: "string list"
    using assms(3) by (auto intro!: filter_cong)
  have "i \<in> set (ids_after after db)" using assms(2,3) by (simp add: ids_after_def)
  then show ?thesis
    unfolding ids_after_def assms(1) using * length_filter_less [of i _ "\<lambda>j. i < j"] by (metis less_irrefl)
qed

lemma walk_after:
  assumes "c \<in> set (walkRawBodyCandidates limit after db)"
  shows "rb_id c \<in> set (map wd_id (webhook_deliveries db))" "after < rb_id c"
  using assms sql_limit_subset
  by (fastforce simp: walkRawBodyCandidates_def raw_candidate_def)+

lemma page_decreases:
  assumes "walkRawBodyCandidates limit after db \<noteq> []"
  shows "length (ids_after (rb_id (last (walkRawBodyCandidates limit after db)))
           (snd (sweep_page p now batch res db))) < length (ids_after after db)"
  by (rule ids_after_decreases [OF sweep_page_ids walk_after [OF last_in_set [OF assms]]])

function sweepRawBodies_loop :: "(nat \<Rightarrow> bool) \<Rightarrow> RetentionPolicy \<Rightarrow> time \<Rightarrow> nat \<Rightarrow> string \<Rightarrow> SweepResult
    \<Rightarrow> work_db \<Rightarrow> work_error option \<times> SweepResult \<times> work_db" where
  "sweepRawBodies_loop yield p now k after res db =
     (if yield k then (Some ErrInvalid, res, db)
      else let batch = walkRawBodyCandidates (rp_Batch p) after db
           in if batch = [] then (None, res, db)
              else let r = sweep_page p now batch res db
                   in if int (length batch) < rp_Batch p then (None, fst r, snd r)
                      else sweepRawBodies_loop yield p now (Suc k) (rb_id (last batch)) (fst r) (snd r))"
  by pat_completeness auto
termination
  by (relation "measure (\<lambda>(yield, p, now, k, after, res, db). length (ids_after after db))",
      rule wf_measure, simp only: in_measure case_prod_conv, rule page_decreases)

declare sweepRawBodies_loop.simps [simp del]

subsection \<open>Dedup keys\<close>

text \<open>The window from acceptance, the row's own expiry, and no live work.\<close>

definition dedup_guard :: "work_db \<Rightarrow> time \<Rightarrow> time \<Rightarrow> Delivery \<Rightarrow> bool" where
  "dedup_guard db accepted now d \<longleftrightarrow>
     wd_dedup_expires_at d \<le> now \<and> wd_received_at d \<le> accepted \<and> finished_delivery db d"

definition walkDedupCandidates :: "int \<Rightarrow> string \<Rightarrow> time \<Rightarrow> time \<Rightarrow> work_db \<Rightarrow> string list" where
  "walkDedupCandidates limit after accepted now db =
     map wd_id (sql_limit limit (sort_key wd_id
       (filter (\<lambda>d. after < wd_id d \<and> dedup_guard db accepted now d) (webhook_deliveries db))))"

definition deleteDedupBatch :: "string list \<Rightarrow> time \<Rightarrow> time \<Rightarrow> work_db \<Rightarrow> int \<times> work_db" where
  "deleteDedupBatch ids accepted now db =
     (let gone = (\<lambda>d. wd_id d \<in> set ids \<and> dedup_guard db accepted now d)
      in (int (count_where gone (webhook_deliveries db)),
          db\<lparr>webhook_deliveries := filter (\<lambda>d. \<not> gone d) (webhook_deliveries db)\<rparr>))"

lemma walk_dedup_after:
  assumes "i \<in> set (walkDedupCandidates limit after accepted now db)"
  shows "i \<in> set (map wd_id (webhook_deliveries db))" "after < i"
  using assms sql_limit_subset by (fastforce simp: walkDedupCandidates_def)+

lemma ids_after_delete:
  "length (ids_after i (snd (deleteDedupBatch ids accepted now db))) \<le> length (ids_after i db)"
  by (simp add: ids_after_def deleteDedupBatch_def Let_def filter_map o_def)
    (smt (verit) filter_filter filter_cong length_filter_le)

lemma dedup_decreases:
  assumes "walkDedupCandidates limit after accepted now db \<noteq> []"
  shows "length (ids_after (last (walkDedupCandidates limit after accepted now db))
           (snd (deleteDedupBatch ids accepted now db))) < length (ids_after after db)"
proof -
  have "length (ids_after (last (walkDedupCandidates limit after accepted now db)) db) < length (ids_after after db)"
    by (rule ids_after_decreases [OF refl walk_dedup_after [OF last_in_set [OF assms]]])
  then show ?thesis using ids_after_delete le_less_trans by blast
qed

function sweepDedup_loop :: "(nat \<Rightarrow> bool) \<Rightarrow> RetentionPolicy \<Rightarrow> time \<Rightarrow> nat \<Rightarrow> string \<Rightarrow> SweepResult
    \<Rightarrow> work_db \<Rightarrow> work_error option \<times> SweepResult \<times> work_db" where
  "sweepDedup_loop yield p now k after res db =
     (if yield k then (Some ErrInvalid, res, db)
      else let ids = walkDedupCandidates (rp_Batch p) after (now - rp_DedupWindow p) now db
           in if ids = [] then (None, res, db)
              else let r = deleteDedupBatch ids (now - rp_DedupWindow p) now db;
                       res' = res\<lparr>DeliveriesRemoved := DeliveriesRemoved res + fst r,
                                  Batches := Batches res + 1\<rparr>
                   in if int (length ids) < rp_Batch p then (None, res', snd r)
                      else sweepDedup_loop yield p now (Suc k) (last ids) res' (snd r))"
  by pat_completeness auto
termination
  by (relation "measure (\<lambda>(yield, p, now, k, after, res, db). length (ids_after after db))",
      rule wf_measure, simp only: in_measure case_prod_conv, rule dedup_decreases)

declare sweepDedup_loop.simps [simp del]

definition sweepRawBodies :: "(nat \<Rightarrow> bool) \<Rightarrow> RetentionPolicy \<Rightarrow> time \<Rightarrow> SweepResult \<Rightarrow> work_db
    \<Rightarrow> work_error option \<times> SweepResult \<times> work_db" where
  "sweepRawBodies yield p now res db = sweepRawBodies_loop yield p now 0 '''' res db"

definition sweepDedup :: "(nat \<Rightarrow> bool) \<Rightarrow> RetentionPolicy \<Rightarrow> time \<Rightarrow> SweepResult \<Rightarrow> work_db
    \<Rightarrow> work_error option \<times> SweepResult \<times> work_db" where
  "sweepDedup yield p now res db = sweepDedup_loop yield p now 0 '''' res db"

text \<open>\<open>Sweep\<close>: payloads first, then delivery rows.\<close>

definition Sweep :: "(nat \<Rightarrow> bool) \<Rightarrow> (nat \<Rightarrow> bool) \<Rightarrow> time \<Rightarrow> RetentionPolicy \<Rightarrow> work_db
    \<Rightarrow> work_error option \<times> SweepResult \<times> work_db" where
  "Sweep yield1 yield2 now p db =
     (let p = normalized_policy p
      in case sweepRawBodies yield1 p now empty_result db of
           (Some e, res, db1) \<Rightarrow> (Some e, res, db1)
         | (None, res, db1) \<Rightarrow> sweepDedup yield2 p now res db1)"

subsection \<open>The tombstone\<close>

datatype PayloadStatus = PayloadAvailable | PayloadExpired | PayloadNone

definition ReplayAvailable :: "PayloadStatus \<Rightarrow> bool" where
  "ReplayAvailable p \<longleftrightarrow> p = PayloadAvailable"

record DeliveryPayload =
  dp_DeliveryID :: string
  dp_Status :: PayloadStatus
  dp_ExpiredAt :: "time option"
  dp_BodyBytes :: int

definition payload_of :: "Delivery \<Rightarrow> PayloadStatus" where
  "payload_of d = (if wd_raw_body d \<noteq> None then PayloadAvailable
                   else if wd_raw_body_expires_at d \<noteq> None then PayloadExpired else PayloadNone)"

definition PayloadStatus_of :: "work_db \<Rightarrow> string \<Rightarrow> work_error + DeliveryPayload" where
  "PayloadStatus_of db deliveryID =
     (case delivery_row db deliveryID of
        None \<Rightarrow> Inl ErrNotFound
      | Some d \<Rightarrow> Inr \<lparr>dp_DeliveryID = deliveryID, dp_Status = payload_of d,
           dp_ExpiredAt = (if payload_of d = PayloadExpired then wd_raw_body_expires_at d else None),
           dp_BodyBytes = wd_body_bytes d\<rparr>)"

end
