(* ===== verification/Work_Outcomes.thy ===== *)
theory Work_Outcomes
  imports Work_Transition Work_Ingress
begin

text \<open>
  Work that the host starts itself, and what becomes of a run's output: assignments accepted as
  work (\<^verbatim>\<open>internal/work/assignment.go\<close>), chat turns of the host (\<^verbatim>\<open>host_chat.go\<close>), staged run results
  and their projection (\<^verbatim>\<open>run_results.go\<close>), and the settlement of a parked attempt from a protected
  capture (\<^verbatim>\<open>retained_result.go\<close>).  The digest (\<^verbatim>\<open>crypto/sha256\<close>) and the size of a result's JSON
  encoding, \<open>None\<close> when it does not encode, are arguments.
\<close>

subsection \<open>Assignments\<close>

record AssignmentInput =
  ai_Version :: int
  ai_AssignmentID :: string
  ai_WorkspaceID :: string
  ai_AgentID :: string
  ai_CrewID :: string
  ai_AuthorAgentID :: string
  ai_Task :: string

definition assignment_json :: "AssignmentInput \<Rightarrow> string" where
  "assignment_json i = json_object
     [(''version'', go_itoa (ai_Version i)), (''assignment_id'', json_string (ai_AssignmentID i)),
      (''workspace_id'', json_string (ai_WorkspaceID i)), (''agent_id'', json_string (ai_AgentID i)),
      (''crew_id'', json_string (ai_CrewID i)), (''author_agent_id'', json_string (ai_AuthorAgentID i)),
      (''task'', json_string (ai_Task i))]"

definition assignment_identity :: "work_db \<Rightarrow> string \<Rightarrow> (assignment_row \<times> agent_row) option" where
  "assignment_identity db i =
     (case find (\<lambda>a. as_id a = i \<and> (as_status a = ''PENDING'' \<or> as_status a = ''QUEUED'')) (assignments db) of
        None \<Rightarrow> None
      | Some a \<Rightarrow>
          map_option (Pair a)
            (find (\<lambda>g. ag_id g = as_assigned_to_id a \<and> ag_workspace_id g = as_workspace_id a) (agents db)))"

definition AcceptAssignmentTx :: "(string \<Rightarrow> string) \<Rightarrow> time \<Rightarrow> string \<Rightarrow> string \<Rightarrow> work_db
    \<Rightarrow> work_error + (Receipt \<times> work_db)" where
  "AcceptAssignmentTx sha256hex now newid i db =
     (case assignment_identity db i of
        None \<Rightarrow> Inl ErrInvalid
      | Some (a, g) \<Rightarrow>
          (let inp = \<lparr>ai_Version = 1, ai_AssignmentID = i, ai_WorkspaceID = as_workspace_id a,
                      ai_AgentID = as_assigned_to_id a, ai_CrewID = null_text (ag_crew_id g),
                      ai_AuthorAgentID = null_text (as_assigned_by_id a), ai_Task = as_task a\<rparr>;
               raw = assignment_json inp
           in case CheckIngressTx DefaultIngressLimits
                     \<lparr>ig_WorkspaceID = ai_WorkspaceID inp, ig_EndpointID = '''', ig_SourceDeliveryID = '''',
                      ig_ContentKey = '''', ig_BodyBytes = int (length raw)\<rparr> db of
                Some e \<Rightarrow> Inl e
              | None \<Rightarrow>
                  AcceptTx now newid
                    \<lparr>ar_WorkspaceID = ai_WorkspaceID inp, ar_Source = SourceAssignment, ar_SourceRef = i,
                     ar_DomainKind = ''assignment'', ar_DomainID = i, ar_AgentID = ai_AgentID inp,
                     ar_CrewID = ai_CrewID inp, ar_SessionID = null_text (as_session_id a),
                     ar_Class = ClassBackground,
                     ar_AuthorizedByUserID = null_text (as_created_by_user_id a),
                     ar_AuthorizedScope = ''assignment:'' @ i, ar_InputJSON = raw,
                     ar_InputSHA256 = sha256hex raw, ar_TargetRevision = '''', ar_Priority = 0,
                     ar_EligibleAt = None, ar_DeadlineAt = None, ar_ReplayOf = '''', ar_ReplayReason = ''''\<rparr> db))"

subsection \<open>Run results and their projection\<close>

definition result_limit :: int where "result_limit = 512 * 1024"

definition StageRunResult :: "(RunResult \<Rightarrow> int option) \<Rightarrow> string \<Rightarrow> string \<Rightarrow> int \<Rightarrow> RunResult \<Rightarrow> work_db
    \<Rightarrow> (work_error + unit) \<times> work_db" where
  "StageRunResult json_size workID runID generation result db =
     (if workID = '''' \<or> runID = '''' \<or> generation \<le> 0 then (Inl ErrNotBound, db)
      else case json_size result of
             None \<Rightarrow> (Inl ErrInvalid, db)
           | Some n \<Rightarrow>
               if n > result_limit then (Inl ErrInvalid, db)
               else
                 let bound = (\<lambda>a. wa_run_id a = runID \<and> wa_work_id a = workID \<and> wa_generation a = generation);
                     db' = upd_attempts bound
                             (\<lambda>a. a\<lparr>wa_run_result := (case wa_run_result a of None \<Rightarrow> Some result | Some r \<Rightarrow> Some r)\<rparr>) db
                 in (if count_where bound (work_attempts db) \<noteq> 1 then Inl ErrNotBound else Inr (), db'))"

record RunProjection =
  pj_RunID :: string
  pj_WorkspaceID :: string
  pj_AgentID :: string
  pj_CrewID :: string
  pj_Status :: string
  pj_Result :: RunResult
  pj_Ready :: bool

definition empty_run_result :: RunResult where
  "empty_run_result = \<lparr>rr_CompletedAt = '''', rr_ExitCode = None, rr_ErrorMessage = None, rr_Metadata = ''''\<rparr>"

definition RunProjection_of :: "work_db \<Rightarrow> string \<Rightarrow> RunProjection \<times> bool" where
  "RunProjection_of db runID =
     (let none = \<lparr>pj_RunID = runID, pj_WorkspaceID = '''', pj_AgentID = '''', pj_CrewID = '''', pj_Status = '''',
                  pj_Result = empty_run_result, pj_Ready = False\<rparr>
      in case attempt_row db runID of
           None \<Rightarrow> (none, False)
         | Some a \<Rightarrow>
             (case item_row db (wa_work_id a) of
                None \<Rightarrow> (none, False)
              | Some w \<Rightarrow>
                  (let p = none\<lparr>pj_WorkspaceID := wi_workspace_id w, pj_AgentID := wi_agent_id w,
                             pj_CrewID := wi_crew_id w, pj_Status := wa_run_status a\<rparr>
                   in case wa_run_result a of
                        None \<Rightarrow> (p, True)
                      | Some r \<Rightarrow>
                          if wa_run_status a = '''' then (p, True)
                          else (p\<lparr>pj_Ready := True,
                                  pj_Result := (if wa_run_status a = ''CANCELLED''
                                                then r\<lparr>rr_ExitCode := None, rr_ErrorMessage := Some (wa_end_reason a)\<rparr>
                                                else r)\<rparr>, True))))"

definition projectable :: "Attempt \<Rightarrow> bool" where
  "projectable a \<longleftrightarrow> wa_run_result a \<noteq> None \<and> wa_run_status a \<noteq> '''' \<and> wa_run_projected_at a = None"

definition projection_order :: "Attempt \<Rightarrow> time \<times> string" where
  "projection_order a =
     (case wa_run_projection_attempted_at a of None \<Rightarrow> wa_started_at a | Some t \<Rightarrow> t, wa_run_id a)"

definition PendingRunProjections :: "int \<Rightarrow> work_db \<Rightarrow> string list" where
  "PendingRunProjections limit db =
     (let limit = (if limit < 1 \<or> limit > 100 then 100 else limit)
      in take (nat limit)
           (map wa_run_id (sort_key projection_order (filter projectable (work_attempts db)))))"

definition MarkRunProjectionAttempt :: "time \<Rightarrow> string \<Rightarrow> work_db \<Rightarrow> work_db" where
  "MarkRunProjectionAttempt now runID db =
     upd_attempts (\<lambda>a. wa_run_id a = runID \<and> wa_run_projected_at a = None)
       (\<lambda>a. a\<lparr>wa_run_projection_attempted_at := Some now\<rparr>) db"

definition MarkRunProjected :: "time \<Rightarrow> string \<Rightarrow> string \<Rightarrow> work_db \<Rightarrow> work_db" where
  "MarkRunProjected now runID status db =
     upd_attempts (\<lambda>a. wa_run_id a = runID \<and> wa_run_status a = status \<and> wa_run_result a \<noteq> None
                       \<and> wa_run_projected_at a = None)
       (\<lambda>a. a\<lparr>wa_run_projected_at := Some now\<rparr>) db"

subsection \<open>Chat turns of the host\<close>

record HostChatRequest =
  hc_RunID :: string
  hc_WorkspaceID :: string
  hc_AgentID :: string
  hc_CrewID :: string
  hc_ChatID :: string
  hc_UserID :: string
  hc_TriggerMessageID :: string

record HostChatAttempt =
  hb_WorkID :: string
  hb_RunID :: string
  hb_WorkspaceID :: string
  hb_AgentID :: string
  hb_CrewID :: string
  hb_Generation :: int
  hb_State :: State
  hb_Phase :: RuntimePhase
  hb_Ended :: bool

text \<open>\<open>None\<close> is the answer "not owned"; a stale generation is an error of an owned attempt.\<close>

definition HostChatAttempt_of :: "work_db \<Rightarrow> string \<Rightarrow> work_error + HostChatAttempt option" where
  "HostChatAttempt_of db runID =
     (case attempt_row db runID of
        None \<Rightarrow> Inr None
      | Some a \<Rightarrow>
          (case item_row db (wa_work_id a) of
             None \<Rightarrow> Inr None
           | Some w \<Rightarrow>
               if source_string (wi_source w) = ''chat'' \<and> wi_domain_kind w = ''host_chat_turn''
               then (if wi_generation w \<noteq> wa_generation a then Inl ErrStaleGeneration
                     else Inr (Some \<lparr>hb_WorkID = wi_id w, hb_RunID = runID, hb_WorkspaceID = wi_workspace_id w,
                            hb_AgentID = wi_agent_id w, hb_CrewID = wi_crew_id w,
                            hb_Generation = wa_generation a, hb_State = wi_state w,
                            hb_Phase = wa_runtime_phase a, hb_Ended = (wa_ended_at a \<noteq> None)\<rparr>))
               else Inr None))"

definition unsafe_run_id :: "string \<Rightarrow> bool" where
  "unsafe_run_id s \<longleftrightarrow> list_ex (\<lambda>c. (of_char c :: nat) \<in> {47, 92, 58, 0}) s"

definition same_turn :: "HostChatRequest \<Rightarrow> Item \<Rightarrow> bool" where
  "same_turn r item \<longleftrightarrow> wi_source item = SourceChat \<and> wi_domain_kind item = ''host_chat_turn''
     \<and> wi_workspace_id item = hc_WorkspaceID r \<and> wi_agent_id item = hc_AgentID r
     \<and> wi_crew_id item = hc_CrewID r \<and> wi_session_id item = hc_ChatID r
     \<and> wi_authorized_by_user_id item = hc_UserID r \<and> wi_source_ref item = hc_TriggerMessageID r"

definition host_chat_accept :: "(string \<Rightarrow> string) \<Rightarrow> HostChatRequest \<Rightarrow> AcceptRequest" where
  "host_chat_accept sha256hex r =
     (let inp = json_object [(''ChatID'', json_string (hc_ChatID r)),
                             (''TriggerMessageID'', json_string (hc_TriggerMessageID r))]
      in \<lparr>ar_WorkspaceID = hc_WorkspaceID r, ar_Source = SourceChat, ar_SourceRef = hc_TriggerMessageID r,
          ar_DomainKind = ''host_chat_turn'', ar_DomainID = hc_RunID r, ar_AgentID = hc_AgentID r,
          ar_CrewID = hc_CrewID r, ar_SessionID = hc_ChatID r, ar_Class = ClassChat,
          ar_AuthorizedByUserID = hc_UserID r, ar_AuthorizedScope = ''chat:send'', ar_InputJSON = inp,
          ar_InputSHA256 = sha256hex inp, ar_TargetRevision = '''', ar_Priority = 0, ar_EligibleAt = None,
          ar_DeadlineAt = None, ar_ReplayOf = '''', ar_ReplayReason = ''''\<rparr>)"

text \<open>The new turn: accepted, admitted, started under the caller's run and marked starting.\<close>

definition newHostChatTx :: "(string \<Rightarrow> string) \<Rightarrow> time \<Rightarrow> string \<Rightarrow> HostChatRequest \<Rightarrow> work_db
    \<Rightarrow> work_error + (Claimed \<times> work_db)" where
  "newHostChatTx sha256hex now newid r db =
     (case AcceptTx now newid (host_chat_accept sha256hex r) db of
        Inl e \<Rightarrow> Inl e
      | Inr (receipt, db1) \<Rightarrow>
          (case getItemTx db1 (rc_WorkID receipt) of
             Inl e \<Rightarrow> Inl e
           | Inr item \<Rightarrow>
               if \<not> admitsTx db1 item SerialAgentLimits (countLiveTx db1) then Inl ErrNoWork
               else case startAttemptWithRunIDTx item (''host-chat:'' @ hc_RunID r) now newid (hc_RunID r) db1 of
                      Inl e \<Rightarrow> Inl e
                    | Inr (None, db2) \<Rightarrow> Inl ErrInvalid
                    | Inr (Some claimed, db2) \<Rightarrow>
                        let planned = (\<lambda>a. bound_row (wi_id item) (hc_RunID r) (cl_Generation claimed) a
                                           \<and> wa_runtime_phase a = runtimePhasePlanned)
                        in if count_where planned (work_attempts db2) \<noteq> 1 then Inl ErrNotBound
                           else Inr (claimed, upd_attempts planned
                                  (\<lambda>a. a\<lparr>wa_runtime_locator := ''agent-run:'' @ hc_RunID r,
                                         wa_runtime_phase := runtimePhaseStarting\<rparr>) db2)))"

text \<open>\<open>BeginHostChat\<close>: the flag says whether a new turn was started.\<close>

definition BeginHostChat :: "(string \<Rightarrow> string) \<Rightarrow> time \<Rightarrow> string \<Rightarrow> HostChatRequest \<Rightarrow> work_db
    \<Rightarrow> (work_error + Claimed \<times> bool) \<times> work_db" where
  "BeginHostChat sha256hex now newid r db =
     (if hc_RunID r = '''' \<or> hc_WorkspaceID r = '''' \<or> hc_AgentID r = '''' \<or> hc_ChatID r = ''''
         \<or> hc_UserID r = '''' \<or> hc_TriggerMessageID r = '''' \<or> unsafe_run_id (hc_RunID r)
      then (Inl ErrNotBound, db)
      else case attempt_row db (hc_RunID r) of
             Some a \<Rightarrow>
               (case getItemTx db (wa_work_id a) of
                  Inl e \<Rightarrow> (Inl e, db)
                | Inr item \<Rightarrow>
                    if \<not> same_turn r item then (Inl ErrNotBound, db)
                    else if wa_ended_at a \<noteq> None \<or> wi_generation item \<noteq> wa_generation a \<or> \<not> Live (wi_state item)
                      then (Inl ErrStaleGeneration, db)
                    else (Inr (\<lparr>cl_Item = item, cl_RunID = hc_RunID r, cl_Attempt = 0,
                                cl_Generation = wa_generation a, cl_LeaseUntil = None\<rparr>, False), db))
           | None \<Rightarrow>
               (case in_tx db (newHostChatTx sha256hex now newid r db) of
                  (Inl e, db') \<Rightarrow> (Inl e, db')
                | (Inr c, db') \<Rightarrow> (Inr (c, True), db')))"

definition HostChatPhase :: "time \<Rightarrow> string \<Rightarrow> string \<Rightarrow> work_db \<Rightarrow> (work_error + unit) \<times> work_db" where
  "HostChatPhase now runID phase db =
     (case HostChatAttempt_of db runID of
        Inl e \<Rightarrow> (Inl e, db)
      | Inr None \<Rightarrow> (Inl ErrNotBound, db)
      | Inr (Some b) \<Rightarrow>
          if hb_Ended b \<or> \<not> Live (hb_State b) then (Inl ErrNotBound, db)
          else if phase = ''request'' then
            (if hb_Phase b \<noteq> runtimePhaseStarting then (Inl ErrNotBound, db)
             else MarkRuntimeRequested (hb_WorkID b) runID (hb_Generation b) db)
          else if phase = ''started'' then
            (if hb_Phase b = runtimePhaseRequested
             then StartRunning now (hb_WorkID b) runID (hb_Generation b) (''agent-run:'' @ runID) db
             else if hb_Phase b \<noteq> runtimePhaseConfirmed then (Inl ErrNotBound, db)
             else Heartbeat now runID (hb_Generation b) db)
          else if phase = ''heartbeat'' then Heartbeat now runID (hb_Generation b) db
          else (Inl ErrInvalid, db))"

record HostChatResult =
  hr_Result :: RunResult
  hr_Status :: string
  hr_ObservedExit :: "int option"
  hr_ExecRefused :: bool

text \<open>The \<open>CHECK\<close> of the column \<open>run_status\<close>.\<close>

definition run_status_ok :: "string \<Rightarrow> bool" where
  "run_status_ok s \<longleftrightarrow> s = '''' \<or> s = ''COMPLETED'' \<or> s = ''FAILED'' \<or> s = ''CANCELLED''"

text \<open>The state a reported result leads to; without proof of an end it is reconciliation.\<close>

definition finish_target :: "bool \<Rightarrow> HostChatResult \<Rightarrow> work_error + State" where
  "finish_target known r =
     (if \<not> known then Inr StateNeedsReconciliation
      else if hr_Status r = ''COMPLETED''
        then (if hr_ObservedExit r = Some 0 then Inr StateSucceeded else Inl ErrInvalid)
      else if hr_Status r = ''FAILED'' \<or> hr_Status r = ''TIMEOUT'' then Inr StateFailed
      else if hr_Status r = ''CANCELLED'' then Inr StateCancelled
      else Inl ErrInvalid)"

definition finish_evidence :: "bool \<Rightarrow> HostChatResult \<Rightarrow> string \<times> string" where
  "finish_evidence known r =
     (if \<not> known then (''protected host capture awaiting retained result'', ''execution_outcome_unknown'')
      else case hr_ObservedExit r of
             Some n \<Rightarrow> (''host chat process exit observed'', ''provider_exit:'' @ go_itoa n)
           | None \<Rightarrow>
               if hr_ExecRefused r
               then (''agent creation gate refused before process creation'', ''creation_gate_refused'')
               else (''host turn returned before agent execution was requested'', ''creation_not_requested''))"

text \<open>
  The transaction of \<open>FinishHostChat\<close>, for a work item and a generation read before it began.
\<close>

definition finishHostChatTx :: "time \<Rightarrow> string \<Rightarrow> string \<Rightarrow> int \<Rightarrow> HostChatResult \<Rightarrow> RunResult \<Rightarrow> work_db
    \<Rightarrow> work_error + (unit \<times> work_db)" where
  "finishHostChatTx now workID runID generation r result db =
     (case getItemTx db workID of
        Inl e \<Rightarrow> Inl e
      | Inr item \<Rightarrow>
          (case verifyAttemptBindingTx db workID runID generation (wi_generation item) of
             Inl e \<Rightarrow> Inl e
           | Inr _ \<Rightarrow>
               (case find (\<lambda>a. wa_run_id a = runID \<and> wa_work_id a = workID \<and> wa_generation a = generation)
                       (work_attempts db) of
                  None \<Rightarrow> Inl ErrInvalid
                | Some a \<Rightarrow>
                    let known = (wa_runtime_phase a = runtimePhasePlanned
                                 \<or> wa_runtime_phase a = runtimePhaseStarting
                                 \<or> hr_ObservedExit r \<noteq> None \<or> hr_ExecRefused r)
                    in case finish_target known r of
                         Inl e \<Rightarrow> Inl e
                       | Inr target \<Rightarrow>
                           if \<not> CanTransition (wi_state item) target then Inl ErrIllegalTransition
                           else
                             let (reason, evidence) = finish_evidence known r;
                                 status = (if known then hr_Status r else '''');
                                 bound = bound_row workID runID generation;
                                 db1 = setStateTx item target runID generation reason now db
                             in if \<not> run_status_ok status then Inl ErrConstraint
                                else if count_where bound (work_attempts db1) \<noteq> 1 then Inl ErrNotBound
                                else Inr ((), upd_attempts bound
                                       (\<lambda>a. a\<lparr>wa_ended_at := Some now, wa_end_reason := reason,
                                              wa_exit_evidence := evidence, wa_run_status := status,
                                              wa_run_result := (case wa_run_result a of None \<Rightarrow> Some result
                                                                | Some x \<Rightarrow> Some x)\<rparr>) db1))))"

definition FinishHostChat :: "(RunResult \<Rightarrow> int option) \<Rightarrow> time \<Rightarrow> string \<Rightarrow> HostChatResult \<Rightarrow> work_db
    \<Rightarrow> (work_error + unit) \<times> work_db" where
  "FinishHostChat json_size now runID r db =
     (case HostChatAttempt_of db runID of
        Inl e \<Rightarrow> (Inl e, db)
      | Inr None \<Rightarrow> (Inl ErrNotBound, db)
      | Inr (Some b) \<Rightarrow>
          if hb_Ended b
          then (if pj_Ready (fst (RunProjection_of db runID)) then Inr () else Inl ErrStaleGeneration, db)
          else
            let result = (hr_Result r)\<lparr>rr_ExitCode := hr_ObservedExit r\<rparr>
            in if (case json_size result of None \<Rightarrow> True | Some n \<Rightarrow> n > result_limit)
               then (Inl ErrRunResultUnstored, db)
               else in_tx db (finishHostChatTx now (hb_WorkID b) runID (hb_Generation b) r result db))"

subsection \<open>Retained results\<close>

definition has_prefix :: "string \<Rightarrow> string \<Rightarrow> bool" where
  "has_prefix s p \<longleftrightarrow> take (length p) s = p"

definition parked_reason :: "string \<Rightarrow> bool" where
  "parked_reason reason \<longleftrightarrow> has_prefix reason ''lease expired in runtime phase ''
     \<or> reason = ''protected host capture awaiting retained result''"

text \<open>
  The transaction of \<open>RecoverRetainedResult\<close>; the answer is the flag "owned".  An error leaves the
  database alone, so its flag is not modelled.
\<close>

definition recoverRetainedTx :: "time \<Rightarrow> string \<Rightarrow> RunResult \<Rightarrow> bool \<Rightarrow> work_db \<Rightarrow> work_error + (bool \<times> work_db)" where
  "recoverRetainedTx now runID result successful db =
     (case attempt_row db runID of
        None \<Rightarrow> Inr (False, db)
      | Some a \<Rightarrow>
          (case getItemTx db (wa_work_id a) of
             Inl e \<Rightarrow> Inl e
           | Inr it \<Rightarrow>
               if wi_generation it \<noteq> wa_generation a then Inl ErrStaleGeneration
               else if wa_run_status a \<noteq> '''' then Inr (True, db)
               else if wi_state it \<noteq> StateNeedsReconciliation \<or> wa_ended_at a = None
                       \<or> \<not> parked_reason (wa_end_reason a) \<or> wa_runtime_phase a = runtimePhasePlanned
                       \<or> wa_runtime_locator a \<noteq> ''agent-run:'' @ runID
                 then Inl ErrNotBound
               else if (case wa_run_result a of None \<Rightarrow> False
                        | Some prior \<Rightarrow> rr_ExitCode prior \<noteq> None \<and> prior \<noteq> result)
                 then Inl ErrInvalid
               else
                 let db1 =
                       (if successful
                        then setStateTx it StateSucceeded runID (wa_generation a)
                               ''protected retained capture confirmed successful execution'' now db
                        else if wi_source it = SourceChat \<and> wi_domain_kind it = ''host_chat_turn''
                        then setStateTx it StateFailed runID (wa_generation a)
                               ''protected retained capture confirmed failed execution'' now db
                        else db);
                     bound = (\<lambda>b. wa_run_id b = runID \<and> wa_work_id b = wa_work_id a
                                  \<and> wa_generation b = wa_generation a \<and> wa_run_status b = '''')
                 in if count_where bound (work_attempts db1) \<noteq> 1 then Inl ErrNotBound
                    else Inr (True, upd_attempts bound
                           (\<lambda>b. b\<lparr>wa_run_result := Some result,
                                  wa_run_status := (if successful then ''COMPLETED'' else ''FAILED''),
                                  wa_exit_evidence := ''protected host capture'',
                                  wa_end_reason := ''protected retained capture confirmed execution exit'',
                                  wa_ended_at := Some now\<rparr>) db1)))"

definition RecoverRetainedResult :: "(RunResult \<Rightarrow> int option) \<Rightarrow> time \<Rightarrow> string \<Rightarrow> RunResult \<Rightarrow> bool \<Rightarrow> work_db
    \<Rightarrow> (work_error + bool) \<times> work_db" where
  "RecoverRetainedResult json_size now runID result successful db =
     (if runID = '''' \<or> rr_ExitCode result = None \<or> successful \<and> rr_ExitCode result \<noteq> Some 0
      then (Inl ErrNotBound, db)
      else if (case json_size result of None \<Rightarrow> True | Some n \<Rightarrow> n > result_limit) then (Inl ErrInvalid, db)
      else in_tx db (recoverRetainedTx now runID result successful db))"

end
