(* ===== verification/Work_Simulation.thy ===== *)
theory Work_Simulation
  imports Work_Refinement Work_Retention Work_Outcomes
begin

text \<open>
  Every operation of the store refines the ledger protocol, and so does every sequence of
  operations.  A \<open>command\<close> is one call with its arguments, the instant it runs at and the fresh
  identifier it is given; \<open>exec_command\<close> is its effect on the tables, \<open>run_commands\<close> a schedule.
\<close>

subsection \<open>Worker operations\<close>

lemma refines_in_tx:
  assumes "good db" "\<And>x db'. r = Inr (x, db') \<Longrightarrow> refines db db'"
  shows "refines db (snd (in_tx db r))"
  using assms by (cases r rule: in_tx_cases [of _ db]) (auto simp: refines_refl)

lemma binding_bound:
  assumes "good db" "verifyAttemptBindingTx db w run gen igen = Inr u"
  obtains a where "gen = igen" "a \<in> set (work_attempts db)" "bound_row w run gen a"
  using assms binding_iff by (auto simp: good_def)

lemma retry_row:
  fixes t :: time
  assumes "good db" "item_row db w = Some it"
  defines "db1 \<equiv> upd_items (\<lambda>r. wi_id r = wi_id it) (\<lambda>r. r\<lparr>wi_eligible_at := t\<rparr>) db"
  shows "good db1" "refines db db1" "item_row db1 w = Some (it\<lparr>wi_eligible_at := t\<rparr>)"
proof -
  have "abs_ledger db1 = abs_ledger db" unfolding db1_def by (rule abs_items_keep) (auto simp: entry_of_def)
  moreover have "ledger_wf db1" unfolding db1_def using assms(1) by (auto intro: wf_upd_items good_wf)
  ultimately show "good db1" "refines db db1" using assms(1) by (auto simp: good_def refines_def)
  show "item_row db1 w = Some (it\<lparr>wi_eligible_at := t\<rparr>)"
    unfolding db1_def using assms(2) by (subst item_row_upd) auto
qed

lemma not_closing_active:
  "CanTransition f to \<Longrightarrow> \<not> closes_attempt to \<Longrightarrow> attempt_active to"
  using CanTransition_valid [of f to] by (cases to) (auto simp: closes_attempt_def)

lemma closing_not_active: "closes_attempt to \<Longrightarrow> \<not> attempt_active to"
  by (auto simp: closes_attempt_def attempt_active_def)

lemma retry_to_failed:
  "attempt_active f \<Longrightarrow> CanTransition f StateFailed"
  by (auto simp: attempt_active_def CanTransition_iff)

lemma transitionTx_refines:
  assumes "good db" "transitionTx now rnd req db = Inr (u, db')"
  shows "refines db db'"
proof -
  let ?w = "tr_WorkID req"
  obtain it where it: "item_row db ?w = Some it"
    using assms(2) by (auto simp: transitionTx_def getItemTx_Inr split: sum.splits)
  have can: "CanTransition (wi_state it) (tr_To req)"
    using assms(2) it by (auto simp: transitionTx_def getItemTx_def split: sum.splits if_splits)
  from assms(2) it obtain v where "verifyAttemptBindingTx db ?w (tr_RunID req) (tr_Generation req) (wi_generation it) = Inr v"
    by (auto simp: transitionTx_def getItemTx_def split: sum.splits if_splits)
  with assms(1) obtain a where a: "a \<in> set (work_attempts db)" "bound_row ?w (tr_RunID req) (tr_Generation req) a"
    by (rule binding_bound)
  have active: "attempt_active (wi_state it)" by (rule bound_facts(1) [OF assms(1) it a])
  define spent where "spent \<longleftrightarrow> tr_To req = StateRetryWait \<and> wi_attempts it \<ge> MaxAttempts"
  define to where "to = (if spent then StateFailed else tr_To req)"
  define reason where "reason = (if spent then tr_Reason req @ '' (no attempts left after ''
                                @ go_itoa (wi_attempts it) @ '')'' else tr_Reason req)"
  define db1 where "db1 = (if to = StateRetryWait
                           then upd_items (\<lambda>r. wi_id r = wi_id it)
                                  (\<lambda>r. r\<lparr>wi_eligible_at := now + Backoff (wi_attempts it) rnd\<rparr>) db
                           else db)"
  have can': "CanTransition (wi_state it) to" using can retry_to_failed [OF active] by (simp add: to_def)
  obtain r where db1: "good db1" "refines db db1" "item_row db1 ?w = Some r"
      and r: "wi_id r = ?w" "wi_id it = ?w" "wi_state it = wi_state r"
    using retry_row [OF assms(1) it] refines_refl [OF assms(1)] assms(1) it item_row_Some [OF it]
    by (cases "to = StateRetryWait") (auto simp: db1_def)
  have a1: "a \<in> set (work_attempts db1)" using a(1) by (simp add: db1_def row_simps)
  show ?thesis
  proof (cases "closes_attempt to")
    case True
    then have "refines db1 db'"
      using assms(2) it a1 db1(1,3) r can' a closing_not_active
      by (auto simp: transitionTx_def getItemTx_def Let_def spent_def [symmetric] to_def [symmetric]
          reason_def [symmetric] db1_def [symmetric] setState_upd_attempts [symmetric]
          split: sum.splits if_splits intro!: close_and_move [OF db1(1,3) a1 a(2)] simp: bound_row_def trial_of_def)
    then show ?thesis using db1(2) refines_trans by blast
  next
    case False
    have "refines db1 (setStateTx it to (tr_RunID req) (wi_generation it) reason now db1)"
      using r db1 active can' not_closing_active [OF can' False]
      by (intro move_refines) (auto intro!: item_step.keep)
    then have "refines db1 db'"
      using False assms(2) it
      by (auto simp: transitionTx_def getItemTx_def Let_def spent_def [symmetric] to_def [symmetric]
          reason_def [symmetric] db1_def [symmetric] split: sum.splits if_splits)
    then show ?thesis using db1(2) refines_trans by blast
  qed
qed

lemma attempts_keep_refines:
  assumes "good db" "\<And>a. wa_run_id (g a) = wa_run_id a" "\<And>a. wa_work_id (g a) = wa_work_id a"
    "\<And>a. trial_of (g a) = trial_of a"
  shows "refines db (upd_attempts P g db)"
  using assms by (intro refines_same wf_upd_attempts abs_attempts_keep good_wf)

lemma markStartingTx_refines:
  "good db \<Longrightarrow> markStartingTx w run gen loc db = Inr (u, db') \<Longrightarrow> refines db db'"
  by (auto simp: markStartingTx_def Let_def trial_of_def split: sum.splits if_splits
      intro!: attempts_keep_refines)

lemma MarkRuntimeRequestedTx_refines:
  "good db \<Longrightarrow> MarkRuntimeRequestedTx w run gen db = Inr (u, db') \<Longrightarrow> refines db db'"
  by (auto simp: MarkRuntimeRequestedTx_def Let_def trial_of_def split: sum.splits if_splits
      intro!: attempts_keep_refines)

lemma Heartbeat_refines: "good db \<Longrightarrow> refines db (snd (Heartbeat now run gen db))"
  by (auto simp: Heartbeat_def trial_of_def refines_refl intro!: attempts_keep_refines)

lemma startRunningTx_refines:
  assumes "good db" "startRunningTx now w run gen loc db = Inr (u, db')"
  shows "refines db db'"
proof -
  obtain it where it: "item_row db w = Some it"
    using assms(2) by (auto simp: startRunningTx_def getItemTx_Inr split: sum.splits)
  then obtain v where v: "verifyAttemptBindingTx db w run gen (wi_generation it) = Inr v"
      and can: "CanTransition (wi_state it) StateRunning"
    using assms(2) by (auto simp: startRunningTx_def getItemTx_def split: sum.splits if_splits)
  obtain a where a: "a \<in> set (work_attempts db)" "bound_row w run gen a"
    using binding_bound [OF assms(1) v] by blast
  define P where "P = (\<lambda>a. bound_row w run gen a
                        \<and> (wa_runtime_phase a = runtimePhaseStarting
                           \<or> wa_runtime_phase a = runtimePhaseRequested
                           \<or> wa_runtime_phase a = runtimePhaseConfirmed))"
  define g :: "Attempt \<Rightarrow> Attempt" where "g = (\<lambda>a. a\<lparr>wa_runtime_locator := (if loc \<noteq> '''' then loc
                                                            else wa_runtime_locator a),
                                     wa_runtime_phase := runtimePhaseConfirmed\<rparr>)"
  let ?db = "upd_attempts P g db"
  have keep: "refines db ?db" using assms(1) by (intro attempts_keep_refines) (auto simp: g_def trial_of_def)
  have row: "item_row ?db w = Some it" using it by (simp add: row_simps)
  have "refines ?db (setStateTx it StateRunning run gen ''runtime confirmed'' now ?db)"
    using refines_good [OF assms(1) keep] row item_row_Some [OF it] can bound_facts(1) [OF assms(1) it a]
    by (intro move_refines) (auto intro!: item_step.keep)
  moreover have "db' = setStateTx it StateRunning run gen ''runtime confirmed'' now ?db"
    using assms(2) it v can by (auto simp: startRunningTx_def getItemTx_def Let_def P_def g_def split: if_splits)
  ultimately show ?thesis using keep refines_trans by blast
qed

lemma append_refines:
  assumes "good db" "item_row db w = Some it" "attempt_active (wi_state it)"
  shows "refines db (appendEventTx w (Some (wi_state it)) (wi_state it) run gen why now db)"
proof (rule refines_change [OF assms(2)])
  show "ledger_wf (appendEventTx w (Some (wi_state it)) (wi_state it) run gen why now db)"
    using assms by (intro wf_append good_wf)
  show "item_step (session_clear (abs_ledger db) w (wi_session_id it)) (entry_of db it)
          (add_note (Some (wi_state it)) (wi_state it) (entry_of db it))"
    using item_step.remark [of "entry_of db it"] assms(3) by simp
qed (rule abs_append [OF assms(2) good_history [OF assms(1,2)]])

text \<open>A deferral succeeds only for the open planned attempt, and then does one of two things.\<close>

lemma deferTx_cases:
  assumes "good db" "deferTx now w run gen until why db = Inr (u, db')"
  obtains it a where "item_row db w = Some it" "gen = wi_generation it" "attempt_active (wi_state it)"
    "a \<in> set (work_attempts db)" "bound_row w run gen a" "wa_runtime_phase a = runtimePhasePlanned"
    "db' = (if wa_cancel_requested_at a \<noteq> None
       then setStateTx it StateCancelled run gen (''cancelled while held: '' @ wa_cancel_reason a) now
              (upd_attempts (bound_row w run gen) (\<lambda>b. b\<lparr>wa_ended_at := Some now,
                 wa_end_reason := ''cancelled while held: '' @ wa_cancel_reason a\<rparr>) db)
       else appendEventTx w (Some (wi_state it)) StateQueued run gen why now
              (upd_items (\<lambda>r. wi_id r = w \<and> wi_generation r = gen)
                 (\<lambda>r. r\<lparr>wi_state := StateQueued, wi_state_reason := why,
                        wi_attempts := max (wi_attempts r - 1) 0, wi_eligible_at := until,
                        wi_updated_at := now\<rparr>)
                 (upd_attempts (\<lambda>a. bound_row w run gen a \<and> wa_runtime_phase a = runtimePhasePlanned)
                    (\<lambda>a. a\<lparr>wa_ended_at := Some now, wa_end_reason := ''deferred: '' @ why\<rparr>) db)))"
proof -
  obtain it where it: "item_row db w = Some it"
    using assms(2) by (auto simp: deferTx_def getItemTx_Inr split: sum.splits)
  then obtain v where v: "verifyAttemptBindingTx db w run gen (wi_generation it) = Inr v"
    using assms(2) by (auto simp: deferTx_def getItemTx_def split: sum.splits if_splits)
  have nt: "\<not> Terminal (wi_state it)"
    using assms(2) it by (auto simp: deferTx_def getItemTx_def split: if_splits)
  obtain a where a: "a \<in> set (work_attempts db)" "bound_row w run gen a" and gen: "gen = wi_generation it"
    using binding_bound [OF assms(1) v] by blast
  let ?p = "\<lambda>a. bound_row w run gen a \<and> wa_runtime_phase a = runtimePhasePlanned"
  obtain b where b: "find ?p (work_attempts db) = Some b"
    using assms(2) it v by (auto simp: deferTx_def getItemTx_def Let_def split: sum.splits if_splits option.splits)
  then have "b \<in> set (work_attempts db)" "?p b" by (auto simp: find_Some_iff)
  then have ba: "?p a" "b = a"
    using a attempts.key_unique [of "work_attempts db" a b] good_wf [OF assms(1)]
    by (auto simp: ledger_wf_def bound_row_def)
  show thesis
    using assms(2) [unfolded deferTx_def getItemTx_def it option.case sum.case v Let_def b ba(2)] nt
    by (intro that [OF it gen bound_facts(1) [OF assms(1) it a] a]) (use ba in \<open>simp_all split: if_splits\<close>)
qed

lemma give_back_refines:
  assumes "good db" "item_row db w = Some it" "a \<in> set (work_attempts db)" "bound_row w run gen a"
    "wa_runtime_phase a = runtimePhasePlanned"
  shows "refines db (appendEventTx w (Some (wi_state it)) StateQueued run gen why now
              (upd_items (\<lambda>r. wi_id r = w \<and> wi_generation r = gen)
                 (\<lambda>r. r\<lparr>wi_state := StateQueued, wi_state_reason := why,
                        wi_attempts := max (wi_attempts r - 1) 0, wi_eligible_at := until,
                        wi_updated_at := now\<rparr>)
                 (upd_attempts (\<lambda>a. bound_row w run gen a \<and> wa_runtime_phase a = runtimePhasePlanned)
                    (\<lambda>a. a\<lparr>wa_ended_at := Some now, wa_end_reason := ''deferred: '' @ why\<rparr>) db)))"
    (is "refines db (appendEventTx w ?from StateQueued run gen why now (upd_items ?q ?f (upd_attempts ?p ?g db)))")
proof -
  let ?db1 = "upd_attempts ?p ?g db" and ?e = "close_tries (entry_of db it)"
  let ?db2 = "upd_items ?q ?f ?db1"
  note bound = bound_facts [OF assms(1-4)]
  have closed: "abs_ledger ?db1 = (abs_ledger db)(w \<mapsto> ?e)"
    using assms(4,5) by (intro close_bound [OF assms(1-4)]) (auto simp: trial_of_def bound_row_def)
  have row1: "item_row ?db1 w = Some it" using assms(2) by (simp add: row_simps)
  have row2: "item_row ?db2 w = Some (?f it)"
    using row1 item_row_Some [OF assms(2)] bound(2) by (subst item_row_upd) auto
  have "abs_ledger (appendEventTx w ?from StateQueued run gen why now ?db2)
      = (abs_ledger ?db2)(w \<mapsto> add_note ?from StateQueued (entry_of ?db2 (?f it)))"
    by (rule abs_append [OF row2]) (use good_history [OF assms(1,2)] in \<open>simp add: row_simps\<close>)
  also have "abs_ledger ?db2 = (abs_ledger ?db1)(w := abs_ledger ?db2 w)"
    by (intro abs_only_at only_at_upd_items) auto
  also have "add_note ?from StateQueued (entry_of ?db2 (?f it))
      = move_to StateQueued ?e\<lparr>e_spent := max (wi_attempts it - 1) 0\<rparr>"
    unfolding entry_of_closed [OF closed row1, symmetric]
    by (simp add: entry_of_def row_simps add_note_def move_to_def)
  finally have "abs_ledger (appendEventTx w ?from StateQueued run gen why now ?db2)
      = (abs_ledger db)(w \<mapsto> move_to StateQueued ?e\<lparr>e_spent := max (wi_attempts it - 1) 0\<rparr>)"
    by (simp only: closed fun_upd_upd)
  moreover have "ledger_wf (appendEventTx w ?from StateQueued run gen why now ?db2)"
    using good_wf [OF assms(1)] by (intro wf_append [OF _ row2] wf_upd_items wf_upd_attempts) auto
  ultimately show ?thesis
    using item_step.give_back [of "entry_of db it"] bound(1) by (intro refines_change [OF assms(2)]) auto
qed

lemma deferTx_refines:
  assumes "good db" "deferTx now w run gen until why db = Inr (u, db')"
  shows "refines db db'"
proof (rule deferTx_cases [OF assms])
  fix it a
  assume *: "item_row db w = Some it" "attempt_active (wi_state it)" "a \<in> set (work_attempts db)"
    "bound_row w run gen a" "wa_runtime_phase a = runtimePhasePlanned"
    and db': "db' = (if wa_cancel_requested_at a \<noteq> None
       then setStateTx it StateCancelled run gen (''cancelled while held: '' @ wa_cancel_reason a) now
              (upd_attempts (bound_row w run gen) (\<lambda>b. b\<lparr>wa_ended_at := Some now,
                 wa_end_reason := ''cancelled while held: '' @ wa_cancel_reason a\<rparr>) db)
       else appendEventTx w (Some (wi_state it)) StateQueued run gen why now
              (upd_items (\<lambda>r. wi_id r = w \<and> wi_generation r = gen)
                 (\<lambda>r. r\<lparr>wi_state := StateQueued, wi_state_reason := why,
                        wi_attempts := max (wi_attempts r - 1) 0, wi_eligible_at := until,
                        wi_updated_at := now\<rparr>)
                 (upd_attempts (\<lambda>a. bound_row w run gen a \<and> wa_runtime_phase a = runtimePhasePlanned)
                    (\<lambda>a. a\<lparr>wa_ended_at := Some now, wa_end_reason := ''deferred: '' @ why\<rparr>) db)))"
  have "CanTransition (wi_state it) StateCancelled"
    using *(2) by (auto simp: attempt_active_def CanTransition_iff)
  then have "refines db (setStateTx it StateCancelled run gen (''cancelled while held: '' @ wa_cancel_reason a) now
              (upd_attempts (bound_row w run gen) (\<lambda>b. b\<lparr>wa_ended_at := Some now,
                 wa_end_reason := ''cancelled while held: '' @ wa_cancel_reason a\<rparr>) db))"
    using item_row_Some [OF *(1)] *(4)
    by (intro close_and_move [OF assms(1) *(1,3,4)]) (auto simp: bound_row_def trial_of_def)
  then show ?thesis unfolding db' using give_back_refines [OF assms(1) *(1,3,4,5)] by simp
qed

subsection \<open>Recovery, cancellation and resolution\<close>

lemma recover_one_refines:
  assumes "good db" "e \<in> set (work_attempts db)" "wa_ended_at e = None" "item_row db (wa_work_id e) = Some it"
  shows "refines db (recover_one now e it db)"
proof -
  have bound: "bound_row (wa_work_id e) (wa_run_id e) (wa_generation e) e"
    using assms(3) by (simp add: bound_row_def)
  have unique: "b = e" if "b \<in> set (work_attempts db)" "wa_run_id b = wa_run_id e" for b
    using that assms(2) good_wf [OF assms(1)] attempts.key_unique [of "work_attempts db" b e]
    by (simp add: ledger_wf_def)
  have "CanTransition (wi_state it) StateNeedsReconciliation"
    using bound_facts(1) [OF assms(1,4,2) bound] by (auto simp: attempt_active_def CanTransition_iff)
  then show ?thesis
    unfolding recover_one_def Let_def
    using assms(3) unique item_row_Some [OF assms(4)]
    by (intro close_and_move [OF assms(1,4,2) bound]) (auto simp: trial_of_def)
qed

lemma recover_one_others:
  assumes "f \<in> set (work_attempts db)" "wa_run_id f \<noteq> wa_run_id e"
  shows "f \<in> set (work_attempts (recover_one now e it db))"
  using assms by (auto simp: recover_one_def Let_def row_simps in_upd_where)

lemma recover_loop_refines:
  assumes "good db" "recover_loop now es out db = Inr (out', db')" "distinct (map wa_run_id es)"
    "\<forall>e \<in> set es. e \<in> set (work_attempts db) \<and> wa_ended_at e = None"
  shows "refines db db'"
  using assms
proof (induction es arbitrary: out db)
  case Nil
  then show ?case by (simp add: refines_refl)
next
  case (Cons e es)
  obtain it where it: "item_row db (wa_work_id e) = Some it"
    using Cons.prems(2) by (auto simp: getItemTx_Inr split: sum.splits)
  let ?db = "recover_one now e it db"
  have one: "refines db ?db" using Cons.prems it by (intro recover_one_refines) auto
  have "\<forall>f \<in> set es. f \<in> set (work_attempts ?db) \<and> wa_ended_at f = None"
    using Cons.prems(3,4) by (auto intro!: recover_one_others simp: image_iff)
  moreover obtain out1 where "recover_loop now es out1 ?db = Inr (out', db')"
    using Cons.prems(2) it by (auto simp: getItemTx_def split: sum.splits)
  ultimately have "refines ?db db'"
    using Cons.IH [OF refines_good [OF Cons.prems(1) one]] Cons.prems(3) by simp
  then show ?case using one refines_trans by blast
qed

lemma distinct_map_filter_key: "distinct (map f xs) \<Longrightarrow> distinct (map f (filter P xs))"
  by (induction xs) auto

lemma RecoverExpiredLeases_refines:
  assumes "good db"
  shows "refines db (snd (RecoverExpiredLeases now db))"
  unfolding RecoverExpiredLeases_def
proof (rule refines_in_tx [OF assms])
  fix out db'
  assume "recover_loop now (filter (expired_lease now db) (work_attempts db))
            \<lparr>ro_Requeued = [], ro_Reconciliation = []\<rparr> db = Inr (out, db')"
  then show "refines db db'"
    using good_wf [OF assms]
    by (intro recover_loop_refines [OF assms])
      (auto simp: ledger_wf_def expired_lease_def distinct_map_filter_key)
qed

lemma item_claimable_idle: "claimable_state s \<longleftrightarrow> idle s"
  by (simp add: claimable_state_def idle_def)

lemma cancelLiveTx_refines:
  assumes "good db" "item_row db w = Some it" "\<not> Terminal (wi_state it)" "\<not> claimable_state (wi_state it)"
    "cancelLiveTx now it by' why db = Inr (res, db')"
  shows "refines db db'"
proof -
  let ?open = "\<lambda>a. wa_work_id a = wi_id it \<and> wa_generation a = wi_generation it \<and> wa_ended_at a = None"
  have w: "wi_id it = w" using item_row_Some [OF assms(2)] by simp
  show ?thesis
  proof (cases "find ?open (work_attempts db)")
    case None
    have "wi_state it = StateNeedsReconciliation"
    proof (rule ccontr)
      assume "wi_state it \<noteq> StateNeedsReconciliation"
      then have "attempt_active (wi_state it)"
        using assms(3,4) entry_okD(3) [OF good_entry [OF assms(1,2)]]
        by (cases "wi_state it") (auto simp: claimable_state_def)
      then obtain a where a: "a \<in> set (item_attempts db w)" "wa_ended_at a = None"
        using active_attempt [OF assms(1,2)] by blast
      then have "?open a" using a open_attempt [OF assms(1,2) a, THEN conjunct2, THEN conjunct1] w by (simp add: item_attempts_in)
      then show False using None a(1) by (auto simp: find_None_iff item_attempts_in)
    qed
    then show ?thesis using assms(1,5) None by (simp add: cancelLiveTx_def refines_refl)
  next
    case (Some a)
    then have a: "a \<in> set (work_attempts db)" "bound_row w (wa_run_id a) (wa_generation a) a"
      using w by (auto simp: find_Some_iff bound_row_def)
    have active: "attempt_active (wi_state it)" by (rule bound_facts(1) [OF assms(1,2) a])
    define g :: "Attempt \<Rightarrow> Attempt" where "g = (\<lambda>r. if wa_cancel_requested_at r = None
                              then r\<lparr>wa_cancel_requested_at := Some now,
                                     wa_cancel_requested_by := by',
                                     wa_cancel_reason := why\<rparr>
                              else r)"
    let ?db = "upd_attempts (bound_row w (wa_run_id a) (wa_generation a)) g db"
    have keep: "refines db ?db"
      using assms(1) by (intro attempts_keep_refines) (auto simp: g_def trial_of_def)
    have "refines ?db (appendEventTx w (Some (wi_state it)) (wi_state it) (wa_run_id a) (wa_generation a)
                        (''cancel requested: '' @ why) now ?db)"
      using refines_good [OF assms(1) keep] assms(2) active by (intro append_refines) (auto simp: row_simps)
    then show ?thesis
      using refines_trans [OF keep] assms(1,5) Some w
      by (auto simp: cancelLiveTx_def Let_def g_def [symmetric] refines_refl split: if_splits)
  qed
qed

lemma end_idle_refines:
  assumes "good db" "item_row db w = Some it" "claimable_state (wi_state it)"
    "to \<in> {StateFailed, StateExpired, StateCancelled}"
  shows "refines db (setStateTx it to run gen why now db)"
  using assms item_row_Some [OF assms(2)]
  by (intro move_refines) (auto simp: item_claimable_idle intro!: item_step.end_idle)

lemma RequestCancelTx_refines:
  assumes "good db" "RequestCancelTx now w by' why db = Inr (res, db')"
  shows "refines db db'"
proof -
  obtain it where it: "item_row db w = Some it"
    using assms(2) by (auto simp: RequestCancelTx_def getItemTx_Inr split: sum.splits)
  have w: "wi_id it = w" using item_row_Some [OF it] by simp
  have unique: "r = it" if "r \<in> set (work_items db)" "wi_id r = w" for r
    using that it wf_item_row [OF good_wf [OF assms(1)], of w r] by simp
  let ?same = "\<lambda>r. wi_id r = wi_id it \<and> wi_state r = wi_state it \<and> wi_generation r = wi_generation it"
  have one: "count_where ?same (work_items db) = 1"
    using item_row_Some [OF it] good_wf [OF assms(1)]
    by (intro items.count_key_eq1 [of _ _ w it]) (auto simp: ledger_wf_def)
  consider "Terminal (wi_state it)" | "claimable_state (wi_state it)"
    | "\<not> Terminal (wi_state it)" "\<not> claimable_state (wi_state it)" by blast
  then show ?thesis
  proof cases
    case 1
    then show ?thesis using assms it by (simp add: RequestCancelTx_def getItemTx_def refines_refl)
  next
    case 2
    then have "\<not> Terminal (wi_state it)" by (auto simp: claimable_state_def)
    moreover have "upd_items ?same f db = upd_items (\<lambda>r. wi_id r = wi_id it) f db" for f
      using unique w by (auto simp: upd_items_def upd_where_def)
    ultimately have "db' = setStateTx it StateCancelled '''' (wi_generation it) why now db"
      using assms(2) it 2 one by (simp add: RequestCancelTx_def getItemTx_def setStateTx_def Let_def)
    then show ?thesis using end_idle_refines [OF assms(1) it 2] by simp
  next
    case 3
    then show ?thesis
      using assms it cancelLiveTx_refines [OF assms(1) it] by (auto simp: RequestCancelTx_def getItemTx_def)
  qed
qed

lemma resolveTx_refines:
  assumes "good db" "resolveTx now w gen to by' why db = Inr (u, db')"
  shows "refines db db'"
proof -
  obtain it where it: "item_row db w = Some it" and st: "wi_state it = StateNeedsReconciliation"
      and can: "CanTransition (wi_state it) to"
    using assms(2) by (auto simp: resolveTx_def getItemTx_Inr split: sum.splits if_splits)
  let ?db = "setStateTx it to '''' (wi_generation it) (''resolved by '' @ by' @ '': '' @ why) now db"
  have moved: "refines db ?db"
    using assms(1) it item_row_Some [OF it] st can by (intro move_refines) (auto intro!: item_step.resolve)
  have "refines ?db (upd_attempts P (\<lambda>a. a\<lparr>wa_run_status := s\<rparr>) ?db)" for P s
    using refines_good [OF assms(1) moved] by (intro attempts_keep_refines) (auto simp: trial_of_def)
  then show ?thesis
    using assms(2) it moved refines_trans [OF moved]
    by (auto simp: resolveTx_def getItemTx_def Let_def split: if_splits)
qed

subsection \<open>Acceptance and claiming\<close>

lemma AcceptTx_refines:
  assumes "good db" "AcceptTx now newid req db = Inr (rc, db')"
  shows "refines db db'"
proof -
  let ?it = "accepted_item now newid req"
  let ?db = "db\<lparr>work_items := work_items db @ [?it]\<rparr>"
  have fresh: "\<forall>r \<in> set (work_items db). wi_id r \<noteq> newid"
    and db': "db' = appendEventTx newid None StateQueued '''' 0 ''accepted'' now ?db"
    using assms(2)
    by (auto simp: AcceptTx_def insert_item_def list_ex_iff item_conflict_def accepted_item_def
        split: if_splits sum.splits)
  have none: "item_row db newid = None" using fresh by (simp add: item_row_def items.find_key_None)
  have empty: "item_attempts db newid = []" "item_events db newid = []"
    using good_wf [OF assms(1)] fresh
    by (auto simp: ledger_wf_def item_attempts_def item_events_def filter_empty_conv image_subset_iff)
      (metis imageE)+
  have id: "wi_id ?it = newid" by (simp add: accepted_item_def)
  have row: "item_row db' v = (if v = newid then Some ?it else item_row db v)" for v
    using none id by (cases "item_row db v") (auto simp: db' row_simps item_row_def find_append)
  have other: "entry_of db' r = entry_of db r" if "wi_id r \<noteq> newid" for r
    using that by (simp add: entry_of_def db' row_simps item_events_append) (simp add: item_events_def item_attempts_def)
  have new: "entry_of db' ?it = fresh_entry (ar_SessionID req)"
    using empty by (simp add: entry_of_def id db' row_simps item_events_append)
      (simp add: item_events_def item_attempts_def fresh_entry_def accepted_item_def note_of_def
        next_event_seq_def next_number_def)
  have "abs_ledger db' = (abs_ledger db)(newid \<mapsto> fresh_entry (ar_SessionID req))"
  proof
    fix v
    show "abs_ledger db' v = ((abs_ledger db)(newid \<mapsto> fresh_entry (ar_SessionID req))) v"
      using other new none item_row_Some [of db v]
      by (cases "item_row db v") (auto simp: abs_ledger_def row)
  qed
  moreover have "ledger_step (abs_ledger db) ((abs_ledger db)(newid \<mapsto> fresh_entry (ar_SessionID req)))"
    using none by (intro ledger_step.accept) (simp add: abs_ledger_def)
  moreover have "ledger_wf db'"
    using good_wf [OF assms(1)] fresh by (auto simp: ledger_wf_def db' appendEventTx_def accepted_item_def)
  ultimately show ?thesis by (auto simp: refines_def)
qed

lemma expire_all_refines:
  assumes "good db" "distinct (map wi_id its)"
    "\<forall>it \<in> set its. item_row db (wi_id it) = Some it \<and> claimable_state (wi_state it)"
  shows "refines db (expire_all now its db)"
  using assms
proof (induction its arbitrary: db)
  case Nil
  then show ?case by (simp add: refines_refl)
next
  case (Cons it its)
  let ?db = "setStateTx it StateExpired '''' (wi_generation it) ''deadline passed before start'' now db"
  have one: "refines db ?db" using Cons.prems by (intro end_idle_refines) auto
  have "refines ?db (expire_all now its ?db)"
  proof (rule Cons.IH [OF refines_good [OF Cons.prems(1) one]])
    have "wi_id it \<notin> wi_id ` set its" using Cons.prems(2) by simp
    then have "wi_id x \<noteq> wi_id it" if "x \<in> set its" for x using that by (metis imageI)
    then show "\<forall>x \<in> set its. item_row ?db (wi_id x) = Some x \<and> claimable_state (wi_state x)"
      using Cons.prems(3) by (simp add: item_row_setState_other)
  qed (use Cons.prems in simp)
  then show ?case using refines_trans [OF one] by simp
qed

lemma next_attempt_seq_eq:
  assumes "good db" "item_row db w = Some it"
  shows "next_attempt_seq db w = int (length (item_attempts db w)) + 1"
proof -
  have "map wa_attempt (item_attempts db w) = map t_seq (map trial_of (item_attempts db w))"
    by (simp add: trial_of_def)
  also have "\<dots> = map int [1..<Suc (length (item_attempts db w))]"
    using good_tries [OF assms] by (simp add: tries_ok_def)
  finally show ?thesis
    unfolding next_attempt_seq_def item_attempts_def [symmetric] by (simp only: next_number_upto)
qed

text \<open>
  A start that succeeds: the item row is taken, the attempt row inserted, the event appended.
\<close>

lemma start_refines:
  assumes "good db" "item_row db w = Some it" "claimable_state (wi_state it)"
    "wi_session_id it = '''' \<or> session_clear (abs_ledger db) w (wi_session_id it)"
    "startAttemptWithRunIDTx it owner now newid runID db = Inr (Some c, db')"
  shows "refines db db'"
proof -
  have w: "wi_id it = w" using item_row_Some [OF assms(2)] by simp
  define P :: "Item \<Rightarrow> bool" where "P = (\<lambda>r. wi_id r = wi_id it \<and> wi_generation r = wi_generation it \<and> claimable_state (wi_state r))"
  define f :: "Item \<Rightarrow> Item" where "f = (\<lambda>r. r\<lparr>wi_state := StateStarting, wi_state_reason := '''',
       wi_generation := wi_generation it + 1, wi_attempts := wi_attempts it + 1, wi_updated_at := now\<rparr>)"
  define run where "run = (if runID = '''' then newid else runID)"
  define a where "a = new_attempt run w (next_attempt_seq db w) (wi_generation it + 1) owner now"
  let ?db1 = "upd_items P f db"
  let ?db2 = "?db1\<lparr>work_attempts := work_attempts ?db1 @ [a]\<rparr>"
  have budget: "wi_attempts it < MaxAttempts"
    and fresh: "\<forall>b \<in> set (work_attempts db). wa_run_id b \<noteq> run"
    and db': "db' = appendEventTx w (Some (wi_state it)) StateStarting run (wi_generation it + 1) ''claimed'' now ?db2"
    using assms(5) w
    by (auto simp: startAttemptWithRunIDTx_def insert_attempt_def Let_def P_def [symmetric] f_def [symmetric]
        run_def [symmetric] a_def [symmetric] row_simps list_ex_iff attempt_conflict_def
        split: if_splits sum.splits) (auto simp: a_def new_attempt_def)
  have f_sel: "wi_id (f it) = w" "wi_session_id (f it) = wi_session_id it" "wi_state (f it) = StateStarting"
    "wi_generation (f it) = wi_generation it + 1" "wi_attempts (f it) = wi_attempts it + 1"
    "wi_terminal_at (f it) = wi_terminal_at it" by (simp_all add: f_def w)
  have a_trial: "trial_of a = \<lparr>t_run = run, t_seq = int (length (item_attempts db w)) + 1,
      t_gen = wi_generation it + 1, t_open = True\<rparr>"
    using next_attempt_seq_eq [OF assms(1,2)] by (simp add: a_def new_attempt_def trial_of_def)
  have row1: "item_row ?db1 w = Some (f it)"
    using assms(2,3) by (subst item_row_upd) (auto simp: P_def f_def)
  then have row2: "item_row ?db2 w = Some (f it)" by simp
  have attempts: "item_attempts ?db2 v = item_attempts db v @ (if v = w then [a] else [])" for v
    by (simp add: item_attempts_def row_simps a_def new_attempt_def)
  have events: "item_events ?db2 v = item_events db v" for v by (simp add: item_events_def row_simps)
  have "only_at w db ?db1" by (rule only_at_upd_items) (auto simp: P_def f_def w)
  then have only: "only_at w db ?db2" using attempts events by (auto simp: only_at_def)
  have "abs_ledger db' = (abs_ledger ?db2)(w \<mapsto> add_note (Some (wi_state it)) StateStarting (entry_of ?db2 (f it)))"
    unfolding db' by (rule abs_append [OF row2]) (use good_history [OF assms(1,2)] in \<open>simp add: events\<close>)
  also have "entry_of ?db2 (f it) = open_try run (entry_of db it)\<lparr>e_state := StateStarting\<rparr>"
    by (simp add: entry_of_def f_sel attempts events open_try_def a_trial w)
  also have "add_note (Some (wi_state it)) StateStarting (open_try run (entry_of db it)\<lparr>e_state := StateStarting\<rparr>)
      = move_to StateStarting (open_try run (entry_of db it))"
    by (simp add: add_note_def move_to_def open_try_def)
  also have "abs_ledger ?db2 = (abs_ledger db)(w := abs_ledger ?db2 w)" by (rule abs_only_at [OF only])
  finally have "abs_ledger db' = (abs_ledger db)(w \<mapsto> move_to StateStarting (open_try run (entry_of db it)))"
    by (simp only: fun_upd_upd)
  moreover have "ledger_wf ?db2"
    using wf_upd_items [OF good_wf [OF assms(1)], of f P] fresh row1
    by (auto simp: ledger_wf_def row_simps f_def a_def new_attempt_def dest!: item_row_Some)
  then have "ledger_wf db'" unfolding db' by (rule wf_append [OF _ row2])
  ultimately show ?thesis
    using assms(3,4) budget
    by (intro refines_change [OF assms(2)]) (auto intro!: item_step.start simp: item_claimable_idle)
qed

lemma exhausted_refines:
  assumes "good db" "item_row db w = Some it" "claimable_state (wi_state it)"
    "startAttemptWithRunIDTx it owner now newid runID db = Inr (None, db')"
  shows "refines db db'" "db' = setStateTx it StateFailed '''' (wi_generation it) ''max attempts exhausted'' now db"
proof -
  show db': "db' = setStateTx it StateFailed '''' (wi_generation it) ''max attempts exhausted'' now db"
    using assms(4) by (auto simp: startAttemptWithRunIDTx_def Let_def split: if_splits sum.splits)
  show "refines db db'" unfolding db' using assms by (intro end_idle_refines) auto
qed

lemma admitsTx_session:
  assumes "admitsTx db it lim live"
  shows "wi_session_id it = '''' \<or> session_clear (abs_ledger db) w (wi_session_id it)"
proof (rule disjCI)
  assume "\<not> session_clear (abs_ledger db) w (wi_session_id it)"
  then obtain v r where "item_row db v = Some r" "wi_session_id r = wi_session_id it" "OccupiesSession (wi_state r)"
    by (auto simp: session_clear_def abs_item_iff)
  then have "0 < count_where (\<lambda>s. wi_session_id s = wi_session_id it
        \<and> in_state_list OccupiesSession (wi_state s)) (work_items db)"
    using item_row_Some by (auto simp: count_where_pos)
  then show "wi_session_id it = ''''" using assms by (auto simp: admitsTx_def split: if_splits)
qed

lemma claim_loop_refines:
  assumes "good db" "claim_loop lim live owner now newid its db = Inr (c, db')" "distinct (map wi_id its)"
    "\<forall>it \<in> set its. item_row db (wi_id it) = Some it \<and> claimable_state (wi_state it)"
  shows "refines db db'"
  using assms
proof (induction its arbitrary: db)
  case Nil
  then show ?case by (simp add: refines_refl)
next
  case (Cons it its)
  have it: "item_row db (wi_id it) = Some it" "claimable_state (wi_state it)" using Cons.prems(4) by auto
  show ?case
  proof (cases "admitsTx db it lim live")
    case False
    then show ?thesis using Cons by simp
  next
    case True
    then obtain o1 db1 where st: "startAttemptWithRunIDTx it owner now newid '''' db = Inr (o1, db1)"
      using Cons.prems(2) by (auto simp: startAttemptTx_def split: sum.splits)
    show ?thesis
    proof (cases o1)
      case (Some x)
      have "refines db db1"
        by (rule start_refines [OF Cons.prems(1) it admitsTx_session [OF True] st [unfolded Some]])
      then show ?thesis using st Some Cons.prems(2) True by (simp add: startAttemptTx_def)
    next
      case None
      note ex = exhausted_refines [OF Cons.prems(1) it, OF st [unfolded None]]
      have "wi_id it \<notin> wi_id ` set its" using Cons.prems(3) by simp
      then have "wi_id x \<noteq> wi_id it" if "x \<in> set its" for x using that by (metis imageI)
      then have "\<forall>x \<in> set its. item_row db1 (wi_id x) = Some x \<and> claimable_state (wi_state x)"
        using Cons.prems(4) by (simp add: ex(2) item_row_setState_other)
      then have "refines db1 db'"
        using Cons.IH [OF refines_good [OF Cons.prems(1) ex(1)]] Cons.prems(2,3) True st None
        by (simp add: startAttemptTx_def)
      then show ?thesis using refines_trans [OF ex(1)] by simp
    qed
  qed
qed

lemma claimable_rows:
  assumes "good db" "\<And>it. P it \<Longrightarrow> claimable_state (wi_state it)"
  shows "distinct (map wi_id (filter P (work_items db)))"
    "\<forall>it \<in> set (filter P (work_items db)). item_row db (wi_id it) = Some it \<and> claimable_state (wi_state it)"
  using assms good_wf [OF assms(1)] wf_item_row [OF good_wf [OF assms(1)]]
  by (auto simp: ledger_wf_def distinct_map_filter_key)

lemma expireOverdueTx_refines: "good db \<Longrightarrow> refines db (expireOverdueTx now db)"
  unfolding expireOverdueTx_def by (intro expire_all_refines claimable_rows) (auto simp: overdue_def)

lemma scan_rows:
  assumes "good db"
  shows "distinct (map wi_id (scanCandidatesTx opts classes now db))"
    "\<forall>it \<in> set (scanCandidatesTx opts classes now db).
       item_row db (wi_id it) = Some it \<and> claimable_state (wi_state it) \<and> candidate db opts classes now it"
proof -
  let ?xs = "filter (candidate db opts classes now) (work_items db)"
  have "distinct (map wi_id ?xs)" using assms by (intro claimable_rows) (auto simp: candidate_def)
  then have "distinct (map wi_id (sort_key (claim_order db now) ?xs))"
    by (simp add: distinct_map)
  then show "distinct (map wi_id (scanCandidatesTx opts classes now db))"
    unfolding scanCandidatesTx_def by (simp add: take_map [symmetric])
  show "\<forall>it \<in> set (scanCandidatesTx opts classes now db).
       item_row db (wi_id it) = Some it \<and> claimable_state (wi_state it) \<and> candidate db opts classes now it"
    using wf_item_row [OF good_wf [OF assms]]
    by (auto simp: scanCandidatesTx_def candidate_def dest!: in_set_takeD)
qed

lemma claimTx_refines:
  assumes "good db" "claimTx now newid opts db = Inr (c, db')"
  shows "refines db db'"
proof -
  note ex = expireOverdueTx_refines [OF assms(1), of now]
  show ?thesis
  proof (cases "admissibleClasses (countLiveTx (expireOverdueTx now db)) (co_Limits opts) (co_Class opts)")
    case None
    then show ?thesis using assms(2) ex by (simp add: claimTx_def Let_def)
  next
    case (Some classes)
    then have "refines (expireOverdueTx now db) db'"
      using assms(2) scan_rows [OF refines_good [OF assms(1) ex]]
      by (intro claim_loop_refines [OF refines_good [OF assms(1) ex]]) (auto simp: claimTx_def Let_def)
    then show ?thesis using refines_trans [OF ex] by simp
  qed
qed

lemma Claim_refines:
  assumes "good db"
  shows "refines db (snd (Claim hint now newid opts db))"
proof -
  have "refines db (snd (in_tx db (claimTx now newid o1 db)))" for o1
    using assms claimTx_refines by (intro refines_in_tx) auto
  then show ?thesis
    using refines_refl [OF assms]
    by (auto simp: Claim_def Let_def split: prod.splits sum.splits option.splits) (metis snd_conv)+
qed

subsection \<open>Work of the host\<close>

lemma StageRunResult_refines: "good db \<Longrightarrow> refines db (snd (StageRunResult json_size w run gen r db))"
  by (auto simp: StageRunResult_def Let_def trial_of_def refines_refl split: option.splits
      intro!: attempts_keep_refines)

lemma MarkRun_refines:
  assumes "good db"
  shows "refines db (MarkRunProjectionAttempt now run db)" "refines db (MarkRunProjected now run st db)"
  using assms by (auto simp: MarkRunProjectionAttempt_def MarkRunProjected_def trial_of_def
      intro!: attempts_keep_refines)

lemma AcceptAssignmentTx_refines:
  assumes "good db" "AcceptAssignmentTx sha now newid i db = Inr (rc, db')"
  shows "refines db db'"
  using assms(2) AcceptTx_refines [OF assms(1)]
  by (auto simp: AcceptAssignmentTx_def Let_def split: option.splits)

lemma newHostChatTx_refines:
  assumes "good db" "newHostChatTx sha now newid r db = Inr (c, db')"
  shows "refines db db'"
proof -
  obtain rc db1 where acc: "AcceptTx now newid (host_chat_accept sha r) db = Inr (rc, db1)"
    using assms(2) by (auto simp: newHostChatTx_def split: sum.splits)
  then obtain item where item: "item_row db1 (rc_WorkID rc) = Some item"
    using assms(2) by (auto simp: newHostChatTx_def getItemTx_Inr split: sum.splits)
  then have adm: "admitsTx db1 item SerialAgentLimits (countLiveTx db1)"
    using assms(2) acc by (auto simp: newHostChatTx_def getItemTx_def split: if_splits)
  obtain cl db2 where start: "startAttemptWithRunIDTx item (''host-chat:'' @ hc_RunID r) now newid (hc_RunID r) db1
      = Inr (Some cl, db2)"
    using assms(2) acc item adm by (auto simp: newHostChatTx_def getItemTx_def split: sum.splits option.splits)
  have one: "refines db db1" by (rule AcceptTx_refines [OF assms(1) acc])
  note ok1 = refines_good [OF assms(1) one]
  have claimable: "claimable_state (wi_state item)"
  proof -
    have "rc_WorkID rc = newid" "item_row db newid = None"
      using acc by (auto simp: AcceptTx_def insert_item_def list_ex_iff item_conflict_def accepted_item_def
          item_row_def find_None_iff split: if_splits sum.splits)
    moreover have "work_items db1 = work_items db @ [accepted_item now newid (host_chat_accept sha r)]"
      using acc by (auto simp: AcceptTx_def insert_item_def row_simps split: if_splits sum.splits)
    ultimately have "wi_state item = StateQueued"
      using item by (auto simp: item_row_def find_append accepted_item_def)
    then show ?thesis by (simp add: claimable_state_def)
  qed
  have two: "refines db1 db2" by (rule start_refines [OF ok1 item claimable admitsTx_session [OF adm] start])
  have "refines db2 db'"
    using assms(2) acc item adm start refines_good [OF ok1 two]
    by (auto simp: newHostChatTx_def getItemTx_def Let_def trial_of_def split: if_splits intro!: attempts_keep_refines)
  then show ?thesis using one two refines_trans by blast
qed

lemma BeginHostChat_refines:
  assumes "good db"
  shows "refines db (snd (BeginHostChat sha now newid r db))"
proof -
  have "refines db (snd (in_tx db (newHostChatTx sha now newid r db)))"
    by (rule refines_in_tx [OF assms newHostChatTx_refines [OF assms]])
  then show ?thesis using refines_refl [OF assms]
    by (auto simp: BeginHostChat_def split: option.splits sum.splits prod.splits)
qed

lemma finish_target_closes: "finish_target known r = Inr to \<Longrightarrow> closes_attempt to"
  by (auto simp: finish_target_def closes_attempt_def split: if_splits)

lemma finishHostChatTx_refines:
  assumes "good db" "finishHostChatTx now w run gen r result db = Inr (u, db')"
  shows "refines db db'"
proof -
  obtain it where it: "item_row db w = Some it"
    using assms(2) by (auto simp: finishHostChatTx_def getItemTx_Inr split: sum.splits)
  then obtain v where "verifyAttemptBindingTx db w run gen (wi_generation it) = Inr v"
    using assms(2) by (auto simp: finishHostChatTx_def getItemTx_def split: sum.splits)
  with assms(1) obtain a where a: "a \<in> set (work_attempts db)" "bound_row w run gen a"
    by (rule binding_bound)
  obtain to why ev st where *: "db' = upd_attempts (bound_row w run gen)
        (\<lambda>a. a\<lparr>wa_ended_at := Some now, wa_end_reason := why, wa_exit_evidence := ev, wa_run_status := st,
               wa_run_result := (case wa_run_result a of None \<Rightarrow> Some result | Some x \<Rightarrow> Some x)\<rparr>)
        (setStateTx it to run gen why now db)" "CanTransition (wi_state it) to" "closes_attempt to"
    using assms(2) it finish_target_closes
    by (auto simp: finishHostChatTx_def getItemTx_def Let_def split: sum.splits option.splits if_splits prod.splits)
  show ?thesis
    unfolding *(1) setState_upd_attempts [symmetric]
    using *(2,3) closing_not_active item_row_Some [OF it]
    by (intro close_and_move [OF assms(1) it a]) (auto simp: bound_row_def trial_of_def a(2) [unfolded bound_row_def])
qed

lemma recoverRetainedTx_refines:
  assumes "good db" "recoverRetainedTx now run result ok db = Inr (u, db')"
  shows "refines db db'"
proof (cases "db' = db")
  case True
  then show ?thesis using refines_refl [OF assms(1)] by simp
next
  case False
  obtain a where a: "attempt_row db run = Some a"
    using assms(2) False by (auto simp: recoverRetainedTx_def split: option.splits)
  obtain it where it: "item_row db (wa_work_id a) = Some it"
    using assms(2) a False by (auto simp: recoverRetainedTx_def getItemTx_Inr split: sum.splits)
  have st: "wi_state it = StateNeedsReconciliation"
    using assms(2) a it False by (auto simp: recoverRetainedTx_def getItemTx_def Let_def split: if_splits)
  define to where "to = (if ok then StateSucceeded else StateFailed)"
  define why where "why = (if ok then ''protected retained capture confirmed successful execution''
                               else ''protected retained capture confirmed failed execution'')"
  let ?moved = "setStateTx it to run (wa_generation a) why now db"
  have to: "CanTransition StateNeedsReconciliation to" by (simp add: to_def CanTransition_iff)
  have moved: "refines db ?moved"
    using assms(1) it item_row_Some [OF it] st to by (intro move_refines) (auto intro!: item_step.resolve)
  define db1 where "db1 = (if ok then setStateTx it StateSucceeded run (wa_generation a)
                               ''protected retained capture confirmed successful execution'' now db
                        else if wi_source it = SourceChat \<and> wi_domain_kind it = ''host_chat_turn''
                        then setStateTx it StateFailed run (wa_generation a)
                               ''protected retained capture confirmed failed execution'' now db
                        else db)"
  have one: "refines db db1" using moved refines_refl [OF assms(1)] by (cases ok) (simp_all add: db1_def to_def why_def)
  have ended: "wa_ended_at a \<noteq> None"
    using assms(2) a it False by (auto simp: recoverRetainedTx_def getItemTx_def Let_def split: if_splits)
  define P :: "Attempt \<Rightarrow> bool" where "P = (\<lambda>b. wa_run_id b = run \<and> wa_work_id b = wa_work_id a
                                  \<and> wa_generation b = wa_generation a \<and> wa_run_status b = '''')"
  define g :: "Attempt \<Rightarrow> Attempt" where "g = (\<lambda>b. b\<lparr>wa_run_result := Some result,
                                  wa_run_status := (if ok then ''COMPLETED'' else ''FAILED''),
                                  wa_exit_evidence := ''protected host capture'',
                                  wa_end_reason := ''protected retained capture confirmed execution exit'',
                                  wa_ended_at := Some now\<rparr>)"
  have db': "db' = upd_attempts P g db1"
    using assms(2) a it False
    by (auto simp: recoverRetainedTx_def getItemTx_def Let_def db1_def [symmetric] P_def [symmetric] g_def [symmetric]
        split: if_splits)
  have same: "work_attempts db1 = work_attempts db" by (simp add: db1_def row_simps)
  have "b = a" if "b \<in> set (work_attempts db)" "P b" for b
    using that wf_attempt_row [OF good_wf [OF assms(1)], of run b] a by (simp add: P_def)
  then have trial: "trial_of (g b) = trial_of b" if "b \<in> set (work_attempts db1)" "P b" for b
    using that ended by (simp add: same g_def trial_of_def)
  have "upd_attempts P g db1 = upd_attempts P (\<lambda>b. if trial_of (g b) = trial_of b then g b else b) db1"
    using trial by (simp add: upd_attempts_def upd_where_def)
  moreover have "refines db1 \<dots>"
    using refines_good [OF assms(1) one] by (intro attempts_keep_refines) (auto simp: g_def)
  ultimately show ?thesis using db' one refines_trans by metis
qed

subsection \<open>Commands and schedules\<close>

text \<open>
  One call of the store's interface.  The identifiers and the instants the store reads from its
  generator and its clock come with the command, and nothing relates those of different
  commands.  A sweep is a sequence of batches; a batch gets any list of candidates, as stale as the
  schedule makes them.  \<open>Elsewhere\<close> is any write of another subsystem to the tables the ledger reads
  but does not own.
\<close>

datatype command =
    DoAccept time string AcceptRequest
  | DoClaim time time string ClaimOptions
  | DoTransition time "int \<Rightarrow> int" TransitionRequest
  | DoMarkStarting string string int string
  | DoMarkRuntimeRequested string string int
  | DoStartRunning time string string int string
  | DoHeartbeat time string int
  | DoRecover time
  | DoRequestCancel time string string string
  | DoResolve time string int State string string
  | DoDefer time string string int time string
  | DoDeliver IngressLimits time string string NewDelivery AcceptRequest
  | DoExpireBatch RetentionPolicy time "(rawBodyCandidate \<times> time) list"
  | DoDedupBatch RetentionPolicy time "string list"
  | DoAcceptAssignment "string \<Rightarrow> string" time string string
  | DoBeginHostChat "string \<Rightarrow> string" time string HostChatRequest
  | DoHostChatPhase time string string
  | DoFinishHostChat "RunResult \<Rightarrow> int option" time string HostChatResult
  | DoStageRunResult "RunResult \<Rightarrow> int option" string string int RunResult
  | DoRecoverRetained "RunResult \<Rightarrow> int option" time string RunResult bool
  | DoProjectionAttempt time string
  | DoProjected time string string
  | Elsewhere "assignment_row list" "agent_row list" "crew_row list" "(string \<times> string) list"

fun exec_command :: "command \<Rightarrow> work_db \<Rightarrow> work_db" where
  "exec_command (DoAccept now newid req) db = snd (in_tx db (AcceptTx now newid req db))"
| "exec_command (DoClaim hint now newid opts) db = snd (Claim hint now newid opts db)"
| "exec_command (DoTransition now rnd req) db = snd (Transition now rnd req db)"
| "exec_command (DoMarkStarting w run gen loc) db = snd (MarkStarting w run gen loc db)"
| "exec_command (DoMarkRuntimeRequested w run gen) db = snd (MarkRuntimeRequested w run gen db)"
| "exec_command (DoStartRunning now w run gen loc) db = snd (StartRunning now w run gen loc db)"
| "exec_command (DoHeartbeat now run gen) db = snd (Heartbeat now run gen db)"
| "exec_command (DoRecover now) db = snd (RecoverExpiredLeases now db)"
| "exec_command (DoRequestCancel now w who why) db = snd (RequestCancel now w who why db)"
| "exec_command (DoResolve now w gen to who why) db = snd (Resolve now w gen to who why db)"
| "exec_command (DoDefer now w run gen until why) db = snd (Defer now w run gen until why db)"
| "exec_command (DoDeliver lim now idD idW d w) db = snd (in_tx db (AcceptDeliveryTx lim now idD idW d w db))"
| "exec_command (DoExpireBatch p now due) db =
     snd (expireRawBodyBatch due (now - rp_RawBodyAfterTerminal (normalized_policy p)) now empty_result db)"
| "exec_command (DoDedupBatch p now ids) db =
     snd (deleteDedupBatch ids (now - rp_DedupWindow (normalized_policy p)) now db)"
| "exec_command (DoAcceptAssignment sha now newid i) db = snd (in_tx db (AcceptAssignmentTx sha now newid i db))"
| "exec_command (DoBeginHostChat sha now newid r) db = snd (BeginHostChat sha now newid r db)"
| "exec_command (DoHostChatPhase now run ph) db = snd (HostChatPhase now run ph db)"
| "exec_command (DoFinishHostChat sz now run r) db = snd (FinishHostChat sz now run r db)"
| "exec_command (DoStageRunResult sz w run gen r) db = snd (StageRunResult sz w run gen r db)"
| "exec_command (DoRecoverRetained sz now run r ok) db = snd (RecoverRetainedResult sz now run r ok db)"
| "exec_command (DoProjectionAttempt now run) db = MarkRunProjectionAttempt now run db"
| "exec_command (DoProjected now run st) db = MarkRunProjected now run st db"
| "exec_command (Elsewhere as gs cs ss) db =
     db\<lparr>assignments := as, agents := gs, crews := cs, app_settings := ss\<rparr>"

definition run_commands :: "command list \<Rightarrow> work_db \<Rightarrow> work_db" where
  "run_commands cs db = foldl (\<lambda>d c. exec_command c d) db cs"

lemma run_commands_append: "run_commands (cs @ ds) db = run_commands ds (run_commands cs db)"
  by (simp add: run_commands_def)

definition empty_db :: work_db where
  "empty_db = \<lparr>work_items = [], work_attempts = [], work_events = [], webhook_deliveries = [],
     assignments = [], agents = [], crews = [], app_settings = []\<rparr>"

lemma same_ledger_refines:
  assumes "good db" "work_items db' = work_items db" "work_attempts db' = work_attempts db"
    "work_events db' = work_events db"
  shows "refines db db'"
proof (rule refines_same)
  show "ledger_wf db'" using assms by (simp add: good_def ledger_wf_def)
  show "abs_ledger db' = abs_ledger db"
    using assms(2-4)
    by (auto simp: fun_eq_iff abs_ledger_def item_row_def entry_of_def item_attempts_def item_events_def
        intro!: arg_cong2 [where f = map_option])
qed

lemma expire_rows_frame:
  "work_items (snd (expire_rows cutoff now cs acc db)) = work_items db"
  "work_attempts (snd (expire_rows cutoff now cs acc db)) = work_attempts db"
  "work_events (snd (expire_rows cutoff now cs acc db)) = work_events db"
  by (induction cutoff now cs acc db rule: expire_rows.induct) (simp_all add: Let_def row_simps)

lemma expireRawBodyBatch_db:
  "snd (expireRawBodyBatch due cutoff now res db) = snd (expire_rows cutoff now due (0, 0, 0) db)"
  by (simp add: expireRawBodyBatch_def split: prod.splits)

lemma deliver_refines:
  assumes "good db" "AcceptDeliveryTx lim now idD idW d w db = Inr (r, db')"
  shows "refines db db'"
  using assms(2)
proof (cases rule: AcceptDeliveryTx_cases)
  case duplicate
  then show ?thesis using refines_refl [OF assms(1)] by simp
next
  case (recorded r1 workID db1 row)
  have "refines db db1" using recorded(4)
    by (cases rule: accept_work_cases) (auto intro: refines_refl [OF assms(1)] AcceptTx_refines [OF assms(1)])
  moreover have "refines db1 db'" using recorded(5) refines_good [OF assms(1) calculation]
    by (intro same_ledger_refines) (auto simp: insert_delivery_Inr)
  ultimately show ?thesis by (rule refines_trans)
qed

lemma bodies_refine:
  assumes "good db"
  shows "refines db (snd (in_tx db (AcceptTx now newid req db)))"
    "refines db (snd (in_tx db (transitionTx now rnd treq db)))"
    "refines db (snd (in_tx db (markStartingTx w run gen loc db)))"
    "refines db (snd (in_tx db (MarkRuntimeRequestedTx w run gen db)))"
    "refines db (snd (in_tx db (startRunningTx now w run gen loc db)))"
    "refines db (snd (in_tx db (RequestCancelTx now w who why db)))"
    "refines db (snd (in_tx db (resolveTx now w gen to who why db)))"
    "refines db (snd (in_tx db (deferTx now w run gen until why db)))"
    "refines db (snd (in_tx db (AcceptDeliveryTx lim now idD newid d req db)))"
    "refines db (snd (in_tx db (AcceptAssignmentTx sha now newid i db)))"
    "refines db (snd (in_tx db (finishHostChatTx now w run gen hr result db)))"
    "refines db (snd (in_tx db (recoverRetainedTx now run result ok db)))"
  by (rule refines_in_tx [OF assms], erule AcceptTx_refines [OF assms] transitionTx_refines [OF assms]
      markStartingTx_refines [OF assms] MarkRuntimeRequestedTx_refines [OF assms]
      startRunningTx_refines [OF assms] RequestCancelTx_refines [OF assms]
      resolveTx_refines [OF assms] deferTx_refines [OF assms] deliver_refines [OF assms]
      AcceptAssignmentTx_refines [OF assms] finishHostChatTx_refines [OF assms] recoverRetainedTx_refines [OF assms])+

lemma host_operations_refine:
  assumes "good db"
  shows "refines db (snd (HostChatPhase now run ph db))" "refines db (snd (FinishHostChat sz now run hr db))"
    "refines db (snd (RecoverRetainedResult sz now run r ok db))"
  using bodies_refine [OF assms] refines_refl [OF assms] Heartbeat_refines [OF assms]
  by (auto simp: HostChatPhase_def FinishHostChat_def RecoverRetainedResult_def MarkRuntimeRequested_def
      StartRunning_def Let_def split: sum.splits option.splits)

lemma exec_refines:
  assumes "good db"
  shows "refines db (exec_command c db)"
proof (cases c)
  case (Elsewhere as gs cs ss)
  then show ?thesis using same_ledger_refines [OF assms] by simp
next
  case (DoExpireBatch p now due)
  then show ?thesis using same_ledger_refines [OF assms] by (simp add: expireRawBodyBatch_db expire_rows_frame)
next
  case (DoDedupBatch p now ids)
  then show ?thesis using same_ledger_refines [OF assms] by (simp add: deleteDedupBatch_def Let_def)
qed (simp_all add: bodies_refine [OF assms] Transition_def MarkStarting_def MarkRuntimeRequested_def StartRunning_def
    RequestCancel_def Resolve_def Defer_def refines_refl [OF assms] Claim_refines [OF assms]
    Heartbeat_refines [OF assms] RecoverExpiredLeases_refines [OF assms] BeginHostChat_refines [OF assms]
    host_operations_refine [OF assms] StageRunResult_refines [OF assms] MarkRun_refines [OF assms])

text \<open>
  Refinement as an interface: a system whose commands are sequences of abstract steps inherits
  the invariant of the abstract system and every reflexive and transitive relation its steps
  respect.
\<close>

locale refined_system =
  fixes exec :: "'c \<Rightarrow> 'd \<Rightarrow> 'd" and wf :: "'d \<Rightarrow> bool" and abs :: "'d \<Rightarrow> 'a"
    and step :: "'a \<Rightarrow> 'a \<Rightarrow> bool" and inv :: "'a \<Rightarrow> bool" and rel :: "'a \<Rightarrow> 'a \<Rightarrow> bool"
  assumes exec_wf: "wf d \<Longrightarrow> inv (abs d) \<Longrightarrow> wf (exec c d)"
    and exec_steps: "wf d \<Longrightarrow> inv (abs d) \<Longrightarrow> step\<^sup>*\<^sup>* (abs d) (abs (exec c d))"
    and step_inv: "step a b \<Longrightarrow> inv a \<Longrightarrow> inv b"
    and step_rel: "step a b \<Longrightarrow> rel a b"
    and rel_refl: "rel a a"
    and rel_trans: "rel a b \<Longrightarrow> rel b e \<Longrightarrow> rel a e"
begin

lemma steps_inv: "step\<^sup>*\<^sup>* a b \<Longrightarrow> inv a \<Longrightarrow> inv b"
  by (induction rule: rtranclp_induct) (auto intro: step_inv)

lemma steps_rel: "step\<^sup>*\<^sup>* a b \<Longrightarrow> rel a b"
  by (induction rule: rtranclp_induct) (auto intro: rel_refl rel_trans step_rel)

lemma run_steps:
  "wf d \<Longrightarrow> inv (abs d) \<Longrightarrow>
     wf (foldl (\<lambda>d c. exec c d) d cs) \<and> inv (abs (foldl (\<lambda>d c. exec c d) d cs))
     \<and> step\<^sup>*\<^sup>* (abs d) (abs (foldl (\<lambda>d c. exec c d) d cs))"
proof (induction cs arbitrary: d)
  case (Cons c cs)
  note one = exec_wf [OF Cons.prems, of c] exec_steps [OF Cons.prems, of c]
  show ?case using Cons.IH [OF one(1) steps_inv [OF one(2) Cons.prems(2)]] one(2) by auto
qed simp

lemma run_rel: "wf d \<Longrightarrow> inv (abs d) \<Longrightarrow> rel (abs d) (abs (foldl (\<lambda>d c. exec c d) d cs))"
  using run_steps steps_rel by blast

end

interpretation store: refined_system exec_command ledger_wf abs_ledger ledger_step ledger_ok later
  using exec_refines
  by unfold_locales
    (auto simp: good_def refines_def ledger_step_ok ledger_step_later later_refl intro: later_trans)

lemma empty_good: "good empty_db"
  by (simp add: good_def ledger_wf_def empty_db_def ledger_ok_def abs_ledger_def item_row_def)

lemma run_good: "good db \<Longrightarrow> good (run_commands cs db)"
  using store.run_steps [of db cs] by (simp add: good_def run_commands_def)

lemma commands_later: "good db \<Longrightarrow> later (abs_ledger db) (abs_ledger (run_commands cs db))"
  using store.run_rel [of db cs] by (simp add: good_def run_commands_def)

lemma reachable_good: "good (run_commands cs empty_db)"
  by (rule run_good [OF empty_good])

subsection \<open>The fence over time\<close>

definition run_open :: "work_db \<Rightarrow> string \<Rightarrow> bool" where
  "run_open db run \<longleftrightarrow> (\<exists>a \<in> set (work_attempts db). wa_run_id a = run \<and> wa_ended_at a = None)"

definition rejected :: "work_db \<Rightarrow> (work_error + 'a) \<times> work_db \<Rightarrow> bool" where
  "rejected db r \<longleftrightarrow> isl (fst r) \<and> snd r = db"

lemma rejected_Inl [simp]: "rejected db (Inl e, db)"
  by (simp add: rejected_def)

lemma rejected_in_tx: "isl r \<Longrightarrow> rejected db (in_tx db r)"
  by (cases r) (auto simp: rejected_def)

text \<open>A closed attempt stays closed on every schedule.\<close>

lemma closed_trial_kept:
  assumes "entry_later e e'" "t \<in> set (e_tries e)" "\<not> t_open t"
  shows "\<exists>t' \<in> set (e_tries e'). t_run t' = t_run t \<and> \<not> t_open t'"
proof -
  obtain ts us where "e_tries e' = ts @ us" "list_all2 same_try (e_tries e) ts"
    using assms(1) by (auto simp: entry_later_def)
  moreover from this(2) assms(2) obtain t' where "t' \<in> set ts" "same_try t t'"
    by (auto simp: list_all2_conv_all_nth in_set_conv_nth) metis
  ultimately show ?thesis using assms(3) by auto
qed

lemma closed_run_stays_closed:
  assumes "good db" "attempt_row db run = Some a" "wa_ended_at a \<noteq> None"
  shows "\<not> run_open (run_commands cs db) run"
proof -
  let ?db = "run_commands cs db"
  note a = attempt_row_Some [OF assms(2)]
  have ok: "good ?db" by (rule run_good [OF assms(1)])
  obtain it where it: "item_row db (wa_work_id a) = Some it" "wi_id it = wa_work_id a"
    using a good_wf [OF assms(1)] wf_item_row [OF good_wf [OF assms(1)]] by (auto simp: ledger_wf_def)
  then obtain e' where e': "abs_ledger ?db (wa_work_id a) = Some e'" "entry_later (entry_of db it) e'"
    using commands_later [OF assms(1), of cs] abs_item [OF it(1)] by (auto simp: later_def)
  have "trial_of a \<in> set (e_tries (entry_of db it))" "\<not> t_open (trial_of a)"
    using a it assms(3) by (auto simp: item_attempts_in trial_of_def)
  then obtain t where "t \<in> set (e_tries e')" "t_run t = t_run (trial_of a)" "\<not> t_open t"
    using closed_trial_kept [OF e'(2)] by blast
  moreover have "t_run (trial_of a) = run" using a by (simp add: trial_of_def)
  ultimately have "t \<in> set (e_tries e')" "t_run t = run" "\<not> t_open t" by simp_all
  then obtain b where b: "b \<in> set (work_attempts ?db)" "wa_run_id b = run" "wa_ended_at b \<noteq> None"
    using e'(1) by (auto simp: abs_item_iff item_attempts_in trial_of_def)
  then show ?thesis
    using wf_attempt_row [OF good_wf [OF ok], of run] unfolding run_open_def by (metis option.inject)
qed

text \<open>
  The interface a worker operation has towards the fence: presented with a run that has no open
  attempt it fails and changes nothing.  Six operations of the store provide it.
\<close>

locale fenced_op =
  fixes op :: "string \<Rightarrow> work_db \<Rightarrow> (work_error + unit) \<times> work_db"
  assumes fenced: "\<not> run_open db run \<Longrightarrow> rejected db (op run db)"
begin

lemma closed_forever:
  assumes "good db" "attempt_row db run = Some a" "wa_ended_at a \<noteq> None"
  shows "rejected (run_commands cs db) (op run (run_commands cs db))"
  using closed_run_stays_closed [OF assms] by (rule fenced)

lemma unknown_run:
  assumes "attempt_row db run = None"
  shows "rejected db (op run db)"
  using assms by (intro fenced) (auto simp: run_open_def attempt_row_def attempts.find_key_None)

end

lemma binding_needs_open:
  assumes "verifyAttemptBindingTx db w run gen igen = Inr u"
  shows "run_open db run"
  using assms attempt_row_Some [of db run]
  by (auto simp: verifyAttemptBindingTx_def run_open_def split: if_splits option.splits)

interpretation fence_Transition: fenced_op "\<lambda>run. Transition now rnd (req\<lparr>tr_RunID := run\<rparr>)"
  for now rnd req
  by unfold_locales
    (auto simp: Transition_def transitionTx_def intro!: rejected_in_tx dest: binding_needs_open
      split: sum.splits)

interpretation fence_MarkStarting: fenced_op "\<lambda>run. MarkStarting w run gen loc" for w gen loc
  by unfold_locales
    (auto simp: MarkStarting_def markStartingTx_def intro!: rejected_in_tx dest: binding_needs_open
      split: sum.splits)

interpretation fence_StartRunning: fenced_op "\<lambda>run. StartRunning now w run gen loc" for now w gen loc
  by unfold_locales
    (auto simp: StartRunning_def startRunningTx_def intro!: rejected_in_tx dest: binding_needs_open
      split: sum.splits)

interpretation fence_MarkRuntimeRequested: fenced_op "\<lambda>run. MarkRuntimeRequested w run gen" for w gen
  by unfold_locales
    (auto simp: MarkRuntimeRequested_def MarkRuntimeRequestedTx_def intro!: rejected_in_tx
      dest: binding_needs_open split: sum.splits)

interpretation fence_Defer: fenced_op "\<lambda>run. Defer now w run gen until why" for now w gen until why
  by unfold_locales
    (auto simp: Defer_def deferTx_def intro!: rejected_in_tx dest: binding_needs_open split: sum.splits)

interpretation fence_Heartbeat: fenced_op "\<lambda>run. Heartbeat now run gen" for now gen
  by unfold_locales
    (auto simp: Heartbeat_def heartbeat_row_def run_open_def rejected_def count_where_0)

end
