(* ===== verification/Work_Properties.thy ===== *)
theory Work_Properties
  imports Work_Simulation
begin

text \<open>
  What the ledger guarantees on every schedule of operations that starts from the empty ledger:
  one occupant per session, one open attempt per piece of active work, a linked history, bounded
  and numbered attempts, final terminal states, and a fence that a closed attempt never passes
  again.  The demonstration schedule at the start is where the properties are exercised.
\<close>

subsection \<open>A demonstration schedule\<close>

definition demo_request :: AcceptRequest where
  "demo_request = \<lparr>ar_WorkspaceID = ''ws'', ar_Source = SourceManual, ar_SourceRef = '''',
     ar_DomainKind = ''agent_run'', ar_DomainID = '''', ar_AgentID = ''ag'', ar_CrewID = '''',
     ar_SessionID = ''s1'', ar_Class = ClassBackground, ar_AuthorizedByUserID = '''',
     ar_AuthorizedScope = '''', ar_InputJSON = '''', ar_InputSHA256 = '''', ar_TargetRevision = '''',
     ar_Priority = 0, ar_EligibleAt = None, ar_DeadlineAt = None, ar_ReplayOf = '''',
     ar_ReplayReason = ''''\<rparr>"

definition demo_options :: ClaimOptions where
  "demo_options = \<lparr>co_LeaseOwner = ''d1'', co_Limits = DefaultLimits, co_Class = ClassOther '''',
     co_AgentID = '''', co_Kinds = [], co_WorkID = ''''\<rparr>"

definition demo_report :: "State \<Rightarrow> string \<Rightarrow> int \<Rightarrow> TransitionRequest" where
  "demo_report to run gen = \<lparr>tr_WorkID = ''w1'', tr_RunID = run, tr_Generation = gen, tr_To = to,
     tr_Reason = ''report'', tr_ExitEvidence = '''', tr_CostUSD = 0, tr_StoppedRunFailed = False\<rparr>"

text \<open>Two items of one session; the first is claimed, confirmed and sent back to wait for a retry.\<close>

definition demo_claimed :: "command list" where
  "demo_claimed = [DoAccept 0 ''w1'' demo_request, DoAccept 1 ''w2'' demo_request,
     DoClaim 2 2 ''r1'' demo_options]"

definition demo_retried :: "command list" where
  "demo_retried = demo_claimed @ [DoMarkStarting ''w1'' ''r1'' 1 ''loc'', DoStartRunning 3 ''w1'' ''r1'' 1 '''',
     DoTransition 4 (\<lambda>_. 0) (demo_report StateRetryWait ''r1'' 1)]"

definition demo_done :: "command list" where
  "demo_done = demo_claimed @ [DoTransition 4 (\<lambda>_. 0) (demo_report StateSucceeded ''r1'' 1)]"

lemmas demo_defs = demo_request_def demo_options_def demo_report_def demo_claimed_def demo_retried_def
  demo_done_def

subsection \<open>Sessions and attempts\<close>

text \<open>
  C1. Session exclusivity (invariant I3 of the code): in every reachable ledger, two items of the same
  non-empty session that both occupy it (starting, running, waiting or needing
  reconciliation) are the same item.
\<close>

theorem session_exclusive:
  assumes "db = run_commands cs empty_db"
    and "v \<in> set (work_items db)" "w \<in> set (work_items db)"
    and "wi_session_id v = wi_session_id w" "wi_session_id v \<noteq> ''''"
    and "OccupiesSession (wi_state v)" "OccupiesSession (wi_state w)"
  shows "v = w"
proof (rule ccontr)
  assume "v \<noteq> w"
  have ok: "good db" using reachable_good assms(1) by simp
  have rows: "item_row db (wi_id v) = Some v" "item_row db (wi_id w) = Some w"
    using wf_item_row [OF good_wf [OF ok]] assms(2,3) by auto
  with \<open>v \<noteq> w\<close> have "wi_id v \<noteq> wi_id w" by auto
  moreover have "abs_ledger db (wi_id v) = Some (entry_of db v)" "abs_ledger db (wi_id w) = Some (entry_of db w)"
    using rows by (simp_all add: abs_item)
  moreover have "ledger_ok (abs_ledger db)" using ok by (simp add: good_def)
  ultimately show False using assms(4-7) unfolding ledger_ok_def by (metis entry_of_sel(1,2))
qed

theorem session_exclusive_witness:
  "\<exists>v. v \<in> set (work_items (run_commands demo_claimed empty_db)) \<and> wi_session_id v = ''s1''
     \<and> OccupiesSession (wi_state v)
     \<and> (\<forall>w \<in> set (work_items (run_commands demo_claimed empty_db)).
          wi_session_id w = ''s1'' \<longrightarrow> OccupiesSession (wi_state w) \<longrightarrow> w = v)"
proof -
  let ?db = "run_commands demo_claimed empty_db"
  let ?P = "\<lambda>v. wi_session_id v = ''s1'' \<and> OccupiesSession (wi_state v)"
  have "list_ex ?P (work_items ?db)" by code_simp
  then obtain v where v: "v \<in> set (work_items ?db)" "?P v" by (auto simp: list_ex_iff)
  then have "w = v" if "w \<in> set (work_items ?db)" "?P w" for w
    using session_exclusive [OF refl that(1) v(1)] that(2) by simp
  then show ?thesis using v by blast
qed

text \<open>
  C2. In every reachable ledger an item has exactly one open attempt while it is starting, running or
  waiting, and none in any other state; the open attempt is of the item's current generation.
\<close>

theorem one_open_attempt:
  assumes "db = run_commands cs empty_db" "w \<in> set (work_items db)"
  shows "count_where (\<lambda>a. wa_work_id a = wi_id w \<and> wa_ended_at a = None) (work_attempts db)
           = (if attempt_active (wi_state w) then 1 else 0)
       \<and> (\<forall>a \<in> set (work_attempts db). wa_work_id a = wi_id w \<and> wa_ended_at a = None \<longrightarrow>
             wa_generation a = wi_generation w)"
proof -
  have ok: "good db" using reachable_good assms(1) by simp
  then show ?thesis using open_attempt_count [OF ok] wf_item_row [OF good_wf [OF ok]] assms(2) by simp
qed

theorem one_open_attempt_witness:
  "count_where (\<lambda>a. wa_work_id a = ''w1'' \<and> wa_ended_at a = None)
     (work_attempts (run_commands demo_claimed empty_db)) = 1"
proof -
  let ?db = "run_commands demo_claimed empty_db"
  let ?P = "\<lambda>v. wi_id v = ''w1'' \<and> attempt_active (wi_state v)"
  have "list_ex ?P (work_items ?db)" by code_simp
  then obtain v where "v \<in> set (work_items ?db)" "?P v" by (auto simp: list_ex_iff)
  then show ?thesis using one_open_attempt [OF refl, of v demo_claimed] by simp
qed

subsection \<open>The fence\<close>

text \<open>
  C3. Once an attempt has ended, no schedule of operations brings its run back: every later
  \<open>Transition\<close>, \<open>MarkStarting\<close>, \<open>MarkRuntimeRequested\<close>, \<open>StartRunning\<close>, \<open>Heartbeat\<close> or \<open>Defer\<close> that
  presents the run identifier, with whatever work identifier and generation, fails and leaves
  the database as it was.
\<close>

theorem closed_attempt_fenced_forever:
  assumes "db = run_commands cs empty_db" "attempt_row db run = Some a" "wa_ended_at a \<noteq> None"
    and "db' = run_commands later_cs db"
  shows "rejected db' (Transition now rnd (req\<lparr>tr_RunID := run\<rparr>) db')
       \<and> rejected db' (MarkStarting w run gen loc db')
       \<and> rejected db' (MarkRuntimeRequested w run gen db')
       \<and> rejected db' (StartRunning now w run gen loc db')
       \<and> rejected db' (Heartbeat now run gen db')
       \<and> rejected db' (Defer now w run gen until why db')"
proof -
  have "good db" using reachable_good assms(1) by simp
  note ok = this assms(2,3)
  show ?thesis unfolding assms(4)
    by (intro conjI fence_Transition.closed_forever [OF ok] fence_MarkStarting.closed_forever [OF ok]
        fence_MarkRuntimeRequested.closed_forever [OF ok] fence_StartRunning.closed_forever [OF ok]
        fence_Heartbeat.closed_forever [OF ok] fence_Defer.closed_forever [OF ok])
qed

theorem closed_attempt_fenced_forever_witness:
  "rejected (run_commands [DoClaim 9 9 ''r2'' demo_options] (run_commands demo_retried empty_db))
     (Heartbeat 10 ''r1'' 1 (run_commands [DoClaim 9 9 ''r2'' demo_options] (run_commands demo_retried empty_db)))"
proof -
  have "case attempt_row (run_commands demo_retried empty_db) ''r1'' of
          Some a \<Rightarrow> wa_ended_at a \<noteq> None | None \<Rightarrow> False" by code_simp
  then obtain a where "attempt_row (run_commands demo_retried empty_db) ''r1'' = Some a" "wa_ended_at a \<noteq> None"
    by (auto split: option.splits)
  then show ?thesis
    using closed_attempt_fenced_forever [where cs = demo_retried and run = "''r1''" and a = a
        and later_cs = "[DoClaim 9 9 ''r2'' demo_options]" and now = 10 and gen = 1, OF refl _ _ refl]
    by blast
qed

text \<open>
  At most one credential is accepted for a work item: in every reachable ledger the pairs of
  run identifier and generation that pass the binding check for an item number one while the
  item is starting, running or waiting, and none otherwise.
\<close>

theorem one_credential:
  assumes "db = run_commands cs empty_db" "w \<in> set (work_items db)"
  shows "card {(run, gen). verifyAttemptBindingTx db (wi_id w) run gen (wi_generation w) = Inr ()}
           = (if attempt_active (wi_state w) then 1 else 0)"
proof -
  have ok: "good db" using reachable_good assms(1) by simp
  have row: "item_row db (wi_id w) = Some w" using wf_item_row [OF good_wf [OF ok]] assms(2) by simp
  let ?open = "filter (\<lambda>a. wa_work_id a = wi_id w \<and> wa_ended_at a = None) (work_attempts db)"
  have "{(run, gen). verifyAttemptBindingTx db (wi_id w) run gen (wi_generation w) = Inr ()}
      = (\<lambda>a. (wa_run_id a, wi_generation w)) ` set ?open"
    using binding_iff [OF good_wf [OF ok]] open_attempt_count [OF ok row] by (auto simp: bound_row_def)
  moreover have "length ?open = (if attempt_active (wi_state w) then 1 else 0)"
    using open_attempt_count [OF ok row] by (simp add: count_where_def)
  then have "?open = [] \<and> \<not> attempt_active (wi_state w) \<or> (\<exists>a. ?open = [a]) \<and> attempt_active (wi_state w)"
    by (cases "attempt_active (wi_state w)") (auto simp: length_Suc_conv)
  ultimately show ?thesis by (elim disjE conjE exE) (simp_all del: set_filter)
qed

theorem one_credential_witness:
  "\<exists>w \<in> set (work_items (run_commands demo_claimed empty_db)).
     card {(run, gen). verifyAttemptBindingTx (run_commands demo_claimed empty_db) (wi_id w) run gen
             (wi_generation w) = Inr ()} = 1"
proof -
  let ?db = "run_commands demo_claimed empty_db"
  have "list_ex (\<lambda>v. attempt_active (wi_state v)) (work_items ?db)" by code_simp
  then obtain v where "v \<in> set (work_items ?db)" "attempt_active (wi_state v)" by (auto simp: list_ex_iff)
  then show ?thesis using one_credential [OF refl, of v demo_claimed] by force
qed

subsection \<open>Lifetimes\<close>

text \<open>
  C4. Terminal states are final: an item that has succeeded, failed, expired or been cancelled keeps
  its state, generation and attempt count, its history and its attempt numbering, under every later schedule.
\<close>

theorem terminal_final:
  assumes "db = run_commands cs empty_db" "item_row db w = Some it" "Terminal (wi_state it)"
    and "db' = run_commands later_cs db"
  shows "\<exists>it'. item_row db' w = Some it' \<and> wi_state it' = wi_state it
           \<and> wi_generation it' = wi_generation it \<and> wi_attempts it' = wi_attempts it
           \<and> map note_of (item_events db' w) = map note_of (item_events db w)
           \<and> map trial_of (item_attempts db' w) = map trial_of (item_attempts db w)"
proof -
  have ok: "good db" using reachable_good assms(1) by simp
  obtain e' where "abs_ledger db' w = Some e'" "entry_later (entry_of db it) e'"
    using commands_later [OF ok, of later_cs] abs_item [OF assms(2)] assms(4) by (auto simp: later_def)
  moreover from this(2) have "e' = entry_of db it" using assms(3) by (simp add: entry_later_def)
  ultimately obtain it' where it': "item_row db' w = Some it'" "entry_of db' it' = entry_of db it"
    by (auto simp: abs_item_iff)
  then have "wi_state it' = wi_state it" "wi_generation it' = wi_generation it" "wi_attempts it' = wi_attempts it"
    "map note_of (item_events db' (wi_id it')) = map note_of (item_events db (wi_id it))"
    "map trial_of (item_attempts db' (wi_id it')) = map trial_of (item_attempts db (wi_id it))"
    by (metis entry_of_sel)+
  then show ?thesis using it'(1) item_row_Some [OF it'(1)] item_row_Some [OF assms(2)] by auto
qed

theorem terminal_final_witness:
  "\<exists>it. item_row (run_commands [DoRequestCancel 9 ''w1'' ''u'' ''stop''] (run_commands demo_done empty_db)) ''w1''
          = Some it \<and> wi_state it = StateSucceeded"
proof -
  have "case item_row (run_commands demo_done empty_db) ''w1'' of
          Some it \<Rightarrow> wi_state it = StateSucceeded | None \<Rightarrow> False" by code_simp
  then obtain it where "item_row (run_commands demo_done empty_db) ''w1'' = Some it" "wi_state it = StateSucceeded"
    by (auto split: option.splits)
  then show ?thesis
    using terminal_final [OF refl _ _ refl, of demo_done "''w1''" it "[DoRequestCancel 9 ''w1'' ''u'' ''stop'']"]
    by fastforce
qed

text \<open>
  C5. The history explains the state: in every reachable ledger the events \<open>History\<close> returns for an
  item are numbered from 1 without gaps, begin with its acceptance, each departs from the state
  the previous one reached, the last one reaches the item's present state, and every arrow is in
  the transition table, is a cancel note on active work, or returns running work to the queue.
\<close>

theorem history_explains_state:
  assumes "db = run_commands cs empty_db" "w \<in> set (work_items db)"
  shows "history_ok (map note_of (History db (wi_id w))) (wi_state w)"
proof -
  have ok: "good db" using reachable_good assms(1) by simp
  have row: "item_row db (wi_id w) = Some w" using wf_item_row [OF good_wf [OF ok]] assms(2) by simp
  show ?thesis using good_history [OF ok row] by (simp add: History_events [OF ok row])
qed

theorem history_explains_state_witness:
  "\<exists>w \<in> set (work_items (run_commands demo_retried empty_db)). wi_state w = StateRetryWait
     \<and> history_ok (map note_of (History (run_commands demo_retried empty_db) (wi_id w))) (wi_state w)"
proof -
  let ?db = "run_commands demo_retried empty_db"
  have "list_ex (\<lambda>v. wi_state v = StateRetryWait) (work_items ?db)" by code_simp
  then obtain v where "v \<in> set (work_items ?db)" "wi_state v = StateRetryWait" by (auto simp: list_ex_iff)
  then show ?thesis using history_explains_state [OF refl, of v demo_retried] by blast
qed

text \<open>
  Attempts are numbered by the fence: in every reachable ledger the attempts of an item carry
  the numbers and the generations 1, 2, up to the item's generation, in order, and the budget
  spent is between 0 and both \<open>MaxAttempts\<close> and the number of attempts.
\<close>

theorem attempts_numbered:
  assumes "db = run_commands cs empty_db" "w \<in> set (work_items db)"
  shows "map wa_attempt (item_attempts db (wi_id w)) = [1..wi_generation w]
       \<and> map wa_generation (item_attempts db (wi_id w)) = [1..wi_generation w]
       \<and> 0 \<le> wi_attempts w \<and> wi_attempts w \<le> MaxAttempts \<and> wi_attempts w \<le> wi_generation w"
proof -
  have ok: "good db" using reachable_good assms(1) by simp
  have row: "item_row db (wi_id w) = Some w" using wf_item_row [OF good_wf [OF ok]] assms(2) by simp
  show ?thesis
    using good_tries [OF ok row] entry_okD(4,5,6) [OF good_entry [OF ok row]] map_int_upto
    by (simp add: tries_ok_def trial_of_def comp_def del: upt_Suc)
qed

theorem attempts_numbered_witness:
  "\<exists>w \<in> set (work_items (run_commands demo_retried empty_db)). wi_generation w = 1
     \<and> map wa_attempt (item_attempts (run_commands demo_retried empty_db) (wi_id w)) = [1..1]"
proof -
  let ?db = "run_commands demo_retried empty_db"
  have "list_ex (\<lambda>v. wi_generation v = 1) (work_items ?db)" by code_simp
  then obtain v where "v \<in> set (work_items ?db)" "wi_generation v = 1" by (auto simp: list_ex_iff)
  then show ?thesis using attempts_numbered [OF refl, of v demo_retried] by force
qed

text \<open>
  The record only grows: whatever runs later, an item is still there with the same session,
  its generation has not fallen, and the history it had is a prefix of the history it has.
\<close>

theorem record_only_grows:
  assumes "db = run_commands cs empty_db" "item_row db w = Some it" "db' = run_commands later_cs db"
  shows "\<exists>it' es. item_row db' w = Some it' \<and> wi_session_id it' = wi_session_id it
           \<and> wi_generation it \<le> wi_generation it'
           \<and> map note_of (History db' w) = map note_of (History db w) @ es"
proof -
  have ok: "good db" using reachable_good assms(1) by simp
  have ok': "good db'" using run_good [OF ok] assms(3) by simp
  obtain e' where e': "abs_ledger db' w = Some e'" "entry_later (entry_of db it) e'"
    using commands_later [OF ok, of later_cs] abs_item [OF assms(2)] assms(3) by (auto simp: later_def)
  then obtain it' where it': "item_row db' w = Some it'" "e' = entry_of db' it'" by (auto simp: abs_item_iff)
  show ?thesis
    using e'(2) it' item_row_Some [OF it'(1)] item_row_Some [OF assms(2)]
    by (auto simp: entry_later_def History_events [OF ok assms(2)] History_events [OF ok' it'(1)])
qed

theorem record_only_grows_witness:
  "\<exists>it' es. item_row (run_commands [DoClaim 9 9 ''r2'' demo_options] (run_commands demo_retried empty_db)) ''w1''
       = Some it' \<and> wi_session_id it' = ''s1''
     \<and> map note_of (History (run_commands [DoClaim 9 9 ''r2'' demo_options] (run_commands demo_retried empty_db)) ''w1'')
       = map note_of (History (run_commands demo_retried empty_db) ''w1'') @ es"
proof -
  have "case item_row (run_commands demo_retried empty_db) ''w1'' of
          Some it \<Rightarrow> wi_session_id it = ''s1'' | None \<Rightarrow> False" by code_simp
  then obtain it where "item_row (run_commands demo_retried empty_db) ''w1'' = Some it" "wi_session_id it = ''s1''"
    by (auto split: option.splits)
  then show ?thesis
    using record_only_grows [OF refl _ refl, of demo_retried "''w1''" it "[DoClaim 9 9 ''r2'' demo_options]"]
    by force
qed

end
