(* ===== verification/Work_Admission.thy ===== *)
theory Work_Admission
  imports Work_Properties
begin

text \<open>
  Admission: the SQL of the candidate scan and the Go re-check decide the same question, a claim
  keeps every limit, and a claim takes the first candidate of the fairness order that has budget
  left.  The technical core is how the live slots change when one claimable item moves.
\<close>

subsection \<open>The SQL filter and the Go re-check\<close>

text \<open>The part of the candidate query that is the caller's selection, not a limit.\<close>

definition requested :: "ClaimOptions \<Rightarrow> time \<Rightarrow> Item \<Rightarrow> bool" where
  "requested opts now w \<longleftrightarrow>
     claimable_state (wi_state w) \<and> wi_eligible_at w \<le> now
   \<and> (co_Class opts \<noteq> ClassOther '''' \<longrightarrow> wi_class w = co_Class opts)
   \<and> (co_AgentID opts \<noteq> '''' \<longrightarrow> wi_agent_id w = co_AgentID opts)
   \<and> (co_WorkID opts \<noteq> '''' \<longrightarrow> wi_id w = co_WorkID opts)
   \<and> (co_Kinds opts \<noteq> [] \<longrightarrow>
        list_ex (\<lambda>k. wi_source w = k_Source k \<and> wi_domain_kind w = k_DomainKind k) (co_Kinds opts))"

lemma session_free_iff:
  "session_free db s \<longleftrightarrow>
     count_where (\<lambda>w. wi_session_id w = s \<and> in_state_list OccupiesSession (wi_state w)) (work_items db)
     + count_where (\<lambda>l. sl_session_id l = s) (live_slots db) = 0"
  by (auto simp: session_free_def count_where_0)

lemma admissible_class_iff:
  assumes "admissibleClasses live lim only = Some classes" "valid_class c"
  shows "c \<in> set classes \<longleftrightarrow>
     lc_total live < ServerTotal lim \<and> (only \<noteq> ClassOther '''' \<longrightarrow> c = only)
     \<and> (c = ClassBackground \<longrightarrow> lc_background live < ServerBackground lim
          \<and> lc_total live + 1 \<le> ServerTotal lim - ServerChatReserv lim + lc_chat live)"
  using assms by (auto simp: admissibleClasses_def valid_class_def Let_def split: if_splits)

lemma guard_conj: "(if A then False else B) \<longleftrightarrow> \<not> A \<and> B"
  by simp

lemma admitsTx_iff:
  "admitsTx db it lim live \<longleftrightarrow>
     lc_total live < ServerTotal lim
   \<and> (wi_class it = ClassBackground \<longrightarrow> lc_background live < ServerBackground lim
        \<and> lc_total live + 1 \<le> ServerTotal lim - ServerChatReserv lim + lc_chat live)
   \<and> (wi_session_id it = '''' \<or> session_free db (wi_session_id it))
   \<and> (wi_agent_id it = '''' \<or> slot_count (\<lambda>a. sl_agent_id a = wi_agent_id it) db < AgentTotal lim)
   \<and> (wi_agent_id it = '''' \<or> wi_class it \<noteq> ClassChat
        \<or> slot_count (\<lambda>a. sl_agent_id a = wi_agent_id it \<and> sl_class a = ClassChat) db < AgentChat lim)
   \<and> (wi_agent_id it = '''' \<or> wi_class it \<noteq> ClassBackground
        \<or> slot_count (\<lambda>a. sl_agent_id a = wi_agent_id it \<and> sl_class a = ClassBackground) db
          < AgentBackground lim)
   \<and> (wi_crew_id it = ''''
        \<or> slot_count (\<lambda>c. sl_crew_id c = wi_crew_id it) db < crewBudget db (wi_crew_id it))"
  unfolding admitsTx_def guard_conj session_free_iff by (cases "wi_class it = ClassBackground"; cases "wi_class it = ClassChat"; auto simp: not_le not_less)

lemma candidate_iff_admits:
  assumes "admissibleClasses live (co_Limits opts) (co_Class opts) = Some classes" "valid_class (wi_class w)"
  shows "candidate db opts classes now w \<longleftrightarrow> requested opts now w \<and> admitsTx db w (co_Limits opts) live"
proof (cases "wi_class w = ClassChat")
  case True
  then show ?thesis
    unfolding candidate_def requested_def admitsTx_iff admissible_class_iff [OF assms] by (simp; blast)
next
  case False
  then have "wi_class w = ClassBackground" using assms(2) by (simp add: valid_class_def)
  then show ?thesis
    unfolding candidate_def requested_def admitsTx_iff admissible_class_iff [OF assms] by (simp; blast)
qed

subsection \<open>Live slots when one claimable item moves\<close>

text \<open>
  \<open>moved it f db db'\<close>: the row of \<open>it\<close> changed by \<open>f\<close>, which keeps what identifies its slot and its
  assignment, and the tables of the other subsystems did not change.
\<close>

definition moved :: "Item \<Rightarrow> (Item \<Rightarrow> Item) \<Rightarrow> work_db \<Rightarrow> work_db \<Rightarrow> bool" where
  "moved it f db db' \<longleftrightarrow>
     work_items db' = upd_where (\<lambda>r. wi_id r = wi_id it) f (work_items db)
   \<and> item_slot (f it) = item_slot it \<and> wi_source (f it) = wi_source it
   \<and> wi_domain_kind (f it) = wi_domain_kind it \<and> wi_domain_id (f it) = wi_domain_id it
   \<and> wi_id (f it) = wi_id it
   \<and> assignments db' = assignments db \<and> agents db' = agents db
   \<and> crews db' = crews db \<and> app_settings db' = app_settings db"

lemma count_filter_split:
  "count_where P (map g (filter Q xs)) = count_where (\<lambda>x. Q x \<and> P (g x)) xs"
  by (induction xs) auto

lemma count_concat_mono:
  assumes "\<And>x. x \<in> set xs \<Longrightarrow> Q' x \<Longrightarrow> Q x"
  shows "count_where P (concat (map F (filter Q' xs))) \<le> count_where P (concat (map F (filter Q xs)))"
  using assms by (induction xs) auto

lemma moved_rows:
  assumes "good db" "item_row db (wi_id it) = Some it" "moved it f db db'"
  shows "\<And>r. r \<in> set (work_items db) \<Longrightarrow> r \<noteq> it \<Longrightarrow> r \<in> set (work_items db')"
    "\<And>r. r \<in> set (work_items db') \<Longrightarrow> r = f it \<or> r \<in> set (work_items db) \<and> r \<noteq> it"
    "f it \<in> set (work_items db')"
proof -
  have it: "it \<in> set (work_items db)" using item_row_Some [OF assms(2)] by simp
  have "distinct (map wi_id (work_items db))" using good_wf [OF assms(1)] by (simp add: ledger_wf_def)
  note unique = items.key_unique [OF this _ it]
  have upd: "work_items db' = upd_where (\<lambda>r. wi_id r = wi_id it) f (work_items db)"
    using assms(3) by (simp add: moved_def)
  show "r \<in> set (work_items db')" if "r \<in> set (work_items db)" "r \<noteq> it" for r
  proof -
    have "wi_id r \<noteq> wi_id it" using unique that by blast
    then show ?thesis unfolding upd in_upd_where using that(1) by (metis (full_types))
  qed
  show "r = f it \<or> r \<in> set (work_items db) \<and> r \<noteq> it" if r: "r \<in> set (work_items db')" for r
  proof -
    obtain s where s: "s \<in> set (work_items db)" "r = (if wi_id s = wi_id it then f s else s)"
      using r unfolding upd in_upd_where by blast
    then show ?thesis using unique [of s] by (cases "wi_id s = wi_id it") auto
  qed
  show "f it \<in> set (work_items db')"
    unfolding upd in_upd_where using it by (intro bexI [of _ it]) auto
qed

lemma owned_mono:
  assumes "good db" "item_row db (wi_id it) = Some it" "moved it f db db'" "claimable_state (wi_state it)"
    "owned_assignment db a"
  shows "owned_assignment db' a"
proof -
  obtain w where w: "w \<in> set (work_items db)" "wi_workspace_id w = as_workspace_id a" "wi_source w = SourceAssignment"
      "wi_domain_kind w = ''assignment''" "wi_domain_id w = as_id a"
      "HoldsExecutionSlot (wi_state w) \<or> Terminal (wi_state w)"
    using assms(5) by (auto simp: owned_assignment_def)
  then have "w \<noteq> it" using assms(4) by (auto simp: claimable_state_def state_simps)
  then show ?thesis using moved_rows(1) [OF assms(1-3) w(1)] w by (auto simp: owned_assignment_def)
qed

lemma legacy_mono:
  assumes "good db" "item_row db (wi_id it) = Some it" "moved it f db db'" "claimable_state (wi_state it)"
  shows "count_where P (legacy_slots db') \<le> count_where P (legacy_slots db)"
proof -
  have "agents db' = agents db" "assignments db' = assignments db" using assms(3) by (auto simp: moved_def)
  then show ?thesis unfolding legacy_slots_def
    using owned_mono [OF assms] by (auto intro!: count_concat_mono)
qed

lemma count_upd_one:
  assumes "distinct (map wi_id t)" "it \<in> set t" "\<not> Q it"
  shows "count_where Q (upd_where (\<lambda>r. wi_id r = wi_id it) f t) = count_where Q t + (if Q (f it) then 1 else 0)"
  using assms
proof (induction t)
  case (Cons r t)
  show ?case
  proof (cases "r = it")
    case True
    then have "upd_where (\<lambda>r. wi_id r = wi_id it) f t = t"
      using Cons.prems(1) by (intro upd_where_none) (auto simp: image_iff)
    then show ?thesis using True Cons.prems(3) by simp
  next
    case False
    then have "wi_id r \<noteq> wi_id it" using Cons.prems(1,2) by auto
    then show ?thesis using Cons False by simp
  qed
qed simp

lemma item_slots_moved:
  assumes "good db" "item_row db (wi_id it) = Some it" "moved it f db db'" "claimable_state (wi_state it)"
  shows "count_where P (map item_slot (filter (\<lambda>w. HoldsExecutionSlot (wi_state w)) (work_items db')))
       = count_where P (map item_slot (filter (\<lambda>w. HoldsExecutionSlot (wi_state w)) (work_items db)))
         + (if HoldsExecutionSlot (wi_state (f it)) \<and> P (item_slot it) then 1 else 0)"
proof -
  have "\<not> HoldsExecutionSlot (wi_state it)" using assms(4) by (auto simp: claimable_state_def state_simps)
  moreover have "distinct (map wi_id (work_items db))" using good_wf [OF assms(1)] by (simp add: ledger_wf_def)
  moreover have "it \<in> set (work_items db)" using item_row_Some [OF assms(2)] by simp
  moreover have "work_items db' = upd_where (\<lambda>r. wi_id r = wi_id it) f (work_items db)"
    "item_slot (f it) = item_slot it" using assms(3) by (auto simp: moved_def)
  ultimately show ?thesis
    using count_upd_one [of "work_items db" it "\<lambda>w. HoldsExecutionSlot (wi_state w) \<and> P (item_slot w)" f]
    by (simp add: count_filter_split)
qed

lemma slot_count_moved:
  assumes "good db" "item_row db (wi_id it) = Some it" "moved it f db db'" "claimable_state (wi_state it)"
  shows "slot_count P db' \<le> slot_count P db + (if HoldsExecutionSlot (wi_state (f it)) \<and> P (item_slot it) then 1 else 0)"
  using item_slots_moved [OF assms, of P] legacy_mono [OF assms, of P]
  by (simp add: slot_count_def live_slots_def)

lemma legacy_background: "s \<in> set (legacy_slots db) \<Longrightarrow> sl_class s = ClassBackground"
  by (auto simp: legacy_slots_def)

lemma chat_count_moved:
  assumes "good db" "item_row db (wi_id it) = Some it" "moved it f db db'" "claimable_state (wi_state it)"
  shows "slot_count (\<lambda>s. sl_class s = ClassChat) db'
       = slot_count (\<lambda>s. sl_class s = ClassChat) db
         + (if HoldsExecutionSlot (wi_state (f it)) \<and> wi_class it = ClassChat then 1 else 0)"
proof -
  have "count_where (\<lambda>s. sl_class s = ClassChat) (legacy_slots d) = 0" for d
    using legacy_background [of _ d] by (auto simp: count_where_0)
  then show ?thesis
    using item_slots_moved [OF assms, of "\<lambda>s. sl_class s = ClassChat"]
    by (simp add: slot_count_def live_slots_def item_slot_def)
qed

lemma moved_setState:
  "moved it (\<lambda>r. r\<lparr>wi_state := to, wi_state_reason := why, wi_updated_at := now,
                 wi_terminal_at := (if Terminal to then Some now else wi_terminal_at r)\<rparr>)
     db (setStateTx it to run gen why now db)"
  by (simp add: moved_def setStateTx_def row_simps item_slot_def)

lemma crewBudget_moved:
  assumes "moved it f db db'"
  shows "crewBudget db' c = crewBudget db c"
proof -
  have "crews db' = crews db" and "crewMinMemory db' = crewMinMemory db"
    using assms by (simp_all add: moved_def crewMinMemory_def)
  then show ?thesis unfolding crewBudget_def by presburger
qed

text \<open>Failing an exhausted item takes no slot and no session, so the other candidates stay admitted.\<close>

lemma session_free_moved:
  assumes "good db" "item_row db (wi_id x) = Some x" "moved x f db db'" "claimable_state (wi_state x)"
    "\<not> OccupiesSession (wi_state (f x))" "session_free db s"
  shows "session_free db' s"
proof -
  have "\<not> HoldsExecutionSlot (wi_state (f x))" using assms(5) Holds_Occupies by blast
  then have "slot_count (\<lambda>l. sl_session_id l = s) db' \<le> slot_count (\<lambda>l. sl_session_id l = s) db"
    using slot_count_moved [OF assms(1-4), of "\<lambda>l. sl_session_id l = s"] by simp
  moreover have "slot_count (\<lambda>l. sl_session_id l = s) db = 0"
    using assms(6) by (simp add: session_free_iff slot_count_def)
  moreover have clear: "\<not> (wi_session_id r = s \<and> OccupiesSession (wi_state r))" if "r \<in> set (work_items db')" for r
    using moved_rows(2) [OF assms(1-3) that] assms(5,6) by (auto simp: session_free_def)
  from clear have "count_where (\<lambda>w. wi_session_id w = s \<and> in_state_list OccupiesSession (wi_state w)) (work_items db') = 0"
    by (auto simp: count_where_0)
  ultimately show ?thesis by (simp add: session_free_iff slot_count_def)
qed

lemma admits_moved:
  assumes "good db" "item_row db (wi_id x) = Some x" "moved x f db db'" "claimable_state (wi_state x)"
    "\<not> OccupiesSession (wi_state (f x))" "admitsTx db it lim live"
  shows "admitsTx db' it lim live"
proof -
  have "\<not> HoldsExecutionSlot (wi_state (f x))" using assms(5) Holds_Occupies by blast
  then have le: "slot_count P db' \<le> slot_count P db" for P
    using slot_count_moved [OF assms(1-4), of P] by simp
  show ?thesis
    using assms(6) session_free_moved [OF assms(1-5)] crewBudget_moved [OF assms(3)]
      le [of "\<lambda>a. sl_agent_id a = wi_agent_id it"]
      le [of "\<lambda>a. sl_agent_id a = wi_agent_id it \<and> sl_class a = ClassChat"]
      le [of "\<lambda>a. sl_agent_id a = wi_agent_id it \<and> sl_class a = ClassBackground"]
      le [of "\<lambda>c. sl_crew_id c = wi_crew_id it"]
    unfolding admitsTx_iff by (auto simp: le_less_trans)
qed

subsection \<open>The claim loop\<close>

definition claimed_as :: "string \<Rightarrow> time \<Rightarrow> Item \<Rightarrow> Claimed \<Rightarrow> bool" where
  "claimed_as newid now it c \<longleftrightarrow>
     cl_Item c = it\<lparr>wi_state := StateStarting, wi_generation := wi_generation it + 1,
                    wi_attempts := wi_attempts it + 1\<rparr>
   \<and> cl_RunID c = newid \<and> cl_Generation c = wi_generation it + 1
   \<and> cl_LeaseUntil c = Some (now + LeaseDuration)"

lemma start_succeeds:
  assumes "good db" "item_row db (wi_id it) = Some it" "claimable_state (wi_state it)"
    "wi_attempts it < MaxAttempts" "attempt_row db newid = None"
  obtains c db' f where "startAttemptTx it owner now newid db = Inr (Some c, db')" "claimed_as newid now it c"
    "moved it f db db'" "wi_state (f it) = StateStarting"
proof -
  let ?taken = "\<lambda>r. wi_id r = wi_id it \<and> wi_generation r = wi_generation it \<and> claimable_state (wi_state r)"
  let ?f = "\<lambda>r::Item. r\<lparr>wi_state := StateStarting, wi_state_reason := '''', wi_generation := wi_generation it + 1,
       wi_attempts := wi_attempts it + 1, wi_updated_at := now\<rparr>"
  let ?a = "new_attempt newid (wi_id it) (next_attempt_seq db (wi_id it)) (wi_generation it + 1) owner now"
  have it: "it \<in> set (work_items db)" using item_row_Some [OF assms(2)] by simp
  have dist: "distinct (map wi_id (work_items db))" using good_wf [OF assms(1)] by (simp add: ledger_wf_def)
  have one: "count_where ?taken (work_items db) = 1"
    using it assms(3) by (intro items.count_key_eq1 [OF dist, of _ "wi_id it" it]) auto
  have "wa_attempt b \<noteq> next_attempt_seq db (wi_id it)"
    if "b \<in> set (work_attempts db)" "wa_work_id b = wi_id it" for b
    unfolding next_attempt_seq_def using that by (intro next_number_fresh) auto
  moreover have "\<forall>b \<in> set (work_attempts db). wa_run_id b \<noteq> newid"
    using assms(5) by (simp add: attempt_row_def attempts.find_key_None)
  ultimately have free: "\<not> list_ex (attempt_conflict ?a) (work_attempts db)"
    unfolding list_ex_iff attempt_conflict_def new_attempt_def by (simp, metis)
  have same: "upd_items ?taken ?f db = upd_items (\<lambda>r. wi_id r = wi_id it) ?f db"
    unfolding upd_items_def
    by (rule arg_cong [where f = "\<lambda>t. db\<lparr>work_items := t\<rparr>"], rule upd_where_cong)
      (use items.key_unique [OF dist _ it] assms(3) in blast)
  have row: "item_row (upd_items (\<lambda>r. wi_id r = wi_id it) ?f db) (wi_id it) \<noteq> None"
    using assms(2) by (subst item_row_upd) auto
  let ?db1 = "upd_items (\<lambda>r. wi_id r = wi_id it) ?f db"
  let ?db' = "appendEventTx (wi_id it) (Some (wi_state it)) StateStarting newid (wi_generation it + 1) ''claimed'' now
                (?db1\<lparr>work_attempts := work_attempts ?db1 @ [?a]\<rparr>)"
  have "insert_attempt ?a ?db1 = Inr (?db1\<lparr>work_attempts := work_attempts ?db1 @ [?a]\<rparr>)"
    using free row by (simp add: insert_attempt_def row_simps) (simp add: new_attempt_def)
  then have "\<exists>c. startAttemptTx it owner now newid db = Inr (Some c, ?db') \<and> claimed_as newid now it c"
    using assms(4) one
    unfolding startAttemptTx_def startAttemptWithRunIDTx_def Let_def same by (simp add: claimed_as_def)
  moreover have "moved it ?f db ?db'" by (simp add: moved_def row_simps item_slot_def)
  ultimately show thesis using that [of _ ?db' ?f] by auto
qed

text \<open>
  The candidates of one scan, all admitted on the database the loop starts from: the loop fails
  the exhausted ones in front and starts the first one with budget left.
\<close>

definition scan_ok :: "work_db \<Rightarrow> Limits \<Rightarrow> liveCounts \<Rightarrow> Item list \<Rightarrow> bool" where
  "scan_ok db lim live its \<longleftrightarrow> good db \<and> distinct (map wi_id its)
     \<and> (\<forall>it \<in> set its. item_row db (wi_id it) = Some it \<and> claimable_state (wi_state it)
          \<and> admitsTx db it lim live)"

lemma scan_ok_skip:
  fixes now :: time
  assumes "scan_ok db lim live (x # its)"
  defines "db1 \<equiv> setStateTx x StateFailed '''' (wi_generation x) ''max attempts exhausted'' now db"
  shows "scan_ok db1 lim live its"
proof -
  have x: "good db" "item_row db (wi_id x) = Some x" "claimable_state (wi_state x)"
    using assms(1) by (auto simp: scan_ok_def)
  have "wi_id x \<notin> wi_id ` set its" using assms(1) by (simp add: scan_ok_def)
  then have other: "wi_id it \<noteq> wi_id x" if "it \<in> set its" for it using that by (metis imageI)
  have "good db1" unfolding db1_def
    using refines_good [OF x(1) end_idle_refines [OF x(1,2,3)]] by simp
  moreover have "admitsTx db1 it lim live" if "admitsTx db it lim live" for it
    unfolding db1_def using that by (rule admits_moved [OF x(1,2) moved_setState x(3), rotated]) (simp add: occupies_iff)
  ultimately show ?thesis
    using assms(1) other by (auto simp: scan_ok_def db1_def item_row_setState_other)
qed

definition starts :: "Limits \<Rightarrow> liveCounts \<Rightarrow> string \<Rightarrow> time \<Rightarrow> Item \<Rightarrow> Claimed \<Rightarrow> work_db \<Rightarrow> work_db \<Rightarrow> bool" where
  "starts lim live newid now it c db db' \<longleftrightarrow>
     (\<exists>f dbx. claimed_as newid now it c \<and> good dbx
        \<and> item_row dbx (wi_id it) = Some it \<and> claimable_state (wi_state it)
        \<and> admitsTx dbx it lim live \<and> moved it f dbx db' \<and> wi_state (f it) = StateStarting
        \<and> (\<forall>P. slot_count P dbx \<le> slot_count P db)
        \<and> slot_count (\<lambda>s. sl_class s = ClassChat) dbx = slot_count (\<lambda>s. sl_class s = ClassChat) db
        \<and> (\<forall>crew. crewBudget dbx crew = crewBudget db crew))"

lemma starts_after_skip:
  assumes "good db" "item_row db (wi_id x) = Some x" "claimable_state (wi_state x)"
    "starts lim live newid now it c (setStateTx x StateFailed r g why at db) db'"
  shows "starts lim live newid now it c db db'"
proof -
  let ?db = "setStateTx x StateFailed r g why at db"
  note m = moved_setState [where it = x and to = StateFailed and why = why and now = at and db = db and run = r and gen = g]
  have "slot_count P ?db \<le> slot_count P db" for P
    using slot_count_moved [OF assms(1,2) m assms(3), of P] by (simp add: HoldsExecutionSlot_def)
  moreover have "slot_count (\<lambda>s. sl_class s = ClassChat) ?db = slot_count (\<lambda>s. sl_class s = ClassChat) db"
    using chat_count_moved [OF assms(1,2) m assms(3)] by (simp add: HoldsExecutionSlot_def)
  moreover have "crewBudget ?db crew = crewBudget db crew" for crew
    by (rule crewBudget_moved [OF m])
  ultimately show ?thesis using assms(4) unfolding starts_def by (metis order_trans)
qed

lemma claim_loop_spec:
  assumes "scan_ok db lim live its" "attempt_row db newid = None"
  shows "case find (\<lambda>x. wi_attempts x < MaxAttempts) its of
          None \<Rightarrow> \<exists>db'. claim_loop lim live owner now newid its db = Inr (None, db')
        | Some it \<Rightarrow> \<exists>c db'. claim_loop lim live owner now newid its db = Inr (Some c, db')
                       \<and> starts lim live newid now it c db db'"
  using assms
proof (induction its arbitrary: db)
  case Nil
  then show ?case by simp
next
  case (Cons x its)
  have x: "good db" "item_row db (wi_id x) = Some x" "claimable_state (wi_state x)" "admitsTx db x lim live"
    using Cons.prems(1) by (auto simp: scan_ok_def)
  show ?case
  proof (cases "wi_attempts x < MaxAttempts")
    case True
    obtain c db' f where "startAttemptTx x owner now newid db = Inr (Some c, db')" "claimed_as newid now x c"
        "moved x f db db'" "wi_state (f x) = StateStarting"
      by (rule start_succeeds [OF x(1-3) True Cons.prems(2)])
    moreover from this have "starts lim live newid now x c db db'"
      using x unfolding starts_def by (intro exI [of _ f] exI [of _ db]) simp
    ultimately show ?thesis using x(4) True by simp
  next
    case False
    let ?db = "setStateTx x StateFailed '''' (wi_generation x) ''max attempts exhausted'' now db"
    have "claim_loop lim live owner now newid (x # its) db = claim_loop lim live owner now newid its ?db"
      using x(4) False by (simp add: startAttemptTx_def startAttemptWithRunIDTx_def Let_def)
    moreover have "attempt_row ?db newid = None" using Cons.prems(2) by (simp add: setStateTx_attempt_row)
    note Cons.IH [OF scan_ok_skip [OF Cons.prems(1)] this]
    ultimately show ?thesis
      using False starts_after_skip [OF x(1-3)] by (auto split: option.splits)
  qed
qed

subsection \<open>Claim\<close>

text \<open>The options after an all-zero limit record has been replaced by the defaults.\<close>

definition effective :: "ClaimOptions \<Rightarrow> ClaimOptions" where
  "effective opts = (if co_Limits opts = ZeroLimits then opts\<lparr>co_Limits := DefaultLimits\<rparr> else opts)"

lemma admissible_valid: "admissibleClasses live lim only = Some classes \<Longrightarrow> c \<in> set classes \<Longrightarrow> valid_class c"
  by (auto simp: admissibleClasses_def valid_class_def Let_def split: if_splits)

lemma scan_scan_ok:
  assumes "good db" "admissibleClasses live (co_Limits opts) (co_Class opts) = Some classes"
  shows "scan_ok db (co_Limits opts) live (scanCandidatesTx opts classes now db)"
proof -
  have "admitsTx db it (co_Limits opts) live" if "candidate db opts classes now it" for it
    using that candidate_iff_admits [OF assms(2), of it db now] admissible_valid [OF assms(2)]
    by (auto simp: candidate_def)
  then show ?thesis using assms(1) scan_rows [OF assms(1)] by (auto simp: scan_ok_def)
qed

lemma start_needs_fresh:
  assumes "startAttemptTx it owner now newid db = Inr (Some c, db')"
  shows "attempt_row db newid = None"
  using assms
  by (auto simp: startAttemptTx_def startAttemptWithRunIDTx_def Let_def insert_attempt_def row_simps list_ex_iff
      attempt_conflict_def new_attempt_def attempt_row_def attempts.find_key_None split: if_splits sum.splits)

lemma claim_loop_needs_fresh:
  "claim_loop lim live owner now newid its db = Inr (Some c, db') \<Longrightarrow> attempt_row db newid = None"
proof (induction its arbitrary: db)
  case (Cons it its)
  have "attempt_row db newid = None" if "startAttemptTx it owner now newid db = Inr (None, db1)"
      "attempt_row db1 newid = None" for db1
    using that by (auto simp: startAttemptTx_def startAttemptWithRunIDTx_def Let_def setStateTx_attempt_row
        split: if_splits sum.splits)
  then show ?case
    using Cons start_needs_fresh [of it owner now newid db]
    by (auto split: if_splits sum.splits option.splits prod.splits)
qed simp

lemma Claim_eq:
  "co_LeaseOwner opts \<noteq> '''' \<Longrightarrow> claim_pending hint db \<Longrightarrow>
   Claim hint now newid opts db =
     (case claimTx now newid (effective opts) db of
        Inl e \<Rightarrow> (Inl e, db) | Inr (None, db') \<Rightarrow> (Inl ErrNoWork, db') | Inr (Some c, db') \<Rightarrow> (Inr c, db'))"
  by (auto simp: Claim_def effective_def Let_def in_tx_def split: sum.splits prod.splits option.splits)

lemma Claim_started:
  assumes "good db" "Claim hint now newid opts db = (Inr c, db')"
  obtains it classes where
    "admissibleClasses (countLiveTx (expireOverdueTx now db)) (co_Limits (effective opts)) (co_Class opts) = Some classes"
    "find (\<lambda>x. wi_attempts x < MaxAttempts)
       (scanCandidatesTx (effective opts) classes now (expireOverdueTx now db)) = Some it"
    "starts (co_Limits (effective opts)) (countLiveTx (expireOverdueTx now db)) newid now it c
       (expireOverdueTx now db) db'"
proof -
  let ?db = "expireOverdueTx now db" and ?o = "effective opts"
  have sel: "co_Class ?o = co_Class opts" by (simp add: effective_def)
  have ok: "good ?db" by (rule refines_good [OF assms(1) expireOverdueTx_refines [OF assms(1)]])
  have "co_LeaseOwner opts \<noteq> ''''" "claim_pending hint db"
    using assms(2) by (auto simp: Claim_def split: if_splits)
  then have "claimTx now newid ?o db = Inr (Some c, db')"
    using assms(2) by (auto simp: Claim_eq split: sum.splits prod.splits option.splits)
  then obtain classes where cl: "admissibleClasses (countLiveTx ?db) (co_Limits ?o) (co_Class ?o) = Some classes"
      and loop: "claim_loop (co_Limits ?o) (countLiveTx ?db) (co_LeaseOwner ?o) now newid
                   (scanCandidatesTx ?o classes now ?db) ?db = Inr (Some c, db')"
    by (auto simp: claimTx_def Let_def split: option.splits)
  note claim_loop_spec [OF scan_scan_ok [OF ok cl, of now] claim_loop_needs_fresh [OF loop], of "co_LeaseOwner ?o" now]
  then show thesis using loop cl that sel by (auto split: option.splits)
qed

text \<open>
  C6. The scan and the re-check agree: for an item of a declared class, and the classes the server
  gates left open, the SQL candidate condition holds exactly when the item matches the caller's
  selection and the Go re-check admits it.  No candidate can be refused by the re-check.
\<close>

theorem scan_and_recheck_agree:
  assumes "admissibleClasses (countLiveTx db) (co_Limits opts) (co_Class opts) = Some classes"
    and "valid_class (wi_class w)"
  shows "candidate db opts classes now w \<longleftrightarrow>
           requested opts now w \<and> admitsTx db w (co_Limits opts) (countLiveTx db)"
  using assms by (rule candidate_iff_admits)

theorem scan_and_recheck_agree_witness:
  "\<exists>w \<in> set (work_items (run_commands demo_claimed empty_db)). wi_state w = StateQueued
     \<and> \<not> admitsTx (run_commands demo_claimed empty_db) w DefaultLimits (countLiveTx (run_commands demo_claimed empty_db))"
proof -
  let ?db = "run_commands demo_claimed empty_db" and ?cl = "[ClassChat, ClassBackground]"
  have adm: "admissibleClasses (countLiveTx ?db) (co_Limits demo_options) (co_Class demo_options) = Some ?cl"
    by code_simp
  have "list_ex (\<lambda>w. wi_state w = StateQueued \<and> valid_class (wi_class w) \<and> requested demo_options 3 w
          \<and> \<not> candidate ?db demo_options ?cl 3 w) (work_items ?db)" by code_simp
  then obtain w where w: "w \<in> set (work_items ?db)" "wi_state w = StateQueued" "valid_class (wi_class w)"
      "requested demo_options 3 w" "\<not> candidate ?db demo_options ?cl 3 w"
    by (auto simp: list_ex_iff)
  then show ?thesis
    using scan_and_recheck_agree [OF adm w(3), of 3] by (auto simp: demo_options_def)
qed

text \<open>
  After a successful start each count is at most one above what it was when the candidate was
  admitted, and the chat count is exact.
\<close>

lemma starts_counts:
  assumes "starts lim live newid now it c db db'"
  shows "slot_count P db' \<le> slot_count P db + (if P (item_slot it) then 1 else 0)"
    "slot_count (\<lambda>s. sl_class s = ClassChat) db'
       = slot_count (\<lambda>s. sl_class s = ClassChat) db + (if wi_class it = ClassChat then 1 else 0)"
proof -
  obtain f dbx where x: "good dbx" "item_row dbx (wi_id it) = Some it" "moved it f dbx db'"
      "claimable_state (wi_state it)" and st: "wi_state (f it) = StateStarting"
      and le: "\<And>P. slot_count P dbx \<le> slot_count P db"
      and chat: "slot_count (\<lambda>s. sl_class s = ClassChat) dbx = slot_count (\<lambda>s. sl_class s = ClassChat) db"
    using assms by (auto simp: starts_def)
  show "slot_count P db' \<le> slot_count P db + (if P (item_slot it) then 1 else 0)"
    using slot_count_moved [OF x, of P] le [of P] st by (simp add: HoldsExecutionSlot_def split: if_splits)
  show "slot_count (\<lambda>s. sl_class s = ClassChat) db'
       = slot_count (\<lambda>s. sl_class s = ClassChat) db + (if wi_class it = ClassChat then 1 else 0)"
    using chat_count_moved [OF x] chat st by (simp add: HoldsExecutionSlot_def)
qed

lemma starts_admitted:
  assumes "starts lim live newid now it c db db'"
  shows "\<exists>dbx. admitsTx dbx it lim live \<and> (\<forall>crew. crewBudget dbx crew = crewBudget db' crew)
    \<and> (\<forall>P. slot_count P db' \<le> slot_count P dbx + (if P (item_slot it) then 1 else 0))"
proof -
  obtain f dbx where x: "good dbx" "item_row dbx (wi_id it) = Some it" "moved it f dbx db'"
      "claimable_state (wi_state it)" and adm: "admitsTx dbx it lim live" "wi_state (f it) = StateStarting"
    using assms by (auto simp: starts_def)
  have "slot_count P db' \<le> slot_count P dbx + (if P (item_slot it) then 1 else 0)" for P
    using slot_count_moved [OF x, of P] adm(2) by (simp add: HoldsExecutionSlot_def)
  then show ?thesis using adm(1) crewBudget_moved [OF x(3)] by metis
qed

definition within_limits :: "Limits \<Rightarrow> Item \<Rightarrow> work_db \<Rightarrow> bool" where
  "within_limits lim it db \<longleftrightarrow>
     slot_count (\<lambda>_. True) db \<le> ServerTotal lim
   \<and> (wi_class it = ClassBackground \<longrightarrow>
        slot_count (\<lambda>s. sl_class s = ClassBackground) db \<le> ServerBackground lim
      \<and> slot_count (\<lambda>_. True) db
        \<le> ServerTotal lim - ServerChatReserv lim + slot_count (\<lambda>s. sl_class s = ClassChat) db)
   \<and> (wi_agent_id it \<noteq> '''' \<longrightarrow>
        slot_count (\<lambda>s. sl_agent_id s = wi_agent_id it) db \<le> AgentTotal lim
      \<and> (wi_class it = ClassChat \<longrightarrow>
           slot_count (\<lambda>s. sl_agent_id s = wi_agent_id it \<and> sl_class s = ClassChat) db \<le> AgentChat lim)
      \<and> (wi_class it = ClassBackground \<longrightarrow>
           slot_count (\<lambda>s. sl_agent_id s = wi_agent_id it \<and> sl_class s = ClassBackground) db
           \<le> AgentBackground lim))
   \<and> (wi_crew_id it \<noteq> '''' \<longrightarrow>
        slot_count (\<lambda>s. sl_crew_id s = wi_crew_id it) db \<le> crewBudget db (wi_crew_id it))"

lemma starts_within_limits:
  assumes "starts lim (countLiveTx db) newid now it c db db'"
  shows "within_limits lim it db'"
proof -
  obtain dbx where adm: "admitsTx dbx it lim (countLiveTx db)"
      and budget: "\<And>crew. crewBudget dbx crew = crewBudget db' crew"
      and le: "\<And>P. slot_count P db' \<le> slot_count P dbx + (if P (item_slot it) then 1 else 0)"
    using starts_admitted [OF assms] by metis
  note live = starts_counts [OF assms]
  have server: "lc_total (countLiveTx db) < ServerTotal lim"
    "wi_class it = ClassBackground \<Longrightarrow> lc_background (countLiveTx db) < ServerBackground lim
        \<and> lc_total (countLiveTx db) + 1 \<le> ServerTotal lim - ServerChatReserv lim + lc_chat (countLiveTx db)"
    using adm by (auto simp: admitsTx_iff)
  show ?thesis unfolding within_limits_def
  proof (intro conjI impI)
    show "slot_count (\<lambda>_. True) db' \<le> ServerTotal lim"
      using live(1) [of "\<lambda>_. True"] server(1) by (simp add: countLiveTx_def)
    assume bg: "wi_class it = ClassBackground"
    show "slot_count (\<lambda>s. sl_class s = ClassBackground) db' \<le> ServerBackground lim"
      using live(1) [of "\<lambda>s. sl_class s = ClassBackground"] server(2) [OF bg]
      by (simp add: countLiveTx_def split: if_splits)
    show "slot_count (\<lambda>_. True) db'
        \<le> ServerTotal lim - ServerChatReserv lim + slot_count (\<lambda>s. sl_class s = ClassChat) db'"
      using live(1) [of "\<lambda>_. True"] live(2) server(2) [OF bg] bg by (simp add: countLiveTx_def)
  next
    assume agent: "wi_agent_id it \<noteq> ''''"
    show "slot_count (\<lambda>s. sl_agent_id s = wi_agent_id it) db' \<le> AgentTotal lim"
      using le [of "\<lambda>s. sl_agent_id s = wi_agent_id it"] adm agent by (auto simp: admitsTx_iff split: if_splits)
    show "slot_count (\<lambda>s. sl_agent_id s = wi_agent_id it \<and> sl_class s = ClassChat) db' \<le> AgentChat lim"
      if "wi_class it = ClassChat"
      using le [of "\<lambda>s. sl_agent_id s = wi_agent_id it \<and> sl_class s = ClassChat"] adm agent that
      by (auto simp: admitsTx_iff split: if_splits)
    show "slot_count (\<lambda>s. sl_agent_id s = wi_agent_id it \<and> sl_class s = ClassBackground) db'
        \<le> AgentBackground lim" if "wi_class it = ClassBackground"
      using le [of "\<lambda>s. sl_agent_id s = wi_agent_id it \<and> sl_class s = ClassBackground"] adm agent that
      by (auto simp: admitsTx_iff split: if_splits)
  next
    assume crew: "wi_crew_id it \<noteq> ''''"
    show "slot_count (\<lambda>s. sl_crew_id s = wi_crew_id it) db' \<le> crewBudget db' (wi_crew_id it)"
      using le [of "\<lambda>s. sl_crew_id s = wi_crew_id it"] adm crew budget
      by (auto simp: admitsTx_iff split: if_splits)
  qed
qed

text \<open>
  C7. A claim keeps every limit: after a successful \<open>Claim\<close> on a reachable ledger the live slots are
  within the server total; if the claimed item is background work, also within the background
  cap and outside the chat reservation; and the item's agent and crew are within their totals,
  per-class caps and budget.
\<close>

theorem claim_within_limits:
  assumes "db = run_commands cs empty_db" "Claim hint now newid opts db = (Inr c, db')"
  shows "within_limits (co_Limits (effective opts)) (cl_Item c) db'"
proof -
  have ok: "good db" using reachable_good assms(1) by simp
  obtain it where st: "starts (co_Limits (effective opts)) (countLiveTx (expireOverdueTx now db)) newid now it c
       (expireOverdueTx now db) db'"
    by (rule Claim_started [OF ok assms(2)])
  have "within_limits (co_Limits (effective opts)) it db'" by (rule starts_within_limits [OF st])
  moreover have "cl_Item c = it\<lparr>wi_state := StateStarting, wi_generation := wi_generation it + 1,
                    wi_attempts := wi_attempts it + 1\<rparr>"
    using st by (auto simp: starts_def claimed_as_def)
  ultimately show ?thesis by (simp add: within_limits_def)
qed

definition demo_queue :: "command list" where
  "demo_queue = [DoAccept 0 ''w1'' demo_request, DoAccept 1 ''w2'' (demo_request\<lparr>ar_Priority := 5\<rparr>)]"

theorem claim_within_limits_witness:
  "\<exists>c db'. Claim 2 2 ''r1'' demo_options (run_commands demo_queue empty_db) = (Inr c, db')
     \<and> within_limits DefaultLimits (cl_Item c) db'"
proof -
  have "case Claim 2 2 ''r1'' demo_options (run_commands demo_queue empty_db) of
          (Inr c, db') \<Rightarrow> True | _ \<Rightarrow> False" by code_simp
  then obtain c db' where "Claim 2 2 ''r1'' demo_options (run_commands demo_queue empty_db) = (Inr c, db')"
    by (auto split: prod.splits sum.splits)
  then show ?thesis
    using claim_within_limits [OF refl, of 2 2 "''r1''" demo_options demo_queue c db']
    by (auto simp: effective_def demo_options_def DefaultLimits_def ZeroLimits_def)
qed

lemma expire_attempt_row: "attempt_row (expireOverdueTx now db) r = attempt_row db r"
proof -
  have "attempt_row (expire_all now its d) r = attempt_row d r" for its d
    by (induction its arbitrary: d) (simp_all add: setStateTx_attempt_row)
  then show ?thesis by (simp add: expireOverdueTx_def)
qed

lemma scan_least:
  assumes "find P (scanCandidatesTx opts classes now db) = Some it"
    "x \<in> set (work_items db)" "candidate db opts classes now x" "P x"
  shows "claim_order db now it \<le> claim_order db now x"
  by (rule find_take_least [OF _ assms(1) [unfolded scanCandidatesTx_def]]) (use assms(2-4) in simp_all)

text \<open>
  C8. Claiming is fair and makes progress: on a reachable ledger with claimable work and a fresh run
  identifier, if some item of the scanned batch has attempts left, \<open>Claim\<close> succeeds; it takes
  the first such item, under the next generation and a lease of \<open>LeaseDuration\<close>; and among all
  candidates with attempts left, beyond the batch too, none comes before it in the order of priority, age, workspace
  and agent load, eligibility and acceptance.
\<close>

theorem claim_takes_first:
  assumes "db = run_commands cs empty_db"
    and "co_LeaseOwner opts \<noteq> ''''" "claim_pending hint db" "attempt_row db newid = None"
    and "db1 = expireOverdueTx now db"
    and "admissibleClasses (countLiveTx db1) (co_Limits (effective opts)) (co_Class opts) = Some classes"
    and "find (\<lambda>x. wi_attempts x < MaxAttempts) (scanCandidatesTx (effective opts) classes now db1) = Some it"
  shows "\<exists>c db'. Claim hint now newid opts db = (Inr c, db') \<and> claimed_as newid now it c
       \<and> (\<forall>x \<in> set (work_items db1). candidate db1 (effective opts) classes now x \<and> wi_attempts x < MaxAttempts
            \<longrightarrow> claim_order db1 now it \<le> claim_order db1 now x)"
proof -
  let ?o = "effective opts"
  have ok: "good db" using reachable_good assms(1) by simp
  have ok1: "good db1" unfolding assms(5) by (rule refines_good [OF ok expireOverdueTx_refines [OF ok]])
  have cl: "admissibleClasses (countLiveTx db1) (co_Limits ?o) (co_Class ?o) = Some classes"
    using assms(6) by (simp add: effective_def split: if_splits)
  have "attempt_row db1 newid = None" using assms(4,5) by (simp add: expire_attempt_row)
  note claim_loop_spec [OF scan_scan_ok [OF ok1 cl, of now] this, of "co_LeaseOwner ?o" now]
  then obtain c db' where "claim_loop (co_Limits ?o) (countLiveTx db1) (co_LeaseOwner ?o) now newid
        (scanCandidatesTx ?o classes now db1) db1 = Inr (Some c, db')" and st: "claimed_as newid now it c"
    using assms(7) by (auto simp: starts_def)
  then have "Claim hint now newid opts db = (Inr c, db')"
    using assms(2,3) cl by (simp add: Claim_eq claimTx_def Let_def assms(5) [symmetric])
  then show ?thesis using st scan_least [OF assms(7)] by blast
qed

theorem claim_takes_first_witness:
  "\<exists>c db'. Claim 2 2 ''r1'' demo_options (run_commands demo_queue empty_db) = (Inr c, db') \<and> wi_id (cl_Item c) = ''w2''"
proof -
  let ?db = "run_commands demo_queue empty_db" and ?cl = "[ClassChat, ClassBackground]"
  let ?db1 = "expireOverdueTx 2 ?db"
  have 1: "co_LeaseOwner demo_options \<noteq> ''''" "claim_pending 2 ?db" "attempt_row ?db ''r1'' = None" by code_simp+
  have 2: "admissibleClasses (countLiveTx ?db1) (co_Limits (effective demo_options)) (co_Class demo_options) = Some ?cl"
    by code_simp
  have "case find (\<lambda>x. wi_attempts x < MaxAttempts) (scanCandidatesTx (effective demo_options) ?cl 2 ?db1) of
          Some it \<Rightarrow> wi_id it = ''w2'' | None \<Rightarrow> False" by code_simp
  then obtain it where 3: "find (\<lambda>x. wi_attempts x < MaxAttempts)
      (scanCandidatesTx (effective demo_options) ?cl 2 ?db1) = Some it" "wi_id it = ''w2''"
    by (auto split: option.splits)
  show ?thesis
    using claim_takes_first [OF refl 1 refl 2 3(1)] 3(2) by (auto simp: claimed_as_def)
qed

end
