(* ===== verification/Work_Lifecycle.thy ===== *)
theory Work_Lifecycle
  imports Work_Properties
begin

text \<open>
  What each operation on started work does, branch by branch: lease recovery, reports and
  retries, cancellation and deferral.
\<close>

subsection \<open>Lease recovery\<close>

definition recovered_state :: "Attempt \<Rightarrow> State" where
  "recovered_state a =
     (if wa_runtime_phase a = runtimePhasePlanned then StateQueued else StateNeedsReconciliation)"

lemma recover_one_only_at:
  assumes "good db" "e \<in> set (work_attempts db)" "item_row db (wa_work_id e) = Some it"
  shows "only_at (wa_work_id e) db (recover_one now e it db)"
proof -
  have same: "wa_work_id b = wa_work_id e" if "b \<in> set (work_attempts db)" "wa_run_id b = wa_run_id e" for b
    using that assms(2) good_wf [OF assms(1)] attempts.key_unique [of "work_attempts db" b e]
    by (simp add: ledger_wf_def)
  have closed: "only_at (wa_work_id e) db (upd_attempts (\<lambda>a. wa_run_id a = wa_run_id e \<and> wa_ended_at a = None)
      (\<lambda>a. a\<lparr>wa_ended_at := Some now, wa_end_reason := s\<rparr>) db)" for s
    by (rule only_at_upd_attempts) (use same in simp_all)
  have id: "wi_id it = wa_work_id e" using item_row_Some [OF assms(3)] by simp
  show ?thesis unfolding recover_one_def Let_def
    by (rule only_at_trans [OF closed only_at_setState [of it, unfolded id]])
qed

lemma recover_one_state:
  assumes "item_row db (wa_work_id e) = Some it"
  shows "map_option wi_state (item_row (recover_one now e it db) (wa_work_id e)) = Some (recovered_state e)"
  using assms item_row_Some [OF assms]
  by (simp add: recover_one_def Let_def item_row_setState row_simps recovered_state_def)

definition recovery_report :: "Attempt list \<Rightarrow> RecoveryOutcome \<Rightarrow> RecoveryOutcome" where
  "recovery_report es out = \<lparr>
     ro_Requeued = ro_Requeued out
       @ map wa_work_id (filter (\<lambda>e. recovered_state e = StateQueued) es),
     ro_Reconciliation = ro_Reconciliation out
       @ map wa_work_id (filter (\<lambda>e. recovered_state e = StateNeedsReconciliation) es)\<rparr>"

lemma recover_loop_spec:
  assumes "good db" "distinct (map wa_work_id es)"
    "\<forall>e \<in> set es. e \<in> set (work_attempts db) \<and> wa_ended_at e = None"
  shows "\<exists>db'. recover_loop now es out db = Inr (recovery_report es out, db')
     \<and> (\<forall>e \<in> set es. map_option wi_state (item_row db' (wa_work_id e)) = Some (recovered_state e))
     \<and> (\<forall>v. v \<notin> wa_work_id ` set es \<longrightarrow>
          item_row db' v = item_row db v \<and> item_attempts db' v = item_attempts db v)"
  using assms
proof (induction es arbitrary: db out)
  case Nil
  then show ?case by (simp add: recovery_report_def)
next
  case (Cons e es)
  have e: "e \<in> set (work_attempts db)" "wa_ended_at e = None" using Cons.prems(3) by auto
  obtain it where it: "item_row db (wa_work_id e) = Some it"
    using e(1) good_wf [OF Cons.prems(1)] wf_item_row [OF good_wf [OF Cons.prems(1)]]
    by (auto simp: ledger_wf_def)
  let ?db = "recover_one now e it db"
  have ok: "good ?db" by (rule refines_good [OF Cons.prems(1) recover_one_refines [OF Cons.prems(1) e it]])
  note only = recover_one_only_at [OF Cons.prems(1) e(1) it, of now]
  have fresh: "wa_work_id e \<notin> wa_work_id ` set es" using Cons.prems(2) by simp
  have "f \<in> set (work_attempts ?db) \<and> wa_ended_at f = None" if "f \<in> set es" for f
  proof -
    have f: "f \<in> set (work_attempts db)" "wa_ended_at f = None" using Cons.prems(3) that by auto
    have "wa_work_id f \<noteq> wa_work_id e" using fresh that by (metis imageI)
    then have "wa_run_id f \<noteq> wa_run_id e"
      using f(1) e(1) good_wf [OF Cons.prems(1)] attempts.key_unique [of "work_attempts db" f e]
      by (auto simp: ledger_wf_def)
    then show ?thesis using recover_one_others [OF f(1)] f(2) by simp
  qed
  then have still: "\<forall>f \<in> set es. f \<in> set (work_attempts ?db) \<and> wa_ended_at f = None" by blast
  define out1 where "out1 = (if wa_runtime_phase e = runtimePhasePlanned
             then out\<lparr>ro_Requeued := ro_Requeued out @ [wa_work_id e]\<rparr>
             else out\<lparr>ro_Reconciliation := ro_Reconciliation out @ [wa_work_id e]\<rparr>)"
  have "distinct (map wa_work_id es)" using Cons.prems(2) by simp
  from Cons.IH [OF ok this still, of out1] obtain db' where
      db': "recover_loop now es out1 ?db = Inr (recovery_report es out1, db')"
      and st: "\<forall>f \<in> set es. map_option wi_state (item_row db' (wa_work_id f)) = Some (recovered_state f)"
      and rest: "\<forall>v. v \<notin> wa_work_id ` set es \<longrightarrow>
          item_row db' v = item_row ?db v \<and> item_attempts db' v = item_attempts ?db v"
    by blast
  have "recover_loop now (e # es) out db = Inr (recovery_report (e # es) out, db')"
    using db' it by (simp add: getItemTx_def out1_def recovery_report_def recovered_state_def)
  moreover have "map_option wi_state (item_row db' (wa_work_id e)) = Some (recovered_state e)"
    using rest fresh recover_one_state [OF it] by simp
  ultimately show ?case using st rest only by (auto simp: only_at_def)
qed

lemma open_attempts_distinct:
  assumes "good db" "\<And>a. P a \<Longrightarrow> wa_ended_at a = None"
  shows "distinct (map wa_work_id (filter P (work_attempts db)))"
  unfolding distinct_map
proof
  show "distinct (filter P (work_attempts db))"
    using good_wf [OF assms(1)] by (auto simp: ledger_wf_def distinct_map)
  show "inj_on wa_work_id (set (filter P (work_attempts db)))"
  proof (rule inj_onI)
    fix a b assume a: "a \<in> set (filter P (work_attempts db))" and b: "b \<in> set (filter P (work_attempts db))"
      and eq: "wa_work_id a = wa_work_id b"
    obtain it where it: "item_row db (wa_work_id a) = Some it"
      using a good_wf [OF assms(1)] wf_item_row [OF good_wf [OF assms(1)]] by (auto simp: ledger_wf_def)
    have "a \<in> set (item_attempts db (wa_work_id a))" "b \<in> set (item_attempts db (wa_work_id a))"
      "wa_ended_at a = None" "wa_ended_at b = None"
      using a b eq assms(2) by (auto simp: item_attempts_in)
    then show "a = b" using open_attempt [OF assms(1) it] by metis
  qed
qed

text \<open>
  C9. Recovery settles every expired lease and nothing else: on a reachable ledger it succeeds; the
  item of each expired attempt ends up queued if the attempt was still planned, and otherwise in
  reconciliation, and is listed accordingly in the outcome; every other item keeps its row and
  its attempts; and no expired lease is left.
\<close>

theorem recovery_settles_expired_leases:
  assumes "db = run_commands cs empty_db"
    and "es = filter (expired_lease now db) (work_attempts db)"
  shows "\<exists>db'. RecoverExpiredLeases now db
              = (Inr (recovery_report es \<lparr>ro_Requeued = [], ro_Reconciliation = []\<rparr>), db')
       \<and> (\<forall>e \<in> set es. map_option wi_state (item_row db' (wa_work_id e)) = Some (recovered_state e))
       \<and> (\<forall>v. v \<notin> wa_work_id ` set es \<longrightarrow>
            item_row db' v = item_row db v \<and> item_attempts db' v = item_attempts db v)
       \<and> (\<forall>a \<in> set (work_attempts db'). \<not> expired_lease now db' a)"
proof -
  have ok: "good db" using reachable_good assms(1) by simp
  have "distinct (map wa_work_id es)"
    unfolding assms(2) using ok by (rule open_attempts_distinct) (simp add: expired_lease_def)
  from recover_loop_spec [OF ok this, of now "\<lparr>ro_Requeued = [], ro_Reconciliation = []\<rparr>"]
  obtain db' where loop: "recover_loop now es \<lparr>ro_Requeued = [], ro_Reconciliation = []\<rparr> db
        = Inr (recovery_report es \<lparr>ro_Requeued = [], ro_Reconciliation = []\<rparr>, db')"
      and st: "\<forall>e \<in> set es. map_option wi_state (item_row db' (wa_work_id e)) = Some (recovered_state e)"
      and rest: "\<forall>v. v \<notin> wa_work_id ` set es \<longrightarrow>
            item_row db' v = item_row db v \<and> item_attempts db' v = item_attempts db v"
    using assms(2) by (auto simp: expired_lease_def)
  have run: "RecoverExpiredLeases now db
      = (Inr (recovery_report es \<lparr>ro_Requeued = [], ro_Reconciliation = []\<rparr>), db')"
    using loop by (simp add: RecoverExpiredLeases_def assms(2))
  have ok': "good db'" using refines_good [OF ok RecoverExpiredLeases_refines [OF ok, of now]] by (simp add: run)
  have "\<not> expired_lease now db' a" if a: "a \<in> set (work_attempts db')" for a
  proof
    assume "expired_lease now db' a"
    then obtain w where w: "item_row db' (wa_work_id a) = Some w" "wi_state w = StateStarting \<or> wi_state w = StateRunning"
        "wi_generation w = wa_generation a" "wa_ended_at a = None" "wa_lease_expires_at a < now"
      using wf_item_row [OF good_wf [OF ok']] by (auto simp: expired_lease_def)
    show False
    proof (cases "wa_work_id a \<in> wa_work_id ` set es")
      case True
      then show False using st w(1,2) by (auto simp: recovered_state_def split: if_splits)
    next
      case False
      then have "item_row db (wa_work_id a) = Some w" "a \<in> set (item_attempts db (wa_work_id a))"
        using rest w(1) a item_attempts_in [of a db' "wa_work_id a"] by auto
      then have "expired_lease now db a" "a \<in> set (work_attempts db)"
        using w item_row_Some [of db] by (auto simp: expired_lease_def item_attempts_in)
      then show False using False by (simp add: assms(2))
    qed
  qed
  then show ?thesis using run st rest by blast
qed

theorem recovery_settles_expired_leases_witness:
  "\<exists>db' out. RecoverExpiredLeases (2 * LeaseDuration) (run_commands demo_claimed empty_db) = (Inr out, db')
     \<and> ro_Requeued out = [''w1''] \<and> (\<forall>a \<in> set (work_attempts db'). \<not> expired_lease (2 * LeaseDuration) db' a)"
proof -
  let ?db = "run_commands demo_claimed empty_db"
  have "ro_Requeued (recovery_report (filter (expired_lease (2 * LeaseDuration) ?db) (work_attempts ?db))
          \<lparr>ro_Requeued = [], ro_Reconciliation = []\<rparr>) = [''w1'']" by code_simp
  then show ?thesis
    using recovery_settles_expired_leases [OF refl refl, of "2 * LeaseDuration" demo_claimed] by fastforce
qed

subsection \<open>Reports and retries\<close>

text \<open>The state a report leads to: a retry without attempts left is a failure.\<close>

definition reported_state :: "Item \<Rightarrow> State \<Rightarrow> State" where
  "reported_state it to = (if to = StateRetryWait \<and> wi_attempts it \<ge> MaxAttempts then StateFailed else to)"

lemma Backoff_window:
  assumes "\<And>n. 0 < n \<Longrightarrow> 0 \<le> rnd n \<and> rnd n < n"
  shows "0 \<le> Backoff attempt rnd \<and> Backoff attempt rnd < min BackoffCap (BackoffBase * 2 ^ nat (attempt - 1))"
proof -
  define k where "k = (if attempt < 1 then 1 else attempt)"
  have k: "1 \<le> k" "nat (k - 1) = nat (attempt - 1)" by (auto simp: k_def)
  have base: "0 < BackoffBase" "BackoffBase \<le> BackoffCap" by (simp_all add: BackoffBase_def BackoffCap_def second_def)
  have "backoff_window 1 k BackoffBase = min BackoffCap (BackoffBase * 2 ^ nat (attempt - 1))"
    using backoff_window_eq [OF base k(1)] k(2) by simp
  moreover have "0 < backoff_window 1 k BackoffBase" using backoff_window_bounds [OF base] by blast
  ultimately show ?thesis
    using assms [of "min BackoffCap (BackoffBase * 2 ^ nat (attempt - 1))"]
    by (simp add: Backoff_def Let_def k_def [symmetric])
qed

lemma item_row_setState_at:
  assumes "item_row db w = Some r" "wi_id it = w"
  shows "item_row (setStateTx it to run gen why now db) w =
     Some (r\<lparr>wi_state := to, wi_state_reason := why, wi_updated_at := now,
             wi_terminal_at := (if Terminal to then Some now else wi_terminal_at r)\<rparr>)"
  using assms item_row_Some [OF assms(1)] by (simp add: item_row_setState)

lemma attempt_row_upd:
  assumes "\<And>a. wa_run_id (g a) = wa_run_id a"
  shows "attempt_row (upd_attempts P g db) r = map_option (\<lambda>a. if P a then g a else a) (attempt_row db r)"
  unfolding attempt_row_def upd_attempts_sel using assms by (intro attempts.find_key_upd) auto

lemma attempt_row_items: "attempt_row (upd_items P f db) run = attempt_row db run"
  by (simp add: attempt_row_def row_simps)

lemma attempt_row_append: "attempt_row (appendEventTx w f t r g s at db) run = attempt_row db run"
  by (simp add: attempt_row_def row_simps)

lemma transition_effect:
  assumes "good db" "item_row db (tr_WorkID req) = Some it"
    "a \<in> set (work_attempts db)" "bound_row (tr_WorkID req) (tr_RunID req) (tr_Generation req) a"
    "CanTransition (wi_state it) (tr_To req)" "\<not> tr_StoppedRunFailed req"
  shows "\<exists>db' it' a'. transitionTx now rnd req db = Inr ((), db')
       \<and> item_row db' (tr_WorkID req) = Some it' \<and> wi_state it' = reported_state it (tr_To req)
       \<and> wi_eligible_at it' = (if reported_state it (tr_To req) = StateRetryWait
            then now + Backoff (wi_attempts it) rnd else wi_eligible_at it)
       \<and> attempt_row db' (tr_RunID req) = Some a'
       \<and> wa_ended_at a' = (if closes_attempt (reported_state it (tr_To req)) then Some now else None)"
proof -
  define to where "to = reported_state it (tr_To req)"
  define why where "why = (if tr_To req = StateRetryWait \<and> wi_attempts it \<ge> MaxAttempts
      then tr_Reason req @ '' (no attempts left after '' @ go_itoa (wi_attempts it) @ '')'' else tr_Reason req)"
  define db1 where "db1 = (if to = StateRetryWait
      then upd_items (\<lambda>r. wi_id r = wi_id it) (\<lambda>r. r\<lparr>wi_eligible_at := now + Backoff (wi_attempts it) rnd\<rparr>) db
      else db)"
  define db2 where "db2 = setStateTx it to (tr_RunID req) (wi_generation it) why now db1"
  let ?bound = "bound_row (tr_WorkID req) (tr_RunID req) (tr_Generation req)"
  let ?close = "\<lambda>a::Attempt. a\<lparr>wa_ended_at := Some now, wa_end_reason := why, wa_exit_evidence := tr_ExitEvidence req,
      wa_cost_usd := tr_CostUSD req, wa_run_status := runStatusForState to\<rparr>"
  have id: "wi_id it = tr_WorkID req" using item_row_Some [OF assms(2)] by simp
  have bind: "verifyAttemptBindingTx db (tr_WorkID req) (tr_RunID req) (tr_Generation req) (wi_generation it) = Inr ()"
    using binding_iff [OF good_wf [OF assms(1)]] bound_facts(2) [OF assms(1-4)] assms(3,4) by blast
  have nt: "\<not> Terminal (wi_state it)" using bound_facts(1) [OF assms(1-4)] active_facts(1) by blast
  have att: "work_attempts db2 = work_attempts db" by (simp add: db2_def db1_def row_simps)
  have one: "count_where ?bound (work_attempts db2) = 1"
    using bound_unique [OF good_wf [OF assms(1)] assms(3,4), of ?bound] assms(4) att by simp
  have eq: "transitionTx now rnd req db = Inr ((), if closes_attempt to then upd_attempts ?bound ?close db2 else db2)"
    using assms(5,6) nt one
    unfolding transitionTx_def getItemTx_def assms(2) option.case sum.case bind Let_def
      to_def [unfolded reported_state_def, symmetric]
      why_def [symmetric] db1_def [symmetric] db2_def [symmetric]
    by simp
  obtain r1 where r1: "item_row db1 (tr_WorkID req) = Some r1"
      "wi_eligible_at r1 = (if to = StateRetryWait then now + Backoff (wi_attempts it) rnd else wi_eligible_at it)"
    using assms(2) id by (cases "to = StateRetryWait") (auto simp: db1_def item_row_upd)
  have row: "attempt_row db2 (tr_RunID req) = Some a"
    using assms(3,4) wf_attempt_row [OF good_wf [OF assms(1)]] att
    by (auto simp: attempt_row_def bound_row_def)
  obtain r2 where r2: "item_row db2 (tr_WorkID req) = Some r2" "wi_state r2 = to" "wi_eligible_at r2 = wi_eligible_at r1"
    using item_row_setState_at [OF r1(1) id, of to "tr_RunID req" "wi_generation it" why now]
    by (simp add: db2_def)
  show ?thesis
    using eq r1(2) r2 row assms(4)
    by (auto simp: to_def [symmetric] row_simps attempt_row_upd bound_row_def)
qed

text \<open>
  C10. The live worker is heard: on a reachable ledger a \<open>Transition\<close> presented by the open attempt
  of an item, along an edge of the transition table, succeeds.  The item reaches the reported
  state, except that a retry with no attempts left becomes a failure; the attempt is closed
  exactly when the state releases it; and a retry is eligible again after at least now and at
  most the exponential window of the attempt, capped at \<open>BackoffCap\<close>.
\<close>

theorem live_report_takes_effect:
  assumes "db = run_commands cs empty_db" "item_row db (tr_WorkID req) = Some it"
    and "a \<in> set (work_attempts db)" "bound_row (tr_WorkID req) (tr_RunID req) (tr_Generation req) a"
    and "CanTransition (wi_state it) (tr_To req)" "\<not> tr_StoppedRunFailed req" "tr_RunID req \<noteq> ''''"
    and "\<And>n. 0 < n \<Longrightarrow> 0 \<le> rnd n \<and> rnd n < n"
  shows "\<exists>db' it' a'. Transition now rnd req db = (Inr (), db')
       \<and> item_row db' (tr_WorkID req) = Some it' \<and> wi_state it' = reported_state it (tr_To req)
       \<and> attempt_row db' (tr_RunID req) = Some a'
       \<and> wa_ended_at a' = (if closes_attempt (wi_state it') then Some now else None)
       \<and> (wi_state it' = StateRetryWait \<longrightarrow>
            now \<le> wi_eligible_at it' \<and> wi_eligible_at it' < now + min BackoffCap (BackoffBase * 2 ^ nat (wi_attempts it - 1)))"
proof -
  have ok: "good db" using reachable_good assms(1) by simp
  have gen: "tr_Generation req \<noteq> 0"
    using good_generation_pos [OF ok assms(2)] bound_facts(1,2) [OF ok assms(2,3,4)] by simp
  have valid: "valid_state (tr_To req)" using CanTransition_valid [OF assms(5)] by simp
  obtain db' it' a' where eff: "transitionTx now rnd req db = Inr ((), db')"
      "item_row db' (tr_WorkID req) = Some it'" "wi_state it' = reported_state it (tr_To req)"
      "wi_eligible_at it' = (if reported_state it (tr_To req) = StateRetryWait
         then now + Backoff (wi_attempts it) rnd else wi_eligible_at it)"
      "attempt_row db' (tr_RunID req) = Some a'"
      "wa_ended_at a' = (if closes_attempt (reported_state it (tr_To req)) then Some now else None)"
    using transition_effect [OF ok assms(2-6), of now rnd] by blast
  have "Transition now rnd req db = (Inr (), db')"
    using eff(1) gen valid assms(7) by (simp add: Transition_def)
  moreover have "wi_state it' = StateRetryWait \<longrightarrow> now \<le> wi_eligible_at it'
      \<and> wi_eligible_at it' < now + min BackoffCap (BackoffBase * 2 ^ nat (wi_attempts it - 1))"
    using eff(3,4) Backoff_window [of rnd "wi_attempts it", OF assms(8)] by simp
  ultimately show ?thesis using eff by (intro exI [of _ db'] exI [of _ it'] exI [of _ a']) simp
qed

theorem live_report_takes_effect_witness:
  "\<exists>db' it'. Transition 9 (\<lambda>n. n - 1) (demo_report StateRetryWait ''r1'' 1) (run_commands demo_claimed empty_db)
        = (Inr (), db') \<and> item_row db' ''w1'' = Some it' \<and> wi_state it' = StateRetryWait
      \<and> wi_eligible_at it' < 9 + 2 * second"
proof -
  let ?db = "run_commands demo_claimed empty_db" and ?req = "demo_report StateRetryWait ''r1'' 1"
  have "case item_row ?db ''w1'' of None \<Rightarrow> False
          | Some it \<Rightarrow> CanTransition (wi_state it) StateRetryWait \<and> wi_attempts it = 1" by code_simp
  then obtain it where it: "item_row ?db ''w1'' = Some it" "CanTransition (wi_state it) StateRetryWait" "wi_attempts it = 1"
    by (auto split: option.splits)
  have "list_ex (bound_row ''w1'' ''r1'' 1) (work_attempts ?db)" by code_simp
  then obtain a where a: "a \<in> set (work_attempts ?db)" "bound_row ''w1'' ''r1'' 1 a" by (auto simp: list_ex_iff)
  have req: "tr_WorkID ?req = ''w1''" "tr_RunID ?req = ''r1''" "tr_Generation ?req = 1" "tr_To ?req = StateRetryWait"
    "\<not> tr_StoppedRunFailed ?req" by (simp_all add: demo_report_def)
  have "min BackoffCap (BackoffBase * 2 ^ nat (wi_attempts it - 1)) = 2 * second"
    by (simp add: it(3) BackoffCap_def BackoffBase_def second_def)
  then show ?thesis
    using live_report_takes_effect [of ?db demo_claimed ?req it a "\<lambda>n. n - 1" 9] it a req
    by (fastforce simp: reported_state_def MaxAttempts_def)
qed

subsection \<open>Cancellation\<close>

abbreviation open_row :: "Item \<Rightarrow> Attempt \<Rightarrow> bool" where
  "open_row it a \<equiv> wa_work_id a = wi_id it \<and> wa_generation a = wi_generation it \<and> wa_ended_at a = None"

lemma find_open_active:
  assumes "good db" "item_row db w = Some it" "attempt_active (wi_state it)"
  obtains a where "find (open_row it) (work_attempts db) = Some a" "a \<in> set (work_attempts db)"
    "bound_row w (wa_run_id a) (wi_generation it) a" "open_row it a"
proof -
  have id: "wi_id it = w" using item_row_Some [OF assms(2)] by simp
  obtain b where b: "b \<in> set (item_attempts db w)" "wa_ended_at b = None" using active_attempt [OF assms] by blast
  then have "open_row it b" using conjunct1 [OF conjunct2 [OF open_attempt [OF assms(1,2) b]]] id by (simp add: item_attempts_in)
  then have "find (open_row it) (work_attempts db) \<noteq> None" using b(1) by (auto simp: find_None_iff item_attempts_in)
  then obtain a where a: "find (open_row it) (work_attempts db) = Some a" by blast
  then have "a \<in> set (work_attempts db)" "open_row it a" by (auto simp: find_Some_iff)
  then show thesis using that a id by (simp add: bound_row_def)
qed

lemma find_open_idle:
  assumes "good db" "item_row db w = Some it" "\<not> attempt_active (wi_state it)"
  shows "find (open_row it) (work_attempts db) = None"
proof -
  have id: "wi_id it = w" using item_row_Some [OF assms(2)] by simp
  have "\<not> open_row it a" if "a \<in> set (work_attempts db)" for a
  proof
    assume "open_row it a"
    then show False using open_attempt [OF assms(1,2), of a] that assms(3) id by (simp add: item_attempts_in)
  qed
  then show ?thesis by (auto simp: find_None_iff)
qed

lemma cancel_terminal:
  assumes "item_row db w = Some it" "Terminal (wi_state it)"
  shows "RequestCancel now w who why db = (Inr \<lparr>cn_Outcome = CancelOutcomeAlreadyTerminal,
           cn_State = wi_state it, cn_RunID = '''', cn_Generation = 0\<rparr>, db)"
  using assms by (simp add: RequestCancel_def RequestCancelTx_def getItemTx_def)

lemma cancel_reconciling:
  assumes "good db" "item_row db w = Some it" "wi_state it = StateNeedsReconciliation"
  shows "RequestCancel now w who why db = (Inr \<lparr>cn_Outcome = CancelOutcomeRequested,
           cn_State = wi_state it, cn_RunID = '''', cn_Generation = 0\<rparr>, db)"
  using find_open_idle [OF assms(1,2)] assms(2,3)
  by (simp add: RequestCancel_def RequestCancelTx_def getItemTx_def claimable_state_def cancelLiveTx_def)

lemma cancel_idle:
  assumes "good db" "item_row db w = Some it" "claimable_state (wi_state it)"
  obtains db' it' where "RequestCancel now w who why db = (Inr \<lparr>cn_Outcome = CancelOutcomeCancelled,
           cn_State = StateCancelled, cn_RunID = '''', cn_Generation = 0\<rparr>, db')"
    "item_row db' w = Some it'" "wi_state it' = StateCancelled"
proof -
  let ?same = "\<lambda>r. wi_id r = wi_id it \<and> wi_state r = wi_state it \<and> wi_generation r = wi_generation it"
  let ?f = "\<lambda>r::Item. r\<lparr>wi_state := StateCancelled, wi_state_reason := why, wi_updated_at := now, wi_terminal_at := Some now\<rparr>"
  have nt: "\<not> Terminal (wi_state it)" using assms(3) by (auto simp: claimable_state_def)
  have "distinct (map wi_id (work_items db))" using good_wf [OF assms(1)] by (simp add: ledger_wf_def)
  then have one: "count_where ?same (work_items db) = 1"
    by (rule items.count_key_eq1 [of _ _ w it]) (use item_row_Some [OF assms(2)] in auto)
  let ?db = "appendEventTx (wi_id it) (Some (wi_state it)) StateCancelled '''' (wi_generation it) why now
               (upd_items ?same ?f db)"
  have "RequestCancel now w who why db = (Inr \<lparr>cn_Outcome = CancelOutcomeCancelled,
           cn_State = StateCancelled, cn_RunID = '''', cn_Generation = 0\<rparr>, ?db)"
    using assms(2,3) nt one by (simp add: RequestCancel_def RequestCancelTx_def getItemTx_def Let_def)
  moreover have "item_row ?db w = Some (?f it)" using assms(2) by (simp add: row_simps item_row_upd)
  ultimately show thesis using that by auto
qed

lemma cancel_active:
  assumes "good db" "item_row db w = Some it" "attempt_active (wi_state it)"
  shows "\<exists>a db' a'. a \<in> set (work_attempts db) \<and> open_row it a
    \<and> RequestCancel now w who why db = (Inr \<lparr>cn_Outcome = CancelOutcomeRequested, cn_State = wi_state it,
       cn_RunID = wa_run_id a, cn_Generation = wi_generation it\<rparr>, db')
    \<and> item_row db' w = Some it
    \<and> attempt_row db' (wa_run_id a) = Some a' \<and> bound_row w (wa_run_id a) (wi_generation it) a'
    \<and> wa_cancel_requested_at a' \<noteq> None \<and> (wa_cancel_requested_at a \<noteq> None \<longrightarrow> db' = db)"
proof -
  obtain a where a: "find (open_row it) (work_attempts db) = Some a" "a \<in> set (work_attempts db)"
      "bound_row w (wa_run_id a) (wi_generation it) a" "open_row it a"
    by (rule find_open_active [OF assms])
  have id: "wi_id it = w" using item_row_Some [OF assms(2)] by simp
  have live: "\<not> Terminal (wi_state it)" "\<not> claimable_state (wi_state it)"
    using assms(3) by (auto simp: attempt_active_def claimable_state_def)
  have row: "attempt_row db (wa_run_id a) = Some a" using wf_attempt_row [OF good_wf [OF assms(1)]] a(2) by simp
  have one: "count_where (bound_row w (wa_run_id a) (wi_generation it)) (work_attempts db) = 1"
    using bound_unique [OF good_wf [OF assms(1)] a(2,3)] a(3) by simp
  have tx: "RequestCancel now w who why db = in_tx db (cancelLiveTx now it who why db)"
    using assms(2) live by (simp add: RequestCancel_def RequestCancelTx_def getItemTx_def)
  show ?thesis
  proof (cases "wa_cancel_requested_at a")
    case None
    define g :: "Attempt \<Rightarrow> Attempt" where "g = (\<lambda>r. if wa_cancel_requested_at r = None
        then r\<lparr>wa_cancel_requested_at := Some now, wa_cancel_requested_by := who, wa_cancel_reason := why\<rparr> else r)"
    let ?db = "appendEventTx w (Some (wi_state it)) (wi_state it) (wa_run_id a) (wi_generation it)
        (''cancel requested: '' @ why) now (upd_attempts (bound_row w (wa_run_id a) (wi_generation it)) g db)"
    have "RequestCancel now w who why db = (Inr \<lparr>cn_Outcome = CancelOutcomeRequested, cn_State = wi_state it,
       cn_RunID = wa_run_id a, cn_Generation = wi_generation it\<rparr>, ?db)"
      unfolding tx cancelLiveTx_def a(1) using one a(4) None id by (simp add: Let_def g_def)
    moreover have "attempt_row ?db (wa_run_id a) = Some (g a)" "bound_row w (wa_run_id a) (wi_generation it) (g a)"
      using row a(3) by (simp_all add: attempt_row_append attempt_row_upd g_def bound_row_def)
    ultimately show ?thesis using a None assms(2)
      by (intro exI [of _ a] exI [of _ ?db] exI [of _ "g a"]) (auto simp: row_simps g_def)
  next
    case (Some t)
    then have "RequestCancel now w who why db = (Inr \<lparr>cn_Outcome = CancelOutcomeRequested, cn_State = wi_state it,
       cn_RunID = wa_run_id a, cn_Generation = wi_generation it\<rparr>, db)"
      unfolding tx cancelLiveTx_def a(1) using a(4) by (simp add: Let_def)
    then show ?thesis using a Some assms(2) row
      by (intro exI [of _ a] exI [of _ db] exI [of _ a]) auto
  qed
qed

text \<open>The state classes a cancel request distinguishes cover every state a good ledger holds.\<close>

lemma cancel_state_cases:
  assumes "good db" "item_row db w = Some it"
  obtains "Terminal (wi_state it)" | "claimable_state (wi_state it)" | "attempt_active (wi_state it)"
    | "wi_state it = StateNeedsReconciliation"
  using entry_okD(3) [OF good_entry [OF assms]]
  by (cases "wi_state it") (auto simp: claimable_state_def)

text \<open>
  C11. A cancel answers honestly: on a reachable ledger \<open>RequestCancel\<close> for an existing item always
  succeeds.  Finished work is reported finished, in its real state; work that has not started is
  cancelled; active work keeps its state and the request is recorded on its open attempt, whose
  run and generation are the answer; work in reconciliation is left as it is.
\<close>

theorem cancel_is_honest:
  assumes "db = run_commands cs empty_db" "item_row db w = Some it"
  shows "\<exists>res db' it'. RequestCancel now w who why db = (Inr res, db') \<and> item_row db' w = Some it'
       \<and> cn_State res = wi_state it'
       \<and> (Terminal (wi_state it) \<longrightarrow> cn_Outcome res = CancelOutcomeAlreadyTerminal \<and> db' = db)
       \<and> (claimable_state (wi_state it) \<longrightarrow>
            cn_Outcome res = CancelOutcomeCancelled \<and> wi_state it' = StateCancelled)
       \<and> (OccupiesSession (wi_state it) \<longrightarrow>
            cn_Outcome res = CancelOutcomeRequested \<and> wi_state it' = wi_state it)
       \<and> (attempt_active (wi_state it) \<longrightarrow>
            (\<exists>a. attempt_row db' (cn_RunID res) = Some a \<and> wa_ended_at a = None
               \<and> wa_cancel_requested_at a \<noteq> None) \<and> cn_Generation res = wi_generation it)"
proof -
  have ok: "good db" using reachable_good assms(1) by simp
  from ok assms(2) show ?thesis
  proof (cases rule: cancel_state_cases)
    case 1
    then show ?thesis using cancel_terminal [OF assms(2) 1] assms(2)
      by (auto simp: claimable_state_def active_facts dest: Occupies_not_Terminal active_occupies)
  next
    case 2
    then have "\<not> Terminal (wi_state it)" "\<not> OccupiesSession (wi_state it)" "\<not> attempt_active (wi_state it)"
      by (auto simp: claimable_state_def occupies_iff)
    then show ?thesis using cancel_idle [OF ok assms(2) 2, of now who why] by fastforce
  next
    case 3
    then have "\<not> Terminal (wi_state it)" "\<not> claimable_state (wi_state it)"
      by (auto simp: attempt_active_def claimable_state_def)
    moreover obtain a :: Attempt and db' a' where "RequestCancel now w who why db = (Inr \<lparr>cn_Outcome = CancelOutcomeRequested,
         cn_State = wi_state it, cn_RunID = wa_run_id a, cn_Generation = wi_generation it\<rparr>, db')"
        "item_row db' w = Some it" "attempt_row db' (wa_run_id a) = Some a'"
        "bound_row w (wa_run_id a) (wi_generation it) a'" "wa_cancel_requested_at a' \<noteq> None"
      using cancel_active [OF ok assms(2) 3, of now who why] by blast
    ultimately show ?thesis by (simp add: bound_row_def)
  next
    case 4
    then show ?thesis using cancel_reconciling [OF ok assms(2) 4] assms(2) by (simp add: claimable_state_def)
  qed
qed

theorem cancel_is_honest_witness:
  "\<exists>res db'. RequestCancel 9 ''w1'' ''u'' ''stop'' (run_commands demo_claimed empty_db) = (Inr res, db')
     \<and> cn_Outcome res = CancelOutcomeRequested \<and> cn_State res = StateStarting"
proof -
  have "case item_row (run_commands demo_claimed empty_db) ''w1'' of
          Some it \<Rightarrow> wi_state it = StateStarting | None \<Rightarrow> False" by code_simp
  then obtain it where it: "item_row (run_commands demo_claimed empty_db) ''w1'' = Some it" "wi_state it = StateStarting"
    by (auto split: option.splits)
  then show ?thesis
    using cancel_is_honest [OF refl it(1), of 9 "''u''" "''stop''"] by (auto simp: occupies_iff)
qed

text \<open>
  Cancel is idempotent: a second request for the same item, by anyone and at any time, with
  nothing in between, leaves the ledger exactly as the first left it and answers with the same
  state.
\<close>

theorem cancel_idempotent:
  assumes "db = run_commands cs empty_db" "RequestCancel now w who why db = (Inr res, db')"
  shows "\<exists>res'. RequestCancel now' w who' why' db' = (Inr res', db') \<and> cn_State res' = cn_State res"
proof -
  have ok: "good db" using reachable_good assms(1) by simp
  obtain it where it: "item_row db w = Some it"
    using assms(2) by (cases "item_row db w") (auto simp: RequestCancel_def RequestCancelTx_def getItemTx_def)
  have ok': "good db'"
    using exec_refines [OF ok, of "DoRequestCancel now w who why"] refines_good [OF ok] assms(2) by simp
  from ok it show ?thesis
  proof (cases rule: cancel_state_cases)
    case 1
    then show ?thesis using cancel_terminal [OF it 1] assms(2) by simp
  next
    case 2
    obtain db1 it' where "RequestCancel now w who why db = (Inr \<lparr>cn_Outcome = CancelOutcomeCancelled,
           cn_State = StateCancelled, cn_RunID = '''', cn_Generation = 0\<rparr>, db1)"
        "item_row db1 w = Some it'" "wi_state it' = StateCancelled"
      by (rule cancel_idle [OF ok it 2])
    then show ?thesis using cancel_terminal [of db1 w it'] assms(2) by auto
  next
    case 3
    obtain a :: Attempt and db1 a' where a: "RequestCancel now w who why db = (Inr \<lparr>cn_Outcome = CancelOutcomeRequested,
         cn_State = wi_state it, cn_RunID = wa_run_id a, cn_Generation = wi_generation it\<rparr>, db1)"
        "item_row db1 w = Some it" and row: "attempt_row db1 (wa_run_id a) = Some a'"
        "bound_row w (wa_run_id a) (wi_generation it) a'" "wa_cancel_requested_at a' \<noteq> None"
      using cancel_active [OF ok it 3, of now who why] by blast
    have db1: "db1 = db'" using a(1) assms(2) by simp
    have a': "a' \<in> set (work_attempts db')" using attempt_row_Some [OF row(1)] db1 by simp
    obtain b db2 where b: "b \<in> set (work_attempts db')" "open_row it b"
        "RequestCancel now' w who' why' db' = (Inr \<lparr>cn_Outcome = CancelOutcomeRequested,
           cn_State = wi_state it, cn_RunID = wa_run_id b, cn_Generation = wi_generation it\<rparr>, db2)"
        "wa_cancel_requested_at b \<noteq> None \<longrightarrow> db2 = db'"
      using cancel_active [OF ok' a(2) [unfolded db1] 3, of now' who' why'] by blast
    have "b \<in> set (item_attempts db' w)" "wa_ended_at b = None"
      using b(1,2) item_row_Some [OF it] by (simp_all add: item_attempts_in)
    then have "b = a'" by (rule bound_facts(3) [OF ok' a(2) [unfolded db1] a' row(2)])
    then show ?thesis using b(3,4) row(3) a(1) assms(2) by simp
  next
    case 4
    then show ?thesis using cancel_reconciling [OF ok it 4] assms(2) by simp
  qed
qed

theorem cancel_idempotent_witness:
  "\<exists>res db' res'. RequestCancel 9 ''w1'' ''u'' ''stop'' (run_commands demo_claimed empty_db) = (Inr res, db')
     \<and> RequestCancel 10 ''w1'' ''v'' ''again'' db' = (Inr res', db')"
proof -
  have "case RequestCancel 9 ''w1'' ''u'' ''stop'' (run_commands demo_claimed empty_db) of
          (Inr res, db') \<Rightarrow> True | _ \<Rightarrow> False" by code_simp
  then obtain res db' where c: "RequestCancel 9 ''w1'' ''u'' ''stop'' (run_commands demo_claimed empty_db) = (Inr res, db')"
    by (auto split: prod.splits sum.splits)
  then show ?thesis using cancel_idempotent [OF refl c, of 10 "''v''" "''again''"] by blast
qed

subsection \<open>Deferral\<close>

text \<open>
  A deferral gives the attempt back and keeps the fence: when \<open>Defer\<close> succeeds on a reachable
  ledger the presented attempt was open and still planned, and it is closed now; unless a cancel
  had been requested, the item is queued, eligible at the given instant, with one attempt less
  spent and the same generation; a requested cancel is honoured instead, and the item is
  cancelled.
\<close>

theorem deferral_gives_attempt_back:
  assumes "db = run_commands cs empty_db" "Defer now w run gen until why db = (Inr u, db')"
  shows "\<exists>it a it' a'. item_row db w = Some it \<and> attempt_row db run = Some a
       \<and> bound_row w run gen a \<and> wa_runtime_phase a = runtimePhasePlanned
       \<and> item_row db' w = Some it' \<and> attempt_row db' run = Some a' \<and> wa_ended_at a' = Some now
       \<and> wi_generation it' = wi_generation it
       \<and> (if wa_cancel_requested_at a = None
          then wi_state it' = StateQueued \<and> wi_eligible_at it' = until
               \<and> wi_attempts it' = max (wi_attempts it - 1) 0
          else wi_state it' = StateCancelled)"
proof -
  have ok: "good db" using reachable_good assms(1) by simp
  have "deferTx now w run gen until why db = Inr (u, db')"
    using assms(2) by (auto simp: Defer_def in_tx_eq_Inr split: if_splits)
  then show ?thesis
  proof (rule deferTx_cases [OF ok])
    fix it a
    assume *: "item_row db w = Some it" "gen = wi_generation it" "a \<in> set (work_attempts db)"
      "bound_row w run gen a" "wa_runtime_phase a = runtimePhasePlanned"
      and db': "db' = (if wa_cancel_requested_at a \<noteq> None
       then setStateTx it StateCancelled run gen (''cancelled while held: '' @ wa_cancel_reason a) now
              (upd_attempts (bound_row w run gen) (\<lambda>b. b\<lparr>wa_ended_at := Some now,
                 wa_end_reason := ''cancelled while held: '' @ wa_cancel_reason a\<rparr>) db)
       else appendEventTx w (Some (wi_state it)) StateQueued run gen why now
              (upd_items (\<lambda>r. wi_id r = w \<and> wi_generation r = gen)
                 (\<lambda>r. r\<lparr>wi_state := StateQueued, wi_state_reason := why,
                        wi_attempts := max (wi_attempts r - 1) 0, wi_eligible_at := until,
                        wi_updated_at := now\<rparr>)
                 (upd_attempts (\<lambda>a. bound_row w run gen a \<and> wa_runtime_phase a = runtimePhasePlanned)
                    (\<lambda>a. a\<lparr>wa_ended_at := Some now, wa_end_reason := ''deferred: '' @ why\<rparr>) db)))"
    have id: "wi_id it = w" using item_row_Some [OF *(1)] by simp
    have row: "attempt_row db run = Some a"
      using wf_attempt_row [OF good_wf [OF ok]] *(3,4) by (simp add: bound_row_def)
    show ?thesis
      using * row id unfolding db'
      by (cases "wa_cancel_requested_at a = None")
        (auto simp: row_simps item_row_upd item_row_setState attempt_row_append attempt_row_items
          attempt_row_upd setStateTx_attempt_row)
  qed
qed

theorem deferral_gives_attempt_back_witness:
  "\<exists>db' it'. Defer 9 ''w1'' ''r1'' 1 50 ''held'' (run_commands demo_claimed empty_db) = (Inr (), db')
     \<and> item_row db' ''w1'' = Some it' \<and> wi_generation it' = 1"
proof -
  have "case Defer 9 ''w1'' ''r1'' 1 50 ''held'' (run_commands demo_claimed empty_db) of
          (Inr u, db') \<Rightarrow> True | _ \<Rightarrow> False" by code_simp
  then obtain u db' where d: "Defer 9 ''w1'' ''r1'' 1 50 ''held'' (run_commands demo_claimed empty_db) = (Inr u, db')"
    by (auto split: prod.splits sum.splits)
  have "case item_row (run_commands demo_claimed empty_db) ''w1'' of
          Some it \<Rightarrow> wi_generation it = 1 | None \<Rightarrow> False" by code_simp
  then show ?thesis using deferral_gives_attempt_back [OF refl d] d by (auto split: option.splits)
qed

end
