(* ===== verification/Work_Deliveries.thy ===== *)
theory Work_Deliveries
  imports Work_Properties
begin

text \<open>
  The delivery ledger over time.  First what no operation ever touches: the columns an item is
  accepted with, and, for every operation but an acceptance and a sweep, the delivery rows.  Then
  the invariant of the delivery table on every schedule, and on top of it the promises of
  \<^verbatim>\<open>delivery.go\<close> and \<^verbatim>\<open>capacity.go\<close>: a delivery and its work exist together, a re-delivery gets
  its original receipt back however full the ledger is, and an acceptance respects the limits.
\<close>

subsection \<open>What an operation leaves alone\<close>

definition item_static :: "Item \<Rightarrow> Item" where
  "item_static w = w\<lparr>wi_state := StateQueued, wi_state_reason := '''', wi_generation := 0, wi_attempts := 0,
     wi_eligible_at := 0, wi_updated_at := 0, wi_terminal_at := None\<rparr>"

definition keeps :: "work_db \<Rightarrow> work_db \<Rightarrow> bool" where
  "keeps db db' \<longleftrightarrow> webhook_deliveries db' = webhook_deliveries db
     \<and> map item_static (work_items db') = map item_static (work_items db)"

lemma keeps_refl [simp]: "keeps db db"
  by (simp add: keeps_def)

lemma keeps_trans: "keeps a b \<Longrightarrow> keeps b c \<Longrightarrow> keeps a c"
  by (simp add: keeps_def)

lemma keeps_writes [simp]:
  "keeps db (upd_attempts P f db') = keeps db db'"
  "keeps db (appendEventTx w from to r gen s at db') = keeps db db'"
  "keeps db (setStateTx it st r gen s at db') = keeps db db'"
  "keeps db (db'\<lparr>work_attempts := as\<rparr>) = keeps db db'"
  by (simp_all add: keeps_def row_simps setStateTx_def map_upd_where_keep item_static_def)

lemma keeps_upd_items [simp]:
  "(\<And>r. item_static (f r) = item_static r) \<Longrightarrow> keeps db (upd_items P f db') = keeps db db'"
  by (simp add: keeps_def row_simps map_upd_where_keep)

lemma keeps_in_tx: "(\<And>x db'. r = Inr (x, db') \<Longrightarrow> keeps db db') \<Longrightarrow> keeps db (snd (in_tx db r))"
  by (cases rule: in_tx_cases [of r db]) auto

lemma keeps_recover: "recover_loop now es out db = Inr (r, db') \<Longrightarrow> keeps db db'"
proof (induction es arbitrary: out db)
  case (Cons e es)
  then obtain it out' where "recover_loop now es out' (recover_one now e it db) = Inr (r, db')"
    by (auto split: sum.splits)
  then have "keeps (recover_one now e it db) db'" by (rule Cons.IH)
  then show ?case by (rule keeps_trans [rotated]) (simp add: recover_one_def Let_def)
qed simp

lemma keeps_expire_all: "keeps db (expire_all now its db)"
proof (induction its arbitrary: db)
  case (Cons it its)
  show ?case by (simp, rule keeps_trans [OF _ Cons]) simp
qed simp

lemma keeps_start: "startAttemptTx it owner now newid db = Inr (c, db') \<Longrightarrow> keeps db db'"
  by (auto simp: startAttemptTx_def startAttemptWithRunIDTx_def Let_def insert_attempt_def item_static_def
      split: if_splits)

lemma keeps_claim_loop: "claim_loop lim live owner now newid its db = Inr (c, db') \<Longrightarrow> keeps db db'"
  by (induction lim live owner now newid its db rule: claim_loop.induct)
    (auto split: if_splits sum.splits option.splits dest: keeps_start intro: keeps_trans)

lemma keeps_claimTx: "claimTx now newid opts db = Inr (c, db') \<Longrightarrow> keeps db db'"
  using keeps_trans [OF keeps_expire_all keeps_claim_loop]
  by (auto simp: claimTx_def Let_def expireOverdueTx_def keeps_expire_all split: option.splits)

lemma keeps_Claim: "keeps db (snd (Claim hint now newid opts db))"
proof -
  have "keeps db (snd (in_tx db (claimTx now newid o1 db)))" for o1
    by (rule keeps_in_tx) (rule keeps_claimTx)
  then show ?thesis
    by (auto simp: Claim_def Let_def split: prod.splits sum.splits option.splits) (metis snd_conv)+
qed

lemma keeps_cancel: "RequestCancelTx now w who why db = Inr (r, db') \<Longrightarrow> keeps db db'"
  by (auto simp: RequestCancelTx_def cancelLiveTx_def Let_def item_static_def
      split: sum.splits if_splits option.splits)

lemma keeps_worker:
  "keeps db (snd (in_tx db (transitionTx now rnd req db)))"
  "keeps db (snd (in_tx db (markStartingTx w run gen loc db)))"
  "keeps db (snd (in_tx db (MarkRuntimeRequestedTx w run gen db)))"
  "keeps db (snd (in_tx db (startRunningTx now w run gen loc db)))"
  "keeps db (snd (in_tx db (resolveTx now w gen to who why db)))"
  "keeps db (snd (in_tx db (deferTx now w run gen until why db)))"
  by (rule keeps_in_tx, auto simp: transitionTx_def markStartingTx_def MarkRuntimeRequestedTx_def
      startRunningTx_def resolveTx_def deferTx_def Let_def item_static_def
      split: sum.splits if_splits option.splits)+

lemma keeps_host:
  "keeps db (snd (in_tx db (finishHostChatTx now w run gen r result db)))"
  "keeps db (snd (in_tx db (recoverRetainedTx now run result ok db)))"
  by (rule keeps_in_tx, auto simp: finishHostChatTx_def recoverRetainedTx_def Let_def
      split: sum.splits if_splits option.splits prod.splits)+

lemma keeps_operations:
  "keeps db (snd (MarkRuntimeRequested w run gen db))" "keeps db (snd (StartRunning now w run gen loc db))"
  "keeps db (snd (Heartbeat now run gen db))" "keeps db (snd (FinishHostChat sz now run hr db))"
  "keeps db (snd (RecoverRetainedResult sz now run r ok db))" "keeps db (snd (StageRunResult sz w run gen r db))"
  "keeps db (MarkRunProjectionAttempt now run db)" "keeps db (MarkRunProjected now run st db)"
  using keeps_worker keeps_host
  by (auto simp: MarkRuntimeRequested_def StartRunning_def Heartbeat_def FinishHostChat_def
      RecoverRetainedResult_def StageRunResult_def MarkRunProjectionAttempt_def MarkRunProjected_def Let_def
      split: sum.splits option.splits)

lemma keeps_HostChatPhase: "keeps db (snd (HostChatPhase now run ph db))"
  by (auto simp: HostChatPhase_def keeps_operations split: sum.splits option.splits)

text \<open>The commands that write deliveries or new items.\<close>

fun writes_deliveries :: "command \<Rightarrow> bool" where
  "writes_deliveries (DoAccept _ _ _) = True"
| "writes_deliveries (DoDeliver _ _ _ _ _ _) = True"
| "writes_deliveries (DoAcceptAssignment _ _ _ _) = True"
| "writes_deliveries (DoBeginHostChat _ _ _ _) = True"
| "writes_deliveries (DoExpireBatch _ _ _) = True"
| "writes_deliveries (DoDedupBatch _ _ _) = True"
| "writes_deliveries _ = False"

lemma exec_keeps: "\<not> writes_deliveries c \<Longrightarrow> keeps db (exec_command c db)"
  by (cases c) (simp_all add: Transition_def MarkStarting_def MarkRuntimeRequested_def StartRunning_def
      RequestCancel_def Resolve_def Defer_def RecoverExpiredLeases_def keeps_worker keeps_Claim keeps_operations
      keeps_HostChatPhase
      keeps_in_tx [OF keeps_cancel] keeps_in_tx [OF keeps_recover], simp add: keeps_def)

subsection \<open>The invariant of the delivery table\<close>

text \<open>\<open>delivery_core\<close> is a delivery without its payload, the part no sweep rewrites.\<close>

definition delivery_core :: "Delivery \<Rightarrow> Delivery" where
  "delivery_core d = d\<lparr>wd_raw_body := None, wd_raw_body_expires_at := None\<rparr>"

lemma core_fields:
  assumes "delivery_core d = delivery_core e"
  shows "wd_id d = wd_id e" "wd_workspace_id d = wd_workspace_id e" "wd_endpoint_id d = wd_endpoint_id e"
    "wd_source_delivery_id d = wd_source_delivery_id e" "wd_content_key d = wd_content_key e"
    "wd_body_sha256 d = wd_body_sha256 e" "wd_body_bytes d = wd_body_bytes e" "wd_work_id d = wd_work_id e"
    "wd_filter_decision d = wd_filter_decision e" "wd_received_at d = wd_received_at e"
    "wd_dedup_expires_at d = wd_dedup_expires_at e"
  using assms by (cases d; cases e; simp add: delivery_core_def)+

text \<open>A delivery and the work it names: an accepted delivery has its item, an ignored one has none.\<close>

definition explained :: "work_db \<Rightarrow> Delivery \<Rightarrow> bool" where
  "explained db d =
     (case wd_work_id d of
        None \<Rightarrow> wd_filter_decision d = FilterIgnored
      | Some w \<Rightarrow> wd_filter_decision d = FilterAccepted
                  \<and> (case item_row db w of None \<Rightarrow> False | Some it \<Rightarrow> wi_source_ref it = wd_id d))"

definition deliveries_ok :: "work_db \<Rightarrow> bool" where
  "deliveries_ok db \<longleftrightarrow>
     distinct (map wd_id (webhook_deliveries db))
   \<and> (\<forall>r \<in> set (webhook_deliveries db). \<forall>s \<in> set (webhook_deliveries db).
        delivery_conflict r s \<longrightarrow> wd_id r = wd_id s)
   \<and> (\<forall>d \<in> set (webhook_deliveries db). explained db d)"

text \<open>Items never disappear and keep the columns they were accepted with.\<close>

definition rows_kept :: "work_db \<Rightarrow> work_db \<Rightarrow> bool" where
  "rows_kept db db' \<longleftrightarrow> (\<forall>w it. item_row db w = Some it \<longrightarrow>
     (\<exists>it'. item_row db' w = Some it' \<and> item_static it' = item_static it))"

lemma rows_kept_refl [simp]: "rows_kept db db"
  by (simp add: rows_kept_def)

lemma rows_kept_trans: "rows_kept a b \<Longrightarrow> rows_kept b c \<Longrightarrow> rows_kept a c"
  unfolding rows_kept_def by metis

lemma find_static:
  assumes "map item_static xs = map item_static ys" "find (\<lambda>it. wi_id it = w) xs = Some it"
  shows "\<exists>it'. find (\<lambda>it. wi_id it = w) ys = Some it' \<and> item_static it' = item_static it"
  using assms
proof (induction xs arbitrary: ys)
  case (Cons x xs)
  then obtain y ys' where ys: "ys = y # ys'" "item_static x = item_static y" "map item_static xs = map item_static ys'"
    by auto
  have "wi_id x = wi_id y" using ys(2) by (cases x; cases y; simp add: item_static_def)
  then show ?case using Cons.IH [OF ys(3)] Cons.prems(2) ys by (auto split: if_splits)
qed simp

lemma keeps_rows: "keeps db db' \<Longrightarrow> rows_kept db db'"
  unfolding rows_kept_def item_row_def keeps_def using find_static by metis

lemma append_rows: "work_items db' = work_items db @ xs \<Longrightarrow> rows_kept db db'"
  by (auto simp: rows_kept_def item_row_def find_append)

lemma same_items_rows: "work_items db' = work_items db \<Longrightarrow> rows_kept db db'"
  by (rule append_rows [where xs = "[]"]) simp

lemma static_source_ref: "item_static it' = item_static it \<Longrightarrow> wi_source_ref it' = wi_source_ref it"
  by (cases it; cases it'; simp add: item_static_def)

lemma explained_kept:
  assumes "rows_kept db db'" "delivery_core d' = delivery_core d" "explained db d"
  shows "explained db' d'"
proof (cases "wd_work_id d")
  case None
  then show ?thesis using assms(3) core_fields [OF assms(2)] by (simp add: explained_def)
next
  case (Some w)
  then obtain it where it: "item_row db w = Some it" "wi_source_ref it = wd_id d"
    using assms(3) by (auto simp: explained_def split: option.splits)
  then obtain it' where "item_row db' w = Some it'" "item_static it' = item_static it"
    using assms(1) by (auto simp: rows_kept_def)
  then show ?thesis using Some it(2) assms(3) core_fields [OF assms(2)]
    by (auto simp: explained_def dest: static_source_ref)
qed

lemma conflict_core:
  assumes "delivery_core r' = delivery_core r" "delivery_core s' = delivery_core s"
  shows "delivery_conflict r' s' = delivery_conflict r s"
  using core_fields [OF assms(1)] core_fields [OF assms(2)] by (simp add: delivery_conflict_def)

lemma deliveries_ok_transfer:
  assumes "deliveries_ok db" "rows_kept db db'" "distinct (map wd_id (webhook_deliveries db'))"
    "delivery_core ` set (webhook_deliveries db') \<subseteq> delivery_core ` set (webhook_deliveries db)"
  shows "deliveries_ok db'"
proof -
  have old: "\<exists>d \<in> set (webhook_deliveries db). delivery_core d' = delivery_core d"
    if "d' \<in> set (webhook_deliveries db')" for d'
    using assms(4) that by auto
  have "wd_id r' = wd_id s'" if r': "r' \<in> set (webhook_deliveries db')" and s': "s' \<in> set (webhook_deliveries db')"
      and c: "delivery_conflict r' s'" for r' s'
  proof -
    obtain r s where rs: "r \<in> set (webhook_deliveries db)" "s \<in> set (webhook_deliveries db)"
        "delivery_core r' = delivery_core r" "delivery_core s' = delivery_core s"
      using old [OF r'] old [OF s'] by blast
    then have "wd_id r = wd_id s" using assms(1) c conflict_core [OF rs(3,4)] by (auto simp: deliveries_ok_def)
    then show ?thesis using core_fields(1) [OF rs(3)] core_fields(1) [OF rs(4)] by simp
  qed
  moreover have "explained db' d'" if "d' \<in> set (webhook_deliveries db')" for d'
    using old [OF that] assms(1) explained_kept [OF assms(2)] unfolding deliveries_ok_def by blast
  ultimately show ?thesis using assms(3) by (simp add: deliveries_ok_def)
qed

lemma expire_rows_core:
  "map delivery_core (webhook_deliveries (snd (expire_rows cutoff now cs acc db)))
     = map delivery_core (webhook_deliveries db)"
  by (induction cutoff now cs acc db rule: expire_rows.induct)
    (simp_all add: Let_def row_simps map_upd_where_keep delivery_core_def)

lemma distinct_ids_core:
  assumes "map delivery_core ds' = map delivery_core ds" "distinct (map wd_id ds)"
  shows "distinct (map wd_id ds')"
proof -
  have id: "wd_id d = wd_id (delivery_core d)" for d by (simp add: delivery_core_def)
  have "map wd_id ds' = map wd_id (map delivery_core ds')" by (simp add: id [symmetric])
  also have "\<dots> = map wd_id ds" unfolding assms(1) by (simp add: id [symmetric])
  finally show ?thesis using assms(2) by simp
qed

lemma expire_keeps_ok:
  assumes "deliveries_ok db"
  shows "deliveries_ok (snd (expire_rows cutoff now cs acc db))"
proof (rule deliveries_ok_transfer [OF assms])
  let ?db = "snd (expire_rows cutoff now cs acc db)"
  show "rows_kept db ?db" by (rule same_items_rows) (rule expire_rows_frame)
  show "distinct (map wd_id (webhook_deliveries ?db))"
    using distinct_ids_core [OF expire_rows_core] assms by (simp add: deliveries_ok_def)
  show "delivery_core ` set (webhook_deliveries ?db) \<subseteq> delivery_core ` set (webhook_deliveries db)"
    using arg_cong [OF expire_rows_core, of set] by simp
qed

lemma delete_keeps_ok:
  assumes "deliveries_ok db"
  shows "deliveries_ok (snd (deleteDedupBatch ids accepted now db))"
  by (rule deliveries_ok_transfer [OF assms same_items_rows])
    (use assms in \<open>auto simp: deleteDedupBatch_def Let_def deliveries_ok_def distinct_map_filter_key\<close>)

lemma AcceptTx_keeps_ok:
  assumes "deliveries_ok db" "AcceptTx now newid req db = Inr (r, db')"
  shows "deliveries_ok db'" "rows_kept db db'"
proof -
  show rows: "rows_kept db db'" by (rule append_rows) (rule AcceptTx_frame(2) [OF assms(2)])
  show "deliveries_ok db'"
    by (rule deliveries_ok_transfer [OF assms(1) rows])
      (use assms AcceptTx_frame(1) [OF assms(2)] in \<open>auto simp: deliveries_ok_def\<close>)
qed

text \<open>\<open>grows\<close>: the delivery rows stay, and items are only added.\<close>

definition grows :: "work_db \<Rightarrow> work_db \<Rightarrow> bool" where
  "grows db db' \<longleftrightarrow> webhook_deliveries db' = webhook_deliveries db \<and> rows_kept db db'"

lemma grows_refl [simp]: "grows db db"
  by (simp add: grows_def)

lemma grows_ok: "deliveries_ok db \<Longrightarrow> grows db db' \<Longrightarrow> deliveries_ok db'"
  by (rule deliveries_ok_transfer) (auto simp: grows_def deliveries_ok_def)

lemma AcceptTx_grows: "AcceptTx now newid req db = Inr (r, db') \<Longrightarrow> grows db db'"
  using AcceptTx_frame [of now newid req db r db'] append_rows by (auto simp: grows_def)

lemma AcceptAssignment_grows: "AcceptAssignmentTx sha now newid i db = Inr (r, db') \<Longrightarrow> grows db db'"
  by (auto simp: AcceptAssignmentTx_def Let_def AcceptTx_grows split: option.splits)

lemma keeps_start_run: "startAttemptWithRunIDTx it owner now newid run db = Inr (c, db') \<Longrightarrow> keeps db db'"
  by (auto simp: startAttemptWithRunIDTx_def Let_def insert_attempt_def item_static_def split: if_splits)

lemma newHostChat_grows:
  assumes "newHostChatTx sha now newid r db = Inr (c, db')"
  shows "grows db db'"
proof -
  obtain rc db1 it c2 db2 where *: "AcceptTx now newid (host_chat_accept sha r) db = Inr (rc, db1)"
      "startAttemptWithRunIDTx it (''host-chat:'' @ hc_RunID r) now newid (hc_RunID r) db1 = Inr (c2, db2)"
      "keeps db2 db'"
    using assms by (auto simp: newHostChatTx_def Let_def split: sum.splits if_splits option.splits)
  have "keeps db1 db'" using keeps_start_run [OF *(2)] *(3) by (rule keeps_trans)
  then show ?thesis using AcceptTx_grows [OF *(1)] keeps_rows rows_kept_trans
    unfolding grows_def keeps_def by (metis keeps_def)
qed

lemma BeginHostChat_grows: "grows db (snd (BeginHostChat sha now newid r db))"
proof (cases rule: in_tx_cases [of "newHostChatTx sha now newid r db" db])
  case (rolled_back e)
  then show ?thesis by (auto simp: BeginHostChat_def split: option.splits sum.splits)
next
  case (committed c db')
  then show ?thesis using newHostChat_grows [OF committed(1)]
    by (auto simp: BeginHostChat_def split: option.splits sum.splits)
qed

text \<open>The commands that accept work without a delivery.\<close>

lemma accepting_grows:
  "grows db (exec_command (DoAccept now newid req) db)"
  "grows db (exec_command (DoAcceptAssignment sha now newid i) db)"
  "grows db (exec_command (DoBeginHostChat sha now newid r) db)"
proof -
  show "grows db (exec_command (DoAccept now newid req) db)"
    by (cases rule: in_tx_cases [of "AcceptTx now newid req db" db]) (auto dest: AcceptTx_grows)
  show "grows db (exec_command (DoAcceptAssignment sha now newid i) db)"
    by (cases rule: in_tx_cases [of "AcceptAssignmentTx sha now newid i db" db]) (auto dest: AcceptAssignment_grows)
  show "grows db (exec_command (DoBeginHostChat sha now newid r) db)" by (simp add: BeginHostChat_grows)
qed

lemma AcceptTx_row:
  assumes "AcceptTx now newid req db = Inr (r, db')"
  shows "item_row db' newid = Some (accepted_item now newid req)" "item_row db newid = None"
proof -
  show none: "item_row db newid = None"
    using assms unfolding item_row_def find_None_iff
    by (auto simp: AcceptTx_def insert_item_def list_ex_iff item_conflict_def accepted_item_def
        split: if_splits sum.splits)
  show "item_row db' newid = Some (accepted_item now newid req)"
    using none by (simp add: item_row_def AcceptTx_frame(2) [OF assms] find_append accepted_item_def)
qed

lemma insert_keeps_ok:
  assumes "deliveries_ok db" "insert_delivery row db = Inr db'" "explained db row"
  shows "deliveries_ok db'"
proof -
  have row: "\<forall>s \<in> set (webhook_deliveries db). \<not> delivery_conflict row s"
      "db' = db\<lparr>webhook_deliveries := webhook_deliveries db @ [row]\<rparr>"
    using assms(2) by (auto simp: insert_delivery_Inr)
  have sym: "delivery_conflict r s = delivery_conflict s r" for r s by (auto simp: delivery_conflict_def)
  have "item_row db' = item_row db" by (simp add: row(2) item_row_def fun_eq_iff)
  then have "explained db' = explained db" by (intro ext) (simp only: explained_def)
  moreover have "wd_id row \<notin> wd_id ` set (webhook_deliveries db)"
    using row(1) by (auto simp: delivery_conflict_def)
  moreover have "\<forall>s \<in> set (webhook_deliveries db). \<not> delivery_conflict s row" using row(1) sym by blast
  ultimately show ?thesis using assms(1,3) row by (auto simp: deliveries_ok_def)
qed

lemma delivered_row_sel [simp]:
  "wd_id (delivered_row now idD d w) = (if nd_ID d = '''' then idD else nd_ID d)"
  "wd_workspace_id (delivered_row now idD d w) = nd_WorkspaceID d"
  "wd_endpoint_id (delivered_row now idD d w) = nd_EndpointID d"
  "wd_source_delivery_id (delivered_row now idD d w) = nd_SourceDeliveryID d"
  "wd_content_key (delivered_row now idD d w) = nd_ContentKey d"
  "wd_body_sha256 (delivered_row now idD d w) = nd_BodySHA256 d"
  "wd_body_bytes (delivered_row now idD d w) = nd_BodyBytes d"
  "wd_raw_body (delivered_row now idD d w) = nd_RawBody d"
  "wd_filter_decision (delivered_row now idD d w) = nd_FilterDecision d"
  "wd_work_id (delivered_row now idD d w) = w"
  by (simp_all add: delivered_row_def new_delivery_row_def Let_def)

lemma recorded_ok:
  assumes ok: "deliveries_ok db" and dec: "nd_FilterDecision d = FilterAccepted \<or> nd_FilterDecision d = FilterIgnored"
    and row: "row = delivered_row now idD d workID"
    and aw: "accept_work lim now (wd_id row) idW d w db = Inr (r1, workID, db1)"
    and ins: "insert_delivery row db1 = Inr db'"
  shows "deliveries_ok db'" "rows_kept db db'" "row \<in> set (webhook_deliveries db')"
    "webhook_deliveries db' = webhook_deliveries db @ [row]"
proof -
  have same: "work_items db' = work_items db1"
    using ins by (auto simp: insert_delivery_Inr)
  have "deliveries_ok db1 \<and> rows_kept db db1 \<and> explained db1 row \<and> webhook_deliveries db1 = webhook_deliveries db"
    using aw
  proof (cases rule: accept_work_cases)
    case ignored
    then show ?thesis using ok dec row by (auto simp: explained_def)
  next
    case (accepted req)
    then have "explained db1 row"
      using AcceptTx_row(1) [OF accepted(4)] by (simp add: explained_def row accepted_item_def)
    then show ?thesis using AcceptTx_keeps_ok [OF ok accepted(4)] AcceptTx_frame(1) [OF accepted(4)] by simp
  qed
  then show "deliveries_ok db'" "rows_kept db db'" "row \<in> set (webhook_deliveries db')"
      "webhook_deliveries db' = webhook_deliveries db @ [row]"
    using insert_keeps_ok [OF _ ins] rows_kept_trans [OF _ same_items_rows [OF same]] ins
    by (auto simp: insert_delivery_Inr)
qed

lemma deliver_ok:
  assumes "deliveries_ok db" "AcceptDeliveryTx lim now idD idW d w db = Inr (r, db')"
  shows "deliveries_ok db' \<and> rows_kept db db'"
  using assms(2)
proof (cases rule: AcceptDeliveryTx_cases)
  case (recorded r1 workID db1 row)
  then show ?thesis using recorded_ok [OF assms(1) recorded(2,3,4,5)] by simp
qed (use assms(1) in simp)

lemma exec_ok:
  assumes "deliveries_ok db"
  shows "deliveries_ok (exec_command c db) \<and> rows_kept db (exec_command c db)"
proof (cases "writes_deliveries c")
  case False
  then have k: "keeps db (exec_command c db)" by (rule exec_keeps)
  then show ?thesis using grows_ok [OF assms] keeps_rows [OF k] by (simp add: keeps_def grows_def)
next
  case True
  have grown: "deliveries_ok db' \<and> rows_kept db db'" if "grows db db'" for db'
    using grows_ok [OF assms that] that by (simp add: grows_def)
  from True show ?thesis
  proof (cases c)
    case (DoDeliver lim now idD idW nd w)
    show ?thesis
    proof (cases rule: in_tx_cases [of "AcceptDeliveryTx lim now idD idW nd w db" db])
      case (committed r db')
      then show ?thesis using DoDeliver deliver_ok [OF assms committed(1)] by simp
    qed (use DoDeliver assms in simp)
  next
    case (DoExpireBatch p now due)
    then show ?thesis using expire_keeps_ok [OF assms] same_items_rows
      by (simp add: expireRawBodyBatch_db expire_rows_frame)
  next
    case (DoDedupBatch p now ids)
    then show ?thesis using delete_keeps_ok [OF assms] same_items_rows by (simp add: deleteDedupBatch_def Let_def)
  qed (use grown accepting_grows in \<open>simp_all del: exec_command.simps\<close>)
qed

lemma run_ok: "deliveries_ok db \<Longrightarrow> deliveries_ok (run_commands cs db) \<and> rows_kept db (run_commands cs db)"
proof (induction cs arbitrary: db)
  case (Cons c cs)
  then show ?case
    using exec_ok [OF Cons.prems, of c] Cons.IH [of "exec_command c db"] rows_kept_trans
    unfolding run_commands_def by fastforce
qed (simp add: run_commands_def)

lemma reachable_ok: "deliveries_ok (run_commands cs empty_db)"
  using run_ok [of empty_db cs] by (simp add: deliveries_ok_def empty_db_def)

subsection \<open>How long a delivery stays\<close>

lemma item_row_same: "work_items db' = work_items db \<Longrightarrow> item_row db' = item_row db"
  by (simp add: item_row_def fun_eq_iff)

lemma joined_same:
  assumes "work_items db' = work_items db" "wd_work_id d' = wd_work_id d"
  shows "joined_item db' d' = joined_item db d"
  unfolding joined_item_def item_row_same [OF assms(1)] assms(2) by (rule refl)

lemma finished_same:
  assumes "work_items db' = work_items db" "wd_work_id d' = wd_work_id d"
  shows "finished_delivery db' d' = finished_delivery db d"
  unfolding finished_delivery_def joined_same [OF assms] assms(2) by (rule refl)

lemma finished_iff:
  "finished_delivery db d \<longleftrightarrow> wd_work_id d = None
     \<or> (\<exists>it. joined_item db d = Some it \<and> Terminal (wi_state it))"
  by (auto simp: finished_delivery_def split: option.splits)

lemma finished_later:
  assumes "good db" "finished_delivery db d"
  shows "finished_delivery (run_commands cs db) d"
proof (cases "wd_work_id d")
  case (Some w)
  then obtain it where it: "item_row db w = Some it" "Terminal (wi_state it)"
    using assms(2) by (auto simp: finished_iff joined_item_def)
  then obtain it' where "item_row (run_commands cs db) w = Some it'" "entry_of (run_commands cs db) it' = entry_of db it"
    using commands_later [OF assms(1), of cs] by (fastforce simp: later_def abs_ledger_def entry_later_def)
  then have "item_row (run_commands cs db) w = Some it'" "Terminal (wi_state it')"
    using it(2) by (metis entry_of_sel(2))+
  then show ?thesis using Some by (simp add: finished_iff joined_item_def)
qed (simp add: finished_iff)

lemma dedup_guard_core:
  assumes "work_items db' = work_items db" "delivery_core d' = delivery_core d"
  shows "dedup_guard db' a t d' = dedup_guard db a t d"
  using core_fields [OF assms(2)] finished_same [OF assms(1)] by (simp add: dedup_guard_def)

text \<open>Acceptances only add deliveries.\<close>

lemma accept_work_deliveries:
  assumes "accept_work lim now i idW d w db = Inr (r, workID, db')"
  shows "webhook_deliveries db' = webhook_deliveries db"
  using assms
proof (cases rule: accept_work_cases)
  case (accepted req)
  show ?thesis by (rule AcceptTx_frame(1) [OF accepted(4)])
qed simp

lemma deliver_grows:
  assumes "AcceptDeliveryTx lim now idD idW nd w db = Inr (r, db')"
  shows "set (webhook_deliveries db) \<subseteq> set (webhook_deliveries db')"
  using assms
proof (cases rule: AcceptDeliveryTx_cases)
  case (recorded r1 workID db1 row)
  have "webhook_deliveries db1 = webhook_deliveries db" by (rule accept_work_deliveries [OF recorded(4)])
  moreover have "webhook_deliveries db' = webhook_deliveries db1 @ [row]"
    using recorded(5) by (auto simp: insert_delivery_Inr)
  ultimately show ?thesis by auto
qed simp

lemma exec_grows:
  assumes "\<And>p t due. c \<noteq> DoExpireBatch p t due" "\<And>p t ids. c \<noteq> DoDedupBatch p t ids"
  shows "set (webhook_deliveries db) \<subseteq> set (webhook_deliveries (exec_command c db))"
proof (cases "writes_deliveries c")
  case False
  then show ?thesis using exec_keeps [OF False, of db] by (simp add: keeps_def)
next
  case True
  then show ?thesis
  proof (cases c)
    case (DoDeliver lim now idD idW nd w)
    show ?thesis
    proof (cases rule: in_tx_cases [of "AcceptDeliveryTx lim now idD idW nd w db" db])
      case (committed r db')
      then show ?thesis using DoDeliver deliver_grows [OF committed(1)] by simp
    qed (use DoDeliver in simp)
  qed (use assms accepting_grows in \<open>simp_all add: grows_def del: exec_command.simps\<close>)
qed

text \<open>One command either keeps a delivery or is a dedup batch whose guard let it go.\<close>

lemma exec_core:
  assumes "d \<in> set (webhook_deliveries db)"
  shows "(\<exists>d' \<in> set (webhook_deliveries (exec_command c db)). delivery_core d' = delivery_core d)
     \<or> (\<exists>p t ids. c = DoDedupBatch p t ids
          \<and> dedup_guard db (t - rp_DedupWindow (normalized_policy p)) t d)"
proof -
  consider p t due where "c = DoExpireBatch p t due" | p t ids where "c = DoDedupBatch p t ids"
    | "\<And>p t due. c \<noteq> DoExpireBatch p t due" "\<And>p t ids. c \<noteq> DoDedupBatch p t ids" by blast
  then show ?thesis
  proof cases
    case (1 p t due)
    have "delivery_core d \<in> delivery_core ` set (webhook_deliveries (exec_command c db))"
      using assms arg_cong [OF expire_rows_core, of set] 1 by (simp add: expireRawBodyBatch_db)
    then show ?thesis by fastforce
  next
    case (2 p t ids)
    then show ?thesis using assms by (auto simp: deleteDedupBatch_def Let_def)
  next
    case 3
    then show ?thesis using exec_grows [of c db] assms by blast
  qed
qed

text \<open>
  Over a schedule: a delivery stays while its work is not terminal, and in any case until a dedup
  batch runs past its own expiry.
\<close>

lemma core_stays:
  assumes "good db" "d \<in> set (webhook_deliveries db)"
    "(\<forall>p t ids. DoDedupBatch p t ids \<in> set cs \<longrightarrow> t < wd_dedup_expires_at d)
       \<or> \<not> finished_delivery (run_commands cs db) d"
  shows "\<exists>d' \<in> set (webhook_deliveries (run_commands cs db)). delivery_core d' = delivery_core d"
  using assms
proof (induction cs arbitrary: db d)
  case Nil
  then show ?case by (auto simp: run_commands_def)
next
  case (Cons c cs)
  let ?db1 = "exec_command c db"
  have run: "run_commands (c # cs) db = run_commands cs ?db1" by (simp add: run_commands_def)
  have one: "run_commands [c] db = ?db1" by (simp add: run_commands_def)
  have ok1: "good ?db1" using run_good [OF Cons.prems(1), of "[c]"] one by simp
  have "\<not> dedup_guard db (t - rp_DedupWindow (normalized_policy p)) t d" if "c = DoDedupBatch p t ids" for p t ids
  proof (cases "\<forall>p t ids. DoDedupBatch p t ids \<in> set (c # cs) \<longrightarrow> t < wd_dedup_expires_at d")
    case True
    moreover have "DoDedupBatch p t ids \<in> set (c # cs)" using that by simp
    ultimately have "t < wd_dedup_expires_at d" by blast
    then show ?thesis by (simp add: dedup_guard_def)
  next
    case False
    then have "\<not> finished_delivery db d"
      using Cons.prems(3) finished_later [OF Cons.prems(1)] by blast
    then show ?thesis by (simp add: dedup_guard_def)
  qed
  then obtain d1 where d1: "d1 \<in> set (webhook_deliveries ?db1)" "delivery_core d1 = delivery_core d"
    using exec_core [OF Cons.prems(2), of c] by blast
  have "(\<forall>p t ids. DoDedupBatch p t ids \<in> set cs \<longrightarrow> t < wd_dedup_expires_at d1)
       \<or> \<not> finished_delivery (run_commands cs ?db1) d1"
    using Cons.prems(3) core_fields(8,11) [OF d1(2)] finished_same [OF refl, of d1 d "run_commands cs ?db1"]
    unfolding run by auto
  then show ?case using Cons.IH [OF ok1 d1(1)] d1(2) unfolding run by simp
qed

text \<open>While the work behind it is live, the whole row stays, payload included.\<close>

lemma raw_guard_finished: "raw_guard db cutoff now i d \<Longrightarrow> finished_delivery db d"
  by (auto simp: raw_guard_def finished_delivery_def split: option.splits)

lemma expire_rows_live:
  assumes "d \<in> set (webhook_deliveries db)" "\<not> finished_delivery db d"
  shows "d \<in> set (webhook_deliveries (snd (expire_rows cutoff now cs acc db)))"
  using assms
proof (induction cutoff now cs acc db rule: expire_rows.induct)
  case (2 cutoff now c dl cs expired retained freed db)
  let ?db = "upd_deliveries (raw_guard db cutoff now (rb_id c))
               (\<lambda>d. d\<lparr>wd_raw_body := None, wd_raw_body_expires_at := Some dl\<rparr>) db"
  have "\<not> raw_guard db cutoff now (rb_id c) d" using "2.prems"(2) raw_guard_finished by blast
  then have "d \<in> set (webhook_deliveries ?db)"
    using "2.prems"(1) by (auto simp: row_simps in_upd_where intro!: bexI [of _ d])
  moreover have "\<not> finished_delivery ?db d" using "2.prems"(2) finished_same [of ?db db d d] by (simp add: row_simps)
  ultimately show ?case using "2.IH" by (simp add: Let_def)
qed simp

lemma exec_live:
  assumes "d \<in> set (webhook_deliveries db)" "\<not> finished_delivery db d"
  shows "d \<in> set (webhook_deliveries (exec_command c db))"
proof -
  consider p t due where "c = DoExpireBatch p t due" | p t ids where "c = DoDedupBatch p t ids"
    | "\<And>p t due. c \<noteq> DoExpireBatch p t due" "\<And>p t ids. c \<noteq> DoDedupBatch p t ids" by blast
  then show ?thesis
  proof cases
    case (1 p t due)
    then show ?thesis using expire_rows_live [OF assms] by (simp add: expireRawBodyBatch_db)
  next
    case (2 p t ids)
    then show ?thesis using assms by (simp add: deleteDedupBatch_def dedup_guard_def Let_def)
  next
    case 3
    then show ?thesis using exec_grows [of c db] assms(1) by blast
  qed
qed

lemma live_row_stays:
  assumes "good db" "d \<in> set (webhook_deliveries db)" "\<not> finished_delivery (run_commands cs db) d"
  shows "d \<in> set (webhook_deliveries (run_commands cs db))"
  using assms
proof (induction cs arbitrary: db)
  case Nil
  then show ?case by (simp add: run_commands_def)
next
  case (Cons c cs)
  have run: "run_commands (c # cs) db = run_commands cs (exec_command c db)" by (simp add: run_commands_def)
  have "good (exec_command c db)" using run_good [OF Cons.prems(1), of "[c]"] by (simp add: run_commands_def)
  moreover have "\<not> finished_delivery db d" using Cons.prems finished_later by blast
  ultimately show ?case using Cons.IH exec_live [OF Cons.prems(2)] Cons.prems(3) unfolding run by blast
qed

end
