(* ===== verification/Work_Arrivals.thy ===== *)
theory Work_Arrivals
  imports Work_Deliveries
begin

text \<open>
  The promises of the arrival path on every schedule: deliveries and work explain each other, a
  first delivery produces exactly its row and its item, a re-delivery gets the original receipt
  back, a changed body under a known identifier is a conflict, and acceptance keeps the limits.
\<close>

subsection \<open>Arrivals to demonstrate with\<close>

definition demo_delivery :: NewDelivery where
  "demo_delivery = \<lparr>nd_ID = '''', nd_WorkspaceID = ''ws'', nd_EndpointID = ''ep'', nd_EndpointKind = ''agent'',
     nd_Profile = ''github'', nd_SourceDeliveryID = ''src-1'', nd_ContentKey = '''', nd_BodySHA256 = ''abc'',
     nd_BodyBytes = 5, nd_RawBody = Some ''hello'', nd_RawBodyExpiresAt = None, nd_EventType = ''push'',
     nd_EventAction = '''', nd_SigningKeyID = '''', nd_FilterDecision = FilterAccepted, nd_FilterReason = '''',
     nd_TargetRevision = '''', nd_ReceivedAt = None, nd_DedupExpiresAt = None\<rparr>"

definition demo_limits :: IngressLimits where
  "demo_limits = \<lparr>EndpointNonTerminal = 1, WorkspaceNonTerminal = 0, WorkspaceRawBytes = 0\<rparr>"

definition demo_webhook :: AcceptRequest where
  "demo_webhook = demo_request\<lparr>ar_Source := SourceWebhook\<rparr>"

definition demo_delivered :: "command list" where
  "demo_delivered = [DoDeliver demo_limits 10 ''d1'' ''w1'' demo_delivery demo_webhook]"

subsection \<open>Facts about one acceptance\<close>

lemma recorded_receipt_sel [simp]:
  "rc_Duplicate (recorded_receipt db d)" "rc_DeliveryID (recorded_receipt db d) = wd_id d"
  "rc_WorkID (recorded_receipt db d) = null_text (wd_work_id d)"
  by (simp_all add: recorded_receipt_def fillReceiptStateTx_def split: option.splits)

lemma lookup_duplicate: "lookupDeliveryTx db ws ep src key sha = Inr (Some r) \<Longrightarrow> rc_Duplicate r"
  by (auto simp: lookupDeliveryTx_def split: option.splits if_splits)

lemma accept_not_blank:
  assumes "AcceptDeliveryTx lim now idD idW d w db = Inr (r, db')"
  shows "\<not> blank (nd_WorkspaceID d)" "\<not> blank (nd_EndpointID d)" "\<not> blank (nd_SourceDeliveryID d)"
  using assms by (auto simp: AcceptDeliveryTx_def Let_def split: if_splits)

lemma deliveries_same:
  assumes "deliveries_ok db" "e \<in> set (webhook_deliveries db)" "d \<in> set (webhook_deliveries db)" "wd_id e = wd_id d"
  shows "e = d"
proof -
  have "distinct (map wd_id (webhook_deliveries db))" using assms(1) by (simp add: deliveries_ok_def)
  then show ?thesis by (rule deliveries.key_unique) (use assms(2-4) in auto)
qed

text \<open>With identities unique, the lookup by source finds the row that is there.\<close>

lemma by_source_in:
  assumes "deliveries_ok db" "d \<in> set (webhook_deliveries db)"
  shows "by_source db (wd_workspace_id d) (wd_endpoint_id d) (wd_source_delivery_id d) = Some d"
proof -
  let ?P = "\<lambda>e. wd_workspace_id e = wd_workspace_id d \<and> wd_endpoint_id e = wd_endpoint_id d
              \<and> wd_source_delivery_id e = wd_source_delivery_id d"
  have "e = d" if "e \<in> set (webhook_deliveries db)" "?P e" for e
  proof -
    have "delivery_conflict e d" using that(2) by (simp add: delivery_conflict_def)
    then have "wd_id e = wd_id d" using assms that(1) by (simp add: deliveries_ok_def)
    then show ?thesis using deliveries_same [OF assms(1) that(1) assms(2)] by simp
  qed
  then show ?thesis
    unfolding by_source_def using assms(2) by (intro find_the) simp_all
qed

lemma accept_known:
  assumes ok: "deliveries_ok db" and e: "e \<in> set (webhook_deliveries db)"
    and key: "nd_WorkspaceID d = wd_workspace_id e" "nd_EndpointID d = wd_endpoint_id e"
      "nd_SourceDeliveryID d = wd_source_delivery_id e"
    and nb: "\<not> blank (wd_workspace_id e)" "\<not> blank (wd_endpoint_id e)" "\<not> blank (wd_source_delivery_id e)"
    and dec: "nd_FilterDecision d = FilterAccepted \<or> nd_FilterDecision d = FilterIgnored"
  shows "AcceptDeliveryTx lim now idD idW d w db =
     (if nd_BodySHA256 d \<noteq> '''' \<and> nd_BodySHA256 d \<noteq> wd_body_sha256 e then Inl ErrDeliveryConflict
      else Inr (recorded_receipt db e, db))"
  using by_source_in [OF ok e] key nb dec
  by (auto simp: AcceptDeliveryTx_def Let_def lookupDeliveryTx_def)

lemma deliver_command: "AcceptDeliveryTx lim now idD idW d w db = Inr (r, db') \<Longrightarrow>
    exec_command (DoDeliver lim now idD idW d w) db = db'"
  by simp

lemma reachable_deliver:
  assumes "db = run_commands cs empty_db" "AcceptDeliveryTx lim now idD idW d w db = Inr (r, db')"
  shows "db' = run_commands (cs @ [DoDeliver lim now idD idW d w]) empty_db" "good db'" "deliveries_ok db'"
proof -
  show "db' = run_commands (cs @ [DoDeliver lim now idD idW d w]) empty_db"
    using deliver_command [OF assms(2)] assms(1) by (simp add: run_commands_def)
  then show "good db'" "deliveries_ok db'" using reachable_good reachable_ok by simp_all
qed

lemma first_delivery:
  assumes "db = run_commands cs empty_db" "AcceptDeliveryTx lim now idD idW d w db = Inr (r, db')"
    "\<not> rc_Duplicate r"
  shows "\<exists>row. webhook_deliveries db' = webhook_deliveries db @ [row] \<and> wd_id row = rc_DeliveryID r
     \<and> wd_workspace_id row = nd_WorkspaceID d \<and> wd_endpoint_id row = nd_EndpointID d
     \<and> wd_source_delivery_id row = nd_SourceDeliveryID d \<and> wd_body_sha256 row = nd_BodySHA256 d
     \<and> wd_raw_body row = nd_RawBody d
     \<and> (if nd_FilterDecision d = FilterAccepted
        then wd_work_id row = Some (rc_WorkID r) \<and> rc_State r = Some StateQueued
           \<and> item_row db (rc_WorkID r) = None
           \<and> (\<exists>it. work_items db' = work_items db @ [it] \<and> item_row db' (rc_WorkID r) = Some it
                 \<and> wi_state it = StateQueued \<and> wi_source_ref it = rc_DeliveryID r)
        else wd_work_id row = None \<and> rc_WorkID r = '''' \<and> rc_State r = None \<and> work_items db' = work_items db)"
  using assms(2)
proof (cases rule: AcceptDeliveryTx_cases)
  case duplicate
  then show ?thesis using lookup_duplicate assms(3) by blast
next
  case (recorded r1 workID db1 row)
  have ok: "deliveries_ok db" using reachable_ok assms(1) by simp
  note rec = recorded_ok [OF ok recorded(2,3,4,5)]
  have items: "work_items db' = work_items db1" using recorded(5) by (auto simp: insert_delivery_Inr)
  have rowsel: "wd_id row = rc_DeliveryID r" "wd_workspace_id row = nd_WorkspaceID d"
    "wd_endpoint_id row = nd_EndpointID d" "wd_source_delivery_id row = nd_SourceDeliveryID d"
    "wd_body_sha256 row = nd_BodySHA256 d" "wd_raw_body row = nd_RawBody d" "wd_work_id row = workID"
    using recorded(3,6) by simp_all
  from recorded(4) show ?thesis
  proof (cases rule: accept_work_cases)
    case ignored
    then have "rc_State r = None" "rc_WorkID r = ''''" using recorded(2,6) by auto
    then show ?thesis using ignored items rec(4) rowsel by auto
  next
    case (accepted req)
    note fr = AcceptTx_frame [OF accepted(4)] and new = AcceptTx_row [OF accepted(4)]
    have "rc_WorkID r = idW" "rc_State r = Some StateQueued"
      using recorded(6) fr(3) accepted(1) by auto
    moreover have "item_row db' idW = Some (accepted_item now idW req)"
      using new(1) item_row_same [OF items] by simp
    moreover have "wi_source_ref (accepted_item now idW req) = rc_DeliveryID r"
      using accepted(3) rowsel(1) by (simp add: accepted_item_def)
    moreover have "wi_state (accepted_item now idW req) = StateQueued" by (simp add: accepted_item_def)
    ultimately show ?thesis using rec(4) rowsel accepted(1,2) new(2) fr(2) items by auto
  qed
qed

subsection \<open>Deliveries and work\<close>

text \<open>
  C37. Deliveries and work explain each other (invariants I1 and I2): on every schedule an ignored
  delivery has no work, an accepted one has an item, that item names the delivery as its source,
  no two deliveries share an item, and no two rows carry the same sender identity or the same
  content key on one endpoint.
\<close>

theorem deliveries_explained:
  assumes "db = run_commands cs empty_db" "d \<in> set (webhook_deliveries db)"
  shows "(wd_work_id d = None \<longleftrightarrow> wd_filter_decision d = FilterIgnored)
       \<and> (\<forall>w. wd_work_id d = Some w \<longrightarrow> (\<exists>it. item_row db w = Some it \<and> wi_source_ref it = wd_id d))
       \<and> (\<forall>e \<in> set (webhook_deliveries db). wd_work_id d \<noteq> None \<and> wd_work_id e = wd_work_id d \<longrightarrow> e = d)
       \<and> (\<forall>e \<in> set (webhook_deliveries db). delivery_conflict e d \<longrightarrow> e = d)"
proof -
  have ok: "deliveries_ok db" using reachable_ok assms(1) by simp
  have same: "e = d" if "e \<in> set (webhook_deliveries db)" "wd_id e = wd_id d" for e
    using deliveries_same [OF ok that(1) assms(2) that(2)] .
  have ex: "explained db e" if "e \<in> set (webhook_deliveries db)" for e
    using ok that by (simp add: deliveries_ok_def)
  have "e = d" if "e \<in> set (webhook_deliveries db)" "wd_work_id d = Some w" "wd_work_id e = Some w" for e w
    using ex [OF that(1)] ex [OF assms(2)] that(2,3) same [OF that(1)]
    by (auto simp: explained_def split: option.splits)
  moreover have "e = d" if "e \<in> set (webhook_deliveries db)" "delivery_conflict e d" for e
    using ok assms(2) that same by (simp add: deliveries_ok_def)
  ultimately show ?thesis using ex [OF assms(2)] by (auto simp: explained_def split: option.splits)
qed

theorem deliveries_explained_witness:
  "\<exists>d \<in> set (webhook_deliveries (run_commands demo_delivered empty_db)). \<exists>it.
     item_row (run_commands demo_delivered empty_db) ''w1'' = Some it \<and> wi_source_ref it = wd_id d"
proof -
  let ?db = "run_commands demo_delivered empty_db"
  have "list_ex (\<lambda>d. wd_work_id d = Some ''w1'') (webhook_deliveries ?db)" by code_simp
  then obtain d where "d \<in> set (webhook_deliveries ?db)" "wd_work_id d = Some ''w1''" by (auto simp: list_ex_iff)
  then show ?thesis using deliveries_explained [OF refl, of d demo_delivered] by blast
qed

text \<open>
  A first delivery, accepted or ignored, adds exactly one delivery row, which holds the
  identity, the digest and the payload that came; an accepted one also adds exactly one item,
  queued under a fresh identifier with the delivery as its source, and the receipt names both; an
  ignored one adds no item and reports no state.
\<close>

theorem first_delivery_recorded:
  assumes "db = run_commands cs empty_db" "AcceptDeliveryTx lim now idD idW d w db = Inr (r, db')"
    "\<not> rc_Duplicate r"
  shows "\<exists>row. webhook_deliveries db' = webhook_deliveries db @ [row] \<and> wd_id row = rc_DeliveryID r
     \<and> wd_workspace_id row = nd_WorkspaceID d \<and> wd_endpoint_id row = nd_EndpointID d
     \<and> wd_source_delivery_id row = nd_SourceDeliveryID d \<and> wd_body_sha256 row = nd_BodySHA256 d
     \<and> wd_raw_body row = nd_RawBody d
     \<and> (if nd_FilterDecision d = FilterAccepted
        then wd_work_id row = Some (rc_WorkID r) \<and> rc_State r = Some StateQueued
           \<and> item_row db (rc_WorkID r) = None
           \<and> (\<exists>it. work_items db' = work_items db @ [it] \<and> item_row db' (rc_WorkID r) = Some it
                 \<and> wi_state it = StateQueued \<and> wi_source_ref it = rc_DeliveryID r)
        else wd_work_id row = None \<and> rc_State r = None \<and> work_items db' = work_items db)"
  using first_delivery [OF assms] by (elim exE conjE) (auto split: if_splits)

theorem first_delivery_recorded_witness:
  "\<exists>r db' row. AcceptDeliveryTx demo_limits 10 ''d1'' ''w1'' demo_delivery demo_webhook (run_commands [] empty_db)
       = Inr (r, db') \<and> webhook_deliveries db' = [row] \<and> wd_id row = rc_DeliveryID r"
proof -
  have "case AcceptDeliveryTx demo_limits 10 ''d1'' ''w1'' demo_delivery demo_webhook (run_commands [] empty_db)
          of Inr (r, db') \<Rightarrow> \<not> rc_Duplicate r | _ \<Rightarrow> False" by code_simp
  then obtain r db' where a: "AcceptDeliveryTx demo_limits 10 ''d1'' ''w1'' demo_delivery demo_webhook
        (run_commands [] empty_db) = Inr (r, db')" "\<not> rc_Duplicate r"
    by (auto split: sum.splits prod.splits)
  have "webhook_deliveries (run_commands [] empty_db) = []" by (simp add: run_commands_def empty_db_def)
  then show ?thesis using first_delivery_recorded [OF refl a] a(1) by auto
qed

subsection \<open>Re-delivery\<close>

lemma recorded_receipt_state:
  "null_text (wd_work_id e) \<noteq> '''' \<and> item_row db (null_text (wd_work_id e)) = Some it \<longrightarrow>
     rc_State (recorded_receipt db e) = Some (wi_state it)"
  by (simp add: recorded_receipt_def fillReceiptStateTx_def)

lemma redelivery:
  assumes "db = run_commands cs empty_db" "AcceptDeliveryTx lim now idD idW d w db = Inr (r, db1)"
    "\<not> rc_Duplicate r" "delivery_row db1 (rc_DeliveryID r) = Some row"
    "db2 = run_commands cs' db1"
    "(\<forall>p t ids. DoDedupBatch p t ids \<in> set cs' \<longrightarrow> t < wd_dedup_expires_at row) \<or> \<not> finished_delivery db2 row"
    "nd_WorkspaceID d' = nd_WorkspaceID d" "nd_EndpointID d' = nd_EndpointID d"
    "nd_SourceDeliveryID d' = nd_SourceDeliveryID d"
    "nd_FilterDecision d' = FilterAccepted \<or> nd_FilterDecision d' = FilterIgnored"
  shows "\<exists>e \<in> set (webhook_deliveries db2). wd_id e = rc_DeliveryID r \<and> null_text (wd_work_id e) = rc_WorkID r
     \<and> AcceptDeliveryTx lim' now' idD' idW' d' w' db2 =
         (if nd_BodySHA256 d' \<noteq> '''' \<and> nd_BodySHA256 d' \<noteq> nd_BodySHA256 d then Inl ErrDeliveryConflict
          else Inr (recorded_receipt db2 e, db2))"
proof -
  note ok1 = reachable_deliver [OF assms(1,2)]
  have ok2: "deliveries_ok db2" using run_ok [OF ok1(3)] assms(5) by simp
  have row: "row \<in> set (webhook_deliveries db1)" "wd_id row = rc_DeliveryID r"
    using assms(4) unfolding delivery_row_def by (auto dest: deliveries.find_key_Some)
  obtain new where new: "webhook_deliveries db1 = webhook_deliveries db @ [new]" "wd_id new = rc_DeliveryID r"
     "wd_workspace_id new = nd_WorkspaceID d" "wd_endpoint_id new = nd_EndpointID d"
     "wd_source_delivery_id new = nd_SourceDeliveryID d" "wd_body_sha256 new = nd_BodySHA256 d"
     "null_text (wd_work_id new) = rc_WorkID r"
    using first_delivery [OF assms(1,2,3)] by (auto simp: null_text_def split: if_splits)
  have "row = new" using deliveries_same [OF ok1(3) row(1), of new] row(2) new(1,2) by simp
  obtain e where e: "e \<in> set (webhook_deliveries db2)" "delivery_core e = delivery_core row"
    using core_stays [OF ok1(2) row(1), of cs'] assms(5,6) by auto
  note f = core_fields [OF e(2)]
  have "AcceptDeliveryTx lim' now' idD' idW' d' w' db2 =
      (if nd_BodySHA256 d' \<noteq> '''' \<and> nd_BodySHA256 d' \<noteq> wd_body_sha256 e then Inl ErrDeliveryConflict
       else Inr (recorded_receipt db2 e, db2))"
    using accept_not_blank [OF assms(2)] assms(7-10) f new \<open>row = new\<close>
    by (intro accept_known [OF ok2 e(1)]) simp_all
  then show ?thesis using e(1) f new \<open>row = new\<close> by (intro bexI [of _ e]) simp_all
qed

text \<open>
  A re-delivery gets its original receipt back.  After a first delivery, on whatever later
  schedule, as long as its work is not terminal or no dedup sweep has run past the row's own
  expiry, the same sender identity with the same digest, or none, is answered with the original
  delivery and work identifiers, marked duplicate, in the work's current state; nothing is
  written, and no capacity limit can refuse it.
\<close>

theorem redelivery_returns_receipt:
  assumes "db = run_commands cs empty_db" "AcceptDeliveryTx lim now idD idW d w db = Inr (r, db1)"
    "\<not> rc_Duplicate r" "delivery_row db1 (rc_DeliveryID r) = Some row"
    "db2 = run_commands cs' db1"
    "(\<forall>p t ids. DoDedupBatch p t ids \<in> set cs' \<longrightarrow> t < wd_dedup_expires_at row) \<or> \<not> finished_delivery db2 row"
    "nd_WorkspaceID d' = nd_WorkspaceID d" "nd_EndpointID d' = nd_EndpointID d"
    "nd_SourceDeliveryID d' = nd_SourceDeliveryID d"
    "nd_FilterDecision d' = FilterAccepted \<or> nd_FilterDecision d' = FilterIgnored"
    "nd_BodySHA256 d' = nd_BodySHA256 d \<or> nd_BodySHA256 d' = ''''"
  shows "\<exists>r'. AcceptDeliveryTx lim' now' idD' idW' d' w' db2 = Inr (r', db2)
     \<and> rc_Duplicate r' \<and> rc_DeliveryID r' = rc_DeliveryID r \<and> rc_WorkID r' = rc_WorkID r
     \<and> (\<forall>it. rc_WorkID r \<noteq> '''' \<and> item_row db2 (rc_WorkID r) = Some it \<longrightarrow> rc_State r' = Some (wi_state it))"
proof -
  obtain e where "e \<in> set (webhook_deliveries db2)" "wd_id e = rc_DeliveryID r" "null_text (wd_work_id e) = rc_WorkID r"
      "AcceptDeliveryTx lim' now' idD' idW' d' w' db2 =
         (if nd_BodySHA256 d' \<noteq> '''' \<and> nd_BodySHA256 d' \<noteq> nd_BodySHA256 d then Inl ErrDeliveryConflict
          else Inr (recorded_receipt db2 e, db2))"
    using redelivery [OF assms(1-10)] by blast
  then show ?thesis using assms(11) recorded_receipt_state [of e db2] by auto
qed

theorem redelivery_returns_receipt_witness:
  "\<exists>r db1. AcceptDeliveryTx demo_limits 10 ''d1'' ''w1'' demo_delivery demo_webhook (run_commands [] empty_db) = Inr (r, db1)
     \<and> (\<exists>r'. AcceptDeliveryTx demo_limits 20 ''d2'' ''w2'' demo_delivery demo_webhook
             (run_commands [DoClaim 12 12 ''r1'' demo_options] db1)
             = Inr (r', run_commands [DoClaim 12 12 ''r1'' demo_options] db1) \<and> rc_WorkID r' = rc_WorkID r)"
proof -
  have "case AcceptDeliveryTx demo_limits 10 ''d1'' ''w1'' demo_delivery demo_webhook (run_commands [] empty_db)
          of Inr (r, db') \<Rightarrow> \<not> rc_Duplicate r \<and> (case delivery_row db' (rc_DeliveryID r) of Some row \<Rightarrow> True | None \<Rightarrow> False)
           | _ \<Rightarrow> False" by code_simp
  then obtain r db1 row where a: "AcceptDeliveryTx demo_limits 10 ''d1'' ''w1'' demo_delivery demo_webhook
        (run_commands [] empty_db) = Inr (r, db1)" "\<not> rc_Duplicate r" "delivery_row db1 (rc_DeliveryID r) = Some row"
    by (auto split: sum.splits prod.splits option.splits)
  show ?thesis
    using redelivery_returns_receipt [OF refl a refl, where d' = demo_delivery and cs' = "[DoClaim 12 12 ''r1'' demo_options]"
        and lim' = demo_limits and now' = 20 and idD' = "''d2''" and idW' = "''w2''" and w' = demo_webhook] a(1)
    by (simp add: demo_delivery_def) blast
qed

text \<open>
  A changed body under a known identifier is a conflict: in the same situation as above, a
  re-delivery that carries another digest fails with \<open>ErrDeliveryConflict\<close>, and the original row
  is still there with its own digest.
\<close>

theorem changed_body_conflicts:
  assumes "db = run_commands cs empty_db" "AcceptDeliveryTx lim now idD idW d w db = Inr (r, db1)"
    "\<not> rc_Duplicate r" "delivery_row db1 (rc_DeliveryID r) = Some row"
    "db2 = run_commands cs' db1"
    "(\<forall>p t ids. DoDedupBatch p t ids \<in> set cs' \<longrightarrow> t < wd_dedup_expires_at row) \<or> \<not> finished_delivery db2 row"
    "nd_WorkspaceID d' = nd_WorkspaceID d" "nd_EndpointID d' = nd_EndpointID d"
    "nd_SourceDeliveryID d' = nd_SourceDeliveryID d"
    "nd_FilterDecision d' = FilterAccepted \<or> nd_FilterDecision d' = FilterIgnored"
    "nd_BodySHA256 d' \<noteq> ''''" "nd_BodySHA256 d' \<noteq> nd_BodySHA256 d"
  shows "AcceptDeliveryTx lim' now' idD' idW' d' w' db2 = Inl ErrDeliveryConflict
     \<and> (\<exists>e. delivery_row db2 (rc_DeliveryID r) = Some e \<and> null_text (wd_work_id e) = rc_WorkID r)"
proof -
  have "distinct (map wd_id (webhook_deliveries db2))"
    using run_ok [OF reachable_deliver(3) [OF assms(1,2)]] assms(5) by (simp add: deliveries_ok_def)
  note row = deliveries.find_key_iff [OF this, folded delivery_row_def]
  then show ?thesis
    using redelivery [OF assms(1-10), of lim' now' idD' idW' w'] assms(11,12) by auto
qed

theorem changed_body_conflicts_witness:
  "\<exists>r db1. AcceptDeliveryTx demo_limits 10 ''d1'' ''w1'' demo_delivery demo_webhook (run_commands [] empty_db) = Inr (r, db1)
     \<and> AcceptDeliveryTx demo_limits 20 ''d2'' ''w2'' (demo_delivery\<lparr>nd_BodySHA256 := ''xyz''\<rparr>) demo_webhook
             (run_commands [] db1) = Inl ErrDeliveryConflict"
proof -
  have "case AcceptDeliveryTx demo_limits 10 ''d1'' ''w1'' demo_delivery demo_webhook (run_commands [] empty_db)
          of Inr (r, db') \<Rightarrow> \<not> rc_Duplicate r \<and> (case delivery_row db' (rc_DeliveryID r) of Some row \<Rightarrow> True | None \<Rightarrow> False)
           | _ \<Rightarrow> False" by code_simp
  then obtain r db1 row where a: "AcceptDeliveryTx demo_limits 10 ''d1'' ''w1'' demo_delivery demo_webhook
        (run_commands [] empty_db) = Inr (r, db1)" "\<not> rc_Duplicate r" "delivery_row db1 (rc_DeliveryID r) = Some row"
    by (auto split: sum.splits prod.splits option.splits)
  show ?thesis
    using changed_body_conflicts [OF refl a refl, where d' = "demo_delivery\<lparr>nd_BodySHA256 := ''xyz''\<rparr>" and cs' = "[]"
        and lim' = demo_limits and now' = 20 and idD' = "''d2''" and idW' = "''w2''" and w' = demo_webhook] a(1)
    by (simp add: demo_delivery_def)
qed

subsection \<open>Capacity\<close>

lemma sql_sum_append:
  "sql_sum acc (xs @ ys) = (case sql_sum acc xs of None \<Rightarrow> None | Some a \<Rightarrow> sql_sum a ys)"
  by (induction acc xs rule: sql_sum.induct) auto

lemma sql_sum_fits: "fits64 acc \<Longrightarrow> sql_sum acc xs = Some v \<Longrightarrow> fits64 v"
  by (induction acc xs rule: sql_sum.induct) (auto split: if_splits)

lemma sql_sum_nonneg: "(\<And>x. x \<in> set xs \<Longrightarrow> 0 \<le> x) \<Longrightarrow> sql_sum acc xs = Some v \<Longrightarrow> acc \<le> v"
  by (induction acc xs rule: sql_sum.induct) (fastforce split: if_splits)+

lemma feeds_iff:
  "feeds_nonterminal db d \<longleftrightarrow> (\<exists>w it. wd_work_id d = Some w \<and> item_row db w = Some it
     \<and> valid_state (wi_state it) \<and> \<not> Terminal (wi_state it))"
  by (auto simp: feeds_nonterminal_def joined_item_def in_state_list_nonterminal split: option.splits)

lemma feeds_append:
  assumes "work_items db' = work_items db @ [it]" "explained db d"
  shows "feeds_nonterminal db' d = feeds_nonterminal db d"
proof (cases "wd_work_id d")
  case (Some w)
  then obtain x where "item_row db w = Some x" using assms(2) by (auto simp: explained_def split: option.splits)
  then have "item_row db' w = item_row db w" using assms(1) by (simp add: item_row_def find_append)
  then show ?thesis using Some by (simp add: feeds_iff)
qed (simp add: feeds_iff)

text \<open>What one accepted delivery adds to the counts.\<close>

lemma counts_after:
  assumes ok: "deliveries_ok db" and items: "work_items db' = work_items db @ [it]"
    and rows: "webhook_deliveries db' = webhook_deliveries db @ [row]"
    and it: "item_row db' (wi_id it) = Some it" "wd_work_id row = Some (wi_id it)" "wi_state it = StateQueued"
      "wi_workspace_id it = wd_workspace_id row"
  shows "countEndpointNonTerminalTx db' (wd_workspace_id row) (wd_endpoint_id row)
           = countEndpointNonTerminalTx db (wd_workspace_id row) (wd_endpoint_id row) + 1"
    "nonterminal_items db' (wd_workspace_id row) = nonterminal_items db (wd_workspace_id row) @ [it]"
    "webhook_sizes db' (wd_workspace_id row) = webhook_sizes db (wd_workspace_id row) @ [wd_body_bytes row]"
proof -
  have old: "feeds_nonterminal db' d = feeds_nonterminal db d" if "d \<in> set (webhook_deliveries db)" for d
    using feeds_append [OF items] ok that by (simp add: deliveries_ok_def)
  have new: "feeds_nonterminal db' row" using it by (simp add: feeds_iff)
  show "countEndpointNonTerminalTx db' (wd_workspace_id row) (wd_endpoint_id row)
           = countEndpointNonTerminalTx db (wd_workspace_id row) (wd_endpoint_id row) + 1"
    using new old by (simp add: countEndpointNonTerminalTx_def rows count_where_def cong: filter_cong)
  show "webhook_sizes db' (wd_workspace_id row) = webhook_sizes db (wd_workspace_id row) @ [wd_body_bytes row]"
    using new old by (simp add: webhook_sizes_def rows cong: filter_cong)
  show "nonterminal_items db' (wd_workspace_id row) = nonterminal_items db (wd_workspace_id row) @ [it]"
    using it by (simp add: nonterminal_items_def items in_state_list_nonterminal)
qed

lemma bytes_after:
  assumes count: "countWorkspaceNonTerminalTx db ws = Inr (n, b)" "0 \<le> k" "b + k < 2 ^ 63"
    and sizes: "webhook_sizes db' ws = webhook_sizes db ws @ [k]" "input_sizes db' ws = input_sizes db ws"
  shows "countWorkspaceNonTerminalTx db' ws = Inr (int (length (nonterminal_items db' ws)), b + k)"
proof -
  obtain x y where xy: "sql_sum 0 (webhook_sizes db ws) = Some x" "sql_sum 0 (input_sizes db ws) = Some y" "b = x + y"
      "fits64 b"
    using count(1) by (auto simp: countWorkspaceNonTerminalTx_def split: option.splits if_splits)
  have "0 \<le> y" using xy(2) by (rule sql_sum_nonneg [rotated]) (auto simp: input_sizes_def)
  moreover have "fits64 x" using sql_sum_fits [OF _ xy(1)] by (simp add: fits64_def)
  ultimately have "fits64 (x + k)" "fits64 (b + k)" using xy(3,4) count(2,3) by (simp_all add: fits64_def)
  then show ?thesis using xy by (simp add: countWorkspaceNonTerminalTx_def sizes sql_sum_append ac_simps)
qed

lemma check_ingress_None:
  assumes "CheckIngressTx lim \<lparr>ig_WorkspaceID = ws, ig_EndpointID = ep, ig_SourceDeliveryID = src,
      ig_ContentKey = '''', ig_BodyBytes = k\<rparr> db = None" "by_source db ws ep src = None"
  obtains n b where "countWorkspaceNonTerminalTx db ws = Inr (n, b)"
    "countEndpointNonTerminalTx db ws ep < EndpointNonTerminal (normalized_limits lim)"
    "n < WorkspaceNonTerminal (normalized_limits lim)"
    "wrap64 (b + k) \<le> WorkspaceRawBytes (normalized_limits lim)"
  using assms by (auto simp: CheckIngressTx_def Let_def lookupDeliveryTx_def split: if_splits sum.splits)

text \<open>
  Acceptance keeps the limits: after a first delivery is accepted into its own workspace, the
  endpoint and the workspace hold no more live work than their limits allow (a limit that is not
  positive means the default), and for webhook work, as long as the byte count stays in range,
  the raw input of the workspace's live work is within its byte budget.
\<close>

theorem acceptance_respects_limits:
  assumes "db = run_commands cs empty_db" "AcceptDeliveryTx lim now idD idW d w db = Inr (r, db')"
    "\<not> rc_Duplicate r" "nd_FilterDecision d = FilterAccepted"
    "ar_WorkspaceID w = nd_WorkspaceID d" "source_string (ar_Source w) = ''webhook''"
    "countWorkspaceNonTerminalTx db (nd_WorkspaceID d) = Inr (n, b)"
    "0 \<le> nd_BodyBytes d" "b + nd_BodyBytes d < 2 ^ 63"
  shows "countEndpointNonTerminalTx db' (nd_WorkspaceID d) (nd_EndpointID d)
           \<le> EndpointNonTerminal (normalized_limits lim)
       \<and> countWorkspaceNonTerminalTx db' (nd_WorkspaceID d) = Inr (n + 1, b + nd_BodyBytes d)
       \<and> n + 1 \<le> WorkspaceNonTerminal (normalized_limits lim)
       \<and> b + nd_BodyBytes d \<le> WorkspaceRawBytes (normalized_limits lim)"
  using assms(2)
proof (cases rule: AcceptDeliveryTx_cases)
  case duplicate
  then show ?thesis using lookup_duplicate assms(3) by blast
next
  case (recorded r1 workID db1 row)
  have ok: "deliveries_ok db" using reachable_ok assms(1) by simp
  note rec = recorded_ok [OF ok recorded(2,3,4,5)]
  have items: "work_items db' = work_items db1" using recorded(5) by (auto simp: insert_delivery_Inr)
  let ?ws = "nd_WorkspaceID d"
  from recorded(4) show ?thesis
  proof (cases rule: accept_work_cases)
    case ignored
    then show ?thesis using assms(4) by simp
  next
    case (accepted req)
    let ?it = "accepted_item now idW req"
    have it: "wi_id ?it = idW" "wi_state ?it = StateQueued" "wi_workspace_id ?it = ?ws"
      "source_string (wi_source ?it) = ''webhook''"
      using accepted(3) assms(5,6) by (simp_all add: accepted_item_def)
    have app: "work_items db' = work_items db @ [?it]" using AcceptTx_frame(2) [OF accepted(4)] items by simp
    have row: "wd_work_id row = Some (wi_id ?it)" "wd_workspace_id row = ?ws" "wd_endpoint_id row = nd_EndpointID d"
      "wd_body_bytes row = nd_BodyBytes d"
      using recorded(3) accepted(2) it(1) by simp_all
    have "item_row db' (wi_id ?it) = Some ?it"
      using AcceptTx_row(1) [OF accepted(4)] item_row_same [OF items] it(1) by simp
    note after = counts_after [OF ok app rec(4) this row(1) it(2), unfolded row(2,3,4), OF it(3)]
    have "input_sizes db' ?ws = input_sizes db ?ws" using it(4) by (simp add: input_sizes_def after(2))
    note bytes = bytes_after [OF assms(7-9) after(3) this]
    have "by_source db ?ws (nd_EndpointID d) (nd_SourceDeliveryID d) = None"
      using recorded(1) by (simp add: lookup_None)
    with accepted(5) obtain n' b' where lim: "countWorkspaceNonTerminalTx db ?ws = Inr (n', b')"
        "countEndpointNonTerminalTx db ?ws (nd_EndpointID d) < EndpointNonTerminal (normalized_limits lim)"
        "n' < WorkspaceNonTerminal (normalized_limits lim)"
        "wrap64 (b' + nd_BodyBytes d) \<le> WorkspaceRawBytes (normalized_limits lim)"
      by (rule check_ingress_None)
    have n: "n' = n" "b' = b" "n = int (length (nonterminal_items db ?ws))" "fits64 b"
      using lim(1) assms(7) by (auto simp: countWorkspaceNonTerminalTx_def split: option.splits if_splits)
    have "wrap64 (b + nd_BodyBytes d) = b + nd_BodyBytes d"
      using n(4) assms(8,9) by (intro wrap64_id) (simp_all add: fits64_def)
    then show ?thesis using lim(2-4) n after(1,2) bytes by simp
  qed
qed

theorem acceptance_respects_limits_witness:
  "\<exists>r db'. AcceptDeliveryTx demo_limits 10 ''d1'' ''w1'' demo_delivery demo_webhook (run_commands [] empty_db) = Inr (r, db')
     \<and> countEndpointNonTerminalTx db' ''ws'' ''ep'' \<le> 1"
proof -
  have "case AcceptDeliveryTx demo_limits 10 ''d1'' ''w1'' demo_delivery demo_webhook (run_commands [] empty_db)
          of Inr (r, db') \<Rightarrow> \<not> rc_Duplicate r | _ \<Rightarrow> False" by code_simp
  then obtain r db' where a: "AcceptDeliveryTx demo_limits 10 ''d1'' ''w1'' demo_delivery demo_webhook
        (run_commands [] empty_db) = Inr (r, db')" "\<not> rc_Duplicate r"
    by (auto split: sum.splits prod.splits)
  have "countWorkspaceNonTerminalTx (run_commands [] empty_db) (nd_WorkspaceID demo_delivery) = Inr (0, 0)" by code_simp
  then have "countEndpointNonTerminalTx db' (nd_WorkspaceID demo_delivery) (nd_EndpointID demo_delivery)
      \<le> EndpointNonTerminal (normalized_limits demo_limits)"
    using acceptance_respects_limits [OF refl a] by (simp add: demo_delivery_def demo_webhook_def demo_request_def)
  then show ?thesis using a(1) by (auto simp: demo_delivery_def demo_limits_def normalized_limits_def)
qed

end
