(* ===== verification/Work_Sweeps.thy ===== *)
theory Work_Sweeps
  imports Work_Arrivals
begin

text \<open>
  What the retention sweep does to the delivery table: it is a sequence of the batches schedules are
  made of, it never touches the payload of live work, nothing goes before its window and what goes
  leaves a tombstone, a sweep that is not interrupted leaves nothing due, and its counters count.
\<close>

subsection \<open>Batches, row by row\<close>

definition tombstone :: "time \<Rightarrow> Delivery \<Rightarrow> Delivery" where
  "tombstone dl d = d\<lparr>wd_raw_body := None, wd_raw_body_expires_at := Some dl\<rparr>"

definition expire_row :: "work_db \<Rightarrow> time \<Rightarrow> time \<Rightarrow> (rawBodyCandidate \<times> time) list \<Rightarrow> Delivery \<Rightarrow> Delivery" where
  "expire_row db cutoff now cs d =
     (if raw_guard db cutoff now (wd_id d) d
      then (case find (\<lambda>(c, dl). rb_id c = wd_id d) cs of Some (c, dl) \<Rightarrow> tombstone dl d | None \<Rightarrow> d)
      else d)"

lemma raw_guard_same:
  assumes "work_items db' = work_items db"
  shows "raw_guard db' = raw_guard db"
  unfolding raw_guard_def by (intro ext) (simp only: joined_same [OF assms refl])

lemma raw_guard_id: "raw_guard db cutoff now i d \<longleftrightarrow> wd_id d = i \<and> raw_guard db cutoff now (wd_id d) d"
  by (auto simp: raw_guard_def)

lemma tombstone_spent [simp]: "\<not> raw_guard db cutoff now i (tombstone dl d)"
  by (simp add: raw_guard_def tombstone_def)

lemma expire_rows_map:
  "webhook_deliveries (snd (expire_rows cutoff now cs acc db))
     = map (expire_row db cutoff now cs) (webhook_deliveries db)"
proof (induction cutoff now cs acc db rule: expire_rows.induct)
  case (1 cutoff now acc db)
  then show ?case by (simp add: expire_row_def map_idI)
next
  case (2 cutoff now c dl cs expired retained freed db)
  let ?g = "raw_guard db cutoff now (rb_id c)"
  let ?db = "upd_deliveries ?g (\<lambda>d. d\<lparr>wd_raw_body := None, wd_raw_body_expires_at := Some dl\<rparr>) db"
  have g: "raw_guard ?db = raw_guard db" by (rule raw_guard_same) (simp add: row_simps)
  have "expire_row ?db cutoff now cs (if ?g d then tombstone dl d else d) = expire_row db cutoff now ((c, dl) # cs) d" for d
  proof (cases "?g d")
    case True
    then have "wd_id d = rb_id c" "raw_guard db cutoff now (wd_id d) d" by (auto simp: raw_guard_def)
    then show ?thesis using True by (simp add: expire_row_def g)
  next
    case False
    then have "raw_guard db cutoff now (wd_id d) d \<Longrightarrow> rb_id c \<noteq> wd_id d" using raw_guard_id by metis
    then show ?thesis using False by (auto simp: expire_row_def g)
  qed
  then have "map (expire_row ?db cutoff now cs) (webhook_deliveries ?db)
      = map (expire_row db cutoff now ((c, dl) # cs)) (webhook_deliveries db)"
    by (simp add: row_simps upd_where_def o_def tombstone_def [symmetric])
  then show ?case using "2.IH" by (simp add: Let_def)
qed

definition page_row :: "work_db \<Rightarrow> RetentionPolicy \<Rightarrow> time \<Rightarrow> rawBodyCandidate list \<Rightarrow> Delivery \<Rightarrow> Delivery" where
  "page_row db p now batch = expire_row db (now - rp_RawBodyAfterTerminal p) now
     (map (\<lambda>c. (c, deadline p c)) (filter (\<lambda>c. \<not> deadline p c > now) batch))"

lemma sweep_page_rows:
  "webhook_deliveries (snd (sweep_page p now batch res db)) = map (page_row db p now batch) (webhook_deliveries db)"
proof (cases "filter (\<lambda>c. \<not> deadline p c > now) batch = []")
  case True
  then show ?thesis
    by (simp only: sweep_page_def Let_def page_row_def) (simp add: expire_row_def map_idI)
next
  case False
  then show ?thesis
    by (simp add: sweep_page_def Let_def page_row_def expireRawBodyBatch_db expire_rows_map)
qed

lemma sweep_page_items: "work_items (snd (sweep_page p now batch res db)) = work_items db"
  by (simp add: sweep_page_def Let_def expireRawBodyBatch_db expire_rows_frame)

subsection \<open>Due payloads\<close>

text \<open>The candidate a delivery is walked as, and what the sweep aims at.\<close>

definition as_candidate :: "work_db \<Rightarrow> Delivery \<Rightarrow> rawBodyCandidate" where
  "as_candidate db d = \<lparr>rb_id = wd_id d, rb_bodyBytes = wd_body_bytes d, rb_terminalRef = retention_ref db d,
     rb_explicitExpiry = wd_raw_body_expires_at d\<rparr>"

definition payload_due :: "work_db \<Rightarrow> RetentionPolicy \<Rightarrow> time \<Rightarrow> Delivery \<Rightarrow> bool" where
  "payload_due db p now d \<longleftrightarrow>
     wd_raw_body d \<noteq> None \<and> finished_delivery db d \<and> deadline p (as_candidate db d) \<le> now"

lemma deadline_le:
  "deadline p c \<le> now \<longleftrightarrow> rb_terminalRef c + rp_RawBodyAfterTerminal p \<le> now
     \<and> (\<forall>e. rb_explicitExpiry c = Some e \<longrightarrow> e \<le> now)"
  by (auto simp: deadline_def Let_def split: option.splits)

lemma retention_ref_finished:
  assumes "finished_delivery db d"
  shows "retention_ref db d = (case wd_work_id d of None \<Rightarrow> wd_received_at d
           | Some w \<Rightarrow> (case item_row db w of Some it \<Rightarrow> terminal_ref it | None \<Rightarrow> wd_received_at d))"
  by (simp add: retention_ref_def joined_item_def split: option.splits)

lemma guard_iff_due:
  "raw_guard db (now - rp_RawBodyAfterTerminal p) now (wd_id d) d \<longleftrightarrow> payload_due db p now d"
proof (cases "wd_work_id d")
  case None
  then show ?thesis
    by (auto simp: raw_guard_def payload_due_def deadline_le as_candidate_def finished_iff joined_item_def
        retention_ref_def split: option.splits)
next
  case (Some w)
  then show ?thesis
    by (cases "item_row db w")
      (auto simp: raw_guard_def payload_due_def deadline_le as_candidate_def finished_iff joined_item_def
        retention_ref_def split: option.splits)
qed

lemma walk_as:
  "walkRawBodyCandidates limit after db = map (as_candidate db)
     (sql_limit limit (sort_key wd_id (filter (raw_candidate db after) (webhook_deliveries db))))"
  by (simp add: walkRawBodyCandidates_def as_candidate_def)

text \<open>
  With ids distinct, a page turns exactly the due deliveries it was walked from into tombstones.
\<close>

lemma page_row_eq:
  assumes "distinct (map wd_id ds)" "set batch \<subseteq> as_candidate db ` set ds" "d \<in> set ds"
  shows "page_row db p now batch d =
     (if payload_due db p now d \<and> as_candidate db d \<in> set batch
      then tombstone (deadline p (as_candidate db d)) d else d)"
proof (cases "payload_due db p now d")
  case due: True
  let ?cs = "map (\<lambda>c. (c, deadline p c)) (filter (\<lambda>c. \<not> deadline p c > now) batch)"
  let ?P = "\<lambda>(c, dl). rb_id c = wd_id d"
  have only: "c = as_candidate db d" if c: "c \<in> set batch" and cid: "rb_id c = wd_id d" for c
  proof -
    obtain e where e: "e \<in> set ds" "c = as_candidate db e" using assms(2) c by auto
    then have "e = d" using cid assms(1,3) deliveries.key_unique [of ds e d] by (simp add: as_candidate_def)
    then show ?thesis using e(2) by simp
  qed
  show ?thesis
  proof (cases "as_candidate db d \<in> set batch")
    case True
    have "find ?P ?cs = Some (as_candidate db d, deadline p (as_candidate db d))"
    proof (rule find_the)
      show "(as_candidate db d, deadline p (as_candidate db d)) \<in> set ?cs"
        using True due by (auto simp: payload_due_def)
    qed (use only in \<open>auto simp: as_candidate_def\<close>)
    then show ?thesis using True due by (simp add: page_row_def expire_row_def guard_iff_due)
  next
    case False
    then have "find ?P ?cs = None" using only by (auto simp: find_None_iff)
    then show ?thesis using False by (simp add: page_row_def expire_row_def)
  qed
next
  case False
  then show ?thesis by (simp add: page_row_def expire_row_def guard_iff_due)
qed

text \<open>A page of a sorted walk: everything up to its last id was on it.\<close>

lemma sorted_limit:
  fixes ys :: "'a list" and k :: "'a \<Rightarrow> 'b :: linorder"
  assumes "sorted (map k ys)" "0 < n" "y \<in> set ys" "y \<notin> set (sql_limit n ys)"
  shows "int (length (sql_limit n ys)) = n" "sql_limit n ys \<noteq> []" "k (last (sql_limit n ys)) \<le> k y"
proof -
  have lim: "sql_limit n ys = take (nat n) ys" using assms(2) by (simp add: sql_limit_def)
  obtain i where i: "i < length ys" "ys ! i = y" using assms(3) by (auto simp: in_set_conv_nth)
  have "\<not> i < nat n"
  proof
    assume "i < nat n"
    then have "take (nat n) ys ! i = y" "i < length (take (nat n) ys)" using i by simp_all
    then have "y \<in> set (take (nat n) ys)" by (metis nth_mem)
    then show False using assms(4) lim by simp
  qed
  then have len: "nat n \<le> i" "length (take (nat n) ys) = nat n" using i by auto
  then show "int (length (sql_limit n ys)) = n" using assms(2) lim by simp
  show "sql_limit n ys \<noteq> []" using len assms(2) i by (auto simp: lim)
  have "take (nat n) ys \<noteq> []" using len assms(2) by auto
  then have "last (take (nat n) ys) = ys ! (nat n - 1)" using len(2) assms(2) by (simp add: last_conv_nth)
  moreover have "nat n - 1 \<le> i" using len(1) by simp
  ultimately have "last (take (nat n) ys) = ys ! (nat n - 1)" "nat n - 1 \<le> i" by simp_all
  then show "k (last (sql_limit n ys)) \<le> k y"
    using assms(1) i lim by (metis (no_types, lifting) sorted_iff_nth_mono length_map nth_map le_less_trans)
qed

subsection \<open>The loop over the pages\<close>

text \<open>What a run over the pages makes of a delivery, given the ids it got to.\<close>

definition swept :: "work_db \<Rightarrow> RetentionPolicy \<Rightarrow> time \<Rightarrow> string set \<Rightarrow> Delivery \<Rightarrow> Delivery" where
  "swept db p now S d =
     (if payload_due db p now d \<and> wd_id d \<in> S then tombstone (deadline p (as_candidate db d)) d else d)"

lemma swept_id [simp]: "wd_id (swept db p now S d) = wd_id d"
  by (simp add: swept_def tombstone_def)

lemma due_same:
  assumes "work_items db' = work_items db"
  shows "payload_due db' p now d = payload_due db p now d" "as_candidate db' d = as_candidate db d"
  using finished_same [OF assms refl] joined_same [OF assms refl]
  by (simp_all add: payload_due_def as_candidate_def retention_ref_def)

lemma swept_swept:
  assumes "work_items db' = work_items db"
  shows "swept db' p now S' (swept db p now S d) = swept db p now (S \<union> S') d"
proof (cases "payload_due db p now d \<and> wd_id d \<in> S")
  case True
  have "\<not> payload_due db' p now (tombstone dl d)" for dl by (simp add: payload_due_def tombstone_def)
  then show ?thesis using True by (simp add: swept_def)
next
  case False
  then show ?thesis by (auto simp: swept_def due_same [OF assms])
qed

lemma page_swept:
  assumes "distinct (map wd_id (webhook_deliveries db))"
  shows "webhook_deliveries (snd (sweep_page p now (walkRawBodyCandidates limit after db) res db))
     = map (swept db p now (rb_id ` set (walkRawBodyCandidates limit after db))) (webhook_deliveries db)"
proof -
  let ?b = "walkRawBodyCandidates limit after db"
  have sub: "set ?b \<subseteq> as_candidate db ` set (webhook_deliveries db)"
    unfolding walk_as using sql_limit_subset by fastforce
  have "as_candidate db d \<in> set ?b \<longleftrightarrow> wd_id d \<in> rb_id ` set ?b" if d: "d \<in> set (webhook_deliveries db)" for d
  proof
    assume "as_candidate db d \<in> set ?b"
    then show "wd_id d \<in> rb_id ` set ?b" by (rule rev_image_eqI) (simp add: as_candidate_def)
  next
    assume "wd_id d \<in> rb_id ` set ?b"
    then obtain c where c: "c \<in> set ?b" "rb_id c = wd_id d" by auto
    then obtain e where e: "e \<in> set (webhook_deliveries db)" "c = as_candidate db e" using sub by auto
    then have "e = d" using c(2) by (intro deliveries.key_unique [OF assms(1) _ d]) (simp_all add: as_candidate_def)
    then show "as_candidate db d \<in> set ?b" using c(1) e(2) by simp
  qed
  then show ?thesis
    unfolding sweep_page_rows by (intro map_cong refl) (simp add: page_row_eq [OF assms(1) sub] swept_def)
qed

text \<open>A page reaches every due delivery up to its last id, and all of them when it is short.\<close>

lemma page_reaches:
  assumes "distinct (map wd_id (webhook_deliveries db))" "0 < limit"
    "d \<in> set (webhook_deliveries db)" "payload_due db p now d" "after < wd_id d"
    "wd_id d \<notin> rb_id ` set (walkRawBodyCandidates limit after db)"
  shows "int (length (walkRawBodyCandidates limit after db)) = limit"
    "walkRawBodyCandidates limit after db \<noteq> []"
    "rb_id (last (walkRawBodyCandidates limit after db)) < wd_id d"
proof -
  let ?ys = "sort_key wd_id (filter (raw_candidate db after) (webhook_deliveries db))"
  have d: "d \<in> set ?ys" using assms(3,4,5) by (simp add: raw_candidate_def payload_due_def)
  have rb: "rb_id ` set (walkRawBodyCandidates limit after db) = wd_id ` set (sql_limit limit ?ys)"
    by (simp add: walk_as image_image as_candidate_def)
  have notin: "d \<notin> set (sql_limit limit ?ys)" using assms(6) unfolding rb by blast
  have "sorted (map wd_id ?ys)" by simp
  note * = sorted_limit [OF this assms(2) d notin]
  show "int (length (walkRawBodyCandidates limit after db)) = limit"
    "walkRawBodyCandidates limit after db \<noteq> []" using * by (simp_all add: walk_as)
  have "wd_id (last (sql_limit limit ?ys)) \<in> rb_id ` set (walkRawBodyCandidates limit after db)"
    unfolding rb using *(2) by simp
  then have "wd_id (last (sql_limit limit ?ys)) \<noteq> wd_id d" using assms(6) by metis
  then show "rb_id (last (walkRawBodyCandidates limit after db)) < wd_id d"
    using *(2,3) by (simp add: walk_as last_map as_candidate_def)
qed

lemma sweepRawBodies_spec:
  fixes p :: RetentionPolicy
  assumes "distinct (map wd_id (webhook_deliveries db))" "0 < rp_Batch p"
    "sweepRawBodies_loop yield p now k after res db = (err, res', db')"
  shows "\<exists>S. webhook_deliveries db' = map (swept db p now S) (webhook_deliveries db) \<and> work_items db' = work_items db
     \<and> (err = None \<longrightarrow> (\<forall>d \<in> set (webhook_deliveries db). payload_due db p now d \<and> after < wd_id d \<longrightarrow> wd_id d \<in> S))
     \<and> ((\<forall>k. \<not> yield k) \<longrightarrow> err = None)"
  using assms
proof (induction yield p now k after res db rule: sweepRawBodies_loop.induct)
  case (1 yield p now k after res db)
  let ?b = "walkRawBodyCandidates (rp_Batch p) after db"
  let ?r = "sweep_page p now ?b res db"
  have none: "map (swept db p now {}) (webhook_deliveries db) = webhook_deliveries db"
    by (simp add: swept_def map_idI)
  consider (stop) "yield k" | (empty) "\<not> yield k" "?b = []"
    | (short) "\<not> yield k" "?b \<noteq> []" "int (length ?b) < rp_Batch p"
    | (more) "\<not> yield k" "?b \<noteq> []" "\<not> int (length ?b) < rp_Batch p" by blast
  then show ?case
  proof cases
    case stop
    then show ?thesis using "1.prems" none by (intro exI [of _ "{}"]) (auto simp: sweepRawBodies_loop.simps)
  next
    case empty
    then have "err = None" "db' = db" using "1.prems" by (auto simp: sweepRawBodies_loop.simps)
    moreover have "\<not> (payload_due db p now d \<and> after < wd_id d)" if "d \<in> set (webhook_deliveries db)" for d
      using page_reaches(2) [OF "1.prems"(1,2) that, of p now after] empty(2) by auto
    ultimately show ?thesis using none by (intro exI [of _ "{}"]) auto
  next
    case short
    then have "err = None" "db' = snd ?r" using "1.prems" by (auto simp: sweepRawBodies_loop.simps Let_def)
    then show ?thesis using page_swept [OF "1.prems"(1)] sweep_page_items short
        page_reaches(1) [OF "1.prems"(1,2)]
      by (intro exI [of _ "rb_id ` set ?b"]) fastforce
  next
    case more
    let ?db1 = "snd ?r" and ?last = "rb_id (last ?b)" and ?S = "rb_id ` set ?b"
    have page: "webhook_deliveries ?db1 = map (swept db p now ?S) (webhook_deliveries db)"
      by (rule page_swept [OF "1.prems"(1)])
    have items: "work_items ?db1 = work_items db" by (rule sweep_page_items)
    have "distinct (map wd_id (webhook_deliveries ?db1))" using "1.prems"(1) by (simp add: page o_def)
    moreover have "sweepRawBodies_loop yield p now (Suc k) ?last (fst ?r) ?db1 = (err, res', db')"
      using "1.prems"(3) more by (simp add: sweepRawBodies_loop.simps [of yield p now k] Let_def)
    ultimately obtain S where S: "webhook_deliveries db' = map (swept ?db1 p now S) (webhook_deliveries ?db1)"
        "work_items db' = work_items ?db1"
        "err = None \<Longrightarrow> d \<in> set (webhook_deliveries ?db1) \<Longrightarrow> payload_due ?db1 p now d \<Longrightarrow> ?last < wd_id d \<Longrightarrow> wd_id d \<in> S"
        "(\<forall>k. \<not> yield k) \<longrightarrow> err = None" for d
      using "1.IH" [OF more(1) refl more(2) refl more(3) _ "1.prems"(2)] by blast
    have "wd_id d \<in> ?S \<union> S"
      if "err = None" "d \<in> set (webhook_deliveries db)" "payload_due db p now d" "after < wd_id d" for d
    proof (rule ccontr)
      assume no: "wd_id d \<notin> ?S \<union> S"
      then have "?last < wd_id d" using page_reaches(3) [OF "1.prems"(1,2) that(2,3,4)] by simp
      moreover have same: "swept db p now ?S d = d" using no by (simp add: swept_def)
      then have "d \<in> set (webhook_deliveries ?db1)" using that(2) unfolding page by force
      moreover have "payload_due ?db1 p now d" using that(3) due_same(1) [OF items] by simp
      ultimately show False using S(3) [OF that(1)] no by simp
    qed
    moreover have "webhook_deliveries db' = map (swept db p now (?S \<union> S)) (webhook_deliveries db)"
      unfolding S(1) page by (simp add: swept_swept [OF items])
    ultimately show ?thesis using S(2,4) items by (intro exI [of _ "?S \<union> S"]) auto
  qed
qed

subsection \<open>The loop over the dedup keys\<close>

lemma dedup_same:
  assumes "work_items db' = work_items db"
  shows "dedup_guard db' a now d = dedup_guard db a now d"
  using finished_same [OF assms refl] by (simp add: dedup_guard_def)

lemma delete_rows:
  "webhook_deliveries (snd (deleteDedupBatch ids a now db))
     = filter (\<lambda>d. \<not> (dedup_guard db a now d \<and> wd_id d \<in> set ids)) (webhook_deliveries db)"
  "work_items (snd (deleteDedupBatch ids a now db)) = work_items db"
  "fst (deleteDedupBatch ids a now db)
     = int (length (webhook_deliveries db)) - int (length (webhook_deliveries (snd (deleteDedupBatch ids a now db))))"
  using sum_length_filter_compl [of "\<lambda>d. wd_id d \<in> set ids \<and> dedup_guard db a now d" "webhook_deliveries db"]
  by (auto simp: deleteDedupBatch_def Let_def count_where_def intro!: filter_cong)

lemma dedup_reaches:
  assumes "0 < limit" "d \<in> set (webhook_deliveries db)" "dedup_guard db a now d" "after < wd_id d"
    "wd_id d \<notin> set (walkDedupCandidates limit after a now db)"
  shows "int (length (walkDedupCandidates limit after a now db)) = limit"
    "walkDedupCandidates limit after a now db \<noteq> []"
    "last (walkDedupCandidates limit after a now db) < wd_id d"
proof -
  let ?ys = "sort_key wd_id (filter (\<lambda>d. after < wd_id d \<and> dedup_guard db a now d) (webhook_deliveries db))"
  have d: "d \<in> set ?ys" using assms(2,3,4) by simp
  have w: "walkDedupCandidates limit after a now db = map wd_id (sql_limit limit ?ys)"
    by (simp add: walkDedupCandidates_def)
  have notin: "d \<notin> set (sql_limit limit ?ys)" using assms(5) unfolding w by auto
  have "sorted (map wd_id ?ys)" by simp
  note * = sorted_limit [OF this assms(1) d notin]
  show "int (length (walkDedupCandidates limit after a now db)) = limit"
    "walkDedupCandidates limit after a now db \<noteq> []" using * by (simp_all add: w)
  have "last (walkDedupCandidates limit after a now db) \<le> wd_id d" using *(2,3) by (simp add: w last_map)
  moreover have "last (walkDedupCandidates limit after a now db) \<noteq> wd_id d"
    using assms(5) last_in_set *(2) w by (metis map_is_Nil_conv)
  ultimately show "last (walkDedupCandidates limit after a now db) < wd_id d" by simp
qed

lemma sweepDedup_spec:
  fixes p :: RetentionPolicy
  assumes "0 < rp_Batch p" "sweepDedup_loop yield p now k after res db = (err, res', db')"
  shows "\<exists>S. webhook_deliveries db' = filter (\<lambda>d. \<not> (dedup_guard db (now - rp_DedupWindow p) now d \<and> wd_id d \<in> S)) (webhook_deliveries db)
     \<and> work_items db' = work_items db
     \<and> (err = None \<longrightarrow> (\<forall>d \<in> set (webhook_deliveries db). dedup_guard db (now - rp_DedupWindow p) now d \<and> after < wd_id d \<longrightarrow> wd_id d \<in> S))
     \<and> ((\<forall>k. \<not> yield k) \<longrightarrow> err = None)
     \<and> DeliveriesRemoved res' = DeliveriesRemoved res + int (length (webhook_deliveries db)) - int (length (webhook_deliveries db'))
     \<and> RawBodiesExpired res' = RawBodiesExpired res"
  using assms
proof (induction yield p now k after res db rule: sweepDedup_loop.induct)
  case (1 yield p now k after res db)
  let ?ids = "walkDedupCandidates (rp_Batch p) after (now - rp_DedupWindow p) now db"
  let ?r = "deleteDedupBatch ?ids (now - rp_DedupWindow p) now db"
  let ?res = "res\<lparr>DeliveriesRemoved := DeliveriesRemoved res + fst ?r, Batches := Batches res + 1\<rparr>"
  consider (stop) "yield k" | (empty) "\<not> yield k" "?ids = []"
    | (short) "\<not> yield k" "?ids \<noteq> []" "int (length ?ids) < rp_Batch p"
    | (more) "\<not> yield k" "?ids \<noteq> []" "\<not> int (length ?ids) < rp_Batch p" by blast
  then show ?case
  proof cases
    case stop
    then show ?thesis using "1.prems" by (intro exI [of _ "{}"]) (auto simp: sweepDedup_loop.simps)
  next
    case empty
    then have "err = None" "db' = db" "res' = res" using "1.prems" by (auto simp: sweepDedup_loop.simps)
    moreover have "\<not> (dedup_guard db (now - rp_DedupWindow p) now d \<and> after < wd_id d)" if "d \<in> set (webhook_deliveries db)" for d
      using dedup_reaches(2) [OF "1.prems"(1) that, of "now - rp_DedupWindow p" now after] empty(2) by auto
    ultimately show ?thesis by (intro exI [of _ "{}"]) auto
  next
    case short
    then have "err = None" "db' = snd ?r" "res' = ?res" using "1.prems" by (auto simp: sweepDedup_loop.simps Let_def)
    then show ?thesis using delete_rows short dedup_reaches(1) [OF "1.prems"(1)]
      by (intro exI [of _ "set ?ids"]) fastforce
  next
    case more
    let ?db1 = "snd ?r" and ?last = "last ?ids"
    note del = delete_rows [of ?ids "now - rp_DedupWindow p" now db]
    have "sweepDedup_loop yield p now (Suc k) ?last ?res ?db1 = (err, res', db')"
      using "1.prems"(2) more by (simp add: sweepDedup_loop.simps [of yield p now k] Let_def)
    then obtain S where S: "webhook_deliveries db' = filter (\<lambda>d. \<not> (dedup_guard ?db1 (now - rp_DedupWindow p) now d \<and> wd_id d \<in> S)) (webhook_deliveries ?db1)"
        "work_items db' = work_items ?db1"
        "err = None \<Longrightarrow> d \<in> set (webhook_deliveries ?db1) \<Longrightarrow> dedup_guard ?db1 (now - rp_DedupWindow p) now d \<Longrightarrow> ?last < wd_id d \<Longrightarrow> wd_id d \<in> S"
        "(\<forall>k. \<not> yield k) \<longrightarrow> err = None"
        "DeliveriesRemoved res' = DeliveriesRemoved ?res + int (length (webhook_deliveries ?db1)) - int (length (webhook_deliveries db'))"
        "RawBodiesExpired res' = RawBodiesExpired ?res" for d
      using "1.IH" [OF more(1) refl more(2) refl refl more(3) "1.prems"(1)] by blast
    have guard: "dedup_guard ?db1 (now - rp_DedupWindow p) now d = dedup_guard db (now - rp_DedupWindow p) now d" for d by (rule dedup_same) (rule del)
    have "wd_id d \<in> set ?ids \<union> S"
      if "err = None" "d \<in> set (webhook_deliveries db)" "dedup_guard db (now - rp_DedupWindow p) now d" "after < wd_id d" for d
    proof (rule ccontr)
      assume no: "wd_id d \<notin> set ?ids \<union> S"
      then have "?last < wd_id d" using dedup_reaches(3) [OF "1.prems"(1) that(2,3,4)] by simp
      moreover have "d \<in> set (webhook_deliveries ?db1)" using that(2) no del(1) by simp
      ultimately show False using S(3) [OF that(1)] that(3) no guard by simp
    qed
    moreover have "webhook_deliveries db' = filter (\<lambda>d. \<not> (dedup_guard db (now - rp_DedupWindow p) now d \<and> wd_id d \<in> set ?ids \<union> S)) (webhook_deliveries db)"
      unfolding S(1) del(1) guard filter_filter by (rule filter_cong) auto
    ultimately show ?thesis using S(2,4,5,6) del(2,3) by (intro exI [of _ "set ?ids \<union> S"]) auto
  qed
qed

subsection \<open>Counters\<close>

definition payloads :: "work_db \<Rightarrow> int" where
  "payloads db = int (count_where (\<lambda>d. wd_raw_body d \<noteq> None) (webhook_deliveries db))"

lemma count_upd_where:
  assumes "\<And>r. P r \<Longrightarrow> Q r" "\<And>r. P r \<Longrightarrow> \<not> Q (f r)"
  shows "count_where Q (upd_where P f t) + count_where P t = count_where Q t"
  using assms by (induction t) auto

lemma payloads_upd:
  "payloads (upd_deliveries (raw_guard db cutoff now i) (\<lambda>d. d\<lparr>wd_raw_body := None, wd_raw_body_expires_at := Some dl\<rparr>) db)
     = payloads db - int (count_where (raw_guard db cutoff now i) (webhook_deliveries db))"
  using count_upd_where [of "raw_guard db cutoff now i" "\<lambda>d. wd_raw_body d \<noteq> None"
      "\<lambda>d. d\<lparr>wd_raw_body := None, wd_raw_body_expires_at := Some dl\<rparr>" "webhook_deliveries db"]
  by (simp add: payloads_def row_simps raw_guard_def)

lemma expire_rows_count:
  "expire_rows cutoff now cs (expired, retained, freed) db = ((expired', retained', freed'), db') \<Longrightarrow>
     expired' = expired + payloads db - payloads db'"
proof (induction cs arbitrary: expired retained freed db)
  case (Cons x cs)
  obtain c dl where x: "x = (c, dl)" by fastforce
  show ?case using Cons.prems Cons.IH unfolding x by (fastforce simp: Let_def payloads_upd split: if_splits)
qed simp

lemma sweep_page_count:
  "RawBodiesExpired (fst (sweep_page p now batch res db))
     = RawBodiesExpired res + payloads db - payloads (snd (sweep_page p now batch res db))"
  "DeliveriesRemoved (fst (sweep_page p now batch res db)) = DeliveriesRemoved res"
  by (auto simp: sweep_page_def expireRawBodyBatch_def Let_def dest: expire_rows_count split: prod.splits)

lemma sweep_page_count_eq:
  "sweep_page p now batch res db = (res', db') \<Longrightarrow>
     RawBodiesExpired res' = RawBodiesExpired res + payloads db - payloads db' \<and> DeliveriesRemoved res' = DeliveriesRemoved res"
  using sweep_page_count [of p now batch res db] by simp

lemma sweepRawBodies_count:
  "sweepRawBodies_loop yield p now k after res db = (err, res', db') \<Longrightarrow>
     RawBodiesExpired res' = RawBodiesExpired res + payloads db - payloads db' \<and> DeliveriesRemoved res' = DeliveriesRemoved res"
proof (induction yield p now k after res db rule: sweepRawBodies_loop.induct)
  case (1 yield p now k after res db)
  show ?case
    using "1.prems" "1.IH" [OF _ refl _ refl]
    by (subst (asm) sweepRawBodies_loop.simps)
      (auto simp: Let_def sweep_page_count split: if_splits dest!: sweep_page_count_eq)
qed

subsection \<open>The sweep\<close>

lemma batch_pos: "0 < rp_Batch (normalized_policy p)"
  by (simp add: normalized_policy_def DefaultRetentionBatch_def)

lemma swept_core: "delivery_core (swept db p now S d) = delivery_core d"
  by (simp add: swept_def tombstone_def delivery_core_def)

lemma swept_upd: "map (swept db p now S) ds
    = upd_where (\<lambda>d. payload_due db p now d \<and> wd_id d \<in> S) (\<lambda>d. tombstone (deadline p (as_candidate db d)) d) ds"
  by (simp add: upd_where_def swept_def)

lemma Sweep_spec:
  assumes "distinct (map wd_id (webhook_deliveries db))" "Sweep y1 y2 now p db = (err, res, db')"
    "q = normalized_policy p"
  shows "\<exists>S U. webhook_deliveries db' = filter (\<lambda>d. \<not> (dedup_guard db (now - rp_DedupWindow q) now d \<and> wd_id d \<in> U))
                                       (map (swept db q now S) (webhook_deliveries db))
     \<and> work_items db' = work_items db
     \<and> (err = None \<longrightarrow> (\<forall>d \<in> set (webhook_deliveries db). wd_id d \<noteq> '''' \<longrightarrow>
          (payload_due db q now d \<longrightarrow> wd_id d \<in> S) \<and> (dedup_guard db (now - rp_DedupWindow q) now d \<longrightarrow> wd_id d \<in> U)))
     \<and> ((\<forall>k. \<not> y1 k) \<and> (\<forall>k. \<not> y2 k) \<longrightarrow> err = None)
     \<and> RawBodiesExpired res = int (count_where (\<lambda>d. payload_due db q now d \<and> wd_id d \<in> S) (webhook_deliveries db))
     \<and> DeliveriesRemoved res = int (length (webhook_deliveries db)) - int (length (webhook_deliveries db'))"
proof -
  obtain e1 res1 db1 where r1: "sweepRawBodies y1 q now empty_result db = (e1, res1, db1)" by (metis prod.exhaust)
  note raw = r1 [unfolded sweepRawBodies_def]
  obtain S where S: "webhook_deliveries db1 = map (swept db q now S) (webhook_deliveries db)" "work_items db1 = work_items db"
     "e1 = None \<longrightarrow> (\<forall>d \<in> set (webhook_deliveries db). payload_due db q now d \<and> '''' < wd_id d \<longrightarrow> wd_id d \<in> S)"
     "(\<forall>k. \<not> y1 k) \<longrightarrow> e1 = None"
    using sweepRawBodies_spec [OF assms(1) batch_pos raw [unfolded assms(3)]] unfolding assms(3) by blast
  have gt: "'''' < wd_id d \<longleftrightarrow> wd_id d \<noteq> ''''" for d :: Delivery by (cases "wd_id d") simp_all
  have guard: "dedup_guard db1 a now (swept db q now S d) = dedup_guard db a now d" for a d
    by (rule dedup_guard_core [OF S(2) swept_core])
  have "payloads db1 = payloads db - int (count_where (\<lambda>d. payload_due db q now d \<and> wd_id d \<in> S) (webhook_deliveries db))"
    using count_upd_where [of "\<lambda>d. payload_due db q now d \<and> wd_id d \<in> S" "\<lambda>d. wd_raw_body d \<noteq> None"
        "\<lambda>d. tombstone (deadline q (as_candidate db d)) d" "webhook_deliveries db"]
    unfolding payloads_def S(1) swept_upd by (simp add: payload_due_def tombstone_def)
  with sweepRawBodies_count [OF raw]
  have cnt: "RawBodiesExpired res1 = int (count_where (\<lambda>d. payload_due db q now d \<and> wd_id d \<in> S) (webhook_deliveries db))"
    "DeliveriesRemoved res1 = 0" by (simp_all add: empty_result_def)
  show ?thesis
  proof (cases e1)
    case (Some e)
    then have "err = Some e" "res = res1" "db' = db1" using assms(2,3) r1 by (auto simp: Sweep_def Let_def)
    then show ?thesis using S cnt Some by (intro exI [of _ S] exI [of _ "{}"]) auto
  next
    case None
    then have "sweepDedup_loop y2 q now 0 '''' res1 db1 = (err, res, db')"
      using assms(2,3) r1 by (simp add: Sweep_def Let_def sweepDedup_def)
    from sweepDedup_spec [OF batch_pos this [unfolded assms(3)]]
    obtain U where U: "webhook_deliveries db' = filter (\<lambda>d. \<not> (dedup_guard db1 (now - rp_DedupWindow q) now d \<and> wd_id d \<in> U)) (webhook_deliveries db1)"
       "work_items db' = work_items db1"
       "err = None \<Longrightarrow> d \<in> set (webhook_deliveries db1) \<Longrightarrow> dedup_guard db1 (now - rp_DedupWindow q) now d \<Longrightarrow> '''' < wd_id d \<Longrightarrow> wd_id d \<in> U"
       "(\<forall>k. \<not> y2 k) \<longrightarrow> err = None"
       "DeliveriesRemoved res = DeliveriesRemoved res1 + int (length (webhook_deliveries db1)) - int (length (webhook_deliveries db'))"
       "RawBodiesExpired res = RawBodiesExpired res1" for d
      unfolding assms(3) by blast
    have "dedup_guard db1 a now d = dedup_guard db a now d" for a d by (rule dedup_same [OF S(2)])
    then have rows: "webhook_deliveries db' = filter (\<lambda>d. \<not> (dedup_guard db (now - rp_DedupWindow q) now d \<and> wd_id d \<in> U))
                                       (map (swept db q now S) (webhook_deliveries db))"
      using U(1) S(1) by simp
    have "wd_id d \<in> U" if "err = None" "d \<in> set (webhook_deliveries db)" "dedup_guard db (now - rp_DedupWindow q) now d" "wd_id d \<noteq> ''''" for d
      using U(3) [OF that(1), of "swept db q now S d"] that(2-4) guard gt S(1) by simp
    moreover have "length (webhook_deliveries db1) = length (webhook_deliveries db)" unfolding S(1) by simp
    ultimately show ?thesis
      using rows S(2-4) U(2,4,5,6) cnt None gt by (intro exI [of _ S] exI [of _ U]) auto
  qed
qed

subsection \<open>Properties of the sweep\<close>

text \<open>
  C38. Live work keeps its payload: whatever operations and sweep batches run, with whatever stale
  candidates, a delivery whose work is not terminal at the end is still there, unchanged, raw body
  included.
\<close>

theorem live_payload_survives:
  assumes "db = run_commands cs empty_db" "d \<in> set (webhook_deliveries db)"
    "\<not> finished_delivery (run_commands cs' db) d"
  shows "d \<in> set (webhook_deliveries (run_commands cs' db))"
  using live_row_stays [OF _ assms(2,3)] reachable_good assms(1) by simp

definition demo_sweeps :: "command list" where
  "demo_sweeps = [DoExpireBatch DefaultRetentionPolicy (100 * DefaultDedupWindow)
       [(\<lparr>rb_id = ''d1'', rb_bodyBytes = 5, rb_terminalRef = 0, rb_explicitExpiry = None\<rparr>, 0)],
     DoDedupBatch DefaultRetentionPolicy (100 * DefaultDedupWindow) [''d1'']]"

theorem live_payload_survives_witness:
  "\<exists>d. d \<in> set (webhook_deliveries (run_commands demo_sweeps (run_commands demo_delivered empty_db)))
     \<and> wd_raw_body d = Some ''hello''"
proof -
  have "list_ex (\<lambda>d. \<not> finished_delivery (run_commands demo_sweeps (run_commands demo_delivered empty_db)) d
          \<and> wd_raw_body d = Some ''hello'') (webhook_deliveries (run_commands demo_delivered empty_db))" by code_simp
  then obtain d where "d \<in> set (webhook_deliveries (run_commands demo_delivered empty_db))" "wd_raw_body d = Some ''hello''"
      "\<not> finished_delivery (run_commands demo_sweeps (run_commands demo_delivered empty_db)) d"
    by (auto simp: list_ex_iff)
  then show ?thesis using live_payload_survives [OF refl] by blast
qed

text \<open>
  Nothing goes before its window.  A delivery a sweep meets is left as it is; or its work is
  finished, its retention and its own expiry have passed, and in its place is a tombstone that
  \<open>PayloadStatus\<close> reads as expired at the enforced deadline; or the row is gone, and then its work
  is finished, its dedup expiry has passed and it was received a full window ago.
\<close>

theorem sweep_respects_windows:
  assumes "db = run_commands cs empty_db" "Sweep y1 y2 now p db = (err, res, db')"
    "d \<in> set (webhook_deliveries db)" "q = normalized_policy p"
  shows "d \<in> set (webhook_deliveries db')
     \<or> finished_delivery db d \<and> retention_ref db d + rp_RawBodyAfterTerminal q \<le> now
         \<and> PayloadStatus_of db' (wd_id d) = Inr \<lparr>dp_DeliveryID = wd_id d, dp_Status = PayloadExpired,
             dp_ExpiredAt = Some (deadline q (as_candidate db d)), dp_BodyBytes = wd_body_bytes d\<rparr>
         \<and> deadline q (as_candidate db d) \<le> now
     \<or> finished_delivery db d \<and> wd_dedup_expires_at d \<le> now \<and> wd_received_at d + rp_DedupWindow q \<le> now
         \<and> PayloadStatus_of db' (wd_id d) = Inl ErrNotFound"
proof -
  have ids: "distinct (map wd_id (webhook_deliveries db))"
    using reachable_ok assms(1) by (simp add: deliveries_ok_def)
  obtain S U where rows: "webhook_deliveries db' = filter (\<lambda>d. \<not> (dedup_guard db (now - rp_DedupWindow q) now d \<and> wd_id d \<in> U))
                                       (map (swept db q now S) (webhook_deliveries db))"
    using Sweep_spec [OF ids assms(2,4)] by blast
  have ids': "distinct (map wd_id (webhook_deliveries db'))"
    unfolding rows by (rule distinct_map_filter_key) (use ids in \<open>simp add: o_def\<close>)
  let ?d = "swept db q now S d"
  have guard: "dedup_guard db a now ?d = dedup_guard db a now d" for a by (rule dedup_guard_core [OF refl swept_core])
  have row: "delivery_row db' (wd_id d) = Some e" if "e \<in> set (webhook_deliveries db')" "wd_id e = wd_id d" for e
    using deliveries.find_key_iff [OF ids', of "wd_id d" e] that by (simp add: delivery_row_def)
  show ?thesis
  proof (cases "dedup_guard db (now - rp_DedupWindow q) now d \<and> wd_id d \<in> U")
    case True
    have "e \<notin> set (webhook_deliveries db')" if "wd_id e = wd_id d" for e
    proof
      assume "e \<in> set (webhook_deliveries db')"
      then obtain x where x: "x \<in> set (webhook_deliveries db)" "e = swept db q now S x"
          "\<not> (dedup_guard db (now - rp_DedupWindow q) now e \<and> wd_id e \<in> U)" unfolding rows by auto
      then have "x = d" using that assms(3) deliveries.key_unique [OF ids] by simp
      then show False using x True guard by simp
    qed
    then have "delivery_row db' (wd_id d) = None"
      unfolding delivery_row_def deliveries.find_key_None by blast
    then show ?thesis using True by (simp add: dedup_guard_def PayloadStatus_of_def)
  next
    case False
    then have in': "?d \<in> set (webhook_deliveries db')" unfolding rows using assms(3) guard by simp
    show ?thesis
    proof (cases "payload_due db q now d \<and> wd_id d \<in> S")
      case True
      then have d: "?d = tombstone (deadline q (as_candidate db d)) d" by (simp add: swept_def)
      have "PayloadStatus_of db' (wd_id d) = Inr \<lparr>dp_DeliveryID = wd_id d, dp_Status = PayloadExpired,
             dp_ExpiredAt = Some (deadline q (as_candidate db d)), dp_BodyBytes = wd_body_bytes d\<rparr>"
        using row [OF in'] by (simp add: PayloadStatus_of_def d payload_of_def tombstone_def)
      then show ?thesis using True by (simp add: payload_due_def deadline_le as_candidate_def)
    next
      case False
      then show ?thesis using in' by (auto simp: swept_def)
    qed
  qed
qed

text \<open>A delivered and finished item, and an instant when its payload and its key are both due.\<close>

definition demo_finished :: "command list" where
  "demo_finished = demo_delivered @ [DoRequestCancel 20 ''w1'' ''u'' ''stop'']"

definition demo_late :: time where
  "demo_late = 2 * DefaultDedupWindow"

theorem sweep_respects_windows_witness:
  "\<exists>err res db'. Sweep (\<lambda>k. 0 < k) (\<lambda>_. True) demo_late DefaultRetentionPolicy (run_commands demo_finished empty_db)
       = (err, res, db')
     \<and> (\<exists>d \<in> set (webhook_deliveries (run_commands demo_finished empty_db)).
          d \<in> set (webhook_deliveries db') \<or> finished_delivery (run_commands demo_finished empty_db) d)"
proof -
  obtain err res db' where s: "Sweep (\<lambda>k. 0 < k) (\<lambda>_. True) demo_late DefaultRetentionPolicy
       (run_commands demo_finished empty_db) = (err, res, db')" by (metis prod.exhaust)
  have "list_ex (\<lambda>d. True) (webhook_deliveries (run_commands demo_finished empty_db))" by code_simp
  then obtain d where "d \<in> set (webhook_deliveries (run_commands demo_finished empty_db))" by (auto simp: list_ex_iff)
  then show ?thesis using sweep_respects_windows [OF refl s _ refl] s by blast
qed

text \<open>
  A sweep that is not interrupted returns, reports no error, and leaves nothing due: no stored
  payload of finished work is past its deadline and no delivery is past both its windows (every
  delivery the code writes has a non-empty identifier).
\<close>

theorem sweep_leaves_nothing_due:
  assumes "db = run_commands cs empty_db" "q = normalized_policy p"
  shows "\<exists>res db'. Sweep (\<lambda>_. False) (\<lambda>_. False) now p db = (None, res, db')
     \<and> (\<forall>d \<in> set (webhook_deliveries db'). wd_id d = '''' \<or>
          \<not> payload_due db' q now d \<and> \<not> dedup_guard db' (now - rp_DedupWindow q) now d)"
proof -
  have ids: "distinct (map wd_id (webhook_deliveries db))"
    using reachable_ok assms(1) by (simp add: deliveries_ok_def)
  obtain err res db' where s: "Sweep (\<lambda>_. False) (\<lambda>_. False) now p db = (err, res, db')" by (metis prod.exhaust)
  obtain S U where *: "webhook_deliveries db' = filter (\<lambda>d. \<not> (dedup_guard db (now - rp_DedupWindow q) now d \<and> wd_id d \<in> U))
                                       (map (swept db q now S) (webhook_deliveries db))"
     "work_items db' = work_items db" "err = None"
     "\<And>d. d \<in> set (webhook_deliveries db) \<Longrightarrow> wd_id d \<noteq> '''' \<Longrightarrow> payload_due db q now d \<Longrightarrow> wd_id d \<in> S"
     "\<And>d. d \<in> set (webhook_deliveries db) \<Longrightarrow> wd_id d \<noteq> '''' \<Longrightarrow> dedup_guard db (now - rp_DedupWindow q) now d \<Longrightarrow> wd_id d \<in> U"
    using Sweep_spec [OF ids s assms(2)] by auto
  have "\<not> payload_due db' q now e \<and> \<not> dedup_guard db' (now - rp_DedupWindow q) now e"
    if e: "e \<in> set (webhook_deliveries db')" and ne: "wd_id e \<noteq> ''''" for e
  proof -
    obtain d where d: "d \<in> set (webhook_deliveries db)" "e = swept db q now S d"
        "\<not> (dedup_guard db (now - rp_DedupWindow q) now e \<and> wd_id e \<in> U)" using e unfolding *(1) by auto
    have "dedup_guard db a now e = dedup_guard db a now d" for a
      unfolding d(2) by (rule dedup_guard_core [OF refl swept_core])
    then have "\<not> dedup_guard db (now - rp_DedupWindow q) now e" using d ne *(5) [OF d(1)] by auto
    moreover have "\<not> payload_due db q now e"
    proof
      assume due: "payload_due db q now e"
      then have "e = d" using d(2) by (auto simp: swept_def payload_due_def tombstone_def split: if_splits)
      then have "swept db q now S d = tombstone (deadline q (as_candidate db d)) d"
        using due ne *(4) [OF d(1)] by (simp add: swept_def)
      then show False using due d(2) by (simp add: payload_due_def tombstone_def)
    qed
    ultimately show ?thesis by (simp add: due_same [OF *(2)] dedup_same [OF *(2)])
  qed
  then show ?thesis using s *(3) by blast
qed

theorem sweep_leaves_nothing_due_witness:
  "\<exists>res db'. Sweep (\<lambda>_. False) (\<lambda>_. False) demo_late DefaultRetentionPolicy (run_commands demo_finished empty_db)
       = (None, res, db')"
  using sweep_leaves_nothing_due [OF refl refl, of demo_late DefaultRetentionPolicy demo_finished] by blast

text \<open>
  The counters of a sweep count: \<open>RawBodiesExpired\<close> is the number of due payloads, and
  \<open>DeliveriesRemoved\<close> the number of rows the table lost.
\<close>

theorem sweep_counts:
  assumes "db = run_commands cs empty_db" "q = normalized_policy p"
    "\<forall>d \<in> set (webhook_deliveries db). wd_id d \<noteq> ''''"
    "Sweep y1 y2 now p db = (None, res, db')"
  shows "RawBodiesExpired res = int (count_where (payload_due db q now) (webhook_deliveries db))
     \<and> DeliveriesRemoved res = int (length (webhook_deliveries db)) - int (length (webhook_deliveries db'))"
proof -
  have ids: "distinct (map wd_id (webhook_deliveries db))"
    using reachable_ok assms(1) by (simp add: deliveries_ok_def)
  obtain S :: "string set" where S: "\<And>d. d \<in> set (webhook_deliveries db) \<Longrightarrow> payload_due db q now d \<Longrightarrow> wd_id d \<in> S"
     "RawBodiesExpired res = int (count_where (\<lambda>d. payload_due db q now d \<and> wd_id d \<in> S) (webhook_deliveries db))"
     "DeliveriesRemoved res = int (length (webhook_deliveries db)) - int (length (webhook_deliveries db'))"
    using Sweep_spec [OF ids assms(4,2)] assms(3) by auto
  have "filter (\<lambda>d. payload_due db q now d \<and> wd_id d \<in> S) (webhook_deliveries db)
      = filter (payload_due db q now) (webhook_deliveries db)" using S(1) by (intro filter_cong) auto
  then show ?thesis using S(2,3) by (simp add: count_where_def)
qed

definition demo_sweep :: "work_error option \<times> SweepResult \<times> work_db" where
  "demo_sweep = Sweep (\<lambda>_. False) (\<lambda>_. False) demo_late DefaultRetentionPolicy (run_commands demo_finished empty_db)"

theorem sweep_counts_witness:
  "\<exists>res db'. demo_sweep = (None, res, db') \<and> RawBodiesExpired res = 1 \<and> DeliveriesRemoved res = 1"
proof -
  have "case demo_sweep of (e, res, db') \<Rightarrow> e = None \<and> length (webhook_deliveries db') = 0" by code_simp
  then obtain res db' where s: "demo_sweep = (None, res, db')" "length (webhook_deliveries db') = 0"
    by (auto split: prod.splits)
  have "list_all (\<lambda>d. wd_id d \<noteq> '''') (webhook_deliveries (run_commands demo_finished empty_db))" by code_simp
  then have ids: "\<forall>d \<in> set (webhook_deliveries (run_commands demo_finished empty_db)). wd_id d \<noteq> ''''"
    by (simp add: list_all_iff)
  have "count_where (payload_due (run_commands demo_finished empty_db) (normalized_policy DefaultRetentionPolicy) demo_late)
      (webhook_deliveries (run_commands demo_finished empty_db)) = 1"
    "length (webhook_deliveries (run_commands demo_finished empty_db)) = 1" by code_simp+
  then have "RawBodiesExpired res = 1 \<and> DeliveriesRemoved res = 1"
    using sweep_counts [OF refl refl ids s(1) [unfolded demo_sweep_def]] s(2) by simp
  then show ?thesis using s(1) by blast
qed

text \<open>
  A row due on both counts is counted on both, once as an expired payload and once as a removal,
  although the comment on \<open>Sweep\<close> says that its order counts such a row once, as a removal.
\<close>

lemma due_twice_counted_twice:
  "case demo_sweep of (err, res, db') \<Rightarrow> err = None \<and> RawBodiesExpired res = 1 \<and> DeliveriesRemoved res = 1"
  by code_simp

subsection \<open>A sweep as a schedule\<close>

fun batch_of :: "RetentionPolicy \<Rightarrow> time \<Rightarrow> command \<Rightarrow> bool" where
  "batch_of p now (DoExpireBatch q t _) \<longleftrightarrow> q = p \<and> t = now"
| "batch_of p now (DoDedupBatch q t _) \<longleftrightarrow> q = p \<and> t = now"
| "batch_of p now _ \<longleftrightarrow> False"

lemma page_command:
  "\<exists>cs. list_all (batch_of p now) cs \<and> snd (sweep_page (normalized_policy p) now batch res db) = run_commands cs db"
proof (cases "filter (\<lambda>c. \<not> deadline (normalized_policy p) c > now) batch = []")
  case True
  then show ?thesis
    by (intro exI [of _ "[]"]) (simp only: sweep_page_def Let_def, simp add: run_commands_def)
next
  case False
  let ?due = "filter (\<lambda>c. \<not> deadline (normalized_policy p) c > now) batch"
  show ?thesis using False
    by (intro exI [of _ "[DoExpireBatch p now (map (\<lambda>c. (c, deadline (normalized_policy p) c)) ?due)]"])
      (simp add: run_commands_def sweep_page_def Let_def expireRawBodyBatch_db)
qed

lemma batches_then:
  assumes "list_all (batch_of p now) xs" "db1 = run_commands xs db"
    "\<exists>ys. list_all (batch_of p now) ys \<and> db' = run_commands ys db1"
  shows "\<exists>cs. list_all (batch_of p now) cs \<and> db' = run_commands cs db"
  using assms run_commands_append by (metis list_all_append)

lemma raw_batches:
  "\<exists>cs. list_all (batch_of p now) cs
     \<and> snd (snd (sweepRawBodies_loop yield (normalized_policy p) now k after res db)) = run_commands cs db"
proof (induction yield "normalized_policy p" now k after res db rule: sweepRawBodies_loop.induct)
  case (1 yield now k after res db)
  let ?b = "walkRawBodyCandidates (rp_Batch (normalized_policy p)) after db"
  have nil: "\<exists>cs. list_all (batch_of p now) cs \<and> db = run_commands cs db"
    by (intro exI [of _ "[]"]) (simp add: run_commands_def)
  obtain xs where xs: "list_all (batch_of p now) xs" "snd (sweep_page (normalized_policy p) now ?b res db) = run_commands xs db"
    using page_command by blast
  show ?case
    using "1.hyps" [OF _ refl _ refl] nil xs batches_then [OF xs(1) xs(2)]
    by (subst sweepRawBodies_loop.simps) (auto simp: Let_def)
qed

lemma dedup_batches:
  "\<exists>cs. list_all (batch_of p now) cs
     \<and> snd (snd (sweepDedup_loop yield (normalized_policy p) now k after res db)) = run_commands cs db"
proof (induction yield "normalized_policy p" now k after res db rule: sweepDedup_loop.induct)
  case (1 yield now k after res db)
  let ?q = "normalized_policy p"
  let ?ids = "walkDedupCandidates (rp_Batch ?q) after (now - rp_DedupWindow ?q) now db"
  have nil: "\<exists>cs. list_all (batch_of p now) cs \<and> db = run_commands cs db"
    by (intro exI [of _ "[]"]) (simp add: run_commands_def)
  obtain xs where one: "list_all (batch_of p now) xs"
      "snd (deleteDedupBatch ?ids (now - rp_DedupWindow ?q) now db) = run_commands xs db"
    by (rule that [of "[DoDedupBatch p now ?ids]"]) (simp_all add: run_commands_def)
  show ?case
    using "1.hyps" [OF _ refl _ refl refl] nil one batches_then [OF one]
    by (subst sweepDedup_loop.simps) (auto simp: Let_def)
qed

text \<open>
  A sweep is a schedule of batches: for some list of raw-body and dedup batches of the same
  policy and instant, it leaves the database those batches leave, so everything proved of
  schedules holds across sweeps.
\<close>

theorem sweep_is_batches:
  "\<exists>cs. list_all (batch_of p now) cs \<and> snd (snd (Sweep y1 y2 now p db)) = run_commands cs db"
proof -
  obtain e res db1 where r: "sweepRawBodies y1 (normalized_policy p) now empty_result db = (e, res, db1)"
    by (metis prod.exhaust)
  then obtain xs where xs: "list_all (batch_of p now) xs" "db1 = run_commands xs db"
    using raw_batches [of p now y1 0 "''''" empty_result db] by (auto simp: sweepRawBodies_def)
  show ?thesis
    using r xs dedup_batches [of p now y2 0 "''''" res db1] batches_then [OF xs]
    by (cases e) (auto simp: Sweep_def Let_def sweepDedup_def)
qed

end
