(* ===== verification/Work_Attempts.thy ===== *)
theory Work_Attempts
  imports Work_Deliveries
begin

text \<open>
  What becomes of an attempt over time.  A confirmed outcome (\<open>run_status\<close>) belongs to an ended
  attempt and is written once, with the reason beside it; a staged result is overwritten only before
  the outcome is confirmed; the runtime phase only advances, and not after the end; a projection is
  acknowledged once.  These are the promises of \<^verbatim>\<open>run_results.go\<close>, \<^verbatim>\<open>retained_result.go\<close> and the
  phase guards of \<^verbatim>\<open>transition.go\<close>, shown for every schedule of operations.
\<close>

fun phase_rank :: "RuntimePhase \<Rightarrow> nat" where
  "phase_rank runtimePhasePlanned = 0"
| "phase_rank runtimePhaseStarting = 1"
| "phase_rank runtimePhaseRequested = 2"
| "phase_rank runtimePhaseConfirmed = 3"

definition outcome_ok :: "Attempt \<Rightarrow> bool" where
  "outcome_ok a \<longleftrightarrow> (wa_run_status a \<noteq> '''' \<longrightarrow> wa_ended_at a \<noteq> None)"

definition attempt_kept :: "Attempt \<Rightarrow> Attempt \<Rightarrow> bool" where
  "attempt_kept a b \<longleftrightarrow>
     wa_run_id b = wa_run_id a \<and> wa_work_id b = wa_work_id a \<and> wa_generation b = wa_generation a
   \<and> phase_rank (wa_runtime_phase a) \<le> phase_rank (wa_runtime_phase b)
   \<and> (wa_ended_at a \<noteq> None \<longrightarrow> wa_ended_at b \<noteq> None \<and> wa_runtime_phase b = wa_runtime_phase a)
   \<and> (wa_run_result a \<noteq> None \<longrightarrow> wa_run_result b \<noteq> None)
   \<and> (wa_run_status a \<noteq> '''' \<longrightarrow> wa_run_status b = wa_run_status a \<and> wa_end_reason b = wa_end_reason a
        \<and> (wa_run_result a \<noteq> None \<longrightarrow> wa_run_result b = wa_run_result a))
   \<and> (wa_run_projected_at a \<noteq> None \<longrightarrow> wa_run_projected_at b = wa_run_projected_at a)
   \<and> (wa_cancel_requested_at a \<noteq> None \<longrightarrow> wa_cancel_requested_at b = wa_cancel_requested_at a)"

definition attempt_later :: "Attempt \<Rightarrow> Attempt \<Rightarrow> bool" where
  "attempt_later a b \<longleftrightarrow> (outcome_ok a \<longrightarrow> outcome_ok b \<and> attempt_kept a b)"

lemma attempt_kept_refl [simp]: "attempt_kept a a"
  by (simp add: attempt_kept_def)

lemma attempt_kept_trans: "attempt_kept a b \<Longrightarrow> attempt_kept b c \<Longrightarrow> attempt_kept a c"
  unfolding attempt_kept_def by (intro conjI impI; elim conjE) simp_all

lemma attempt_later_refl [simp]: "attempt_later a a"
  by (simp add: attempt_later_def)

lemma attempt_later_trans: "attempt_later a b \<Longrightarrow> attempt_later b c \<Longrightarrow> attempt_later a c"
  unfolding attempt_later_def using attempt_kept_trans [of a b c] by blast

definition attempts_later :: "work_db \<Rightarrow> work_db \<Rightarrow> bool" where
  "attempts_later db db' \<longleftrightarrow> (\<exists>as ns. work_attempts db' = as @ ns
     \<and> list_all2 attempt_later (work_attempts db) as \<and> (\<forall>n \<in> set ns. outcome_ok n))"

lemma attempts_laterI:
  "work_attempts db' = as @ ns \<Longrightarrow> list_all2 attempt_later (work_attempts db) as
    \<Longrightarrow> (\<And>n. n \<in> set ns \<Longrightarrow> outcome_ok n) \<Longrightarrow> attempts_later db db'"
  unfolding attempts_later_def by blast

lemma attempts_later_same: "work_attempts db' = work_attempts db \<Longrightarrow> attempts_later db db'"
  by (rule attempts_laterI [where ns = "[]"]) (auto simp: list_all2_refl)

lemma attempts_later_refl [simp]: "attempts_later db db"
  by (rule attempts_later_same) simp

lemma later_split:
  assumes "list_all2 attempt_later (as @ ns) bs" "\<forall>n \<in> set ns. outcome_ok n"
  obtains bs1 bs2 where "bs = bs1 @ bs2" "list_all2 attempt_later as bs1" "\<forall>n \<in> set bs2. outcome_ok n"
proof -
  obtain bs1 bs2 where bs: "bs = bs1 @ bs2" "list_all2 attempt_later as bs1" "list_all2 attempt_later ns bs2"
    using assms(1) by (auto simp: list_all2_append1)
  have "outcome_ok n" if "n \<in> set bs2" for n
    using bs(3) assms(2) that by (induction rule: list_all2_induct) (auto simp: attempt_later_def)
  then show thesis using that bs by blast
qed

lemma attempts_later_trans:
  assumes "attempts_later a b" "attempts_later b c"
  shows "attempts_later a c"
proof -
  obtain as ns where b: "work_attempts b = as @ ns" "list_all2 attempt_later (work_attempts a) as"
      "\<forall>n \<in> set ns. outcome_ok n"
    using assms(1) by (auto simp: attempts_later_def)
  obtain bs ms where c: "work_attempts c = bs @ ms" "list_all2 attempt_later (as @ ns) bs" "\<forall>n \<in> set ms. outcome_ok n"
    using assms(2) b(1) by (auto simp: attempts_later_def)
  obtain bs1 bs2 where s: "bs = bs1 @ bs2" "list_all2 attempt_later as bs1" "\<forall>n \<in> set bs2. outcome_ok n"
    by (rule later_split [OF c(2) b(3)])
  have "list_all2 attempt_later (work_attempts a) bs1"
    by (rule list_all2_trans [OF attempt_later_trans b(2) s(2)])
  then show ?thesis by (rule attempts_laterI [rotated, where ns = "bs2 @ ms"]) (use c s in auto)
qed

lemma attempts_later_writes [simp]:
  "attempts_later db (upd_items P f db') = attempts_later db db'"
  "attempts_later db (appendEventTx w from to r gen s at db') = attempts_later db db'"
  "attempts_later db (setStateTx it st r gen s at db') = attempts_later db db'"
  by (simp_all add: attempts_later_def row_simps)

lemma attempts_later_upd:
  assumes "attempts_later db db'" "\<And>a. P a \<Longrightarrow> outcome_ok a \<Longrightarrow> attempt_later a (g a)"
  shows "attempts_later db (upd_attempts P g db')"
proof (rule attempts_later_trans [OF assms(1)])
  have "attempt_later a (if P a then g a else a)" for a
    using assms(2) [of a] by (cases "outcome_ok a") (auto simp: attempt_later_def)
  then have "list_all2 attempt_later as (upd_where P g as)" for as
    by (simp add: upd_where_def list_all2_conv_all_nth)
  then show "attempts_later db' (upd_attempts P g db')"
    by (intro attempts_laterI [where ns = "[]"]) (auto simp: row_simps)
qed

lemma attempts_later_insert:
  assumes "insert_attempt a db1 = Inr db2" "outcome_ok a" "attempts_later db db1"
  shows "attempts_later db db2"
proof (rule attempts_later_trans [OF assms(3)])
  show "attempts_later db1 db2"
    using assms(1,2) by (intro attempts_laterI [where as = "work_attempts db1" and ns = "[a]"])
      (auto simp: insert_attempt_def list_all2_refl split: if_splits)
qed

lemma attempts_later_in_tx:
  "(\<And>x db'. r = Inr (x, db') \<Longrightarrow> attempts_later db db') \<Longrightarrow> attempts_later db (snd (in_tx db r))"
  by (cases rule: in_tx_cases [of r db]) auto

subsection \<open>Every operation\<close>

lemma later_recover: "recover_loop now es out db = Inr (r, db') \<Longrightarrow> attempts_later db db'"
proof (induction es arbitrary: out db)
  case (Cons e es)
  then obtain it out' where "recover_loop now es out' (recover_one now e it db) = Inr (r, db')"
    by (auto split: sum.splits)
  then have "attempts_later (recover_one now e it db) db'" by (rule Cons.IH)
  then show ?case
    by (rule attempts_later_trans [rotated])
      (auto simp: recover_one_def Let_def attempt_later_def attempt_kept_def outcome_ok_def intro!: attempts_later_upd)
qed simp

lemma later_expire_all: "attempts_later db (expire_all now its db)"
proof (induction its arbitrary: db)
  case (Cons it its)
  show ?case by (simp, rule attempts_later_trans [OF _ Cons]) simp
qed simp

lemma new_attempt_ok [simp]: "outcome_ok (new_attempt run w seq gen owner now)"
  by (simp add: outcome_ok_def new_attempt_def)

lemma later_start_run:
  "startAttemptWithRunIDTx it owner now newid run db = Inr (c, db') \<Longrightarrow> attempts_later db db'"
  by (auto simp: startAttemptWithRunIDTx_def Let_def split: if_splits sum.splits elim!: attempts_later_insert)

lemma later_start: "startAttemptTx it owner now newid db = Inr (c, db') \<Longrightarrow> attempts_later db db'"
  by (auto simp: startAttemptTx_def intro: later_start_run)

lemma later_claim_loop: "claim_loop lim live owner now newid its db = Inr (c, db') \<Longrightarrow> attempts_later db db'"
  by (induction lim live owner now newid its db rule: claim_loop.induct)
    (auto split: if_splits sum.splits option.splits dest: later_start intro: attempts_later_trans)

lemma later_claimTx: "claimTx now newid opts db = Inr (c, db') \<Longrightarrow> attempts_later db db'"
  using attempts_later_trans [OF later_expire_all later_claim_loop]
  by (auto simp: claimTx_def Let_def expireOverdueTx_def later_expire_all split: option.splits)

lemma later_Claim: "attempts_later db (snd (Claim hint now newid opts db))"
proof -
  have "attempts_later db (snd (in_tx db (claimTx now newid o1 db)))" for o1
    by (rule attempts_later_in_tx) (rule later_claimTx)
  then show ?thesis
    by (auto simp: Claim_def Let_def split: prod.splits sum.splits option.splits) (metis snd_conv)+
qed

lemmas later_attempt_simps = attempt_later_def attempt_kept_def outcome_ok_def bound_row_def

lemma later_cancel: "RequestCancelTx now w who why db = Inr (r, db') \<Longrightarrow> attempts_later db db'"
  by (auto simp: RequestCancelTx_def cancelLiveTx_def Let_def later_attempt_simps
      split: sum.splits if_splits option.splits intro!: attempts_later_upd)

lemma later_worker:
  "transitionTx now rnd req db = Inr (u, db') \<Longrightarrow> attempts_later db db'"
  "markStartingTx w run gen loc db = Inr (u, db') \<Longrightarrow> attempts_later db db'"
  "MarkRuntimeRequestedTx w run gen db = Inr (u, db') \<Longrightarrow> attempts_later db db'"
  "startRunningTx now w run gen loc db = Inr (u, db') \<Longrightarrow> attempts_later db db'"
  "resolveTx now w gen to who why db = Inr (u, db') \<Longrightarrow> attempts_later db db'"
  "deferTx now w run gen until why db = Inr (u, db') \<Longrightarrow> attempts_later db db'"
  by (auto simp: transitionTx_def markStartingTx_def MarkRuntimeRequestedTx_def startRunningTx_def resolveTx_def
      deferTx_def Let_def later_attempt_simps split: sum.splits if_splits option.splits intro!: attempts_later_upd)

lemma later_host:
  "finishHostChatTx now w run gen r result db = Inr (u, db') \<Longrightarrow> attempts_later db db'"
  "recoverRetainedTx now run result ok db = Inr (b, db') \<Longrightarrow> attempts_later db db'"
  by (auto simp: finishHostChatTx_def recoverRetainedTx_def Let_def later_attempt_simps
      split: sum.splits if_splits option.splits prod.splits intro!: attempts_later_upd)

lemma later_accept: "AcceptTx now newid req db = Inr (r, db') \<Longrightarrow> work_attempts db' = work_attempts db"
  by (auto simp: AcceptTx_def insert_item_def row_simps split: if_splits sum.splits)

lemma later_deliver:
  assumes "AcceptDeliveryTx lim now idD idW d w db = Inr (r, db')"
  shows "attempts_later db db'"
  using assms
proof (cases rule: AcceptDeliveryTx_cases)
  case (recorded r1 workID db1 row)
  have "work_attempts db1 = work_attempts db"
    using recorded(4) by (cases rule: accept_work_cases) (auto dest: later_accept)
  then show ?thesis using recorded(5) by (intro attempts_later_same) (auto simp: insert_delivery_Inr)
qed simp

lemma later_assignment: "AcceptAssignmentTx sha now newid i db = Inr (r, db') \<Longrightarrow> attempts_later db db'"
  by (auto simp: AcceptAssignmentTx_def Let_def split: option.splits intro!: attempts_later_same dest: later_accept)

lemma later_new_chat:
  assumes "newHostChatTx sha now newid r db = Inr (c, db')"
  shows "attempts_later db db'"
proof -
  obtain rc db1 it c2 db2 w gen where *: "AcceptTx now newid (host_chat_accept sha r) db = Inr (rc, db1)"
      "startAttemptWithRunIDTx it (''host-chat:'' @ hc_RunID r) now newid (hc_RunID r) db1 = Inr (c2, db2)"
      "db' = upd_attempts (\<lambda>a. bound_row w (hc_RunID r) gen a \<and> wa_runtime_phase a = runtimePhasePlanned)
               (\<lambda>a. a\<lparr>wa_runtime_locator := ''agent-run:'' @ hc_RunID r,
                      wa_runtime_phase := runtimePhaseStarting\<rparr>) db2"
    using assms by (auto simp: newHostChatTx_def Let_def split: sum.splits if_splits option.splits)
  have "attempts_later db2 db'"
    unfolding *(3) by (rule attempts_later_upd) (auto simp: later_attempt_simps)
  then show ?thesis
    by (intro attempts_later_trans [OF attempts_later_same [OF later_accept [OF *(1)]]]
        attempts_later_trans [OF later_start_run [OF *(2)]])
qed

lemma later_bodies:
  "attempts_later db (snd (in_tx db (AcceptTx now newid req db)))"
  "attempts_later db (snd (in_tx db (transitionTx now rnd treq db)))"
  "attempts_later db (snd (in_tx db (markStartingTx w run gen loc db)))"
  "attempts_later db (snd (in_tx db (MarkRuntimeRequestedTx w run gen db)))"
  "attempts_later db (snd (in_tx db (startRunningTx now w run gen loc db)))"
  "attempts_later db (snd (in_tx db (RequestCancelTx now w who why db)))"
  "attempts_later db (snd (in_tx db (resolveTx now w gen to who why db)))"
  "attempts_later db (snd (in_tx db (deferTx now w run gen until why db)))"
  "attempts_later db (snd (in_tx db (AcceptDeliveryTx lim now idD newid d req db)))"
  "attempts_later db (snd (in_tx db (AcceptAssignmentTx sha now newid i db)))"
  "attempts_later db (snd (in_tx db (newHostChatTx sha now newid hreq db)))"
  "attempts_later db (snd (in_tx db (finishHostChatTx now w run gen hr result db)))"
  "attempts_later db (snd (in_tx db (recoverRetainedTx now run result ok db)))"
  "attempts_later db (snd (in_tx db (recover_loop now es out db)))"
  by (rule attempts_later_in_tx, erule later_worker later_host later_cancel later_deliver later_assignment
      later_new_chat later_recover attempts_later_same [OF later_accept])+

lemma later_updates:
  "attempts_later db (snd (Heartbeat now run gen db))" "attempts_later db (snd (StageRunResult sz w run gen r db))"
  "attempts_later db (MarkRunProjectionAttempt now run db)" "attempts_later db (MarkRunProjected now run st db)"
  by (auto simp: Heartbeat_def StageRunResult_def MarkRunProjectionAttempt_def MarkRunProjected_def Let_def
      later_attempt_simps split: option.splits intro!: attempts_later_upd)

lemma later_operations:
  "attempts_later db (snd (HostChatPhase now run ph db))" "attempts_later db (snd (FinishHostChat sz now run hr db))"
  "attempts_later db (snd (RecoverRetainedResult sz now run r ok db))"
  "attempts_later db (snd (BeginHostChat sha now newid hreq db))"
proof -
  show "attempts_later db (snd (BeginHostChat sha now newid hreq db))"
    using later_new_chat
    by (cases rule: in_tx_cases [of "newHostChatTx sha now newid hreq db" db])
      (auto simp: BeginHostChat_def split: option.splits sum.splits)
qed (auto simp: HostChatPhase_def FinishHostChat_def RecoverRetainedResult_def MarkRuntimeRequested_def
      StartRunning_def Let_def later_bodies later_updates split: sum.splits option.splits)

lemma exec_attempts: "attempts_later db (exec_command c db)"
  by (cases c) (simp_all add: Transition_def MarkStarting_def MarkRuntimeRequested_def StartRunning_def
      RequestCancel_def Resolve_def Defer_def RecoverExpiredLeases_def later_Claim later_bodies later_updates
      later_operations expireRawBodyBatch_db deleteDedupBatch_def Let_def
      attempts_later_same expire_rows_frame)

lemma run_attempts: "attempts_later db (run_commands cs db)"
proof (induction cs arbitrary: db)
  case (Cons c cs)
  show ?case using attempts_later_trans [OF exec_attempts Cons] by (simp add: run_commands_def)
qed (simp add: run_commands_def)

subsection \<open>In a reachable ledger\<close>

lemma reachable_outcome:
  assumes "a \<in> set (work_attempts (run_commands cs empty_db))"
  shows "outcome_ok a"
  using run_attempts [of empty_db cs] assms by (auto simp: attempts_later_def empty_db_def)

lemma attempt_row_later:
  assumes "good db" "\<forall>b \<in> set (work_attempts db). outcome_ok b" "attempt_row db run = Some a"
  obtains b where "attempt_row (run_commands cs db) run = Some b" "attempt_later a b" "outcome_ok a" "outcome_ok b"
proof -
  note a = attempt_row_Some [OF assms(3)]
  obtain as ns where later: "work_attempts (run_commands cs db) = as @ ns" "list_all2 attempt_later (work_attempts db) as"
    using run_attempts [of db cs] by (auto simp: attempts_later_def)
  then obtain b where b: "b \<in> set as" "attempt_later a b"
    using a by (auto simp: list_all2_conv_all_nth in_set_conv_nth) metis
  have ok: "outcome_ok a" using a assms(2) by blast
  then have "wa_run_id b = run" "outcome_ok b" using b(2) a by (auto simp: attempt_later_def attempt_kept_def)
  then show thesis
    using b ok later(1) that wf_attempt_row [OF good_wf [OF run_good [OF assms(1)]]] by auto
qed

lemma reachable_row_later:
  assumes "db = run_commands cs empty_db" "db' = run_commands later_cs db" "attempt_row db run = Some a"
  obtains b where "attempt_row db' run = Some b" "attempt_later a b" "outcome_ok a" "outcome_ok b"
  using attempt_row_later [of db run a later_cs] reachable_good reachable_outcome assms by blast

end
