(* ===== verification/Work_Host.thy ===== *)
theory Work_Host
  imports Work_Attempts "HOL-Library.Multiset"
begin

text \<open>
  What the host can rely on when it runs a turn itself (\<^verbatim>\<open>host_chat.go\<close>, \<^verbatim>\<open>retained_result.go\<close>,
  \<^verbatim>\<open>run_results.go\<close>): a run identifier names one turn for good, its runtime is asked for at most once
  and never after a cancel request, a turn is settled by observed evidence and not by the status
  reported with it, a confirmed outcome and its projection are final, and the projection outbox is
  drained in rotation.
\<close>

subsection \<open>A demonstration turn\<close>

definition demo_turn :: HostChatRequest where
  "demo_turn = \<lparr>hc_RunID = ''r1'', hc_WorkspaceID = ''ws'', hc_AgentID = ''ag'', hc_CrewID = '''',
     hc_ChatID = ''chat1'', hc_UserID = ''u'', hc_TriggerMessageID = ''m1''\<rparr>"

definition demo_result :: "int option \<Rightarrow> RunResult" where
  "demo_result ex = \<lparr>rr_CompletedAt = '''', rr_ExitCode = ex, rr_ErrorMessage = None, rr_Metadata = ''''\<rparr>"

definition demo_finish :: "string \<Rightarrow> int option \<Rightarrow> HostChatResult" where
  "demo_finish st ex = \<lparr>hr_Result = demo_result ex, hr_Status = st, hr_ObservedExit = ex, hr_ExecRefused = False\<rparr>"

definition demo_begun :: "command list" where
  "demo_begun = [DoBeginHostChat (\<lambda>s. ''h'') 0 ''w1'' demo_turn]"

definition demo_launched :: "command list" where
  "demo_launched = demo_begun @ [DoHostChatPhase 1 ''r1'' ''request'', DoHostChatPhase 2 ''r1'' ''started'']"

definition demo_completed :: "command list" where
  "demo_completed = demo_launched @ [DoFinishHostChat (\<lambda>r. Some 10) 3 ''r1'' (demo_finish ''COMPLETED'' (Some 0))]"

definition demo_parked :: "command list" where
  "demo_parked = demo_launched @ [DoFinishHostChat (\<lambda>r. Some 10) 3 ''r1'' (demo_finish ''FAILED'' None)]"

subsection \<open>Confirmed outcomes\<close>

lemma static_fields:
  assumes "item_static v = item_static w"
  shows "wi_id v = wi_id w" "wi_workspace_id v = wi_workspace_id w" "wi_agent_id v = wi_agent_id w"
    "wi_crew_id v = wi_crew_id w" "wi_source v = wi_source w" "wi_domain_kind v = wi_domain_kind w"
    "wi_session_id v = wi_session_id w" "wi_authorized_by_user_id v = wi_authorized_by_user_id w"
    "wi_source_ref v = wi_source_ref w"
  using assms by (cases v; cases w; simp add: item_static_def)+

lemma attempt_has_item:
  assumes "good db" "attempt_row db run = Some a"
  obtains it where "item_row db (wa_work_id a) = Some it" "wi_id it = wa_work_id a"
  using assms good_wf [OF assms(1)] attempt_row_Some [OF assms(2)] wf_item_row [OF good_wf [OF assms(1)]]
  by (auto simp: ledger_wf_def)

lemma projection_of_rows:
  assumes "attempt_row db run = Some a" "item_row db (wa_work_id a) = Some w"
  shows "RunProjection_of db run = (let p = \<lparr>pj_RunID = run, pj_WorkspaceID = wi_workspace_id w,
           pj_AgentID = wi_agent_id w, pj_CrewID = wi_crew_id w, pj_Status = wa_run_status a,
           pj_Result = empty_run_result, pj_Ready = False\<rparr>
         in case wa_run_result a of None \<Rightarrow> (p, True) | Some r \<Rightarrow>
              if wa_run_status a = '''' then (p, True)
              else (p\<lparr>pj_Ready := True, pj_Result := (if wa_run_status a = ''CANCELLED''
                      then r\<lparr>rr_ExitCode := None, rr_ErrorMessage := Some (wa_end_reason a)\<rparr> else r)\<rparr>, True))"
  using assms by (simp add: RunProjection_of_def Let_def split: option.splits)

lemma reachable_static:
  assumes "db = run_commands cs empty_db" "db' = run_commands later_cs db" "item_row db w = Some it"
  obtains it' where "item_row db' w = Some it'" "item_static it' = item_static it"
  using run_ok [of db later_cs] reachable_ok [of cs] assms by (auto simp: rows_kept_def)

text \<open>
  A confirmed outcome is final: once an attempt has a run status, whatever runs later leaves its
  status and its end reason as they are and the attempt ended, and the answer \<open>RunProjection\<close> gives
  for a ready run never changes again, the captured result included.
\<close>

theorem confirmed_outcome_final:
  assumes "db = run_commands cs empty_db" "attempt_row db run = Some a" "wa_run_status a \<noteq> ''''"
    and "db' = run_commands later_cs db"
  shows "(\<exists>b. attempt_row db' run = Some b \<and> wa_ended_at b \<noteq> None \<and> wa_run_status b = wa_run_status a
           \<and> wa_end_reason b = wa_end_reason a)
       \<and> (pj_Ready (fst (RunProjection_of db run)) \<longrightarrow> RunProjection_of db' run = RunProjection_of db run)"
proof -
  obtain b where b: "attempt_row db' run = Some b" "attempt_later a b" "outcome_ok a" "outcome_ok b"
    by (rule reachable_row_later [OF assms(1,4,2)])
  then have kept: "wa_work_id b = wa_work_id a" "wa_run_status b = wa_run_status a" "wa_end_reason b = wa_end_reason a"
      "wa_run_result a \<noteq> None \<longrightarrow> wa_run_result b = wa_run_result a" "wa_ended_at b \<noteq> None"
    using assms(3) by (auto simp: attempt_later_def attempt_kept_def outcome_ok_def)
  obtain it where it: "item_row db (wa_work_id a) = Some it"
    using attempt_has_item [OF reachable_good, of cs run a] assms(1,2) by blast
  obtain it' where it': "item_row db' (wa_work_id a) = Some it'" "item_static it' = item_static it"
    by (rule reachable_static [OF assms(1,4) it])
  show ?thesis
    using b(1) kept it'(1) static_fields [OF it'(2)] projection_of_rows [OF assms(2) it]
      projection_of_rows [of db' run b it']
    by (auto simp: Let_def split: option.splits)
qed

theorem confirmed_outcome_final_witness:
  "\<exists>b. attempt_row (run_commands [DoRecoverRetained (\<lambda>r. Some 10) 9 ''r1'' (demo_result (Some 1)) False]
            (run_commands demo_completed empty_db)) ''r1'' = Some b
     \<and> wa_run_status b = ''COMPLETED''"
proof -
  have "case attempt_row (run_commands demo_completed empty_db) ''r1'' of
          Some a \<Rightarrow> wa_run_status a = ''COMPLETED'' | None \<Rightarrow> False" by code_simp
  then obtain a where a: "attempt_row (run_commands demo_completed empty_db) ''r1'' = Some a"
      "wa_run_status a = ''COMPLETED''" by (auto split: option.splits)
  then have "wa_run_status a \<noteq> ''''" by simp
  from confirmed_outcome_final [OF refl a(1) this refl] show ?thesis using a(2) by auto
qed

subsection \<open>Launching\<close>

lemma launch_needs_starting:
  assumes "attempt_row db run = Some b" "good db"
    and "2 \<le> phase_rank (wa_runtime_phase b) \<or> wa_cancel_requested_at b \<noteq> None \<or> wa_ended_at b \<noteq> None"
  shows "rejected db (MarkRuntimeRequested w run gen db)"
proof -
  have "x = b" if "x \<in> set (work_attempts db)" "wa_run_id x = run" for x
    using that wf_attempt_row [OF good_wf [OF assms(2)], of run x] assms(1) by simp
  then have "count_where (\<lambda>x. bound_row w run gen x \<and> wa_runtime_phase x = runtimePhaseStarting
                 \<and> wa_cancel_requested_at x = None) (work_attempts db) = 0"
    using assms(3) unfolding count_where_0 bound_row_def by fastforce
  then show ?thesis
    by (auto simp: MarkRuntimeRequested_def MarkRuntimeRequestedTx_def Let_def split: sum.splits intro: rejected_in_tx)
qed

lemma phase_request_refused:
  assumes "attempt_row db run = Some b" "good db"
    and "2 \<le> phase_rank (wa_runtime_phase b) \<or> wa_cancel_requested_at b \<noteq> None \<or> wa_ended_at b \<noteq> None"
  shows "rejected db (HostChatPhase now run ''request'' db)"
  using launch_needs_starting [OF assms]
  by (auto simp: HostChatPhase_def split: sum.splits option.splits)

lemma launched_attempt:
  assumes "good db" "MarkRuntimeRequested w run gen db = (Inr (), db')"
  shows "\<exists>b. attempt_row db' run = Some b \<and> wa_runtime_phase b = runtimePhaseRequested"
proof -
  let ?P = "\<lambda>a. bound_row w run gen a \<and> wa_runtime_phase a = runtimePhaseStarting
                                  \<and> wa_cancel_requested_at a = None"
  have db': "count_where ?P (work_attempts db) = 1"
      "db' = upd_attempts ?P (\<lambda>a. a\<lparr>wa_runtime_phase := runtimePhaseRequested\<rparr>) db"
    using assms(2) by (auto simp: MarkRuntimeRequested_def MarkRuntimeRequestedTx_def in_tx_eq_Inr Let_def
        split: sum.splits if_splits)
  then obtain a where a: "a \<in> set (work_attempts db)" "?P a"
    using count_where_pos [of ?P "work_attempts db"] by auto
  have "refines db db'" using MarkRuntimeRequestedTx_refines [OF assms(1)] assms(2)
    by (auto simp: MarkRuntimeRequested_def in_tx_eq_Inr)
  then have "good db'" by (rule refines_good [OF assms(1)])
  moreover have "a\<lparr>wa_runtime_phase := runtimePhaseRequested\<rparr> \<in> set (work_attempts db')"
    using a by (auto simp: db'(2) row_simps in_upd_where)
  ultimately show ?thesis using wf_attempt_row [OF good_wf] a(2) by (fastforce simp: bound_row_def)
qed

text \<open>
  A runtime is asked for at most once: after \<open>MarkRuntimeRequested\<close> has succeeded for a run, and for any
  attempt that has a cancel request or has ended, every later request to create its runtime is
  refused and changes nothing, whether it comes from the dispatcher or as a host chat phase.
\<close>

theorem runtime_requested_once:
  assumes "db = run_commands cs empty_db"
    and "MarkRuntimeRequested w run gen db = (Inr (), db1)
       \<or> db1 = db \<and> (\<exists>a. attempt_row db run = Some a \<and> (wa_cancel_requested_at a \<noteq> None \<or> wa_ended_at a \<noteq> None))"
    and "db' = run_commands later_cs db1"
  shows "rejected db' (MarkRuntimeRequested w' run gen' db') \<and> rejected db' (HostChatPhase now run ''request'' db')"
proof -
  let ?stop = "\<lambda>b. 2 \<le> phase_rank (wa_runtime_phase b) \<or> wa_cancel_requested_at b \<noteq> None \<or> wa_ended_at b \<noteq> None"
  have ok: "good db" using reachable_good assms(1) by simp
  have "\<exists>cs1. db1 = run_commands cs1 empty_db"
  proof (cases "db1 = db")
    case False
    then have "db1 = run_commands (cs @ [DoMarkRuntimeRequested w run gen]) empty_db"
      using assms(1,2) by (auto simp: run_commands_def)
    then show ?thesis by blast
  qed (use assms(1) in blast)
  then obtain cs1 where cs1: "db1 = run_commands cs1 empty_db" by blast
  have "\<exists>b. attempt_row db1 run = Some b \<and> ?stop b"
    using assms(2) launched_attempt [OF ok, of w run gen db1] by fastforce
  then obtain b where b: "attempt_row db1 run = Some b" "?stop b" by blast
  obtain b' where b': "attempt_row db' run = Some b'" "attempt_later b b'" "outcome_ok b" "outcome_ok b'"
    by (rule reachable_row_later [OF cs1 assms(3) b(1)])
  have "?stop b'" using b(2) b'(2,3) by (auto simp: attempt_later_def attempt_kept_def)
  moreover have "good db'" using run_good [OF reachable_good] cs1 assms(3) by simp
  ultimately show ?thesis using launch_needs_starting [OF b'(1)] phase_request_refused [OF b'(1)] by blast
qed

theorem runtime_requested_once_witness:
  "rejected (run_commands demo_launched empty_db)
     (HostChatPhase 5 ''r1'' ''request'' (run_commands demo_launched empty_db))"
proof -
  let ?db1 = "run_commands [DoHostChatPhase 1 ''r1'' ''request''] (run_commands demo_begun empty_db)"
  have "case MarkRuntimeRequested ''w1'' ''r1'' 1 (run_commands demo_begun empty_db) of
          (Inr u, d) \<Rightarrow> d = ?db1 | (Inl e, d) \<Rightarrow> False" by code_simp
  then have "MarkRuntimeRequested ''w1'' ''r1'' 1 (run_commands demo_begun empty_db) = (Inr (), ?db1)"
    by (auto split: prod.splits sum.splits)
  from runtime_requested_once [OF refl disjI1 [OF this] refl, of "[DoHostChatPhase 2 ''r1'' ''started'']" _ _ 5]
  show ?thesis by (simp add: demo_launched_def run_commands_def)
qed

subsection \<open>Settling a turn\<close>

lemma host_attempt_rows:
  assumes "HostChatAttempt_of db run = Inr (Some b)"
  obtains a it where "attempt_row db run = Some a" "item_row db (wa_work_id a) = Some it" "hb_RunID b = run"
    "hb_WorkID b = wa_work_id a" "hb_Generation b = wa_generation a" "wi_generation it = wa_generation a"
    "hb_Phase b = wa_runtime_phase a" "hb_State b = wi_state it" "hb_Ended b \<longleftrightarrow> wa_ended_at a \<noteq> None"
    "source_string (wi_source it) = ''chat''" "wi_domain_kind it = ''host_chat_turn''"
  using assms item_row_Some
  by (fastforce simp: HostChatAttempt_of_def split: option.splits if_splits)

definition end_known :: "HostChatAttempt \<Rightarrow> HostChatResult \<Rightarrow> bool" where
  "end_known b r \<longleftrightarrow> hb_Phase b = runtimePhasePlanned \<or> hb_Phase b = runtimePhaseStarting
     \<or> hr_ObservedExit r \<noteq> None \<or> hr_ExecRefused r"

definition turn_settled :: "work_db \<Rightarrow> HostChatAttempt \<Rightarrow> State \<Rightarrow> string \<Rightarrow> bool" where
  "turn_settled db b st status \<longleftrightarrow>
     (case item_row db (hb_WorkID b) of None \<Rightarrow> False | Some it \<Rightarrow> wi_state it = st)
   \<and> (case attempt_row db (hb_RunID b) of None \<Rightarrow> False
      | Some a \<Rightarrow> wa_ended_at a \<noteq> None \<and> wa_run_status a = status \<and> wa_run_result a \<noteq> None)"

lemma active_targets:
  assumes "attempt_active s" "finish_target known r = Inr to"
  shows "CanTransition s to \<longleftrightarrow> \<not> (s = StateWaiting \<and> to = StateSucceeded)"
  using assms by (auto simp: finish_target_def attempt_active_def CanTransition_iff split: if_splits)

text \<open>What \<open>FinishHostChat\<close> does with an open turn whose result can be stored.\<close>

lemma finish_open_turn:
  assumes "good db" "HostChatAttempt_of db run = Inr (Some b)" "\<not> hb_Ended b"
    and "sz ((hr_Result r)\<lparr>rr_ExitCode := hr_ObservedExit r\<rparr>) = Some n" "n \<le> result_limit"
  shows "case finish_target (end_known b r) r of
           Inl e \<Rightarrow> FinishHostChat sz now run r db = (Inl e, db)
         | Inr to \<Rightarrow>
             let status = (if end_known b r then hr_Status r else '''')
             in if hb_State b = StateWaiting \<and> to = StateSucceeded
                then FinishHostChat sz now run r db = (Inl ErrIllegalTransition, db)
                else if run_status_ok status
                then \<exists>db'. FinishHostChat sz now run r db = (Inr (), db') \<and> turn_settled db' b to status
                else FinishHostChat sz now run r db = (Inl ErrConstraint, db)"
proof -
  define result where "result = (hr_Result r)\<lparr>rr_ExitCode := hr_ObservedExit r\<rparr>"
  obtain a it where a: "attempt_row db run = Some a" and it: "item_row db (wa_work_id a) = Some it"
    and b: "hb_RunID b = run" "hb_WorkID b = wa_work_id a" "hb_Generation b = wa_generation a"
      "wi_generation it = wa_generation a" "hb_Phase b = wa_runtime_phase a" "hb_State b = wi_state it"
      "hb_Ended b \<longleftrightarrow> wa_ended_at a \<noteq> None"
    by (rule host_attempt_rows [OF assms(2)])
  let ?w = "wa_work_id a" and ?gen = "wa_generation a"
  have in_a: "a \<in> set (work_attempts db)" "wa_run_id a = run" using attempt_row_Some [OF a] by auto
  have open_a: "bound_row ?w run ?gen a" using assms(3) b in_a by (simp add: bound_row_def)
  have bind: "verifyAttemptBindingTx db ?w run ?gen (wi_generation it) = Inr ()"
    using in_a open_a b(4) by (subst binding_iff [OF good_wf [OF assms(1)]]) auto
  have row: "find (\<lambda>x. wa_run_id x = run \<and> wa_work_id x = ?w \<and> wa_generation x = ?gen) (work_attempts db) = Some a"
  proof (rule find_the)
    show "y = a" if "y \<in> set (work_attempts db)"
        "wa_run_id y = run \<and> wa_work_id y = ?w \<and> wa_generation y = ?gen" for y
      using that a wf_attempt_row [OF good_wf [OF assms(1)], of run y] by simp
  qed (use in_a in simp_all)
  have fin: "FinishHostChat sz now run r db
      = in_tx db (finishHostChatTx now ?w run ?gen r result db)"
    using assms(2-5) b by (simp add: FinishHostChat_def result_def)
  have known: "(wa_runtime_phase a = runtimePhasePlanned \<or> wa_runtime_phase a = runtimePhaseStarting
       \<or> hr_ObservedExit r \<noteq> None \<or> hr_ExecRefused r) = end_known b r"
    using b(5) by (simp add: end_known_def)
  have one: "count_where (bound_row ?w run ?gen) (work_attempts db) = 1"
    using bound_unique [OF good_wf [OF assms(1)] in_a(1) open_a] open_a by simp
  note tx = finishHostChatTx_def [of now ?w run ?gen r result db, unfolded getItemTx_def it option.case sum.case bind
      row Let_def known]
  show ?thesis
  proof (cases "finish_target (end_known b r) r")
    case (Inl e)
    then show ?thesis using tx fin by simp
  next
    case (Inr to)
    have can: "CanTransition (wi_state it) to \<longleftrightarrow> \<not> (hb_State b = StateWaiting \<and> to = StateSucceeded)"
      unfolding b(6) by (rule active_targets [OF bound_facts(1) [OF assms(1) it in_a(1) open_a] Inr])
    define status where "status = (if end_known b r then hr_Status r else '''')"
    obtain why ev where ev: "finish_evidence (end_known b r) r = (why, ev)" by force
    let ?g = "\<lambda>x. x\<lparr>wa_ended_at := Some now, wa_end_reason := why, wa_exit_evidence := ev, wa_run_status := status,
                   wa_run_result := (case wa_run_result x of None \<Rightarrow> Some result | Some y \<Rightarrow> Some y)\<rparr>"
    let ?db' = "upd_attempts (bound_row ?w run ?gen) ?g (setStateTx it to run ?gen why now db)"
    have body: "finishHostChatTx now ?w run ?gen r result db
        = (if hb_State b = StateWaiting \<and> to = StateSucceeded then Inl ErrIllegalTransition
           else if run_status_ok status then Inr ((), ?db') else Inl ErrConstraint)"
      unfolding tx Inr sum.case ev prod.case status_def [symmetric] using can one by (simp add: row_simps)
    show ?thesis
    proof (cases "run_status_ok status \<and> \<not> (hb_State b = StateWaiting \<and> to = StateSucceeded)")
      case True
      have "good ?db'" using finishHostChatTx_refines [OF assms(1)] body True refines_good [OF assms(1)] by auto
      moreover have "?g a \<in> set (work_attempts ?db')"
        using in_a open_a by (auto simp: row_simps in_upd_where)
      ultimately have "attempt_row ?db' run = Some (?g a)"
        using wf_attempt_row [OF good_wf] in_a(2) by (auto split: option.split)
      moreover have "item_row ?db' ?w = map_option (\<lambda>x. if wi_id x = wi_id it
        then x\<lparr>wi_state := to, wi_state_reason := why, wi_updated_at := now,
               wi_terminal_at := (if Terminal to then Some now else wi_terminal_at x)\<rparr> else x) (item_row db ?w)"
        by (simp add: row_simps item_row_setState)
      ultimately have "turn_settled ?db' b to status"
        using it item_row_Some [OF it] by (simp add: turn_settled_def b(1,2) split: option.split)
      then show ?thesis using True body fin Inr by (auto simp: status_def [symmetric])
    qed (use body fin Inr in \<open>auto simp: status_def [symmetric]\<close>)
  qed
qed

text \<open>
  A host chat turn is settled by what was observed of its process, not by the status that is
  reported: with no proof that the execution ended (no observed exit, no refused creation, and a
  runtime that had been asked for) every report parks the turn for reconciliation without an
  outcome; with proof, COMPLETED succeeds only with an observed exit of zero (and not out of the
  waiting state, which has no edge to success), FAILED and CANCELLED settle as such, any other status is refused and changes nothing.  TIMEOUT, which the switch maps
  to failed, is refused too: the column \<open>run_status\<close> does not admit it.
\<close>

theorem turn_settled_by_evidence:
  assumes "db = run_commands cs empty_db" "HostChatAttempt_of db run = Inr (Some b)" "\<not> hb_Ended b"
    and "sz ((hr_Result r)\<lparr>rr_ExitCode := hr_ObservedExit r\<rparr>) = Some n" "n \<le> result_limit"
    and out: "out = FinishHostChat sz now run r db"
  shows "(\<not> end_known b r \<longrightarrow> fst out = Inr () \<and> turn_settled (snd out) b StateNeedsReconciliation '''')
       \<and> (end_known b r \<longrightarrow>
            (hr_Status r = ''COMPLETED'' \<and> hr_ObservedExit r = Some 0 \<and> hb_State b \<noteq> StateWaiting \<longrightarrow>
               fst out = Inr () \<and> turn_settled (snd out) b StateSucceeded ''COMPLETED'')
          \<and> (hr_Status r = ''COMPLETED'' \<and> hr_ObservedExit r = Some 0 \<and> hb_State b = StateWaiting \<longrightarrow>
               out = (Inl ErrIllegalTransition, db))
          \<and> (hr_Status r = ''COMPLETED'' \<and> hr_ObservedExit r \<noteq> Some 0 \<longrightarrow> out = (Inl ErrInvalid, db))
          \<and> (hr_Status r = ''FAILED'' \<longrightarrow> fst out = Inr () \<and> turn_settled (snd out) b StateFailed ''FAILED'')
          \<and> (hr_Status r = ''CANCELLED'' \<longrightarrow> fst out = Inr () \<and> turn_settled (snd out) b StateCancelled ''CANCELLED'')
          \<and> (hr_Status r = ''TIMEOUT'' \<longrightarrow> out = (Inl ErrConstraint, db))
          \<and> (hr_Status r \<notin> {''COMPLETED'', ''FAILED'', ''CANCELLED'', ''TIMEOUT''} \<longrightarrow> out = (Inl ErrInvalid, db)))"
proof -
  have "good db" using reachable_good assms(1) by simp
  note f = finish_open_turn [where sz = sz and r = r, OF this assms(2-5), where now = now, folded out]
  show ?thesis using f by (auto simp: finish_target_def run_status_ok_def Let_def)
qed

theorem turn_settled_by_evidence_witness:
  "\<exists>b. turn_settled (snd (FinishHostChat (\<lambda>r. Some 10) 3 ''r1'' (demo_finish ''COMPLETED'' (Some 0))
           (run_commands demo_launched empty_db))) b StateSucceeded ''COMPLETED''
     \<and> turn_settled (snd (FinishHostChat (\<lambda>r. Some 10) 3 ''r1'' (demo_finish ''COMPLETED'' None)
           (run_commands demo_launched empty_db))) b StateNeedsReconciliation ''''"
proof -
  have "case HostChatAttempt_of (run_commands demo_launched empty_db) ''r1'' of
          Inr (Some b) \<Rightarrow> \<not> hb_Ended b \<and> hb_Phase b = runtimePhaseConfirmed \<and> hb_State b = StateRunning
        | _ \<Rightarrow> False" by code_simp
  then obtain b where b: "HostChatAttempt_of (run_commands demo_launched empty_db) ''r1'' = Inr (Some b)"
      "\<not> hb_Ended b" "hb_Phase b = runtimePhaseConfirmed" "hb_State b = StateRunning" by (auto split: sum.splits option.splits)
  have lim: "(10::int) \<le> result_limit" by (simp add: result_limit_def)
  note t = turn_settled_by_evidence [OF refl b(1,2) refl lim refl]
  show ?thesis
    using t [of "demo_finish ''COMPLETED'' (Some 0)" 3] t [of "demo_finish ''COMPLETED'' None" 3] b(3,4)
    by (auto simp: demo_finish_def end_known_def)
qed

subsection \<open>Beginning a turn\<close>

lemma new_turn_rows:
  assumes "good db" "newHostChatTx sha now newid r db = Inr (c, db')"
  shows "\<exists>a it. attempt_row db' (hc_RunID r) = Some a \<and> item_row db' (wa_work_id a) = Some it \<and> same_turn r it
     \<and> wa_generation a = cl_Generation c"
proof -
  obtain rc db1 item db2 where acc: "AcceptTx now newid (host_chat_accept sha r) db = Inr (rc, db1)"
      and item: "getItemTx db1 (rc_WorkID rc) = Inr item"
      and start: "startAttemptWithRunIDTx item (''host-chat:'' @ hc_RunID r) now newid (hc_RunID r) db1
         = Inr (Some c, db2)"
      and cnt: "count_where (\<lambda>a. bound_row (wi_id item) (hc_RunID r) (cl_Generation c) a
                     \<and> wa_runtime_phase a = runtimePhasePlanned) (work_attempts db2) = 1"
      and db': "db' = upd_attempts (\<lambda>a. bound_row (wi_id item) (hc_RunID r) (cl_Generation c) a
                     \<and> wa_runtime_phase a = runtimePhasePlanned)
               (\<lambda>a. a\<lparr>wa_runtime_locator := ''agent-run:'' @ hc_RunID r,
                      wa_runtime_phase := runtimePhaseStarting\<rparr>) db2"
    using assms(2) by (auto simp: newHostChatTx_def Let_def split: sum.splits if_splits option.splits)
  have ok': "good db'" using refines_good [OF assms(1) newHostChatTx_refines [OF assms]] .
  have new: "rc_WorkID rc = newid" using acc by (auto simp: AcceptTx_def split: if_splits sum.splits)
  then have item_eq: "item = accepted_item now newid (host_chat_accept sha r)" "wi_id item = newid"
    using item AcceptTx_row(1) [OF acc] by (auto simp: getItemTx_Inr accepted_item_def)
  obtain a where a: "a \<in> set (work_attempts db2)" "bound_row newid (hc_RunID r) (cl_Generation c) a"
      "wa_runtime_phase a = runtimePhasePlanned"
    using cnt count_where_pos [of "\<lambda>a. bound_row (wi_id item) (hc_RunID r) (cl_Generation c) a
                     \<and> wa_runtime_phase a = runtimePhasePlanned" "work_attempts db2"] item_eq(2) by auto
  let ?b = "a\<lparr>wa_runtime_locator := ''agent-run:'' @ hc_RunID r, wa_runtime_phase := runtimePhaseStarting\<rparr>"
  have "?b \<in> set (work_attempts db')"
    using a item_eq(2) by (auto simp: db' row_simps in_upd_where intro!: bexI [of _ a])
  then have b: "attempt_row db' (hc_RunID r) = Some ?b"
    using wf_attempt_row [OF good_wf [OF ok']] a(2) by (simp add: bound_row_def)
  have "rows_kept db1 db'" using keeps_start_run [OF start] by (intro keeps_rows) (simp add: db')
  then obtain it where it: "item_row db' newid = Some it" "item_static it = item_static item"
    using AcceptTx_row(1) [OF acc] item_eq(1) by (auto simp: rows_kept_def)
  have "same_turn r item"
    by (simp add: item_eq(1) same_turn_def accepted_item_def host_chat_accept_def Let_def)
  then have "same_turn r it" using static_fields [OF it(2)] by (simp add: same_turn_def)
  then show ?thesis using b it(1) a(2) by (auto simp: bound_row_def)
qed

lemma begun_rows:
  assumes "good db" "BeginHostChat sha now newid r db = (Inr (c, fresh), db')"
  shows "\<exists>a it. attempt_row db' (hc_RunID r) = Some a \<and> item_row db' (wa_work_id a) = Some it \<and> same_turn r it
     \<and> wa_generation a = cl_Generation c"
proof (cases "attempt_row db (hc_RunID r)")
  case None
  then have "newHostChatTx sha now newid r db = Inr (c, db')"
    using assms(2) by (auto simp: BeginHostChat_def in_tx_eq_Inr split: if_splits prod.splits sum.splits)
  then show ?thesis by (rule new_turn_rows [OF assms(1)])
next
  case (Some a)
  then show ?thesis using assms(2)
    by (auto simp: BeginHostChat_def getItemTx_Inr split: if_splits sum.splits)
qed

lemma same_turn_unique:
  "same_turn r it \<Longrightarrow> same_turn s it \<Longrightarrow> hc_RunID s = hc_RunID r \<Longrightarrow> s = r"
  by (cases r; cases s) (simp add: same_turn_def)

text \<open>
  A run identifier names one chat turn for good: after \<open>BeginHostChat\<close> has succeeded for a request,
  whatever runs later, every further \<open>BeginHostChat\<close> with its run identifier changes nothing;
  the same request is answered with the attempt that was started then, not fresh, or with "stale"
  once that attempt is over, and a different request is refused.
\<close>

theorem host_chat_begins_once:
  assumes "db = run_commands cs empty_db" "BeginHostChat sha now newid r db = (Inr (c, fresh), db1)"
    and "db' = run_commands later_cs db1" "hc_RunID s = hc_RunID r"
    and out: "out = BeginHostChat sha' now' newid' s db'"
  shows "snd out = db'
       \<and> (s \<noteq> r \<longrightarrow> isl (fst out))
       \<and> (s = r \<longrightarrow> fst out = Inl ErrStaleGeneration
            \<or> (\<exists>c'. fst out = Inr (c', False) \<and> cl_RunID c' = hc_RunID r \<and> cl_Generation c' = cl_Generation c))"
proof -
  have ok: "good db" using reachable_good assms(1) by simp
  have "db1 = run_commands (cs @ [DoBeginHostChat sha now newid r]) empty_db"
    using assms(1,2) by (simp add: run_commands_def)
  then obtain cs1 where cs1: "db1 = run_commands cs1 empty_db" by blast
  obtain a it where a: "attempt_row db1 (hc_RunID r) = Some a" "item_row db1 (wa_work_id a) = Some it"
      "same_turn r it" "wa_generation a = cl_Generation c"
    using begun_rows [OF ok assms(2)] by blast
  obtain b where b: "attempt_row db' (hc_RunID r) = Some b" "attempt_later a b" "outcome_ok a" "outcome_ok b"
    by (rule reachable_row_later [OF cs1 assms(3) a(1)])
  obtain it' where it': "item_row db' (wa_work_id a) = Some it'" "item_static it' = item_static it"
    by (rule reachable_static [OF cs1 assms(3) a(2)])
  have same: "same_turn r it'" using a(3) static_fields [OF it'(2)] by (simp add: same_turn_def)
  have row: "attempt_row db' (hc_RunID s) = Some b" "getItemTx db' (wa_work_id b) = Inr it'"
      "wa_generation b = cl_Generation c"
    using b a(4) it'(1) assms(4) by (simp_all add: attempt_later_def attempt_kept_def getItemTx_Inr)
  have valid: "\<not> (hc_RunID r = '''' \<or> hc_WorkspaceID r = '''' \<or> hc_AgentID r = '''' \<or> hc_ChatID r = ''''
      \<or> hc_UserID r = '''' \<or> hc_TriggerMessageID r = '''' \<or> unsafe_run_id (hc_RunID r))"
    using assms(2) by (auto simp: BeginHostChat_def split: if_splits)
  show ?thesis
  proof (cases "s = r")
    case True
    then show ?thesis using row same valid out by (simp add: BeginHostChat_def)
  next
    case False
    then have "\<not> same_turn s it'" using same_turn_unique [OF same] assms(4) by blast
    then show ?thesis using row False out by (simp add: BeginHostChat_def)
  qed
qed

theorem host_chat_begins_once_witness:
  "fst (BeginHostChat (\<lambda>s. ''h'') 9 ''w9'' demo_turn (run_commands demo_begun empty_db)) \<noteq> Inl ErrNoWork
     \<and> snd (BeginHostChat (\<lambda>s. ''h'') 9 ''w9'' demo_turn (run_commands demo_begun empty_db))
         = run_commands demo_begun empty_db"
proof -
  have "case BeginHostChat (\<lambda>s. ''h'') 0 ''w1'' demo_turn empty_db of
          (Inr (c, fresh), d) \<Rightarrow> d = run_commands demo_begun empty_db | (Inl e, d) \<Rightarrow> False" by code_simp
  then obtain c fresh where "BeginHostChat (\<lambda>s. ''h'') 0 ''w1'' demo_turn (run_commands [] empty_db)
      = (Inr (c, fresh), run_commands demo_begun empty_db)"
    by (auto simp: run_commands_def split: prod.splits sum.splits)
  from host_chat_begins_once [where later_cs = "[]", OF refl this refl refl refl,
      of "\<lambda>s. ''h''" 9 "''w9''"] show ?thesis
    by (auto simp: run_commands_def)
qed

subsection \<open>Retained results\<close>

text \<open>The attempts \<open>RecoverRetainedResult\<close> may settle with a given result.\<close>

definition retained_settles :: "Attempt \<Rightarrow> Item \<Rightarrow> RunResult \<Rightarrow> bool" where
  "retained_settles a it result \<longleftrightarrow>
     wi_generation it = wa_generation a \<and> wi_state it = StateNeedsReconciliation
   \<and> wa_run_status a = '''' \<and> parked_reason (wa_end_reason a) \<and> wa_runtime_phase a \<noteq> runtimePhasePlanned
   \<and> wa_runtime_locator a = ''agent-run:'' @ wa_run_id a
   \<and> (case wa_run_result a of None \<Rightarrow> True | Some prior \<Rightarrow> rr_ExitCode prior = None \<or> prior = result)"

lemma parked_ended:
  assumes "good db" "attempt_row db run = Some a" "item_row db (wa_work_id a) = Some it"
    "wi_state it = StateNeedsReconciliation"
  shows "wa_ended_at a \<noteq> None"
  using open_attempt [OF assms(1,3), of a] attempt_row_Some [OF assms(2)] assms(4)
  by (auto simp: item_attempts_in attempt_active_def)

lemma recover_tx:
  fixes ok :: bool
  assumes "good db" "attempt_row db run = Some a" "item_row db (wa_work_id a) = Some it"
    "retained_settles a it result"
  defines "to \<equiv> (if ok then StateSucceeded
                  else if wi_source it = SourceChat \<and> wi_domain_kind it = ''host_chat_turn'' then StateFailed
                  else StateNeedsReconciliation)"
    and "status \<equiv> (if ok then ''COMPLETED'' else ''FAILED'')"
  shows "\<exists>db' b it'. recoverRetainedTx now run result ok db = Inr (True, db')
     \<and> attempt_row db' run = Some b \<and> item_row db' (wa_work_id a) = Some it' \<and> wa_work_id b = wa_work_id a
     \<and> wi_state it' = to \<and> wa_run_status b = status \<and> wa_run_result b = Some result"
proof -
  have in_a: "a \<in> set (work_attempts db)" "wa_run_id a = run" using attempt_row_Some [OF assms(2)] by auto
  let ?P = "\<lambda>b. wa_run_id b = run \<and> wa_work_id b = wa_work_id a \<and> wa_generation b = wa_generation a
                 \<and> wa_run_status b = ''''"
  let ?g = "\<lambda>b. b\<lparr>wa_run_result := Some result, wa_run_status := status,
                  wa_exit_evidence := ''protected host capture'',
                  wa_end_reason := ''protected retained capture confirmed execution exit'',
                  wa_ended_at := Some now\<rparr>"
  define db1 where "db1 = (if ok then setStateTx it StateSucceeded run (wa_generation a)
                               ''protected retained capture confirmed successful execution'' now db
                        else if wi_source it = SourceChat \<and> wi_domain_kind it = ''host_chat_turn''
                        then setStateTx it StateFailed run (wa_generation a)
                               ''protected retained capture confirmed failed execution'' now db
                        else db)"
  have P: "?P a" using in_a assms(4) by (simp add: retained_settles_def)
  have "count_where ?P (work_attempts db) = 1"
    using in_a P good_wf [OF assms(1)]
    by (intro attempts.count_key_eq1 [of _ _ run]) (auto simp: ledger_wf_def)
  then have tx: "recoverRetainedTx now run result ok db = Inr (True, upd_attempts ?P ?g db1)"
    using assms(2,3,4) in_a(2) parked_ended [OF assms(1-3)] unfolding recoverRetainedTx_def
    by (auto simp: getItemTx_def Let_def retained_settles_def db1_def status_def row_simps split: option.splits)
  have "good (upd_attempts ?P ?g db1)"
    using refines_good [OF assms(1) recoverRetainedTx_refines [OF assms(1) tx]] .
  moreover have "?g a \<in> set (work_attempts (upd_attempts ?P ?g db1))"
    using in_a(1) P by (auto simp: row_simps in_upd_where db1_def intro!: bexI [of _ a])
  ultimately have row: "attempt_row (upd_attempts ?P ?g db1) run = Some (?g a)"
    using wf_attempt_row [OF good_wf] in_a(2) by simp
  have "\<exists>it'. item_row (upd_attempts ?P ?g db1) (wa_work_id a) = Some it' \<and> wi_state it' = to"
    using assms(3,4) item_row_Some [OF assms(3)]
    by (auto simp: db1_def row_simps item_row_setState to_def retained_settles_def)
  then show ?thesis using tx row by auto
qed

text \<open>
  A retained capture settles exactly the parked attempts it fits: given a real exit, an attempt
  of the current generation that waits for reconciliation with no outcome, parked after its runtime was
  asked for and with no contradicting captured exit, gets the capture as its result, a ready
  projection, and the outcome COMPLETED or FAILED; its work succeeds, or, for a chat turn, fails, and other
  failed work stays in reconciliation.  In every other case nothing changes.
\<close>

theorem retained_result_settles_parked:
  assumes "db = run_commands cs empty_db" "attempt_row db run = Some a" "item_row db (wa_work_id a) = Some it"
    and "run \<noteq> ''''" "rr_ExitCode result = Some n" "ok \<longrightarrow> n = 0" "sz result = Some k" "k \<le> result_limit"
    and out: "out = RecoverRetainedResult sz now run result ok db"
  shows "if retained_settles a it result
         then fst out = Inr True
            \<and> (\<exists>it'. item_row (snd out) (wa_work_id a) = Some it' \<and> wi_state it' =
                 (if ok then StateSucceeded
                  else if wi_source it = SourceChat \<and> wi_domain_kind it = ''host_chat_turn'' then StateFailed
                  else StateNeedsReconciliation))
            \<and> (let p = fst (RunProjection_of (snd out) run)
               in pj_Ready p \<and> pj_Status p = (if ok then ''COMPLETED'' else ''FAILED'') \<and> pj_Result p = result)
         else snd out = db"
proof -
  have ok: "good db" using reachable_good assms(1) by simp
  have run: "wa_run_id a = run" using attempt_row_Some [OF assms(2)] by simp
  have out_tx: "out = in_tx db (recoverRetainedTx now run result ok db)"
    using assms(4-8) by (auto simp: out RecoverRetainedResult_def)
  show ?thesis
  proof (cases "retained_settles a it result")
    case True
    obtain db' b it' where "recoverRetainedTx now run result ok db = Inr (True, db')"
        and b: "attempt_row db' run = Some b" "item_row db' (wa_work_id a) = Some it'" "wa_work_id b = wa_work_id a"
        and st: "wi_state it' = (if ok then StateSucceeded
                  else if wi_source it = SourceChat \<and> wi_domain_kind it = ''host_chat_turn'' then StateFailed
                  else StateNeedsReconciliation)"
          "wa_run_status b = (if ok then ''COMPLETED'' else ''FAILED'')" "wa_run_result b = Some result"
      using recover_tx [OF ok assms(2,3) True, where now = now and ok = ok] by auto
    moreover from this(1) have "out = (Inr True, db')" by (simp add: out_tx)
    ultimately show ?thesis using True projection_of_rows [of db' run b it'] by (auto simp: Let_def)
  next
    case False
    then have "isl (recoverRetainedTx now run result ok db) \<or> recoverRetainedTx now run result ok db = Inr (True, db)"
      using assms(2,3) run unfolding recoverRetainedTx_def
      by (auto simp: getItemTx_def Let_def retained_settles_def split: option.splits)
    then show ?thesis using False out_tx
      by (cases "recoverRetainedTx now run result ok db") auto
  qed
qed

theorem retained_result_settles_parked_witness:
  "\<exists>a it'. attempt_row (run_commands demo_parked empty_db) ''r1'' = Some a
     \<and> item_row (snd (RecoverRetainedResult (\<lambda>r. Some 10) 9 ''r1'' (demo_result (Some 0)) True
          (run_commands demo_parked empty_db))) (wa_work_id a) = Some it'
     \<and> wi_state it' = StateSucceeded"
proof -
  let ?db = "run_commands demo_parked empty_db"
  have "case attempt_row ?db ''r1'' of None \<Rightarrow> False
        | Some a \<Rightarrow> (case item_row ?db (wa_work_id a) of None \<Rightarrow> False
            | Some it \<Rightarrow> retained_settles a it (demo_result (Some 0)))" by code_simp
  then obtain a it where a: "attempt_row ?db ''r1'' = Some a" "item_row ?db (wa_work_id a) = Some it"
      "retained_settles a it (demo_result (Some 0))" by (auto split: option.splits)
  have lim: "(10::int) \<le> result_limit" by (simp add: result_limit_def)
  have "''r1'' \<noteq> ''''" "rr_ExitCode (demo_result (Some 0)) = Some 0" "True \<longrightarrow> (0::int) = 0"
    by (simp_all add: demo_result_def)
  from retained_result_settles_parked [where sz = "\<lambda>r. Some 10" and now = 9, OF refl a(1,2) this refl lim refl]
  show ?thesis using a by auto
qed

subsection \<open>The projection outbox\<close>

definition outbox :: "work_db \<Rightarrow> Attempt list" where
  "outbox db = sort_key projection_order (filter projectable (work_attempts db))"

lemma pending_outbox:
  "PendingRunProjections n db = take (nat (if n < 1 \<or> n > 100 then 100 else n)) (map wa_run_id (outbox db))"
  by (simp add: PendingRunProjections_def outbox_def Let_def)

lemma outbox_ready:
  assumes "good db" "run \<in> set (map wa_run_id (outbox db))"
  shows "pj_Ready (fst (RunProjection_of db run))"
    "\<exists>a. attempt_row db run = Some a \<and> projectable a \<and> pj_Status (fst (RunProjection_of db run)) = wa_run_status a"
proof -
  obtain a where a: "a \<in> set (work_attempts db)" "wa_run_id a = run" "projectable a"
    using assms(2) by (auto simp: outbox_def)
  then have row: "attempt_row db run = Some a" using wf_attempt_row [OF good_wf [OF assms(1)]] by simp
  obtain it where "item_row db (wa_work_id a) = Some it" by (rule attempt_has_item [OF assms(1) row])
  note p = projection_of_rows [OF row this]
  show "pj_Ready (fst (RunProjection_of db run))"
    "\<exists>a. attempt_row db run = Some a \<and> projectable a \<and> pj_Status (fst (RunProjection_of db run)) = wa_run_status a"
    using a(3) row by (auto simp: p Let_def projectable_def)
qed

text \<open>
  A projection is delivered once: every run \<open>PendingRunProjections\<close> returns is ready, and after its delivered
  status has been acknowledged with \<open>MarkRunProjected\<close> it is never pending again, whatever runs later.
\<close>

theorem projection_delivered_once:
  assumes "db = run_commands cs empty_db" "run \<in> set (PendingRunProjections n db)"
    and "st = pj_Status (fst (RunProjection_of db run))"
    and "db' = run_commands later_cs (MarkRunProjected now run st db)"
  shows "pj_Ready (fst (RunProjection_of db run)) \<and> run \<notin> set (PendingRunProjections m db')"
proof -
  have ok: "good db" using reachable_good assms(1) by simp
  have mem: "run \<in> set (map wa_run_id (outbox db))" using assms(2) set_take_subset by (fastforce simp: pending_outbox)
  obtain a where a: "attempt_row db run = Some a" "projectable a" "st = wa_run_status a"
    using outbox_ready(2) [OF ok mem] assms(3) by auto
  let ?db1 = "MarkRunProjected now run st db" and ?b = "a\<lparr>wa_run_projected_at := Some now\<rparr>"
  have db1: "?db1 = run_commands (cs @ [DoProjected now run st]) empty_db"
    using assms(1) by (simp add: run_commands_def)
  have "?b \<in> set (work_attempts ?db1)"
    using a attempt_row_Some [OF a(1)]
    by (auto simp: MarkRunProjected_def row_simps in_upd_where projectable_def intro!: bexI [of _ a])
  moreover have "good ?db1" unfolding db1 by (rule reachable_good)
  ultimately have row: "attempt_row ?db1 run = Some ?b"
    using wf_attempt_row [OF good_wf] attempt_row_Some [OF a(1)] by simp
  obtain b where b: "attempt_row db' run = Some b" "attempt_later ?b b" "outcome_ok ?b" "outcome_ok b"
    by (rule reachable_row_later [OF db1 assms(4) row])
  have acked: "wa_run_projected_at b \<noteq> None" using b(2,3) by (auto simp: attempt_later_def attempt_kept_def)
  have ok': "good db'" using run_good [OF reachable_good] assms(4) db1 by simp
  have "run \<notin> set (map wa_run_id (outbox db'))"
  proof
    assume "run \<in> set (map wa_run_id (outbox db'))"
    from outbox_ready(2) [OF ok' this] show False using b(1) acked by (auto simp: projectable_def)
  qed
  then have "run \<notin> set (PendingRunProjections m db')" using in_set_takeD by (fastforce simp: pending_outbox)
  then show ?thesis using outbox_ready(1) [OF ok mem] by simp
qed

theorem projection_delivered_once_witness:
  "''r1'' \<notin> set (PendingRunProjections 5 (MarkRunProjected 9 ''r1'' ''COMPLETED'' (run_commands demo_completed empty_db)))"
proof -
  have "list_ex (\<lambda>r. r = ''r1'') (PendingRunProjections 5 (run_commands demo_completed empty_db))" by code_simp
  then have "''r1'' \<in> set (PendingRunProjections 5 (run_commands demo_completed empty_db))" by (auto simp: list_ex_iff)
  moreover have "pj_Status (fst (RunProjection_of (run_commands demo_completed empty_db) ''r1'')) = ''COMPLETED''"
    by code_simp
  ultimately show ?thesis
    using projection_delivered_once [OF refl _ refl refl, of "''r1''" 5 demo_completed 5 "[]" 9]
    by (simp add: run_commands_def)
qed

definition attempt_batch :: "time \<Rightarrow> string list \<Rightarrow> work_db \<Rightarrow> work_db" where
  "attempt_batch now runs db = foldl (\<lambda>d run. MarkRunProjectionAttempt now run d) db runs"

lemma upd_where_twice:
  assumes "\<And>x. P (g x) = P x" "\<And>x. g (g x) = g x"
  shows "upd_where P g (upd_where Q g xs) = upd_where (\<lambda>x. P x \<or> Q x) g xs"
  by (induction xs) (auto simp: assms)

lemma attempt_batch_rows:
  "work_attempts (attempt_batch now runs db)
     = upd_where (\<lambda>a. wa_run_id a \<in> set runs \<and> wa_run_projected_at a = None)
         (\<lambda>a. a\<lparr>wa_run_projection_attempted_at := Some now\<rparr>) (work_attempts db)"
proof (induction runs arbitrary: db)
  case Nil
  then show ?case by (simp add: attempt_batch_def upd_where_def)
next
  case (Cons r rs)
  have "attempt_batch now (r # rs) db = attempt_batch now rs (MarkRunProjectionAttempt now r db)"
    by (simp add: attempt_batch_def)
  then have "work_attempts (attempt_batch now (r # rs) db)
      = work_attempts (attempt_batch now rs (MarkRunProjectionAttempt now r db))" by (rule arg_cong)
  also have "\<dots> = upd_where (\<lambda>a. wa_run_id a \<in> set (r # rs) \<and> wa_run_projected_at a = None)
         (\<lambda>a. a\<lparr>wa_run_projection_attempted_at := Some now\<rparr>) (work_attempts db)"
    unfolding Cons.IH MarkRunProjectionAttempt_def upd_attempts_sel
    by (subst upd_where_twice) (auto intro: upd_where_cong)
  finally show ?case .
qed

lemma sort_key_unique:
  assumes "mset xs = mset ys" "inj_on k (set ys)" "sorted (map k ys)"
  shows "sort_key k xs = ys"
  using sort_key_inj_key_eq [OF assms(1) _ assms(3)] assms(2) mset_eq_setD [OF assms(1)] by simp

lemma sorted_map_Pair: "sorted xs \<Longrightarrow> sorted (map (Pair x) xs)"
  by (induction xs) (auto simp: less_eq_prod_def)

lemma outbox_distinct:
  assumes "good db"
  shows "distinct (map wa_run_id (outbox db))"
proof -
  have "distinct (map wa_run_id (filter projectable (work_attempts db)))"
    using good_wf [OF assms] by (simp add: ledger_wf_def distinct_map_filter_key)
  then show ?thesis
    unfolding outbox_def by (metis mset_map mset_sort mset_eq_imp_distinct_iff)
qed

text \<open>Attempting a front part of the outbox moves it behind the rest.\<close>

lemma outbox_attempted:
  fixes now :: time
  defines "f \<equiv> \<lambda>a. a\<lparr>wa_run_projection_attempted_at := Some now\<rparr>"
  assumes "good db" "outbox db = T @ D"
    and early: "\<And>d. d \<in> set D \<Longrightarrow> fst (projection_order d) < now"
    and ms: "mset (filter projectable (work_attempts db')) = mset (map f T @ D)"
  shows "outbox db' = D @ sort_key wa_run_id (map f T)"
proof -
  let ?T = "sort_key wa_run_id (map f T)"
  have dist: "distinct (map wa_run_id (T @ D))" using outbox_distinct [OF assms(2)] assms(3) by simp
  have "mset (map wa_run_id (D @ ?T)) = mset (map wa_run_id (T @ D))"
    by (simp add: f_def multiset.map_comp comp_def)
  then have ids: "distinct (map wa_run_id (D @ ?T))" using dist mset_eq_imp_distinct_iff by blast
  have inj: "inj_on projection_order (set (D @ ?T))"
    using ids unfolding distinct_map by (intro inj_onI) (auto simp: projection_order_def dest: inj_onD)
  have "sorted (map projection_order (outbox db))" by (simp add: outbox_def)
  then have sD: "sorted (map projection_order D)" by (simp add: assms(3) sorted_append)
  have sT: "sorted (map projection_order ?T)"
  proof -
    have "projection_order a = (now, wa_run_id a)" if "a \<in> set ?T" for a
      using that by (auto simp: projection_order_def f_def)
    then have "map projection_order ?T = map (Pair now) (map wa_run_id ?T)" by simp
    moreover have "sorted (map wa_run_id ?T)" by (rule sorted_sort_key)
    ultimately show ?thesis using sorted_map_Pair by metis
  qed
  have "projection_order d \<le> projection_order t" if "d \<in> set D" "t \<in> f ` set T" for d t
    using early [OF that(1)] that(2) by (auto simp: projection_order_def f_def less_eq_prod_def)
  moreover have "mset (filter projectable (work_attempts db')) = mset (D @ ?T)" using ms by (simp add: add.commute)
  ultimately show ?thesis
    unfolding outbox_def using sD sT by (intro sort_key_unique [OF _ inj]) (auto simp: sorted_append)
qed

lemma attempted_projectable:
  fixes now :: time
  defines "f \<equiv> \<lambda>a. a\<lparr>wa_run_projection_attempted_at := Some now\<rparr>"
  assumes "good db" "outbox db = T @ D" "db' = attempt_batch now (map wa_run_id T) db"
  shows "mset (filter projectable (work_attempts db')) = mset (map f T @ D)"
proof -
  define h where "h = (\<lambda>a. if wa_run_id a \<in> wa_run_id ` set T then f a else a)"
  define h' where "h' = (\<lambda>a. if wa_run_id a \<in> wa_run_id ` set T \<and> wa_run_projected_at a = None then f a else a)"
  have "work_attempts db' = map h' (work_attempts db)"
    by (simp add: assms(4) attempt_batch_rows upd_where_def f_def [symmetric] h'_def)
  moreover have "projectable (h' a) = projectable a" for a by (simp add: h'_def f_def projectable_def)
  then have "filter projectable (map h' as) = map h' (filter projectable as)" for as
    by (simp add: filter_map comp_def)
  moreover have "map h' (filter projectable as) = map h (filter projectable as)" for as
    by (intro map_cong refl) (simp add: h_def h'_def projectable_def)
  ultimately have "mset (filter projectable (work_attempts db')) = image_mset h (mset (outbox db))"
    by (simp add: outbox_def)
  also have "\<dots> = mset (map h T @ map h D)" by (simp add: assms(3))
  also have "map h D = D"
    using outbox_distinct [OF assms(2)] assms(3) by (intro map_idI) (auto simp: h_def)
  also have "map h T = map f T" by (intro map_cong refl) (simp add: h_def)
  finally show ?thesis .
qed

text \<open>
  The outbox rotates: once a batch taken from its front has been attempted, at an instant after
  every key in it, the runs behind the batch come first, in their old order, and the batch goes to
  the end; so runs that keep failing to be delivered never hold up the ones behind them.
\<close>

theorem outbox_rotates:
  assumes "db = run_commands cs empty_db" "1 \<le> n" "n \<le> 100"
    and later: "\<forall>a \<in> set (work_attempts db). projectable a \<longrightarrow> fst (projection_order a) < now"
    and "db' = attempt_batch now (PendingRunProjections n db) db" "1 \<le> m" "m \<le> 100"
  shows "PendingRunProjections m db'
       = take (nat m) (drop (nat n) (map wa_run_id (outbox db)) @ sort (PendingRunProjections n db))"
proof -
  have ok: "good db" using reachable_good assms(1) by simp
  define T where "T = take (nat n) (outbox db)"
  define D where "D = drop (nat n) (outbox db)"
  let ?f = "\<lambda>a. a\<lparr>wa_run_projection_attempted_at := Some now\<rparr>"
  have TD: "outbox db = T @ D" by (simp add: T_def D_def)
  have batch: "PendingRunProjections n db = map wa_run_id T"
    using assms(2,3) by (simp add: pending_outbox T_def take_map)
  have "fst (projection_order d) < now" if "d \<in> set D" for d
  proof -
    have "d \<in> set (outbox db)" using that TD by simp
    then show ?thesis using later by (auto simp: outbox_def)
  qed
  then have "outbox db' = D @ sort_key wa_run_id (map ?f T)"
    by (rule outbox_attempted [OF ok TD _ attempted_projectable [OF ok TD assms(5) [unfolded batch]]])
  moreover have "map wa_run_id (sort_key wa_run_id (map ?f T)) = sort (map wa_run_id T)"
    by (rule sym, rule sort_key_unique) (simp_all add: multiset.map_comp comp_def)
  ultimately show ?thesis
    using assms(6,7) batch by (simp add: pending_outbox D_def drop_map)
qed

theorem outbox_rotates_witness:
  "PendingRunProjections 1 (attempt_batch 9 (PendingRunProjections 1 (run_commands demo_completed empty_db))
      (run_commands demo_completed empty_db)) = [''r1'']"
proof -
  let ?db = "run_commands demo_completed empty_db"
  have "list_all (\<lambda>a. projectable a \<longrightarrow> fst (projection_order a) < 9) (work_attempts ?db)" by code_simp
  then have "\<forall>a \<in> set (work_attempts ?db). projectable a \<longrightarrow> fst (projection_order a) < 9" by (simp add: list_all_iff)
  note rot = outbox_rotates [OF refl _ _ this refl, of 1 1]
  have "map wa_run_id (outbox ?db) = [''r1'']" "PendingRunProjections 1 ?db = [''r1'']" by code_simp+
  then show ?thesis using rot by simp
qed

end
