(* ===== verification/Policy.thy ===== *)
theory Policy
  imports Ledger_Prelude
begin

text \<open>
  The per-crew autonomy policy (\<^verbatim>\<open>internal/policy\<close>): the closed sets of levels, modes, actions
  and decisions, the decision matrix \<open>DecideAction\<close>, the response to a behaviour-monitor denial,
  validation, the approval mode a run is dispatched with, and the caching resolver.  The Go types
  are strings with declared constants; a value outside the constants is a constructor of its own,
  so that the code's defensive branches are branches of the model.
\<close>

subsection \<open>The closed sets\<close>

datatype AutonomyLevel = AutonomyStrict | AutonomyGuided | AutonomyTrusted | AutonomyFull
  | AutonomyOther string

datatype BehaviorMode = BehaviorWarn | BehaviorBlock | BehaviorOther string

datatype Action = ActionMemoryWrite | ActionSkillCreate | ActionSkillAssign | ActionPersonaSuggest
  | ActionPersonaDirectWrite | ActionNegativeLearning | ActionEphemeralSpawn | ActionCrewCreate
  | ActionAgentCreate | ActionMissionCreate | ActionRoutineScheduleCreate | ActionIssueWrite
  | ActionAssignmentCreate | ActionEscalationCreate | ActionPageWrite | ActionPageCreate
  | ActionOther string

datatype Decision = DecisionInboxApprove | DecisionAutoLogInbox | DecisionAutoLogJournal
  | DecisionAutoJournal | DecisionBlockInbox | DecisionBlockJournal | DecisionRejected

record Policy =
  CrewID :: string
  AutonomyLevel :: AutonomyLevel
  BehaviorMode :: BehaviorMode
  SetByUserID :: string
  SetAt :: "time option"
  Reason :: string

subsection \<open>The decision matrix\<close>

text \<open>
  One function per action, from the autonomy level to the decision; a level the code does not know
  falls through to the defensive default.
\<close>

definition decide_memory_write :: "AutonomyLevel \<Rightarrow> Decision" where
  "decide_memory_write level =
     (case level of
        AutonomyStrict \<Rightarrow> DecisionInboxApprove | AutonomyGuided \<Rightarrow> DecisionInboxApprove
      | AutonomyTrusted \<Rightarrow> DecisionAutoLogInbox | AutonomyFull \<Rightarrow> DecisionAutoJournal
      | AutonomyOther _ \<Rightarrow> DecisionInboxApprove)"

definition decide_skill_create :: "AutonomyLevel \<Rightarrow> Decision" where
  "decide_skill_create level =
     (case level of
        AutonomyStrict \<Rightarrow> DecisionInboxApprove | AutonomyGuided \<Rightarrow> DecisionInboxApprove
      | AutonomyTrusted \<Rightarrow> DecisionInboxApprove | AutonomyFull \<Rightarrow> DecisionAutoLogInbox
      | AutonomyOther _ \<Rightarrow> DecisionInboxApprove)"

definition decide_skill_assign :: "AutonomyLevel \<Rightarrow> Decision" where
  "decide_skill_assign level =
     (case level of
        AutonomyStrict \<Rightarrow> DecisionInboxApprove | AutonomyGuided \<Rightarrow> DecisionAutoLogJournal
      | AutonomyTrusted \<Rightarrow> DecisionAutoLogJournal | AutonomyFull \<Rightarrow> DecisionAutoLogJournal
      | AutonomyOther _ \<Rightarrow> DecisionInboxApprove)"

definition decide_persona_suggest :: "AutonomyLevel \<Rightarrow> Decision" where
  "decide_persona_suggest level =
     (case level of
        AutonomyStrict \<Rightarrow> DecisionInboxApprove | AutonomyGuided \<Rightarrow> DecisionInboxApprove
      | AutonomyTrusted \<Rightarrow> DecisionInboxApprove | AutonomyFull \<Rightarrow> DecisionAutoJournal
      | AutonomyOther _ \<Rightarrow> DecisionInboxApprove)"

definition decide_negative_learning :: "AutonomyLevel \<Rightarrow> Decision" where
  "decide_negative_learning level =
     (case level of
        AutonomyStrict \<Rightarrow> DecisionInboxApprove | AutonomyGuided \<Rightarrow> DecisionAutoLogJournal
      | AutonomyTrusted \<Rightarrow> DecisionAutoJournal | AutonomyFull \<Rightarrow> DecisionAutoJournal
      | AutonomyOther _ \<Rightarrow> DecisionInboxApprove)"

definition decide_ephemeral_spawn :: "AutonomyLevel \<Rightarrow> Decision" where
  "decide_ephemeral_spawn level =
     (case level of
        AutonomyStrict \<Rightarrow> DecisionRejected | AutonomyGuided \<Rightarrow> DecisionInboxApprove
      | AutonomyTrusted \<Rightarrow> DecisionAutoLogJournal | AutonomyFull \<Rightarrow> DecisionAutoJournal
      | AutonomyOther _ \<Rightarrow> DecisionInboxApprove)"

definition decide_crew_create :: "AutonomyLevel \<Rightarrow> Decision" where
  "decide_crew_create level =
     (case level of
        AutonomyStrict \<Rightarrow> DecisionRejected | AutonomyGuided \<Rightarrow> DecisionInboxApprove
      | AutonomyTrusted \<Rightarrow> DecisionInboxApprove | AutonomyFull \<Rightarrow> DecisionAutoLogInbox
      | AutonomyOther _ \<Rightarrow> DecisionInboxApprove)"

definition decide_routine_schedule_create :: "AutonomyLevel \<Rightarrow> Decision" where
  "decide_routine_schedule_create level =
     (case level of
        AutonomyStrict \<Rightarrow> DecisionRejected | AutonomyGuided \<Rightarrow> DecisionAutoLogInbox
      | AutonomyTrusted \<Rightarrow> DecisionAutoLogJournal | AutonomyFull \<Rightarrow> DecisionAutoLogJournal
      | AutonomyOther _ \<Rightarrow> DecisionInboxApprove)"

definition decide_mission_create :: "AutonomyLevel \<Rightarrow> Decision" where
  "decide_mission_create level =
     (case level of
        AutonomyStrict \<Rightarrow> DecisionInboxApprove | AutonomyGuided \<Rightarrow> DecisionAutoLogInbox
      | AutonomyTrusted \<Rightarrow> DecisionAutoLogJournal | AutonomyFull \<Rightarrow> DecisionAutoJournal
      | AutonomyOther _ \<Rightarrow> DecisionInboxApprove)"

definition decide_issue_write :: "AutonomyLevel \<Rightarrow> Decision" where
  "decide_issue_write level =
     (case level of
        AutonomyStrict \<Rightarrow> DecisionInboxApprove | AutonomyGuided \<Rightarrow> DecisionAutoLogJournal
      | AutonomyTrusted \<Rightarrow> DecisionAutoLogJournal | AutonomyFull \<Rightarrow> DecisionAutoJournal
      | AutonomyOther _ \<Rightarrow> DecisionInboxApprove)"

definition decide_assignment_create :: "AutonomyLevel \<Rightarrow> Decision" where
  "decide_assignment_create level =
     (case level of
        AutonomyStrict \<Rightarrow> DecisionInboxApprove | AutonomyGuided \<Rightarrow> DecisionAutoLogInbox
      | AutonomyTrusted \<Rightarrow> DecisionAutoLogJournal | AutonomyFull \<Rightarrow> DecisionAutoJournal
      | AutonomyOther _ \<Rightarrow> DecisionInboxApprove)"

definition decide_escalation_create :: "AutonomyLevel \<Rightarrow> Decision" where
  "decide_escalation_create level =
     (case level of
        AutonomyStrict \<Rightarrow> DecisionAutoLogJournal | AutonomyGuided \<Rightarrow> DecisionAutoLogJournal
      | AutonomyTrusted \<Rightarrow> DecisionAutoLogJournal | AutonomyFull \<Rightarrow> DecisionAutoJournal
      | AutonomyOther _ \<Rightarrow> DecisionInboxApprove)"

definition decide_page_write :: "AutonomyLevel \<Rightarrow> Decision" where
  "decide_page_write level =
     (case level of
        AutonomyStrict \<Rightarrow> DecisionInboxApprove | AutonomyGuided \<Rightarrow> DecisionAutoLogJournal
      | AutonomyTrusted \<Rightarrow> DecisionAutoLogJournal | AutonomyFull \<Rightarrow> DecisionAutoJournal
      | AutonomyOther _ \<Rightarrow> DecisionInboxApprove)"

definition decide_page_create :: "AutonomyLevel \<Rightarrow> Decision" where
  "decide_page_create level =
     (case level of
        AutonomyStrict \<Rightarrow> DecisionInboxApprove | AutonomyGuided \<Rightarrow> DecisionInboxApprove
      | AutonomyTrusted \<Rightarrow> DecisionInboxApprove | AutonomyFull \<Rightarrow> DecisionAutoLogInbox
      | AutonomyOther _ \<Rightarrow> DecisionInboxApprove)"

definition DecideAction :: "Policy \<Rightarrow> Action \<Rightarrow> Decision" where
  "DecideAction p a =
     (case a of
        ActionMemoryWrite \<Rightarrow> decide_memory_write (AutonomyLevel p)
      | ActionSkillCreate \<Rightarrow> decide_skill_create (AutonomyLevel p)
      | ActionSkillAssign \<Rightarrow> decide_skill_assign (AutonomyLevel p)
      | ActionPersonaSuggest \<Rightarrow> decide_persona_suggest (AutonomyLevel p)
      | ActionPersonaDirectWrite \<Rightarrow> DecisionRejected
      | ActionNegativeLearning \<Rightarrow> decide_negative_learning (AutonomyLevel p)
      | ActionEphemeralSpawn \<Rightarrow> decide_ephemeral_spawn (AutonomyLevel p)
      | ActionCrewCreate \<Rightarrow> decide_crew_create (AutonomyLevel p)
      | ActionAgentCreate \<Rightarrow> decide_crew_create (AutonomyLevel p)
      | ActionRoutineScheduleCreate \<Rightarrow> decide_routine_schedule_create (AutonomyLevel p)
      | ActionMissionCreate \<Rightarrow> decide_mission_create (AutonomyLevel p)
      | ActionIssueWrite \<Rightarrow> decide_issue_write (AutonomyLevel p)
      | ActionAssignmentCreate \<Rightarrow> decide_assignment_create (AutonomyLevel p)
      | ActionEscalationCreate \<Rightarrow> decide_escalation_create (AutonomyLevel p)
      | ActionPageWrite \<Rightarrow> decide_page_write (AutonomyLevel p)
      | ActionPageCreate \<Rightarrow> decide_page_create (AutonomyLevel p)
      | ActionOther _ \<Rightarrow> DecisionInboxApprove)"

definition DecideBehaviorDeny :: "Policy \<Rightarrow> Decision" where
  "DecideBehaviorDeny p =
     (if BehaviorMode p = BehaviorWarn
      then (if AutonomyLevel p = AutonomyFull then DecisionAutoJournal else DecisionAutoLogInbox)
      else case AutonomyLevel p of
             AutonomyStrict \<Rightarrow> DecisionBlockInbox
           | AutonomyGuided \<Rightarrow> DecisionBlockInbox
           | AutonomyTrusted \<Rightarrow> DecisionBlockJournal
           | _ \<Rightarrow> DecisionBlockInbox)"

definition IsKnownAction :: "Action \<Rightarrow> bool" where
  "IsKnownAction a = (case a of ActionOther _ \<Rightarrow> False | _ \<Rightarrow> True)"

datatype policy_error = InvalidAutonomyLevel | InvalidBehaviorMode | IncompatibleFullBlock
  | LoadError string

definition Validate :: "Policy \<Rightarrow> policy_error option" where
  "Validate p =
     (if (case AutonomyLevel p of AutonomyOther _ \<Rightarrow> True | _ \<Rightarrow> False) then Some InvalidAutonomyLevel
      else if (case BehaviorMode p of BehaviorOther _ \<Rightarrow> True | _ \<Rightarrow> False) then Some InvalidBehaviorMode
      else if AutonomyLevel p = AutonomyFull \<and> BehaviorMode p = BehaviorBlock
        then Some IncompatibleFullBlock
      else None)"

datatype ApprovalMode = ApprovalModeNone | ApprovalModeAsync | ApprovalModeSync

definition ApprovalModeForLevel :: "AutonomyLevel \<Rightarrow> ApprovalMode" where
  "ApprovalModeForLevel level =
     (case level of
        AutonomyFull \<Rightarrow> ApprovalModeNone
      | AutonomyTrusted \<Rightarrow> ApprovalModeAsync
      | AutonomyStrict \<Rightarrow> ApprovalModeSync
      | AutonomyGuided \<Rightarrow> ApprovalModeSync
      | AutonomyOther _ \<Rightarrow> ApprovalModeSync)"

subsection \<open>The resolver\<close>

text \<open>
  One crew row as the resolver scans it: five nullable text columns.  A \<open>NULL\<close> reads as the empty
  string, which is none of the declared constants.
\<close>

record crew_policy_row =
  autonomy_level :: "string option"
  behavior_mode :: "string option"
  autonomy_set_by :: "string option"
  autonomy_set_at :: "string option"
  autonomy_reason :: "string option"

record cacheEntry =
  ce_policy :: Policy
  ce_expiresAt :: time

type_synonym policy_cache = "string \<rightharpoonup> cacheEntry"

definition parse_level :: "string \<Rightarrow> AutonomyLevel" where
  "parse_level s = (if s = ''strict'' then AutonomyStrict else if s = ''guided'' then AutonomyGuided
     else if s = ''trusted'' then AutonomyTrusted else if s = ''full'' then AutonomyFull
     else AutonomyOther s)"

definition parse_mode :: "string \<Rightarrow> BehaviorMode" where
  "parse_mode s = (if s = ''warn'' then BehaviorWarn else if s = ''block'' then BehaviorBlock
     else BehaviorOther s)"

definition null_string :: "string option \<Rightarrow> string" where
  "null_string x = (case x of None \<Rightarrow> '''' | Some s \<Rightarrow> s)"

definition cacheTTL :: time where
  "cacheTTL = 10 * second"

text \<open>
  \<open>query\<close> is what the database answers for the crew: an error, no row, or a row.  \<open>parse3339\<close> is
  \<^verbatim>\<open>time.Parse(time.RFC3339, _)\<close> on the stored text, which only fills the informational field
  \<open>SetAt\<close>.
\<close>

definition loadFromDB :: "(string \<Rightarrow> time option) \<Rightarrow> (policy_error + crew_policy_row option) \<Rightarrow> string
    \<Rightarrow> policy_error + Policy" where
  "loadFromDB parse3339 query crew =
     (case query of
        Inl e \<Rightarrow> Inl e
      | Inr None \<Rightarrow> Inr \<lparr>CrewID = crew, AutonomyLevel = AutonomyGuided, BehaviorMode = BehaviorWarn,
                       SetByUserID = '''', SetAt = None, Reason = ''''\<rparr>
      | Inr (Some row) \<Rightarrow>
          (let p = \<lparr>CrewID = crew, AutonomyLevel = parse_level (null_string (autonomy_level row)),
                    BehaviorMode = parse_mode (null_string (behavior_mode row)),
                    SetByUserID = null_string (autonomy_set_by row),
                    SetAt = (case autonomy_set_at row of None \<Rightarrow> None | Some t \<Rightarrow> parse3339 t),
                    Reason = null_string (autonomy_reason row)\<rparr>
           in case Validate p of Some e \<Rightarrow> Inl e | None \<Rightarrow> Inr p))"

definition Resolve_policy :: "(string \<Rightarrow> time option) \<Rightarrow> time \<Rightarrow> (string \<Rightarrow> policy_error + crew_policy_row option)
    \<Rightarrow> string \<Rightarrow> policy_cache \<Rightarrow> (policy_error + Policy) \<times> policy_cache" where
  "Resolve_policy parse3339 now query crew cache =
     (let miss = (case loadFromDB parse3339 (query crew) crew of
                    Inl e \<Rightarrow> (Inl e, cache)
                  | Inr p \<Rightarrow> (Inr p, cache(crew \<mapsto> \<lparr>ce_policy = p, ce_expiresAt = now + cacheTTL\<rparr>)))
      in case cache crew of
           Some e \<Rightarrow> (if ce_expiresAt e > now then (Inr (ce_policy e), cache) else miss)
         | None \<Rightarrow> miss)"

definition Invalidate :: "string \<Rightarrow> policy_cache \<Rightarrow> policy_cache" where
  "Invalidate crew cache = cache(crew := None)"

end
