(* ===== verification/Policy_Decisions.thy ===== *)
theory Policy_Decisions
  imports Policy
begin

text \<open>
  Properties of the autonomy policy: decisions are ordered by how much the agent may do unseen, the
  matrix is monotone in the autonomy level, and whatever the code does not know is held for a
  human.
\<close>

subsection \<open>Decisions ordered by freedom\<close>

fun decision_rank :: "Decision \<Rightarrow> nat" where
  "decision_rank DecisionBlockInbox = 0"
| "decision_rank DecisionBlockJournal = 1"
| "decision_rank DecisionRejected = 2"
| "decision_rank DecisionInboxApprove = 3"
| "decision_rank DecisionAutoLogInbox = 4"
| "decision_rank DecisionAutoLogJournal = 5"
| "decision_rank DecisionAutoJournal = 6"

lemma decision_rank_inj: "decision_rank d = decision_rank e \<Longrightarrow> d = e"
  by (cases d; cases e) simp_all

instantiation Decision :: linorder
begin

definition less_eq_Decision :: "Decision \<Rightarrow> Decision \<Rightarrow> bool" where
  "d \<le> e \<longleftrightarrow> decision_rank d \<le> decision_rank e"

definition less_Decision :: "Decision \<Rightarrow> Decision \<Rightarrow> bool" where
  "d < e \<longleftrightarrow> decision_rank d < decision_rank e"

instance
  by standard (auto simp: less_eq_Decision_def less_Decision_def dest: decision_rank_inj)

end

fun level_rank :: "AutonomyLevel \<Rightarrow> nat option" where
  "level_rank AutonomyStrict = Some 0"
| "level_rank AutonomyGuided = Some 1"
| "level_rank AutonomyTrusted = Some 2"
| "level_rank AutonomyFull = Some 3"
| "level_rank (AutonomyOther _) = None"

lemmas decide_defs = decide_memory_write_def decide_skill_create_def decide_skill_assign_def
  decide_persona_suggest_def decide_negative_learning_def decide_ephemeral_spawn_def
  decide_crew_create_def decide_routine_schedule_create_def decide_mission_create_def
  decide_issue_write_def decide_assignment_create_def decide_escalation_create_def
  decide_page_write_def decide_page_create_def

lemma DecideAction_level: "AutonomyLevel p = AutonomyLevel q \<Longrightarrow> DecideAction p a = DecideAction q a"
  by (cases a) (simp_all add: DecideAction_def)

text \<open>One step up the ladder never takes freedom away.\<close>

lemma decide_steps:
  assumes "AutonomyLevel p = AutonomyStrict" "AutonomyLevel q = AutonomyGuided"
    "AutonomyLevel r = AutonomyTrusted" "AutonomyLevel s = AutonomyFull"
  shows "DecideAction p a \<le> DecideAction q a" "DecideAction q a \<le> DecideAction r a"
    "DecideAction r a \<le> DecideAction s a"
  by (cases a; simp add: DecideAction_def decide_defs assms less_eq_Decision_def)+

lemma level_rank_Some:
  "level_rank l = Some i \<longleftrightarrow> l = AutonomyStrict \<and> i = 0 \<or> l = AutonomyGuided \<and> i = 1
     \<or> l = AutonomyTrusted \<and> i = 2 \<or> l = AutonomyFull \<and> i = 3"
  by (cases l) auto

text \<open>
  C40. More autonomy never means less freedom: between two crews whose levels are known, the crew of
  the higher level gets for every action a decision at least as permissive (rejected, held for
  approval, executed with an inbox card, executed with a journal entry, executed silently).
\<close>

theorem decide_monotone:
  assumes "level_rank (AutonomyLevel p) = Some i" "level_rank (AutonomyLevel q) = Some j" "i \<le> j"
  shows "DecideAction p a \<le> DecideAction q a"
proof -
  define D where "D = (\<lambda>l. DecideAction (p\<lparr>AutonomyLevel := l\<rparr>) a)"
  have up: "D AutonomyStrict \<le> D AutonomyGuided" "D AutonomyGuided \<le> D AutonomyTrusted"
      "D AutonomyTrusted \<le> D AutonomyFull"
    unfolding D_def
    by (rule decide_steps [of "p\<lparr>AutonomyLevel := AutonomyStrict\<rparr>" "p\<lparr>AutonomyLevel := AutonomyGuided\<rparr>"
        "p\<lparr>AutonomyLevel := AutonomyTrusted\<rparr>" "p\<lparr>AutonomyLevel := AutonomyFull\<rparr>"]; simp)+
  note up = up order_trans [OF up(1,2)] order_trans [OF up(2,3)] order_trans [OF order_trans [OF up(1,2)] up(3)]
  have "D (AutonomyLevel p) \<le> D (AutonomyLevel q)" using assms up by (auto simp: level_rank_Some)
  moreover have "D (AutonomyLevel p) = DecideAction p a" by (simp add: D_def)
  moreover have "D (AutonomyLevel q) = DecideAction q a" unfolding D_def by (rule DecideAction_level) simp
  ultimately show ?thesis by simp
qed

definition demo_policy :: "AutonomyLevel \<Rightarrow> BehaviorMode \<Rightarrow> Policy" where
  "demo_policy l m = \<lparr>CrewID = ''c'', AutonomyLevel = l, BehaviorMode = m, SetByUserID = '''', SetAt = None,
     Reason = ''''\<rparr>"

theorem decide_monotone_witness:
  "DecideAction (demo_policy AutonomyGuided BehaviorWarn) ActionMemoryWrite
     \<le> DecideAction (demo_policy AutonomyTrusted BehaviorWarn) ActionMemoryWrite"
  by (rule decide_monotone [of _ 1 _ 2]) (simp_all add: demo_policy_def)

text \<open>
  The policy fails closed: an action outside the closed set, or a level outside it, is never
  executed without a human (it is held for approval or rejected); a mode outside the set answers a
  behaviour denial with a block, and a persona is never written directly at any level.
\<close>

theorem policy_fails_closed:
  "(\<not> IsKnownAction a \<or> level_rank (AutonomyLevel p) = None
      \<longrightarrow> DecideAction p a \<le> DecisionInboxApprove)
   \<and> (BehaviorMode p \<noteq> BehaviorWarn \<longrightarrow> DecideBehaviorDeny p \<in> {DecisionBlockInbox, DecisionBlockJournal})
   \<and> DecideAction p ActionPersonaDirectWrite = DecisionRejected"
proof (intro conjI impI)
  assume "\<not> IsKnownAction a \<or> level_rank (AutonomyLevel p) = None"
  then show "DecideAction p a \<le> DecisionInboxApprove"
    by (cases a; cases "AutonomyLevel p")
      (simp_all add: IsKnownAction_def DecideAction_def decide_defs less_eq_Decision_def)
next
  assume "BehaviorMode p \<noteq> BehaviorWarn"
  then show "DecideBehaviorDeny p \<in> {DecisionBlockInbox, DecisionBlockJournal}"
    by (cases "AutonomyLevel p") (simp_all add: DecideBehaviorDeny_def)
qed (simp add: DecideAction_def)

theorem policy_fails_closed_witness:
  "DecideAction (demo_policy (AutonomyOther ''root'') BehaviorWarn) ActionMissionCreate \<le> DecisionInboxApprove
   \<and> DecideBehaviorDeny (demo_policy AutonomyFull (BehaviorOther ''x'')) \<in> {DecisionBlockInbox, DecisionBlockJournal}"
  using policy_fails_closed [of ActionMissionCreate "demo_policy (AutonomyOther ''root'') BehaviorWarn"]
    policy_fails_closed [of ActionMissionCreate "demo_policy AutonomyFull (BehaviorOther ''x'')"]
  by (simp add: demo_policy_def)

end
