(* ===== verification/Policy_Resolver.thy ===== *)
theory Policy_Resolver
  imports Policy_Decisions
begin

text \<open>
  The caching resolver under concurrency.  A call of \<open>Resolve\<close> touches shared state three times:
  it reads the clock and the cache, it reads the database, and it writes the cache.  Calls, writes
  to the crews table, \<open>Invalidate\<close> and the clock interleave at these points in any order; a run of
  the system is the list of what happened.  The properties say how old a returned policy can be,
  and what \<open>Invalidate\<close> does and does not promise.
\<close>

subsection \<open>Interleaved calls\<close>

datatype call = Fetching string time | Fetched string time Policy

record resolver_state =
  rs_now :: time
  rs_db :: "string \<Rightarrow> policy_error + crew_policy_row option"
  rs_cache :: policy_cache
  rs_calls :: "nat \<rightharpoonup> call"
  rs_results :: "nat \<rightharpoonup> string \<times> time \<times> (policy_error + Policy)"

datatype resolver_action =
    Tick nat
  | WriteCrew string "policy_error + crew_policy_row option"
  | DropEntry string
  | BeginResolve nat string
  | LoadRow nat
  | StoreEntry nat

text \<open>
  A call is known by a number of its own; an action of a call that is not at that point of its
  code does nothing.  A finished call leaves its crew, the instant it began and its result.
\<close>

fun resolver_step :: "(string \<Rightarrow> time option) \<Rightarrow> resolver_action \<Rightarrow> resolver_state \<Rightarrow> resolver_state" where
  "resolver_step parse (Tick n) s = s\<lparr>rs_now := rs_now s + int n\<rparr>"
| "resolver_step parse (WriteCrew c row) s = s\<lparr>rs_db := (rs_db s)(c := row)\<rparr>"
| "resolver_step parse (DropEntry c) s = s\<lparr>rs_cache := Invalidate c (rs_cache s)\<rparr>"
| "resolver_step parse (BeginResolve i c) s =
     (if rs_calls s i \<noteq> None \<or> rs_results s i \<noteq> None then s
      else case rs_cache s c of
             Some e \<Rightarrow>
               if ce_expiresAt e > rs_now s
               then s\<lparr>rs_results := (rs_results s)(i \<mapsto> (c, rs_now s, Inr (ce_policy e)))\<rparr>
               else s\<lparr>rs_calls := (rs_calls s)(i \<mapsto> Fetching c (rs_now s))\<rparr>
           | None \<Rightarrow> s\<lparr>rs_calls := (rs_calls s)(i \<mapsto> Fetching c (rs_now s))\<rparr>)"
| "resolver_step parse (LoadRow i) s =
     (case rs_calls s i of
        Some (Fetching c t) \<Rightarrow>
          (case loadFromDB parse (rs_db s c) c of
             Inl e \<Rightarrow> s\<lparr>rs_calls := (rs_calls s)(i := None),
                        rs_results := (rs_results s)(i \<mapsto> (c, t, Inl e))\<rparr>
           | Inr p \<Rightarrow> s\<lparr>rs_calls := (rs_calls s)(i \<mapsto> Fetched c t p)\<rparr>)
      | _ \<Rightarrow> s)"
| "resolver_step parse (StoreEntry i) s =
     (case rs_calls s i of
        Some (Fetched c t p) \<Rightarrow>
          s\<lparr>rs_calls := (rs_calls s)(i := None),
            rs_cache := (rs_cache s)(c \<mapsto> \<lparr>ce_policy = p, ce_expiresAt = t + cacheTTL\<rparr>),
            rs_results := (rs_results s)(i \<mapsto> (c, t, Inr p))\<rparr>
      | _ \<Rightarrow> s)"

fun resolver_run :: "(string \<Rightarrow> time option) \<Rightarrow> resolver_action list \<Rightarrow> resolver_state \<Rightarrow> resolver_state" where
  "resolver_run parse [] s = s"
| "resolver_run parse (a # as) s = resolver_run parse as (resolver_step parse a s)"

definition new_resolver :: "time \<Rightarrow> (string \<Rightarrow> policy_error + crew_policy_row option) \<Rightarrow> resolver_state" where
  "new_resolver now db = \<lparr>rs_now = now, rs_db = db, rs_cache = Map.empty, rs_calls = Map.empty,
     rs_results = Map.empty\<rparr>"

lemma resolver_run_append:
  "resolver_run parse (as @ bs) s = resolver_run parse bs (resolver_run parse as s)"
  by (induction as arbitrary: s) simp_all

text \<open>A call that nothing interrupts is the sequential \<open>Resolve\<close>.\<close>

lemma uninterrupted_call:
  assumes "rs_calls s i = None" "rs_results s i = None"
  shows "let s' = resolver_run parse [BeginResolve i c, LoadRow i, StoreEntry i] s
     in rs_results s' i = Some (c, rs_now s, fst (Resolve_policy parse (rs_now s) (rs_db s) c (rs_cache s)))
      \<and> rs_cache s' = snd (Resolve_policy parse (rs_now s) (rs_db s) c (rs_cache s))"
  using assms by (auto simp: Let_def Resolve_policy_def split: option.splits sum.splits)

subsection \<open>Where a result comes from\<close>

text \<open>\<open>loadable\<close>: a policy the database answers for the crew in that state.\<close>

definition loadable :: "(string \<Rightarrow> time option) \<Rightarrow> string \<Rightarrow> Policy \<Rightarrow> resolver_state \<Rightarrow> bool" where
  "loadable parse c p s \<longleftrightarrow> loadFromDB parse (rs_db s c) c = Inr p"

text \<open>
  \<open>sourced\<close> is the invariant of a run that started with nothing about the crew in the cache or
  under way: all it holds was loadable in one of the states \<open>seen\<close> so far, not earlier than it claims.
\<close>

definition sourced :: "(string \<Rightarrow> time option) \<Rightarrow> string \<Rightarrow> nat set \<Rightarrow> resolver_state set \<Rightarrow> resolver_state \<Rightarrow> bool" where
  "sourced parse c old seen s \<longleftrightarrow>
     (\<forall>e. rs_cache s c = Some e \<longrightarrow>
        (\<exists>u \<in> seen. loadable parse c (ce_policy e) u \<and> ce_expiresAt e - cacheTTL \<le> rs_now u))
   \<and> (\<forall>i t. rs_calls s i = Some (Fetching c t) \<longrightarrow> t \<le> rs_now s)
   \<and> (\<forall>i t p. rs_calls s i = Some (Fetched c t p) \<longrightarrow> (\<exists>u \<in> seen. loadable parse c p u \<and> t \<le> rs_now u))
   \<and> (\<forall>i t p. i \<notin> old \<and> rs_results s i = Some (c, t, Inr p) \<longrightarrow>
        (\<exists>u \<in> seen. loadable parse c p u \<and> t - cacheTTL \<le> rs_now u))"

lemma sourced_mono: "sourced parse c old seen s \<Longrightarrow> seen \<subseteq> seen' \<Longrightarrow> sourced parse c old seen' s"
  unfolding sourced_def by blast

lemma cacheTTL_pos: "0 \<le> cacheTTL"
  by (simp add: cacheTTL_def second_def)

lemma sourced_step:
  assumes "sourced parse c old seen s" "s \<in> seen"
  shows "sourced parse c old seen (resolver_step parse a s)"
proof (cases a)
  case (Tick n)
  then show ?thesis using assms(1) by (force simp: sourced_def)
next
  case (WriteCrew d row)
  then show ?thesis using assms(1) by (simp add: sourced_def)
next
  case (DropEntry d)
  then show ?thesis using assms(1) by (simp add: sourced_def Invalidate_def)
next
  case (BeginResolve i d)
  have "\<exists>u \<in> seen. loadable parse c (ce_policy e) u \<and> rs_now s - cacheTTL \<le> rs_now u"
    if e: "rs_cache s c = Some e" "ce_expiresAt e > rs_now s" for e
  proof -
    obtain u where "u \<in> seen" "loadable parse c (ce_policy e) u" "ce_expiresAt e - cacheTTL \<le> rs_now u"
      using assms(1) e(1) unfolding sourced_def by blast
    then show ?thesis using e(2) by (intro bexI [of _ u]) auto
  qed
  then show ?thesis using assms(1) BeginResolve
    by (auto simp: sourced_def split: option.splits)
next
  case (LoadRow i)
  then show ?thesis using assms
    by (auto simp: sourced_def loadable_def split: option.splits call.splits sum.splits)
next
  case (StoreEntry i)
  show ?thesis
  proof (cases "\<exists>d t p. rs_calls s i = Some (Fetched d t p)")
    case True
    then obtain d t p where f: "rs_calls s i = Some (Fetched d t p)" by blast
    have "\<exists>u \<in> seen. loadable parse c p u \<and> t \<le> rs_now u \<and> t - cacheTTL \<le> rs_now u" if d: "d = c"
    proof -
      obtain u where "u \<in> seen" "loadable parse c p u" "t \<le> rs_now u"
        using assms(1) f unfolding d sourced_def by blast
      then show ?thesis using cacheTTL_pos by (intro bexI [of _ u]) auto
    qed
    then show ?thesis using assms(1) StoreEntry f by (auto simp: sourced_def)
  next
    case False
    then show ?thesis using assms(1) StoreEntry by (auto split: option.splits call.splits)
  qed
qed

definition seen_states :: "(string \<Rightarrow> time option) \<Rightarrow> resolver_action list \<Rightarrow> resolver_state \<Rightarrow> resolver_state set" where
  "seen_states parse as s = {resolver_run parse bs s | bs cs. as = bs @ cs}"

lemma seen_self: "resolver_run parse as s \<in> seen_states parse as s"
  by (auto simp: seen_states_def)

lemma seen_grows: "seen_states parse as s \<subseteq> seen_states parse (as @ bs) s"
proof
  fix u
  assume "u \<in> seen_states parse as s"
  then obtain xs ys where "u = resolver_run parse xs s" "as = xs @ ys" by (auto simp: seen_states_def)
  then have "u = resolver_run parse xs s \<and> as @ bs = xs @ (ys @ bs)" by simp
  then show "u \<in> seen_states parse (as @ bs) s" unfolding seen_states_def by blast
qed

lemma sourced_run:
  assumes "rs_cache s c = None" "\<And>i t. rs_calls s i \<noteq> Some (Fetching c t)"
    "\<And>i t p. rs_calls s i \<noteq> Some (Fetched c t p)"
  shows "sourced parse c (dom (rs_results s)) (seen_states parse as s) (resolver_run parse as s)"
proof (induction as rule: rev_induct)
  case Nil
  then show ?case using assms by (auto simp: sourced_def dom_def)
next
  case (snoc a as)
  have "sourced parse c (dom (rs_results s)) (seen_states parse as s)
      (resolver_step parse a (resolver_run parse as s))"
    by (rule sourced_step [OF snoc seen_self])
  then show ?case using sourced_mono [OF _ seen_grows] by (simp add: resolver_run_append)
qed

lemma result_sourced:
  assumes "rs_cache s c = None" "\<And>i t. rs_calls s i \<noteq> Some (Fetching c t)"
    "\<And>i t p. rs_calls s i \<noteq> Some (Fetched c t p)"
    "rs_results s i = None" "rs_results (resolver_run parse as s) i = Some (c, t, Inr p)"
  shows "\<exists>bs cs. as = bs @ cs \<and> loadable parse c p (resolver_run parse bs s)
           \<and> t - cacheTTL \<le> rs_now (resolver_run parse bs s)"
  using sourced_run [OF assms(1-3), of parse as] assms(4,5)
  unfolding sourced_def seen_states_def by blast

lemma loadable_valid: "loadable parse c p s \<Longrightarrow> Validate p = None"
  by (auto simp: loadable_def loadFromDB_def Let_def Validate_def split: sum.splits option.splits if_splits)

subsection \<open>Properties\<close>

text \<open>
  A resolved policy is valid and at most ten seconds old: on every interleaving from a new
  resolver, a call that returns a policy returns a valid one (never full autonomy with blocking
  behaviour), and the database answered exactly that policy for the crew at some moment not
  earlier than \<open>cacheTTL\<close> before the call began.
\<close>

theorem resolve_staleness_bounded:
  assumes "rs_results (resolver_run parse as (new_resolver now db)) i = Some (c, t, Inr p)"
  shows "Validate p = None
       \<and> (\<exists>bs cs. as = bs @ cs
            \<and> loadFromDB parse (rs_db (resolver_run parse bs (new_resolver now db)) c) c = Inr p
            \<and> t - cacheTTL \<le> rs_now (resolver_run parse bs (new_resolver now db)))"
  using result_sourced [of "new_resolver now db" c i parse as t p] assms loadable_valid
  by (simp add: new_resolver_def loadable_def) blast

definition demo_row :: "string \<Rightarrow> policy_error + crew_policy_row option" where
  "demo_row level = Inr (Some \<lparr>autonomy_level = Some level, behavior_mode = Some ''warn'',
     autonomy_set_by = None, autonomy_set_at = None, autonomy_reason = None\<rparr>)"

lemma result_shape:
  "(case x of Some (c, t, Inr p) \<Rightarrow> P c t p | _ \<Rightarrow> False) \<Longrightarrow> \<exists>c t p. x = Some (c, t, Inr p) \<and> P c t p"
  by (auto split: option.splits prod.splits sum.splits)

definition demo_call :: "(string \<times> time \<times> (policy_error + Policy)) option" where
  "demo_call = rs_results (resolver_run (\<lambda>_. None) [BeginResolve 0 ''c'', LoadRow 0, StoreEntry 0]
        (new_resolver 0 (\<lambda>_. demo_row ''full''))) 0"

theorem resolve_staleness_bounded_witness:
  "\<exists>c t p. demo_call = Some (c, t, Inr p) \<and> Validate p = None \<and> t = 0"
proof -
  have "case demo_call of Some (c, t, Inr p) \<Rightarrow> t = 0 | _ \<Rightarrow> False" by code_simp
  from result_shape [OF this] obtain c t p where r: "demo_call = Some (c, t, Inr p)" "t = 0" by blast
  have "Validate p = None" using resolve_staleness_bounded [OF r(1) [unfolded demo_call_def]] by (rule conjunct1)
  with r show ?thesis by blast
qed

text \<open>
  \<open>Invalidate\<close> with nothing under way: if no call for the crew is between its read of the
  database and its write of the cache when the entry is dropped, every call that returns after it
  and was not finished before returns a policy the database held at or after the drop.
\<close>

theorem invalidate_gives_fresh_state:
  assumes "s = resolver_step parse (DropEntry c) s0"
    "\<And>i t. rs_calls s0 i \<noteq> Some (Fetching c t)" "\<And>i t p. rs_calls s0 i \<noteq> Some (Fetched c t p)"
    "rs_results s0 i = None" "rs_results (resolver_run parse as s) i = Some (c, t, Inr p)"
  shows "\<exists>bs cs. as = bs @ cs \<and> loadFromDB parse (rs_db (resolver_run parse bs s) c) c = Inr p"
proof -
  have "rs_cache s c = None" "rs_calls s = rs_calls s0" "rs_results s = rs_results s0"
    using assms(1) by (simp_all add: Invalidate_def)
  then have "\<exists>bs cs. as = bs @ cs \<and> loadable parse c p (resolver_run parse bs s)
           \<and> t - cacheTTL \<le> rs_now (resolver_run parse bs s)"
    using assms(2-5) by (intro result_sourced) simp_all
  then show ?thesis by (auto simp: loadable_def)
qed

definition demo_changed :: resolver_state where
  "demo_changed = resolver_run (\<lambda>_. None)
     [BeginResolve 0 ''c'', LoadRow 0, StoreEntry 0, WriteCrew ''c'' (demo_row ''strict'')]
     (new_resolver 0 (\<lambda>_. demo_row ''full''))"

definition demo_next :: "resolver_action list" where
  "demo_next = [BeginResolve 1 ''c'', LoadRow 1, StoreEntry 1]"

theorem invalidate_gives_fresh_state_witness:
  "\<exists>bs cs p. demo_next = bs @ cs \<and> AutonomyLevel p = AutonomyStrict
     \<and> loadFromDB (\<lambda>_. None) (rs_db (resolver_run (\<lambda>_. None) bs
          (resolver_step (\<lambda>_. None) (DropEntry ''c'') demo_changed)) ''c'') ''c'' = Inr p"
proof -
  have "case rs_results (resolver_run (\<lambda>_. None) demo_next (resolver_step (\<lambda>_. None) (DropEntry ''c'') demo_changed)) 1 of
        Some (c, t, Inr p) \<Rightarrow> c = ''c'' \<and> AutonomyLevel p = AutonomyStrict | _ \<Rightarrow> False" by code_simp
  from result_shape [OF this] obtain t p where r: "rs_results (resolver_run (\<lambda>_. None) demo_next
      (resolver_step (\<lambda>_. None) (DropEntry ''c'') demo_changed)) 1 = Some (''c'', t, Inr p)" "AutonomyLevel p = AutonomyStrict"
    by blast
  have "rs_calls demo_changed = Map.empty"
    by (auto simp: demo_changed_def new_resolver_def loadFromDB_def demo_row_def parse_level_def parse_mode_def
        null_string_def Validate_def fun_eq_iff)
  then have calls: "rs_calls demo_changed i \<noteq> Some (Fetching c t)" "rs_calls demo_changed i \<noteq> Some (Fetched c t p)"
    for i c t p by simp_all
  have "case rs_results demo_changed 1 of None \<Rightarrow> True | _ \<Rightarrow> False" by code_simp
  then have none: "rs_results demo_changed 1 = None" by (simp split: option.splits)
  obtain bs cs where "demo_next = bs @ cs" "loadFromDB (\<lambda>_. None) (rs_db (resolver_run (\<lambda>_. None) bs
          (resolver_step (\<lambda>_. None) (DropEntry ''c'') demo_changed)) ''c'') ''c'' = Inr p"
    using invalidate_gives_fresh_state [OF refl calls none r(1)] by blast
  then show ?thesis using r(2) by blast
qed

text \<open>
  \<open>Invalidate\<close> can be overtaken.  The crew's level is lowered and its entry dropped while a call
  has read the old row and not yet written the cache; that call then stores the old policy, and a
  call that begins later returns it, although the entry was dropped after the update.
\<close>

theorem invalidate_can_be_overtaken:
  "\<exists>c t p. rs_results (resolver_run (\<lambda>_. None)
          [BeginResolve 0 ''c'', LoadRow 0, WriteCrew ''c'' (demo_row ''strict''), DropEntry ''c'', StoreEntry 0,
           Tick 1, BeginResolve 1 ''c'']
          (new_resolver 0 (\<lambda>_. demo_row ''full''))) 1 = Some (c, t, Inr p)
     \<and> t = 1 \<and> AutonomyLevel p = AutonomyFull"
proof -
  have "case rs_results (resolver_run (\<lambda>_. None)
          [BeginResolve 0 ''c'', LoadRow 0, WriteCrew ''c'' (demo_row ''strict''), DropEntry ''c'', StoreEntry 0,
           Tick 1, BeginResolve 1 ''c'']
          (new_resolver 0 (\<lambda>_. demo_row ''full''))) 1 of
        Some (c, t, Inr p) \<Rightarrow> t = 1 \<and> AutonomyLevel p = AutonomyFull | _ \<Rightarrow> False" by code_simp
  from result_shape [OF this] show ?thesis .
qed

end
