(* ===== verification/Statuses.thy ===== *)
theory Statuses
  imports Ledger_Prelude
begin

text \<open>
  The canonical status tables of issues, missions and tasks and the three functions over them
  (\<^verbatim>\<open>internal/statuses/transitions.go\<close>): the one-step check, the list of allowed targets a
  refusal reports, and the breadth-first route a refusal may offer instead.  The table is the Go
  map as an association list; \<open>RouteTo\<close> keeps the code's queue, its predecessor map and the walk
  back over it, and the lemmas show that it always returns and that what it returns is a
  shortest legal route.
\<close>

subsection \<open>The tables\<close>

type_synonym transitions = "(string \<times> string list) list"

definition ValidIssueTransitions :: transitions where
  "ValidIssueTransitions =
     [(''BACKLOG'', [''TODO'', ''IN_PROGRESS'', ''CANCELLED'', ''DUPLICATE'']),
      (''TODO'', [''IN_PROGRESS'', ''BACKLOG'', ''CANCELLED'', ''DUPLICATE'']),
      (''IN_PROGRESS'', [''REVIEW'', ''DONE'', ''FAILED'', ''CANCELLED'', ''TODO'', ''DUPLICATE'']),
      (''REVIEW'', [''DONE'', ''TODO'', ''IN_PROGRESS'', ''FAILED'', ''CANCELLED'', ''DUPLICATE'']),
      (''DONE'', [''BACKLOG'']),
      (''FAILED'', [''BACKLOG'', ''TODO'', ''IN_PROGRESS'']),
      (''CANCELLED'', [''BACKLOG'', ''TODO'']),
      (''DUPLICATE'', [])]"

definition ValidMissionTransitions :: transitions where
  "ValidMissionTransitions =
     [(''PLANNING'', [''IN_PROGRESS'', ''CANCELLED'']),
      (''IN_PROGRESS'', [''REVIEW'', ''FAILED'', ''CANCELLED'']),
      (''REVIEW'', [''DONE'', ''IN_PROGRESS'', ''FAILED'', ''CANCELLED'']),
      (''BACKLOG'', [''TODO'', ''IN_PROGRESS'', ''CANCELLED'']),
      (''TODO'', [''BACKLOG'', ''IN_PROGRESS'', ''CANCELLED'']),
      (''DONE'', [''BACKLOG'']),
      (''FAILED'', [''BACKLOG'', ''TODO'', ''IN_PROGRESS''])]"

definition ValidTaskTransitions :: transitions where
  "ValidTaskTransitions =
     [(''PENDING'', [''IN_PROGRESS'', ''SKIPPED'']),
      (''BLOCKED'', [''PENDING'', ''SKIPPED'']),
      (''IN_PROGRESS'', [''COMPLETED'', ''FAILED'', ''SKIPPED''])]"

text \<open>Indexing a Go map with a missing key gives the nil slice.\<close>

definition succs :: "transitions \<Rightarrow> string \<Rightarrow> string list" where
  "succs T u = (case map_of T u of None \<Rightarrow> [] | Some ts \<Rightarrow> ts)"

subsection \<open>The operations\<close>

definition IsValidTransition :: "transitions \<Rightarrow> string \<Rightarrow> string \<Rightarrow> bool" where
  "IsValidTransition T current target = list_ex (\<lambda>s. s = target) (succs T current)"

definition AllowedFrom :: "transitions \<Rightarrow> string \<Rightarrow> string list option" where
  "AllowedFrom T current = map_of T current"

fun expand :: "string \<Rightarrow> string \<Rightarrow> string list \<Rightarrow> (string \<rightharpoonup> string) \<Rightarrow> string list
    \<Rightarrow> ((string \<rightharpoonup> string) \<times> string list) + (string \<rightharpoonup> string)" where
  "expand node target [] prev queue = Inl (prev, queue)"
| "expand node target (next # ns) prev queue =
     (if prev next \<noteq> None then expand node target ns prev queue
      else if next = target then Inr (prev(next \<mapsto> node))
      else expand node target ns (prev(next \<mapsto> node)) (queue @ [next]))"

partial_function (option) walk_back ::
  "(string \<rightharpoonup> string) \<Rightarrow> string \<Rightarrow> string \<Rightarrow> string list option" where
  "walk_back prev current s =
     (if s = current then Some []
      else Option.bind (walk_back prev current (case prev s of None \<Rightarrow> '''' | Some u \<Rightarrow> u))
             (\<lambda>p. Some (s # p)))"

declare walk_back.simps [code]

lemma expand_Inl:
  "expand node target ns prev queue = Inl (prev', queue') \<Longrightarrow>
     \<exists>new. queue' = queue @ new \<and> set new = set ns - dom prev \<and> target \<notin> set new
         \<and> prev' = (\<lambda>v. if v \<in> set new then Some node else prev v)"
proof (induction node target ns prev queue rule: expand.induct)
  case (1 node target prev queue)
  then show ?case by auto
next
  case (2 node target nxt ns prev queue)
  show ?case
  proof (cases "prev nxt \<noteq> None")
    case True
    then show ?thesis using 2 by auto
  next
    case False
    then have ne: "nxt \<noteq> target" using "2.prems" by (auto split: if_splits)
    with False "2.prems" have e: "expand node target ns (prev(nxt \<mapsto> node)) (queue @ [nxt]) = Inl (prev', queue')"
      by simp
    from "2.IH"(2) [OF False ne e] obtain new where new:
      "queue' = (queue @ [nxt]) @ new" "set new = set ns - dom (prev(nxt \<mapsto> node))"
      "target \<notin> set new" "prev' = (\<lambda>v. if v \<in> set new then Some node else (prev(nxt \<mapsto> node)) v)"
      by blast
    from False have "set (nxt # new) = set (nxt # ns) - dom prev" using new(2) by auto
    moreover have "prev' = (\<lambda>v. if v \<in> set (nxt # new) then Some node else prev v)"
      unfolding new(4) by (rule ext) simp
    moreover have "queue' = queue @ (nxt # new)" "target \<notin> set (nxt # new)" using new(1,3) ne by auto
    ultimately show ?thesis by blast
  qed
qed

lemma expand_Inr:
  "expand node target ns prev queue = Inr prev' \<Longrightarrow>
     \<exists>S. S \<subseteq> set ns - dom prev \<and> target \<in> S
       \<and> prev' = (\<lambda>v. if v \<in> S then Some node else prev v)"
proof (induction node target ns prev queue rule: expand.induct)
  case (1 node target prev queue)
  then show ?case by simp
next
  case (2 node target nxt ns prev queue)
  show ?case
  proof (cases "prev nxt \<noteq> None")
    case True
    with "2.prems" have e: "expand node target ns prev queue = Inr prev'" by simp
    from "2.IH"(1) [OF True e] obtain S where S: "S \<subseteq> set ns - dom prev" "target \<in> S"
      "prev' = (\<lambda>v. if v \<in> S then Some node else prev v)" by blast
    then have "S \<subseteq> set (nxt # ns) - dom prev" by auto
    with S(2,3) show ?thesis by blast
  next
    case new: False
    show ?thesis
    proof (cases "nxt = target")
      case True
      then have "prev' = prev(nxt \<mapsto> node)" using new "2.prems" by simp
      then have "prev' = (\<lambda>v. if v \<in> {nxt} then Some node else prev v)" by (simp add: fun_eq_iff)
      moreover have "{nxt} \<subseteq> set (nxt # ns) - dom prev" using new by auto
      ultimately show ?thesis using True by blast
    next
      case False
      with new "2.prems" have e: "expand node target ns (prev(nxt \<mapsto> node)) (queue @ [nxt]) = Inr prev'"
        by simp
      from "2.IH"(2) [OF new False e] obtain S where S: "S \<subseteq> set ns - dom (prev(nxt \<mapsto> node))"
        "target \<in> S" "prev' = (\<lambda>v. if v \<in> S then Some node else (prev(nxt \<mapsto> node)) v)"
        by blast
      have "insert nxt S \<subseteq> set (nxt # ns) - dom prev" using S(1) new by auto
      moreover have "prev' = (\<lambda>v. if v \<in> insert nxt S then Some node else prev v)"
        unfolding S(3) by (rule ext) simp
      ultimately show ?thesis using S(2) by blast
    qed
  qed
qed

lemma succs_subset_targets: "set (succs T u) \<subseteq> set (concat (map snd T))"
proof (cases "map_of T u")
  case (Some ts)
  then have "(u, ts) \<in> set T" by (rule map_of_SomeD)
  then show ?thesis using Some by (force simp: succs_def)
qed (simp add: succs_def)

function search :: "transitions \<Rightarrow> string \<Rightarrow> string \<Rightarrow> (string \<rightharpoonup> string) \<Rightarrow> string list
    \<Rightarrow> string list option option" where
  "search T current target prev [] = Some None"
| "search T current target prev (node # queue) =
     (case expand node target (succs T node) prev queue of
        Inl (prev', queue') \<Rightarrow> search T current target prev' queue'
      | Inr prev' \<Rightarrow> (case walk_back prev' current target of
                        None \<Rightarrow> None | Some path \<Rightarrow> Some (Some (rev path))))"
  by pat_completeness auto
termination
proof (relation "measures [\<lambda>(T, current, target, prev, queue). card (set (concat (map snd T)) - dom prev),
                           \<lambda>(T, current, target, prev, queue). length queue]", goal_cases)
  case 1
  show ?case by simp
next
  case (2 T current target prev node queue r prev' queue')
  let ?A = "set (concat (map snd T))"
  obtain new where new: "queue' = queue @ new" "set new = set (succs T node) - dom prev"
    "prev' = (\<lambda>v. if v \<in> set new then Some node else prev v)"
    using expand_Inl [of node target "succs T node" prev queue prev' queue'] 2 by auto
  show ?case
  proof (cases "new = []")
    case True
    then show ?thesis using new by simp
  next
    case False
    then obtain v where "v \<in> set new" by (cases new) auto
    moreover have "dom prev' = dom prev \<union> set new" using new(3) by (auto split: if_splits)
    ultimately have "?A - dom prev' \<subset> ?A - dom prev"
      using new(2) succs_subset_targets [of T node] by blast
    then have "card (?A - dom prev') < card (?A - dom prev)" by (intro psubset_card_mono) auto
    then show ?thesis by simp
  qed
qed

definition RouteTo :: "transitions \<Rightarrow> string \<Rightarrow> string \<Rightarrow> string list option option" where
  "RouteTo T current target =
     (if current = target then Some (Some [])
      else if map_of T current = None then Some None
      else search T current target [current \<mapsto> ''''] [current])"


subsection \<open>Routes\<close>

text \<open>A route is the list of statuses visited after \<open>current\<close>, each a legal step from the last.\<close>

fun legal_route :: "transitions \<Rightarrow> string \<Rightarrow> string list \<Rightarrow> bool" where
  "legal_route T u [] = True"
| "legal_route T u (v # vs) = (IsValidTransition T u v \<and> legal_route T v vs)"

definition is_route :: "transitions \<Rightarrow> string \<Rightarrow> string \<Rightarrow> string list \<Rightarrow> bool" where
  "is_route T current target p \<longleftrightarrow> legal_route T current p \<and> last (current # p) = target"

lemma IsValidTransition_iff: "IsValidTransition T u v \<longleftrightarrow> v \<in> set (succs T u)"
  by (auto simp: IsValidTransition_def list_ex_iff)

lemma legal_route_snoc:
  "legal_route T u (p @ [v]) \<longleftrightarrow> legal_route T u p \<and> IsValidTransition T (last (u # p)) v"
  by (induction p arbitrary: u) auto

text \<open>
  The search invariant.  \<open>d\<close> is the depth of every status met so far; \<open>seen\<close> are those met,
  the queue holds the ones not expanded yet.
\<close>

locale frontier =
  fixes T :: transitions and current :: string
    and prev :: "string \<rightharpoonup> string" and queue :: "string list" and d :: "string \<Rightarrow> nat"
  assumes start: "current \<in> dom prev" "d current = 0"
    and parent: "\<And>v. v \<in> dom prev \<Longrightarrow> v \<noteq> current \<Longrightarrow>
                   \<exists>u. prev v = Some u \<and> u \<in> dom prev \<and> v \<in> set (succs T u) \<and> d v = Suc (d u)"
    and queued: "set queue \<subseteq> dom prev"
    and order: "sorted (map d queue)" "\<And>q. q \<in> set queue \<Longrightarrow> d q \<le> Suc (d (hd queue))"
    and closed: "\<And>u v. u \<in> dom prev - set queue \<Longrightarrow> v \<in> set (succs T u) \<Longrightarrow>
                   v \<in> dom prev \<and> d v \<le> Suc (d u)"
    and older: "\<And>u q. u \<in> dom prev - set queue \<Longrightarrow> q \<in> set queue \<Longrightarrow> d u \<le> d q"
begin

lemma walk_back_depth:
  assumes "v \<in> dom prev"
  shows "\<exists>p. walk_back prev current v = Some p \<and> length p = d v \<and> is_route T current v (rev p)"
  using assms
proof (induction "d v" arbitrary: v)
  case 0
  then have "v = current" using parent [of v] by fastforce
  then show ?case using start(2) by (simp add: walk_back.simps is_route_def)
next
  case (Suc n)
  then have "v \<noteq> current" using start(2) by auto
  with Suc.prems obtain u where u: "prev v = Some u" "u \<in> dom prev" "v \<in> set (succs T u)" "d v = Suc (d u)"
    using parent by blast
  moreover obtain p where "walk_back prev current u = Some p" "length p = d u" "is_route T current u (rev p)"
    using Suc.hyps u(2,4) by auto
  ultimately show ?case using \<open>v \<noteq> current\<close>
    by (auto simp: walk_back.simps [of prev current v] is_route_def legal_route_snoc IsValidTransition_iff)
qed

lemma walk_back_extend:
  assumes "\<And>u. u \<in> dom prev \<Longrightarrow> prev' u = prev u" "v \<in> dom prev"
  shows "walk_back prev' current v = walk_back prev current v"
  using assms(2)
proof (induction "d v" arbitrary: v)
  case 0
  then have "v = current" using parent [of v] by fastforce
  then show ?case by (simp add: walk_back.simps)
next
  case (Suc n)
  then have "v \<noteq> current" using start(2) by auto
  with Suc.prems obtain u where u: "prev v = Some u" "u \<in> dom prev" "d v = Suc (d u)"
    using parent by blast
  then have "walk_back prev' current u = walk_back prev current u" using Suc.hyps by simp
  then show ?case
    using u(1) assms(1) [OF Suc.prems] \<open>v \<noteq> current\<close> by (simp add: walk_back.simps [of _ current v])
qed

text \<open>Every route either stays among expanded statuses or leaves them through the queue.\<close>

lemma route_leaves:
  assumes "legal_route T current p"
  shows "(last (current # p) \<in> dom prev \<and> d (last (current # p)) \<le> length p)
       \<or> (\<exists>q\<in>set queue. d q < length p)"
  using assms
proof (induction p rule: rev_induct)
  case Nil
  then show ?case using start by simp
next
  case (snoc v p)
  let ?u = "last (current # p)"
  from snoc.prems have step: "v \<in> set (succs T ?u)" and "legal_route T current p"
    by (auto simp: legal_route_snoc IsValidTransition_iff)
  then consider "?u \<in> dom prev" "d ?u \<le> length p" | "\<exists>q\<in>set queue. d q < length p"
    using snoc.IH by blast
  then show ?case
  proof cases
    case 1
    show ?thesis
    proof (cases "?u \<in> set queue")
      case True
      then show ?thesis using 1(2) by (intro disjI2 bexI [of _ ?u]) auto
    next
      case False
      then have "v \<in> dom prev \<and> d v \<le> Suc (d ?u)" using closed [of ?u v] 1 step by blast
      then show ?thesis using 1(2) by auto
    qed
  next
    case 2
    then show ?thesis by fastforce
  qed
qed

lemma unseen_is_far:
  assumes "queue = node # rest" "target \<notin> dom prev" "is_route T current target p"
  shows "Suc (d node) \<le> length p"
proof -
  have "legal_route T current p" "last (current # p) \<notin> dom prev" using assms(2,3) by (auto simp: is_route_def)
  then obtain q where "q \<in> set queue" "d q < length p" using route_leaves by blast
  moreover have "d node \<le> d q" using order(1) assms(1) \<open>q \<in> set queue\<close> by auto
  ultimately show ?thesis by simp
qed

lemma exhausted_unreachable:
  assumes "queue = []" "target \<notin> dom prev"
  shows "\<not> is_route T current target p"
  using route_leaves [of p] assms by (auto simp: is_route_def)

end

text \<open>Expanding the head of the queue keeps the invariant, one level deeper for the new statuses.\<close>

lemma frontier_expand:
  assumes "frontier T current prev (node # queue) d"
    and "expand node target (succs T node) prev queue = Inl (prev', queue')"
  shows "\<exists>d'. frontier T current prev' queue' d'"
proof -
  from expand_Inl [OF assms(2)] obtain new where new: "queue' = queue @ new"
    "set new = set (succs T node) - dom prev" "prev' = (\<lambda>v. if v \<in> set new then Some node else prev v)"
    by blast
  let ?d = "\<lambda>v. if v \<in> set new then Suc (d node) else d v"
  have dom: "dom prev' = dom prev \<union> set new" using new(3) by (auto simp: dom_def split: if_splits)
  have old: "v \<in> dom prev \<Longrightarrow> ?d v = d v" for v using new(2) by simp
  note f = assms(1) [unfolded frontier_def]
  have node: "node \<in> dom prev" and qd: "set queue \<subseteq> dom prev" using f by auto
  have le: "d node \<le> d q \<and> d q \<le> Suc (d node)" if "q \<in> set queue" for q using f that by auto
  have old_le: "d u \<le> d q" if "u \<in> dom prev - set (node # queue)" "q \<in> set (node # queue)" for u q
    using f that by blast
  have sq: "sorted (map ?d queue)"
  proof -
    have "map ?d queue = map d queue" using new(2) qd by (intro map_cong refl) auto
    moreover have "sorted (map d queue)" using f by auto
    ultimately show ?thesis by argo
  qed
  have "frontier T current prev' queue' ?d"
  proof (unfold_locales, goal_cases)
    case 1 show ?case using f dom by auto
  next
    case 2 show ?case using f new(2) by auto
  next
    case (3 v)
    show ?case
    proof (cases "v \<in> set new")
      case True
      then show ?thesis using new node dom by (intro exI [of _ node]) auto
    next
      case False
      then have "v \<in> dom prev" using 3 dom by auto
      then obtain u where "prev v = Some u" "u \<in> dom prev" "v \<in> set (succs T u)" "d v = Suc (d u)"
        using f 3(2) by blast
      then show ?thesis using False new dom by (intro exI [of _ u]) auto
    qed
  next
    case 4 show ?case using qd dom new(1) by auto
  next
    case 5
    have "map ?d new = map (\<lambda>_. Suc (d node)) new" by simp
    moreover have "sorted (map (\<lambda>_. Suc (d node)) new)" by (induction new) auto
    ultimately have "sorted (map ?d new)" by argo
    then show ?case using sq le new(1,2) qd by (auto simp: sorted_append)
  next
    case (6 q)
    have "?d q \<le> Suc (d node)" using 6 le new(1,2) qd by auto
    moreover have "hd queue' \<in> set queue'" using 6 by (cases queue') auto
    then have "d node \<le> ?d (hd queue')"
      using le [of "hd queue'"] new(1) by auto
    ultimately show ?case by simp
  next
    case (7 u v)
    show ?case
    proof (cases "u = node")
      case True
      have "d v \<le> Suc (d node)" if "v \<in> dom prev"
      proof (cases "v \<in> set (node # queue)")
        case True
        then show ?thesis using le by auto
      next
        case False
        then show ?thesis using old_le [of v node] that by auto
      qed
      then show ?thesis using True 7 new node dom by auto
    next
      case False
      then have "u \<in> dom prev - set (node # queue)" using 7 dom new(1) by auto
      then have "v \<in> dom prev \<and> d v \<le> Suc (d u)" using f 7(2) by blast
      then show ?thesis using dom new(2) \<open>u \<in> dom prev - set (node # queue)\<close> by auto
    qed
  next
    case (8 u q)
    then have u: "u \<in> dom prev" "u \<notin> set queue" using dom new(1) by auto
    have "d u \<le> d node" using u old_le [of u node] by (cases "u = node") auto
    then show ?case using 8 u new(1,2) qd le old_le [of u q] by (cases "u = node") (auto dest: le)
  qed
  then show ?thesis by blast
qed

lemma search_correct:
  assumes "frontier T current prev queue d" "target \<notin> dom prev"
  shows "\<exists>r. search T current target prev queue = Some r
           \<and> (case r of None \<Rightarrow> \<forall>p. \<not> is_route T current target p
              | Some p \<Rightarrow> is_route T current target p
                         \<and> (\<forall>q. is_route T current target q \<longrightarrow> length p \<le> length q))"
  using assms
proof (induction T current target prev queue arbitrary: d rule: search.induct)
  case (1 T current target prev)
  then show ?case using frontier.exhausted_unreachable [OF 1(1)] by simp
next
  case (2 T current target prev node queue)
  show ?case
  proof (cases "expand node target (succs T node) prev queue")
    case (Inl s)
    then obtain prev' queue' where e: "expand node target (succs T node) prev queue = Inl (prev', queue')"
      by (cases s) auto
    obtain d' where "frontier T current prev' queue' d'" using frontier_expand [OF "2.prems"(1) e] ..
    moreover have "target \<notin> dom prev'" using expand_Inl [OF e] "2.prems"(2) by (auto split: if_splits)
    ultimately show ?thesis using "2.IH" [OF e] e by simp
  next
    case (Inr prev')
    then obtain S where S: "S \<subseteq> set (succs T node) - dom prev" "target \<in> S"
      "prev' = (\<lambda>v. if v \<in> S then Some node else prev v)" using expand_Inr [OF Inr] by blast
    from "2.prems"(1) have node: "node \<in> dom prev" by (auto simp: frontier_def)
    have "target \<noteq> current" using "2.prems" by (auto simp: frontier_def)
    obtain p where p: "walk_back prev current node = Some p" "length p = d node" "is_route T current node (rev p)"
      using frontier.walk_back_depth [OF "2.prems"(1) node] by blast
    have "prev' u = prev u" if "u \<in> dom prev" for u using S(1,3) that by auto
    then have "walk_back prev' current node = Some p"
      using p(1) frontier.walk_back_extend [OF "2.prems"(1) _ node, of prev'] by simp
    moreover have "prev' target = Some node" using S by simp
    ultimately have "walk_back prev' current target = Some (target # p)"
      using \<open>target \<noteq> current\<close> by (simp add: walk_back.simps [of prev' current target])
    moreover have "is_route T current target (rev (target # p))"
      using p(3) S by (auto simp: is_route_def legal_route_snoc IsValidTransition_iff)
    moreover have "length (rev (target # p)) \<le> length q" if "is_route T current target q" for q
      using frontier.unseen_is_far [OF "2.prems"(1) refl "2.prems"(2) that] p(2) by simp
    ultimately show ?thesis using Inr by simp
  qed
qed

text \<open>The search starts in a state that satisfies the invariant.\<close>

interpretation start_frontier: frontier T current "[current \<mapsto> '''']" "[current]" "\<lambda>_. 0" for T current
  by unfold_locales (auto split: if_splits)

text \<open>
  C39. \<open>RouteTo\<close> always returns.  A nil answer means that no sequence of legal transitions leads
  from \<open>current\<close> to \<open>target\<close>; any other answer is such a sequence, ending in \<open>target\<close>, and
  none is shorter.
\<close>

theorem RouteTo_shortest:
  "\<exists>r. RouteTo T current target = Some r
     \<and> (case r of None \<Rightarrow> \<forall>p. \<not> is_route T current target p
        | Some p \<Rightarrow> is_route T current target p
                   \<and> (\<forall>q. is_route T current target q \<longrightarrow> length p \<le> length q))"
proof -
  consider "current = target" | "current \<noteq> target" "map_of T current = None"
    | "current \<noteq> target" "map_of T current \<noteq> None" by blast
  then show ?thesis
  proof cases
    case 1
    then show ?thesis by (simp add: RouteTo_def is_route_def)
  next
    case 2
    then have "\<not> is_route T current target p" for p
      by (cases p) (auto simp: is_route_def IsValidTransition_iff succs_def)
    then show ?thesis using 2 by (simp add: RouteTo_def)
  next
    case 3
    then obtain ts where "map_of T current = Some ts" by blast
    then have e: "RouteTo T current target = search T current target [current \<mapsto> ''''] [current]"
      using 3(1) by (simp add: RouteTo_def)
    have "target \<notin> dom [current \<mapsto> '''']" using 3 by simp
    from search_correct [OF start_frontier.frontier_axioms this] show ?thesis unfolding e .
  qed
qed

theorem RouteTo_shortest_witness:
  "RouteTo ValidIssueTransitions ''DONE'' ''CANCELLED'' = Some (Some [''BACKLOG'', ''CANCELLED''])
   \<and> \<not> (\<exists>q. is_route ValidIssueTransitions ''DONE'' ''CANCELLED'' q \<and> length q < 2)"
proof -
  have e: "RouteTo ValidIssueTransitions ''DONE'' ''CANCELLED'' = Some (Some [''BACKLOG'', ''CANCELLED''])"
    by code_simp
  show ?thesis
    using RouteTo_shortest [of ValidIssueTransitions "''DONE''" "''CANCELLED''"] e
    by (auto simp: not_less [symmetric])
qed

text \<open>
  Every issue status except \<open>DUPLICATE\<close> can be moved, by legal transitions, to \<open>BACKLOG\<close>
  and to \<open>CANCELLED\<close>, so an issue created by mistake is never stuck; \<open>DUPLICATE\<close> is a sink from
  which nothing else is reachable.
\<close>

theorem issue_statuses_disposable:
  "\<forall>s \<in> set (map fst ValidIssueTransitions). \<forall>t \<in> {''BACKLOG'', ''CANCELLED''}.
      (\<exists>p. is_route ValidIssueTransitions s t p) \<longleftrightarrow> s \<noteq> ''DUPLICATE''"
proof -
  have sink: "is_route ValidIssueTransitions ''DUPLICATE'' t p \<longleftrightarrow> p = [] \<and> t = ''DUPLICATE''" for t p
    by (cases p) (auto simp: is_route_def IsValidTransition_iff succs_def ValidIssueTransitions_def)
  have backlog: "\<exists>p. is_route ValidIssueTransitions s ''BACKLOG'' p"
    if "s \<in> set (map fst ValidIssueTransitions)" "s \<noteq> ''DUPLICATE''" for s
  proof -
    let ?p = "if s = ''BACKLOG'' then [] else if s \<in> {''IN_PROGRESS'', ''REVIEW''} then [''TODO'', ''BACKLOG'']
              else [''BACKLOG'']"
    have "is_route ValidIssueTransitions s ''BACKLOG'' ?p"
      using that by (auto simp: ValidIssueTransitions_def is_route_def IsValidTransition_def succs_def)
    then show ?thesis ..
  qed
  have "IsValidTransition ValidIssueTransitions ''BACKLOG'' ''CANCELLED''"
    by (simp add: IsValidTransition_def succs_def ValidIssueTransitions_def)
  then have cancel: "is_route ValidIssueTransitions s ''CANCELLED'' (p @ [''CANCELLED''])"
    if "is_route ValidIssueTransitions s ''BACKLOG'' p" for s p
    using that by (simp add: is_route_def legal_route_snoc)
  have "\<exists>p. is_route ValidIssueTransitions s t p"
    if "s \<in> set (map fst ValidIssueTransitions)" "s \<noteq> ''DUPLICATE''" "t \<in> {''BACKLOG'', ''CANCELLED''}" for s t
    using that backlog cancel by blast
  moreover have "\<not> is_route ValidIssueTransitions ''DUPLICATE'' t p" if "t \<in> {''BACKLOG'', ''CANCELLED''}" for t p
    using sink that by auto
  ultimately show ?thesis by blast
qed

theorem issue_statuses_disposable_witness:
  "(\<exists>p. is_route ValidIssueTransitions ''DONE'' ''CANCELLED'' p)
   \<and> \<not> (\<exists>p. is_route ValidIssueTransitions ''DUPLICATE'' ''BACKLOG'' p)"
proof -
  have "''DONE'' \<in> set (map fst ValidIssueTransitions)" "''DUPLICATE'' \<in> set (map fst ValidIssueTransitions)"
    by (simp_all add: ValidIssueTransitions_def)
  then show ?thesis using issue_statuses_disposable by blast
qed

end
