(* ===== verification/Quiesce.thy ===== *)
theory Quiesce
  imports Ledger_Prelude
begin

text \<open>
  The quiet window of the instance backup (\<^verbatim>\<open>internal/quiesce\<close>: \<^verbatim>\<open>quiesce.go\<close>, \<^verbatim>\<open>writers.go\<close>, \<^verbatim>\<open>runs.go\<close>,
  \<^verbatim>\<open>writer_owner.go\<close>).  The controller counts the writers inside the gate and the admitted runs; a
  call of \<open>Begin\<close> closes admission, waits for the writers to leave and then holds.  Every operation of
  the package is a sequence of critical sections under the controller's or the object's mutex; an
  action is one such section, and a run of the gate interleaves the sections of all calls in any
  order.  Calls, writers, runs and windows are known by numbers.
\<close>

subsection \<open>State\<close>

datatype quiesce_error = ErrBusy | ErrAlreadyHeld | ErrWritesDidNotDrain | ErrWriterOwnerLost
  | ErrBusyProbe | ErrCanceled

record Writer =
  wr_in :: bool
  wr_done :: bool
  wr_stepped :: bool

record Run =
  rn_done :: bool

record Window =
  qw_reason :: string
  qw_started :: time
  qw_deadline :: time
  qw_drained :: bool
  qw_done :: bool
  qw_expired :: bool
  qw_held :: bool
  qw_heldFor :: time

record Controller =
  ct_window :: "nat option"
  ct_writers :: int
  ct_runs :: int
  ct_drained :: "nat option"

record Options =
  op_BusyWait :: time
  op_HoldCap :: time
  op_DrainTimeout :: time
  op_Reason :: string

definition DefaultBusyWait :: time where "DefaultBusyWait = 120 * 60 * second"
definition DefaultHoldCap :: time where "DefaultHoldCap = 20 * 60 * second"
definition DefaultDrainTimeout :: time where "DefaultDrainTimeout = 60 * second"

text \<open>The environment variable is an argument: \<open>None\<close> when it is unset or not a duration.\<close>

definition drainTimeoutFromEnv :: "time option \<Rightarrow> time" where
  "drainTimeoutFromEnv env =
     (case env of Some d \<Rightarrow> if d > 0 then d else DefaultDrainTimeout | None \<Rightarrow> DefaultDrainTimeout)"

definition with_defaults :: "time option \<Rightarrow> Options \<Rightarrow> Options" where
  "with_defaults env o1 = o1\<lparr>
     op_BusyWait := (if op_BusyWait o1 \<le> 0 then DefaultBusyWait else op_BusyWait o1),
     op_HoldCap := (if op_HoldCap o1 \<le> 0 then DefaultHoldCap else op_HoldCap o1),
     op_DrainTimeout := (if op_DrainTimeout o1 \<le> 0 then drainTimeoutFromEnv env else op_DrainTimeout o1)\<rparr>"

text \<open>
  Where a call of \<open>Begin\<close> is: polling for running work until a deadline, about to close, draining a
  window, checking again, acquiring the caller's guards, about to hold, giving a window back on the
  way to an error or to another round, or returned.
\<close>

datatype begin_phase =
    Polling time | Closing time | Draining time nat | Rechecking time nat | Acquiring time nat | Holding_next nat
  | GivingBack nat "quiesce_error option" time | Failed quiesce_error | Holds_window nat

text \<open>
  \<open>g_entering\<close> and \<open>g_starting\<close> are calls of \<open>Enter\<close> and \<open>StartRun\<close> between the look at their context and
  the controller's section, with what the context carries and what the look saw; \<open>g_owed\<close> and
  \<open>g_owed_runs\<close> count the calls of \<open>decrement\<close> and \<open>Done\<close> that are due.
\<close>

record gate =
  g_now :: time
  g_ctl :: Controller
  g_writers :: "nat \<rightharpoonup> Writer"
  g_runs :: "nat \<rightharpoonup> Run"
  g_windows :: "nat \<rightharpoonup> Window"
  g_entering :: "nat \<rightharpoonup> nat option \<times> bool"
  g_starting :: "nat \<rightharpoonup> nat option \<times> nat option \<times> bool"
  g_owed :: nat
  g_owed_runs :: nat
  g_begins :: "nat \<rightharpoonup> Options \<times> begin_phase"

definition new_gate :: "time \<Rightarrow> gate" where
  "new_gate now = \<lparr>g_now = now,
     g_ctl = \<lparr>ct_window = None, ct_writers = 0, ct_runs = 0, ct_drained = None\<rparr>,
     g_writers = Map.empty, g_runs = Map.empty, g_windows = Map.empty, g_entering = Map.empty,
     g_starting = Map.empty, g_owed = 0, g_owed_runs = 0, g_begins = Map.empty\<rparr>"

subsection \<open>Reads\<close>

definition Holding :: "gate \<Rightarrow> bool" where
  "Holding s \<longleftrightarrow> ct_window (g_ctl s) \<noteq> None"

definition Held :: "gate \<Rightarrow> bool" where
  "Held s \<longleftrightarrow> (case ct_window (g_ctl s) of None \<Rightarrow> False
     | Some w \<Rightarrow> (case g_windows s w of None \<Rightarrow> False | Some x \<Rightarrow> qw_held x))"

definition RetryAfter :: "gate \<Rightarrow> time" where
  "RetryAfter s = (case ct_window (g_ctl s) of None \<Rightarrow> 0
     | Some w \<Rightarrow> (case g_windows s w of None \<Rightarrow> 0
        | Some x \<Rightarrow> let left = qw_deadline x - g_now s in if left < second then second else left))"

definition inside :: "gate \<Rightarrow> nat \<Rightarrow> bool" where
  "inside s i \<longleftrightarrow> (case g_writers s i of None \<Rightarrow> False | Some w \<Rightarrow> wr_in w)"

definition live_run :: "gate \<Rightarrow> nat \<Rightarrow> bool" where
  "live_run s i \<longleftrightarrow> (case g_runs s i of None \<Rightarrow> False | Some r \<Rightarrow> \<not> rn_done r)"

definition writer_carried :: "gate \<Rightarrow> nat option \<Rightarrow> bool" where
  "writer_carried s p \<longleftrightarrow> (case p of None \<Rightarrow> False | Some i \<Rightarrow> inside s i)"

definition carriesAdmission :: "gate \<Rightarrow> nat option \<Rightarrow> nat option \<Rightarrow> bool" where
  "carriesAdmission s r w \<longleftrightarrow> (case r of None \<Rightarrow> False | Some i \<Rightarrow> live_run s i) \<or> writer_carried s w"

subsection \<open>Sections of the writers and the runs\<close>

definition enter_commit :: "nat \<Rightarrow> gate \<Rightarrow> gate" where
  "enter_commit i s =
     (case g_entering s i of
        None \<Rightarrow> s
      | Some (p, child) \<Rightarrow>
          let s = s\<lparr>g_entering := (g_entering s)(i := None)\<rparr>
          in if ct_window (g_ctl s) \<noteq> None \<and> \<not> child then s
             else s\<lparr>g_ctl := (g_ctl s)\<lparr>ct_writers := ct_writers (g_ctl s) + 1\<rparr>,
                    g_writers := (g_writers s)(i \<mapsto> \<lparr>wr_in = True, wr_done = False, wr_stepped = False\<rparr>)\<rparr>)"

definition leave_mark :: "nat \<Rightarrow> gate \<Rightarrow> gate" where
  "leave_mark i s =
     (case g_writers s i of
        None \<Rightarrow> s
      | Some w \<Rightarrow> s\<lparr>g_writers := (g_writers s)(i \<mapsto> w\<lparr>wr_done := True, wr_in := False\<rparr>),
                     g_owed := (if wr_in w then Suc (g_owed s) else g_owed s)\<rparr>)"

definition step_out :: "nat \<Rightarrow> gate \<Rightarrow> gate" where
  "step_out i s =
     (case g_writers s i of
        None \<Rightarrow> s
      | Some w \<Rightarrow>
          if \<not> wr_in w then s
          else s\<lparr>g_writers := (g_writers s)(i \<mapsto> w\<lparr>wr_in := False, wr_stepped := True\<rparr>),
                 g_owed := Suc (g_owed s)\<rparr>)"

definition reenter :: "nat \<Rightarrow> gate \<Rightarrow> gate" where
  "reenter i s =
     (case g_writers s i of
        None \<Rightarrow> s
      | Some w \<Rightarrow>
          if \<not> wr_stepped w \<or> ct_window (g_ctl s) \<noteq> None then s
          else if wr_done w then s\<lparr>g_writers := (g_writers s)(i \<mapsto> w\<lparr>wr_stepped := False\<rparr>)\<rparr>
          else s\<lparr>g_writers := (g_writers s)(i \<mapsto> w\<lparr>wr_in := True, wr_stepped := False\<rparr>),
                 g_ctl := (g_ctl s)\<lparr>ct_writers := ct_writers (g_ctl s) + 1\<rparr>\<rparr>)"

definition decrement :: "gate \<Rightarrow> gate" where
  "decrement s =
     (if g_owed s = 0 then s
      else
        let n = ct_writers (g_ctl s) - 1;
            s = s\<lparr>g_owed := g_owed s - 1, g_ctl := (g_ctl s)\<lparr>ct_writers := n\<rparr>\<rparr>
        in case ct_drained (g_ctl s) of
             None \<Rightarrow> s
           | Some w \<Rightarrow>
               if n \<noteq> 0 then s
               else s\<lparr>g_ctl := (g_ctl s)\<lparr>ct_drained := None\<rparr>,
                      g_windows := (g_windows s)(w := map_option (\<lambda>x. x\<lparr>qw_drained := True\<rparr>) (g_windows s w))\<rparr>)"

definition start_commit :: "nat \<Rightarrow> gate \<Rightarrow> gate" where
  "start_commit i s =
     (case g_starting s i of
        None \<Rightarrow> s
      | Some (r, w, child) \<Rightarrow>
          let s = s\<lparr>g_starting := (g_starting s)(i := None)\<rparr>
          in if ct_window (g_ctl s) \<noteq> None \<and> \<not> child then s
             else s\<lparr>g_ctl := (g_ctl s)\<lparr>ct_runs := ct_runs (g_ctl s) + 1\<rparr>,
                    g_runs := (g_runs s)(i \<mapsto> \<lparr>rn_done = False\<rparr>)\<rparr>)"

definition run_mark :: "nat \<Rightarrow> gate \<Rightarrow> gate" where
  "run_mark i s =
     (if live_run s i
      then s\<lparr>g_runs := (g_runs s)(i \<mapsto> \<lparr>rn_done = True\<rparr>), g_owed_runs := Suc (g_owed_runs s)\<rparr>
      else s)"

definition run_decrement :: "gate \<Rightarrow> gate" where
  "run_decrement s =
     (if g_owed_runs s = 0 then s
      else s\<lparr>g_owed_runs := g_owed_runs s - 1, g_ctl := (g_ctl s)\<lparr>ct_runs := ct_runs (g_ctl s) - 1\<rparr>\<rparr>)"

subsection \<open>Sections of the window\<close>

definition close_window :: "nat \<Rightarrow> Options \<Rightarrow> gate \<Rightarrow> gate" where
  "close_window w o1 s =
     (let none = ct_writers (g_ctl s) = 0
      in s\<lparr>g_ctl := (g_ctl s)\<lparr>ct_window := Some w,
              ct_drained := (if none then ct_drained (g_ctl s) else Some w)\<rparr>,
           g_windows := (g_windows s)(w \<mapsto> \<lparr>qw_reason = op_Reason o1, qw_started = g_now s,
              qw_deadline = g_now s + (op_DrainTimeout o1 + op_HoldCap o1), qw_drained = none, qw_done = False,
              qw_expired = False, qw_held = False, qw_heldFor = 0\<rparr>)\<rparr>)"

definition hold :: "nat \<Rightarrow> time \<Rightarrow> gate \<Rightarrow> gate" where
  "hold w holdCap s =
     (if ct_window (g_ctl s) = Some w
      then s\<lparr>g_windows := (g_windows s)(w := map_option
              (\<lambda>x. x\<lparr>qw_held := True, qw_deadline := g_now s + holdCap\<rparr>) (g_windows s w))\<rparr>
      else s)"

text \<open>\<open>Release\<close> marks the window done, runs the callbacks, and reopens the gate.\<close>

definition release_mark :: "nat \<Rightarrow> bool \<Rightarrow> gate \<Rightarrow> gate" where
  "release_mark w by_cap s =
     s\<lparr>g_windows := (g_windows s)(w := map_option
        (\<lambda>x. let x = (if by_cap then x\<lparr>qw_expired := True\<rparr> else x)
             in if qw_done x then x else x\<lparr>qw_done := True, qw_heldFor := g_now s - qw_started x\<rparr>) (g_windows s w))\<rparr>"

definition release_open :: "nat \<Rightarrow> gate \<Rightarrow> gate" where
  "release_open w s =
     (case g_windows s w of
        None \<Rightarrow> s
      | Some x \<Rightarrow>
          if \<not> qw_done x \<or> ct_window (g_ctl s) \<noteq> Some w then s
          else s\<lparr>g_ctl := (g_ctl s)\<lparr>ct_window := None, ct_drained := None\<rparr>,
                 g_windows := (g_windows s)(w \<mapsto> x\<lparr>qw_held := False\<rparr>)\<rparr>)"

subsection \<open>Begin\<close>

definition set_begin :: "nat \<Rightarrow> begin_phase \<Rightarrow> gate \<Rightarrow> gate" where
  "set_begin b ph s = s\<lparr>g_begins := (g_begins s)(b := map_option (\<lambda>(o1, _). (o1, ph)) (g_begins s b))\<rparr>"

definition begin_call :: "nat \<Rightarrow> Options \<Rightarrow> time option \<Rightarrow> bool \<Rightarrow> gate \<Rightarrow> gate" where
  "begin_call b opts env owner_ok s =
     (if g_begins s b \<noteq> None then s
      else let o1 = with_defaults env opts in
           s\<lparr>g_begins := (g_begins s)(b \<mapsto>
             (o1, if \<not> owner_ok then Failed ErrWriterOwnerLost
                  else if Holding s then Failed ErrAlreadyHeld
                  else Polling (g_now s + op_BusyWait o1)))\<rparr>)"

text \<open>
  The steps of a call of \<open>Begin\<close>.  What the caller's probe and guards and the writer owner answer comes
  with the action: \<open>busy\<close> is the probe's count, \<open>None\<close> for an error; \<open>owner_ok\<close> is the verification of
  the database writer; \<open>acquired\<close> the answer of \<open>Acquire\<close>.
\<close>

datatype begin_step =
    PollBusy bool "nat option" | PollCancelled | CloseIt nat | DrainSeen | DrainTimeout | DrainCancelled
  | Recheck "nat option" | AcquireIt bool bool | HoldIt | GiveBack

definition give_back :: "nat \<Rightarrow> nat \<Rightarrow> quiesce_error option \<Rightarrow> time \<Rightarrow> gate \<Rightarrow> gate" where
  "give_back b w err deadline s = set_begin b (GivingBack w err deadline) (release_mark w False s)"

definition poll_step :: "nat \<Rightarrow> time \<Rightarrow> begin_step \<Rightarrow> gate \<Rightarrow> gate" where
  "poll_step b dl st s =
     (case st of
        PollBusy owner_ok busy \<Rightarrow>
          (if \<not> owner_ok then set_begin b (Failed ErrWriterOwnerLost) s
           else case busy of
                  None \<Rightarrow> set_begin b (Failed ErrBusyProbe) s
                | Some n \<Rightarrow> if int n + max 0 (ct_runs (g_ctl s)) = 0 then set_begin b (Closing dl) s
                             else if g_now s \<ge> dl then set_begin b (Failed ErrBusy) s
                             else s)
      | PollCancelled \<Rightarrow> set_begin b (Failed ErrCanceled) s
      | _ \<Rightarrow> s)"

definition close_step :: "nat \<Rightarrow> Options \<Rightarrow> time \<Rightarrow> begin_step \<Rightarrow> gate \<Rightarrow> gate" where
  "close_step b o1 dl st s =
     (case st of
        CloseIt w \<Rightarrow>
          if g_windows s w \<noteq> None then s
          else if Holding s then set_begin b (Failed ErrAlreadyHeld) s
          else set_begin b (Draining dl w) (close_window w o1 s)
      | _ \<Rightarrow> s)"

definition drain_step :: "nat \<Rightarrow> time \<Rightarrow> nat \<Rightarrow> begin_step \<Rightarrow> gate \<Rightarrow> gate" where
  "drain_step b dl w st s =
     (case st of
        DrainSeen \<Rightarrow>
          (case g_windows s w of
             None \<Rightarrow> s
           | Some x \<Rightarrow> if qw_drained x then set_begin b (Rechecking dl w) s else s)
      | DrainTimeout \<Rightarrow>
          if ct_writers (g_ctl s) = 0 then set_begin b (Rechecking dl w) s
          else give_back b w (Some ErrWritesDidNotDrain) dl s
      | DrainCancelled \<Rightarrow> give_back b w (Some ErrCanceled) dl s
      | _ \<Rightarrow> s)"

definition recheck_step :: "nat \<Rightarrow> time \<Rightarrow> nat \<Rightarrow> begin_step \<Rightarrow> gate \<Rightarrow> gate" where
  "recheck_step b dl w st s =
     (case st of
        Recheck busy \<Rightarrow>
          (case busy of
             None \<Rightarrow> give_back b w (Some ErrBusyProbe) dl s
           | Some n \<Rightarrow> if int n + max 0 (ct_runs (g_ctl s)) = 0 then set_begin b (Acquiring dl w) s
                       else give_back b w None dl s)
      | _ \<Rightarrow> s)"

definition acquire_step :: "nat \<Rightarrow> time \<Rightarrow> nat \<Rightarrow> begin_step \<Rightarrow> gate \<Rightarrow> gate" where
  "acquire_step b dl w st s =
     (case st of
        AcquireIt acquired owner_ok \<Rightarrow>
          if \<not> acquired then give_back b w None dl s
          else if \<not> owner_ok then give_back b w (Some ErrWriterOwnerLost) dl s
          else set_begin b (Holding_next w) s
      | _ \<Rightarrow> s)"

definition begin_phase_step :: "nat \<Rightarrow> Options \<Rightarrow> begin_phase \<Rightarrow> begin_step \<Rightarrow> gate \<Rightarrow> gate" where
  "begin_phase_step b o1 ph st s =
     (case ph of
        Polling dl \<Rightarrow> poll_step b dl st s
      | Closing dl \<Rightarrow> close_step b o1 dl st s
      | Draining dl w \<Rightarrow> drain_step b dl w st s
      | Rechecking dl w \<Rightarrow> recheck_step b dl w st s
      | Acquiring dl w \<Rightarrow> acquire_step b dl w st s
      | Holding_next w \<Rightarrow>
          if st = HoldIt then set_begin b (Holds_window w) (hold w (op_HoldCap o1) s) else s
      | GivingBack w err dl \<Rightarrow>
          if st = GiveBack
          then set_begin b (case err of Some e \<Rightarrow> Failed e
                 | None \<Rightarrow> if g_now s \<ge> dl then Failed ErrBusy else Polling dl) (release_open w s)
          else s
      | Failed e \<Rightarrow> s
      | Holds_window w \<Rightarrow> s)"

lemmas begin_step_defs = begin_phase_step_def poll_step_def close_step_def drain_step_def recheck_step_def
  acquire_step_def

subsection \<open>Runs of the gate\<close>

datatype gate_action =
    Pass nat
  | EnterCheck nat "nat option" | EnterCommit nat | LeaveMark nat | StepOut nat | Reenter nat | Decrement
  | StartRunCheck nat "nat option" "nat option" | StartRunCommit nat | RunMark nat | RunDecrement
  | BeginCall nat Options "time option" bool | BeginStep nat begin_step
  | ReleaseMark nat | ReleaseOpen nat | CapFires nat

text \<open>
  A window may be released by the caller that \<open>Begin\<close> returned it to, or by the timer of the cap, which
  fires only after the deadline of a held window; \<open>ReleaseOpen\<close> is the second section of either.
\<close>

fun gate_step :: "gate_action \<Rightarrow> gate \<Rightarrow> gate" where
  "gate_step (Pass n) s = s\<lparr>g_now := g_now s + int n\<rparr>"
| "gate_step (EnterCheck i p) s =
     (if g_entering s i \<noteq> None \<or> g_writers s i \<noteq> None then s
      else s\<lparr>g_entering := (g_entering s)(i \<mapsto> (p, writer_carried s p))\<rparr>)"
| "gate_step (EnterCommit i) s = enter_commit i s"
| "gate_step (LeaveMark i) s = leave_mark i s"
| "gate_step (StepOut i) s = step_out i s"
| "gate_step (Reenter i) s = reenter i s"
| "gate_step Decrement s = decrement s"
| "gate_step (StartRunCheck i r w) s =
     (if g_starting s i \<noteq> None \<or> g_runs s i \<noteq> None then s
      else s\<lparr>g_starting := (g_starting s)(i \<mapsto> (r, w, carriesAdmission s r w))\<rparr>)"
| "gate_step (StartRunCommit i) s = start_commit i s"
| "gate_step (RunMark i) s = run_mark i s"
| "gate_step RunDecrement s = run_decrement s"
| "gate_step (BeginCall b opts env owner_ok) s = begin_call b opts env owner_ok s"
| "gate_step (BeginStep b st) s =
     (case g_begins s b of None \<Rightarrow> s | Some (o1, ph) \<Rightarrow> begin_phase_step b o1 ph st s)"
| "gate_step (ReleaseMark b) s =
     (case g_begins s b of Some (_, Holds_window w) \<Rightarrow> release_mark w False s | _ \<Rightarrow> s)"
| "gate_step (ReleaseOpen w) s = release_open w s"
| "gate_step (CapFires w) s =
     (case g_windows s w of
        None \<Rightarrow> s
      | Some x \<Rightarrow> if qw_held x \<and> qw_deadline x \<le> g_now s then release_mark w True s else s)"

fun gate_run :: "gate_action list \<Rightarrow> gate \<Rightarrow> gate" where
  "gate_run [] s = s"
| "gate_run (a # as) s = gate_run as (gate_step a s)"

subsection \<open>Counts\<close>

definition inside_of :: "(nat \<rightharpoonup> Writer) \<Rightarrow> nat set" where
  "inside_of m = {i. \<exists>w. m i = Some w \<and> wr_in w}"

definition live_of :: "(nat \<rightharpoonup> Run) \<Rightarrow> nat set" where
  "live_of m = {i. \<exists>r. m i = Some r \<and> \<not> rn_done r}"

lemma inside_iff: "inside s i \<longleftrightarrow> i \<in> inside_of (g_writers s)"
  by (auto simp: inside_def inside_of_def split: option.splits)

lemma live_run_iff: "live_run s i \<longleftrightarrow> i \<in> live_of (g_runs s)"
  by (auto simp: live_run_def live_of_def split: option.splits)

lemma inside_of_upd [simp]:
  "inside_of (m(i \<mapsto> w)) = (if wr_in w then insert i (inside_of m) else inside_of m - {i})"
  by (auto simp: inside_of_def)

lemma live_of_upd [simp]: "live_of (m(i \<mapsto> r)) = (if rn_done r then live_of m - {i} else insert i (live_of m))"
  by (auto simp: live_of_def)

lemma in_inside_of: "m i = Some w \<Longrightarrow> i \<in> inside_of m \<longleftrightarrow> wr_in w"
  by (simp add: inside_of_def)

lemma not_inside_of: "m i = None \<Longrightarrow> i \<notin> inside_of m" "r i = None \<Longrightarrow> i \<notin> live_of r"
  by (simp_all add: inside_of_def live_of_def)

lemma card_remove: "finite A \<Longrightarrow> i \<in> A \<Longrightarrow> card A = Suc (card (A - {i}))"
  by (rule card.remove [unfolded Suc_eq_plus1 [symmetric]])

definition counts_ok :: "gate \<Rightarrow> bool" where
  "counts_ok s \<longleftrightarrow> finite (inside_of (g_writers s)) \<and> finite (live_of (g_runs s))
   \<and> ct_writers (g_ctl s) = int (card (inside_of (g_writers s)) + g_owed s)
   \<and> ct_runs (g_ctl s) = int (card (live_of (g_runs s)) + g_owed_runs s)
   \<and> (\<forall>i. g_entering s i \<noteq> None \<longrightarrow> g_writers s i = None) \<and> (\<forall>i. g_starting s i \<noteq> None \<longrightarrow> g_runs s i = None)"

text \<open>The sections of \<open>Begin\<close> and of a release leave the writers and the runs alone.\<close>

definition same_counts :: "gate \<Rightarrow> gate \<Rightarrow> bool" where
  "same_counts s t \<longleftrightarrow> g_writers t = g_writers s \<and> g_runs t = g_runs s \<and> g_owed t = g_owed s
     \<and> g_owed_runs t = g_owed_runs s \<and> g_entering t = g_entering s \<and> g_starting t = g_starting s
     \<and> ct_writers (g_ctl t) = ct_writers (g_ctl s) \<and> ct_runs (g_ctl t) = ct_runs (g_ctl s)"

lemma same_counts_refl [simp]: "same_counts s s"
  by (simp add: same_counts_def)

lemma same_counts_sections [simp]:
  "same_counts s (set_begin b ph t) = same_counts s t"
  "same_counts s (release_mark w c t) = same_counts s t"
  "same_counts s (release_open w t) = same_counts s t"
  "same_counts s (close_window w o1 t) = same_counts s t"
  "same_counts s (hold w cap t) = same_counts s t"
  "same_counts s (give_back b w e dl t) = same_counts s t"
  "same_counts s (t\<lparr>g_now := n\<rparr>) = same_counts s t"
  "same_counts s (t\<lparr>g_begins := bs\<rparr>) = same_counts s t"
  by (simp_all add: same_counts_def set_begin_def release_mark_def release_open_def close_window_def hold_def
      give_back_def Let_def split: option.split)

lemma same_counts_begin: "same_counts s (begin_phase_step b o1 ph st s)"
  by (auto simp: begin_step_defs split: option.splits begin_phase.splits begin_step.splits)

lemma same_counts_ok: "same_counts s t \<Longrightarrow> counts_ok s \<Longrightarrow> counts_ok t"
  by (simp add: same_counts_def counts_ok_def)

lemma counts_enter: "counts_ok s \<Longrightarrow> counts_ok (enter_commit i s)"
  by (auto simp: counts_ok_def enter_commit_def Let_def not_inside_of split: option.splits)

lemma counts_leave: "counts_ok s \<Longrightarrow> counts_ok (leave_mark i s)"
  using card_remove [of "inside_of (g_writers s)" i]
  by (auto simp: counts_ok_def leave_mark_def in_inside_of split: option.splits)

lemma counts_step_out: "counts_ok s \<Longrightarrow> counts_ok (step_out i s)"
  using card_remove [of "inside_of (g_writers s)" i]
  by (auto simp: counts_ok_def step_out_def in_inside_of split: option.splits)

definition stepped_ok :: "gate \<Rightarrow> bool" where
  "stepped_ok s \<longleftrightarrow> (\<forall>i w. g_writers s i = Some w \<and> wr_stepped w \<longrightarrow> \<not> wr_in w)"

lemma counts_reenter: "counts_ok s \<Longrightarrow> stepped_ok s \<Longrightarrow> counts_ok (reenter i s)"
  by (auto simp: counts_ok_def stepped_ok_def reenter_def in_inside_of split: option.splits)

lemma counts_decrement: "counts_ok s \<Longrightarrow> counts_ok (decrement s)"
  by (auto simp: counts_ok_def decrement_def Let_def simp del: card_0_eq split: option.splits)

lemma counts_start: "counts_ok s \<Longrightarrow> counts_ok (start_commit i s)"
  by (auto simp: counts_ok_def start_commit_def Let_def not_inside_of split: option.splits)

lemma counts_run_mark: "counts_ok s \<Longrightarrow> counts_ok (run_mark i s)"
  using card_remove [of "live_of (g_runs s)" i] not_inside_of(2) [of "g_runs s" i]
  by (auto simp: counts_ok_def run_mark_def live_run_iff)

lemma counts_run_decrement: "counts_ok s \<Longrightarrow> counts_ok (run_decrement s)"
  by (auto simp: counts_ok_def run_decrement_def)

lemma stepped_step: "stepped_ok s \<Longrightarrow> stepped_ok (gate_step a s)"
  using same_counts_begin
  by (cases a) (auto simp: stepped_ok_def enter_commit_def leave_mark_def step_out_def reenter_def decrement_def
      start_commit_def run_mark_def run_decrement_def begin_call_def release_mark_def release_open_def
      same_counts_def Let_def split: option.splits begin_phase.splits if_splits)

lemma counts_step:
  assumes "counts_ok s" "stepped_ok s"
  shows "counts_ok (gate_step a s)"
proof (cases a)
  case (BeginStep b st)
  then show ?thesis using assms(1) same_counts_ok [OF same_counts_begin assms(1)]
    by (auto split: option.splits)
next
  case (EnterCheck i p)
  then show ?thesis using assms(1) by (auto simp: counts_ok_def)
next
  case (StartRunCheck i r w)
  then show ?thesis using assms(1) by (auto simp: counts_ok_def)
qed (use assms in \<open>auto simp: counts_enter counts_leave counts_step_out counts_reenter counts_decrement counts_start
    counts_run_mark counts_run_decrement begin_call_def Let_def intro: same_counts_ok [OF _ assms(1)]
    split: option.splits begin_phase.splits\<close>)

subsection \<open>The quiet window\<close>

fun phase_window :: "begin_phase \<Rightarrow> nat option" where
  "phase_window (Draining dl w) = Some w"
| "phase_window (Rechecking dl w) = Some w"
| "phase_window (Acquiring dl w) = Some w"
| "phase_window (Holding_next w) = Some w"
| "phase_window (GivingBack w e dl) = Some w"
| "phase_window (Holds_window w) = Some w"
| "phase_window _ = None"

text \<open>What a call of \<open>Begin\<close> has seen of its window: no writers, or neither writers nor runs.\<close>

fun seen_writers_gone :: "begin_phase \<Rightarrow> bool" where
  "seen_writers_gone (Rechecking dl w) = True"
| "seen_writers_gone (Acquiring dl w) = True"
| "seen_writers_gone (Holding_next w) = True"
| "seen_writers_gone _ = False"

fun seen_runs_gone :: "begin_phase \<Rightarrow> bool" where
  "seen_runs_gone (Acquiring dl w) = True"
| "seen_runs_gone (Holding_next w) = True"
| "seen_runs_gone _ = False"

definition window_ok :: "gate \<Rightarrow> bool" where
  "window_ok s \<longleftrightarrow>
     (\<forall>v. ct_drained (g_ctl s) = Some v \<longrightarrow> ct_window (g_ctl s) = Some v \<and> ct_writers (g_ctl s) \<noteq> 0)
   \<and> (\<forall>w. ct_window (g_ctl s) = Some w \<longrightarrow> g_windows s w \<noteq> None)
   \<and> (\<forall>b o1 ph w. g_begins s b = Some (o1, ph) \<longrightarrow> phase_window ph = Some w \<longrightarrow> g_windows s w \<noteq> None)"

definition held_ok :: "gate \<Rightarrow> bool" where
  "held_ok s \<longleftrightarrow>
     (\<forall>w x. ct_window (g_ctl s) = Some w \<longrightarrow> g_windows s w = Some x \<longrightarrow>
        (qw_drained x \<or> ct_drained (g_ctl s) = Some w) \<and> (qw_drained x \<longrightarrow> ct_writers (g_ctl s) = 0)
      \<and> (qw_held x \<longrightarrow> ct_writers (g_ctl s) = 0 \<and> ct_runs (g_ctl s) = 0))"

definition seen_ok :: "gate \<Rightarrow> bool" where
  "seen_ok s \<longleftrightarrow>
     (\<forall>b o1 ph w. g_begins s b = Some (o1, ph) \<longrightarrow> phase_window ph = Some w \<longrightarrow> ct_window (g_ctl s) = Some w \<longrightarrow>
        (seen_writers_gone ph \<longrightarrow> ct_writers (g_ctl s) = 0) \<and> (seen_runs_gone ph \<longrightarrow> ct_runs (g_ctl s) = 0))"

text \<open>
  A child is overtaken when the admission its context carries ends between the look at the context and the
  section that counts the child, with a window open by then.
\<close>

definition overtaken :: "gate_action \<Rightarrow> gate \<Rightarrow> bool" where
  "overtaken a s =
     (case a of
        EnterCommit i \<Rightarrow>
          (case g_entering s i of None \<Rightarrow> False
             | Some (p, child) \<Rightarrow> child \<and> Holding s \<and> \<not> writer_carried s p)
      | StartRunCommit i \<Rightarrow>
          (case g_starting s i of None \<Rightarrow> False
             | Some (r, w, child) \<Rightarrow> child \<and> Holding s \<and> \<not> carriesAdmission s r w)
      | _ \<Rightarrow> False)"

fun orderly :: "gate_action list \<Rightarrow> gate \<Rightarrow> bool" where
  "orderly [] s = True"
| "orderly (a # as) s = (\<not> overtaken a s \<and> orderly as (gate_step a s))"

lemma carried_counts:
  assumes "counts_ok s"
  shows "writer_carried s p \<Longrightarrow> 0 < ct_writers (g_ctl s)"
    and "carriesAdmission s r w \<Longrightarrow> 0 < ct_writers (g_ctl s) \<or> 0 < ct_runs (g_ctl s)"
  using assms card_gt_0_iff [of "inside_of (g_writers s)"] card_gt_0_iff [of "live_of (g_runs s)"]
  by (auto simp: counts_ok_def writer_carried_def carriesAdmission_def inside_iff live_run_iff split: option.splits)

lemma counts_nonneg: "counts_ok s \<Longrightarrow> 0 \<le> ct_writers (g_ctl s) \<and> 0 \<le> ct_runs (g_ctl s)"
  by (simp add: counts_ok_def)

lemma owed_counts:
  "counts_ok s \<Longrightarrow> g_owed s \<noteq> 0 \<Longrightarrow> 0 < ct_writers (g_ctl s)"
  "counts_ok s \<Longrightarrow> g_owed_runs s \<noteq> 0 \<Longrightarrow> 0 < ct_runs (g_ctl s)"
  by (simp_all add: counts_ok_def)

lemmas window_sections = set_begin_def release_mark_def release_open_def close_window_def hold_def give_back_def Let_def
lemmas gate_splits = option.splits begin_phase.splits begin_step.splits prod.splits

lemma phase_window_next [simp]:
  "phase_window (case err of Some e \<Rightarrow> Failed e | None \<Rightarrow> if c then Failed e2 else Polling dl) = None"
  by (simp split: option.split)

definition quiet_inv :: "gate \<Rightarrow> bool" where
  "quiet_inv s \<longleftrightarrow> window_ok s \<and> held_ok s \<and> seen_ok s"

lemma quiet_transfer:
  assumes "quiet_inv s" "g_windows t = g_windows s" "g_begins t = g_begins s" "ct_window (g_ctl t) = ct_window (g_ctl s)"
    "ct_drained (g_ctl t) = ct_drained (g_ctl s)" "ct_writers (g_ctl t) = ct_writers (g_ctl s)"
    "ct_runs (g_ctl t) = ct_runs (g_ctl s)"
  shows "quiet_inv t"
  using assms by (simp add: quiet_inv_def window_ok_def held_ok_def seen_ok_def)

text \<open>A count may grow while the window is open only by a child whose parent is counted.\<close>

lemma quiet_grow:
  assumes "quiet_inv s" "g_windows t = g_windows s" "g_begins t = g_begins s" "ct_window (g_ctl t) = ct_window (g_ctl s)"
    "ct_drained (g_ctl t) = ct_drained (g_ctl s)"
    "0 \<le> ct_writers (g_ctl s)" "0 \<le> ct_runs (g_ctl s)"
    "ct_writers (g_ctl s) \<le> ct_writers (g_ctl t)" "ct_runs (g_ctl s) \<le> ct_runs (g_ctl t)"
    "ct_window (g_ctl s) \<noteq> None \<Longrightarrow> ct_writers (g_ctl t) \<noteq> ct_writers (g_ctl s) \<Longrightarrow> 0 < ct_writers (g_ctl s)"
    "ct_window (g_ctl s) \<noteq> None \<Longrightarrow> ct_runs (g_ctl t) \<noteq> ct_runs (g_ctl s) \<Longrightarrow>
       0 < ct_writers (g_ctl s) \<or> 0 < ct_runs (g_ctl s)"
  shows "quiet_inv t"
proof -
  have runs: "ct_runs (g_ctl t) = 0" if "ct_window (g_ctl s) \<noteq> None" "ct_writers (g_ctl s) = 0" "ct_runs (g_ctl s) = 0"
    using assms(11) that by auto
  have writers: "ct_writers (g_ctl t) = 0" if "ct_window (g_ctl s) \<noteq> None" "ct_writers (g_ctl s) = 0"
    using assms(10) that by auto
  have still: "ct_writers (g_ctl t) \<noteq> 0" if "ct_writers (g_ctl s) \<noteq> 0" using assms(6,8) that by auto
  have seen: "seen_runs_gone ph \<Longrightarrow> seen_writers_gone ph" for ph by (cases ph) auto
  have "window_ok t" using assms(1-5) still by (simp add: quiet_inv_def window_ok_def)
  moreover have "held_ok t" using assms(1-5) runs writers by (simp add: quiet_inv_def held_ok_def)
  moreover have "seen_ok t"
    using assms(1-5) runs writers seen unfolding quiet_inv_def seen_ok_def by (simp; metis option.distinct(1))
  ultimately show ?thesis by (simp add: quiet_inv_def)
qed

lemma quiet_enter:
  assumes "quiet_inv s" "counts_ok s" "\<not> overtaken (EnterCommit i) s"
  shows "quiet_inv (enter_commit i s)"
  by (rule quiet_grow [OF assms(1)])
    (use assms carried_counts(1) [OF assms(2)] counts_nonneg [OF assms(2)] in
      \<open>auto simp: enter_commit_def overtaken_def Holding_def Let_def split: option.splits if_splits\<close>)

lemma quiet_start:
  assumes "quiet_inv s" "counts_ok s" "\<not> overtaken (StartRunCommit i) s"
  shows "quiet_inv (start_commit i s)"
  by (rule quiet_grow [OF assms(1)])
    (use assms carried_counts(2) [OF assms(2)] counts_nonneg [OF assms(2)] in
      \<open>auto simp: start_commit_def overtaken_def Holding_def Let_def split: option.splits if_splits\<close>)

lemma quiet_reenter:
  assumes "quiet_inv s" "counts_ok s"
  shows "quiet_inv (reenter i s)"
  by (rule quiet_grow [OF assms(1)])
    (use counts_nonneg [OF assms(2)] in \<open>auto simp: reenter_def split: option.splits if_splits\<close>)

lemma quiet_run_decrement:
  assumes "quiet_inv s" "counts_ok s"
  shows "quiet_inv (run_decrement s)"
proof (cases "g_owed_runs s = 0")
  case False
  then have "0 < ct_runs (g_ctl s)" using owed_counts(2) [OF assms(2)] by simp
  then show ?thesis using assms(1)
    unfolding quiet_inv_def window_ok_def held_ok_def seen_ok_def run_decrement_def by auto
qed (use assms(1) in \<open>simp add: run_decrement_def\<close>)

lemma quiet_decrement:
  assumes "quiet_inv s" "counts_ok s"
  shows "quiet_inv (decrement s)"
proof (cases "g_owed s = 0")
  case False
  then have pos: "0 < ct_writers (g_ctl s)" using owed_counts(1) [OF assms(2)] by simp
  have seen: "seen_runs_gone ph \<Longrightarrow> seen_writers_gone ph" for ph by (cases ph) auto
  have "window_ok (decrement s)" using assms(1) False
    by (auto simp: quiet_inv_def window_ok_def decrement_def Let_def split: option.split)
  moreover have "held_ok (decrement s)" using assms(1) False pos
    by (auto simp: quiet_inv_def held_ok_def window_ok_def decrement_def Let_def split: option.split)
  moreover have "seen_ok (decrement s)" using assms(1) False pos seen
    by (fastforce simp: quiet_inv_def seen_ok_def decrement_def Let_def split: option.split)
  ultimately show ?thesis by (simp add: quiet_inv_def)
qed (use assms(1) in \<open>simp add: decrement_def\<close>)

lemma release_mark_window:
  assumes "g_windows (release_mark w c s) v = Some y"
  shows "\<exists>x. g_windows s v = Some x \<and> qw_drained y = qw_drained x \<and> qw_held y = qw_held x"
proof (cases "v = w")
  case True
  then obtain x where "g_windows s v = Some x" using assms by (cases "g_windows s v") (simp_all add: release_mark_def)
  with True assms show ?thesis by (cases c; cases "qw_done x") (simp_all add: release_mark_def Let_def, auto)
qed (use assms in \<open>simp add: release_mark_def\<close>)

lemma release_mark_sel [simp]:
  "g_ctl (release_mark w c s) = g_ctl s" "g_begins (release_mark w c s) = g_begins s"
  by (simp_all add: release_mark_def)

lemma quiet_release_mark:
  assumes "quiet_inv s"
  shows "quiet_inv (release_mark w c s)"
proof -
  have "window_ok (release_mark w c s)" using assms by (auto simp: quiet_inv_def window_ok_def release_mark_def)
  moreover have "held_ok (release_mark w c s)" using assms
    unfolding quiet_inv_def held_ok_def by simp (metis release_mark_window)
  moreover have "seen_ok (release_mark w c s)" using assms by (simp add: quiet_inv_def seen_ok_def release_mark_def)
  ultimately show ?thesis by (simp add: quiet_inv_def)
qed

lemma quiet_release_open:
  assumes "quiet_inv s"
  shows "quiet_inv (release_open w s)"
  using assms by (auto simp: quiet_inv_def window_ok_def held_ok_def seen_ok_def release_open_def split: option.split)

text \<open>A call of \<open>Begin\<close> may move on when what the new phase has seen holds of the window.\<close>

lemma quiet_set_begin:
  assumes "quiet_inv s"
    and "\<And>w. phase_window ph = Some w \<Longrightarrow> g_windows s w \<noteq> None"
    and "\<And>w. phase_window ph = Some w \<Longrightarrow> ct_window (g_ctl s) = Some w \<Longrightarrow>
       (seen_writers_gone ph \<longrightarrow> ct_writers (g_ctl s) = 0) \<and> (seen_runs_gone ph \<longrightarrow> ct_runs (g_ctl s) = 0)"
  shows "quiet_inv (set_begin b ph s)"
proof -
  have eq: "g_begins (set_begin b ph s) c = Some (o1, q) \<longleftrightarrow>
      (if c = b then (\<exists>q'. g_begins s b = Some (o1, q')) \<and> q = ph else g_begins s c = Some (o1, q))" for c o1 q
    by (auto simp: set_begin_def)
  have sel: "g_ctl (set_begin b ph s) = g_ctl s" "g_windows (set_begin b ph s) = g_windows s"
    by (simp_all add: set_begin_def)
  have "window_ok (set_begin b ph s)" using assms unfolding quiet_inv_def window_ok_def eq sel by auto
  moreover have "held_ok (set_begin b ph s)" using assms(1) unfolding quiet_inv_def held_ok_def sel by simp
  moreover have "seen_ok (set_begin b ph s)" using assms unfolding quiet_inv_def seen_ok_def eq sel by auto
  ultimately show ?thesis by (simp add: quiet_inv_def)
qed

lemma release_mark_there: "g_windows s w \<noteq> None \<Longrightarrow> g_windows (release_mark v c s) w \<noteq> None"
  by (auto simp: release_mark_def)

lemma quiet_give_back:
  assumes "quiet_inv s" "g_windows s w \<noteq> None"
  shows "quiet_inv (give_back b w e dl s)"
  unfolding give_back_def
  by (rule quiet_set_begin [OF quiet_release_mark [OF assms(1)]]) (use assms(2) in \<open>auto simp: release_mark_there\<close>)

lemma quiet_close:
  assumes "quiet_inv s" "counts_ok s" "g_windows s w = None" "\<not> Holding s"
  shows "quiet_inv (close_window w o1 s)"
proof -
  have free: "ct_window (g_ctl s) = None" "ct_drained (g_ctl s) = None"
    using assms(1,4) by (auto simp: Holding_def quiet_inv_def window_ok_def)
  have fresh: "phase_window ph \<noteq> Some w" if "g_begins s b = Some (o2, ph)" for b o2 ph
    using assms(1,3) that by (fastforce simp: quiet_inv_def window_ok_def)
  have "window_ok (close_window w o1 s)" using assms(1) free
    by (auto simp: quiet_inv_def window_ok_def close_window_def Let_def)
  moreover have "held_ok (close_window w o1 s)" using free by (auto simp: held_ok_def close_window_def Let_def)
  moreover have "seen_ok (close_window w o1 s)" using fresh by (auto simp: seen_ok_def close_window_def Let_def)
  ultimately show ?thesis by (simp add: quiet_inv_def)
qed

lemma quiet_hold:
  assumes "quiet_inv s" "ct_window (g_ctl s) = Some w \<longrightarrow> ct_writers (g_ctl s) = 0 \<and> ct_runs (g_ctl s) = 0"
  shows "quiet_inv (hold w cap s)"
proof -
  have "window_ok (hold w cap s)" using assms(1) by (auto simp: quiet_inv_def window_ok_def hold_def)
  moreover have "held_ok (hold w cap s)" using assms by (auto simp: quiet_inv_def held_ok_def hold_def)
  moreover have "seen_ok (hold w cap s)" using assms(1) by (simp add: quiet_inv_def seen_ok_def hold_def)
  ultimately show ?thesis by (simp add: quiet_inv_def)
qed

lemma hold_sel: "g_ctl (hold w cap s) = g_ctl s" "g_windows s v \<noteq> None \<Longrightarrow> g_windows (hold w cap s) v \<noteq> None"
  by (auto simp: hold_def)

lemma seen_in_order: "seen_runs_gone ph \<Longrightarrow> seen_writers_gone ph"
  by (cases ph) auto

lemma quiet_here:
  assumes "quiet_inv s" "g_begins s b = Some (o1, ph)" "phase_window ph = Some w"
  shows "g_windows s w \<noteq> None"
    and "ct_window (g_ctl s) = Some w \<Longrightarrow> seen_writers_gone ph \<Longrightarrow> ct_writers (g_ctl s) = 0"
    and "ct_window (g_ctl s) = Some w \<Longrightarrow> seen_runs_gone ph \<Longrightarrow> ct_runs (g_ctl s) = 0"
  using assms unfolding quiet_inv_def window_ok_def seen_ok_def by blast+

lemma given_back_seen [simp]:
  "phase_window (case e of None \<Rightarrow> Polling dl | Some x \<Rightarrow> Failed x) = None"
  "phase_window (case e of None \<Rightarrow> Failed ErrBusy | Some x \<Rightarrow> Failed x) = None"
  by (simp_all split: option.split)

lemma quiet_begin_phase:
  assumes inv: "quiet_inv s" and counts: "counts_ok s" and b: "g_begins s b = Some (o1, ph)"
  shows "quiet_inv (begin_phase_step b o1 ph st s)"
proof -
  note here = quiet_here [OF inv b]
  have drained: "ct_writers (g_ctl s) = 0"
    if "ct_window (g_ctl s) = Some w" "g_windows s w = Some x" "qw_drained x" for w x
    using inv that by (simp add: quiet_inv_def held_ok_def)
  have runs0: "ct_runs (g_ctl s) = 0" if "int n + max 0 (ct_runs (g_ctl s)) = 0" for n
    using that counts_nonneg [OF counts] by linarith
  show ?thesis
  proof (cases ph)
    case (Polling dl)
    then show ?thesis using inv
      by (auto simp: begin_phase_step_def poll_step_def intro!: quiet_set_begin split: gate_splits)
  next
    case (Closing dl)
    then show ?thesis using inv counts
      by (auto simp: begin_phase_step_def close_step_def intro!: quiet_set_begin quiet_close split: gate_splits)
         (auto simp: close_window_def Let_def)
  next
    case (Draining dl w)
    with here(1) have "g_windows s w \<noteq> None" by simp
    with Draining show ?thesis using inv drained
      by (auto simp: begin_phase_step_def drain_step_def intro!: quiet_set_begin quiet_give_back split: gate_splits)
  next
    case (GivingBack w e dl)
    then show ?thesis using inv
      by (auto simp: begin_phase_step_def intro!: quiet_set_begin quiet_release_open)
  next
    case (Holding_next w)
    with here have "quiet_inv (hold w (op_HoldCap o1) s)" "g_windows s w \<noteq> None" by (auto intro!: quiet_hold [OF inv])
    with Holding_next show ?thesis using inv hold_sel
      by (auto simp: begin_phase_step_def intro!: quiet_set_begin)
  next
    case (Acquiring dl w)
    with here have "g_windows s w \<noteq> None" "ct_window (g_ctl s) = Some w \<Longrightarrow> ct_writers (g_ctl s) = 0 \<and> ct_runs (g_ctl s) = 0"
      by auto
    with Acquiring show ?thesis using inv
      by (auto simp: begin_phase_step_def acquire_step_def intro!: quiet_set_begin quiet_give_back split: gate_splits)
  next
    case (Rechecking dl w)
    with here have "g_windows s w \<noteq> None" "ct_window (g_ctl s) = Some w \<Longrightarrow> ct_writers (g_ctl s) = 0" by auto
    with Rechecking show ?thesis using inv runs0
      by (auto simp: begin_phase_step_def recheck_step_def intro!: quiet_set_begin quiet_give_back split: gate_splits)
  qed (use inv in \<open>simp_all add: begin_phase_step_def\<close>)
qed

lemma quiet_step:
  assumes "quiet_inv s" "counts_ok s" "\<not> overtaken a s"
  shows "quiet_inv (gate_step a s)"
proof (cases a)
  case (EnterCommit i) then show ?thesis using assms by (simp add: quiet_enter)
next
  case (StartRunCommit i) then show ?thesis using assms by (simp add: quiet_start)
next
  case (BeginCall b opts env ok)
  then show ?thesis using assms(1)
    by (auto simp: begin_call_def Let_def quiet_inv_def window_ok_def held_ok_def seen_ok_def)
next
  case (BeginStep b st) then show ?thesis using assms(1,2) by (auto intro: quiet_begin_phase split: option.split)
next
  case (LeaveMark i)
  then show ?thesis
    by (auto intro!: quiet_transfer [OF assms(1)] simp: leave_mark_def split: option.split)
next
  case (StepOut i)
  then show ?thesis by (auto intro!: quiet_transfer [OF assms(1)] simp: step_out_def split: option.split)
next
  case (RunMark i)
  then show ?thesis by (auto intro!: quiet_transfer [OF assms(1)] simp: run_mark_def)
next
  case (Pass n)
  then show ?thesis by (auto intro: quiet_transfer [OF assms(1)])
next
  case (EnterCheck i p)
  then show ?thesis by (auto intro!: quiet_transfer [OF assms(1)])
next
  case (StartRunCheck i r w)
  then show ?thesis by (auto intro!: quiet_transfer [OF assms(1)])
qed (use assms in \<open>auto simp: quiet_reenter quiet_decrement quiet_run_decrement quiet_release_mark quiet_release_open
    split: option.split begin_phase.split\<close>)

definition gate_inv :: "gate \<Rightarrow> bool" where
  "gate_inv s \<longleftrightarrow> quiet_inv s \<and> counts_ok s \<and> stepped_ok s"

lemma gate_inv_new: "gate_inv (new_gate now)"
  by (simp add: gate_inv_def quiet_inv_def window_ok_def held_ok_def seen_ok_def counts_ok_def stepped_ok_def
      new_gate_def inside_of_def live_of_def)

lemma gate_inv_run: "orderly as s \<Longrightarrow> gate_inv s \<Longrightarrow> gate_inv (gate_run as s)"
  by (induction as arbitrary: s) (simp_all add: gate_inv_def quiet_step counts_step stepped_step)

lemma counts_run: "counts_ok s \<Longrightarrow> stepped_ok s \<Longrightarrow> counts_ok (gate_run as s)"
  by (induction as arbitrary: s) (simp_all add: counts_step stepped_step)

lemma held_excludes:
  assumes "gate_inv s" "Held s"
  shows "ct_writers (g_ctl s) = 0" "ct_runs (g_ctl s) = 0" "\<not> inside s i" "\<not> live_run s j"
proof -
  obtain w x where "ct_window (g_ctl s) = Some w" "g_windows s w = Some x" "qw_held x"
    using assms(2) by (auto simp: Held_def split: option.splits)
  then show writers: "ct_writers (g_ctl s) = 0" and runs: "ct_runs (g_ctl s) = 0"
    using assms(1) unfolding gate_inv_def quiet_inv_def held_ok_def by blast+
  have "finite (inside_of (g_writers s))" "finite (live_of (g_runs s))"
    "inside_of (g_writers s) = {}" "live_of (g_runs s) = {}"
    using assms(1) writers runs by (simp_all add: gate_inv_def counts_ok_def flip: card_0_eq)
  then show "\<not> inside s i" "\<not> live_run s j" by (auto simp: inside_iff live_run_iff)
qed

subsection \<open>Who owns an open window\<close>

definition owned_ok :: "gate \<Rightarrow> bool" where
  "owned_ok s \<longleftrightarrow>
     (\<forall>w. ct_window (g_ctl s) = Some w \<longrightarrow> (\<exists>b o1 ph. g_begins s b = Some (o1, ph) \<and> phase_window ph = Some w))
   \<and> (\<forall>b o1 ph w. g_begins s b = Some (o1, ph) \<longrightarrow> phase_window ph = Some w \<longrightarrow> g_windows s w \<noteq> None)
   \<and> (\<forall>b o1 w e dl x. g_begins s b = Some (o1, GivingBack w e dl) \<longrightarrow> g_windows s w = Some x \<longrightarrow> qw_done x)"

lemma owned_okD:
  assumes "owned_ok s"
  shows "ct_window (g_ctl s) = Some w \<Longrightarrow> \<exists>b o1 ph. g_begins s b = Some (o1, ph) \<and> phase_window ph = Some w"
    and "g_begins s b = Some (o1, ph) \<Longrightarrow> phase_window ph = Some w \<Longrightarrow> g_windows s w \<noteq> None"
    and "g_begins s b = Some (o1, GivingBack w e dl) \<Longrightarrow> g_windows s w = Some x \<Longrightarrow> qw_done x"
  using assms unfolding owned_ok_def by blast+

lemma owned_transfer:
  assumes "owned_ok s" "g_begins t = g_begins s" "ct_window (g_ctl t) = None \<or> ct_window (g_ctl t) = ct_window (g_ctl s)"
    and "\<And>w. (g_windows t w = None) = (g_windows s w = None)"
    and "\<And>w x y. g_windows s w = Some x \<Longrightarrow> g_windows t w = Some y \<Longrightarrow> qw_done x \<Longrightarrow> qw_done y"
  shows "owned_ok t"
  using assms unfolding owned_ok_def by (metis option.exhaust option.distinct(1))

lemma qw_done_upd: "x = y\<lparr>qw_done := True, qw_heldFor := n\<rparr> \<Longrightarrow> qw_done x"
  "x\<lparr>qw_expired := True\<rparr> = y\<lparr>qw_expired := True, qw_done := True, qw_heldFor := n\<rparr> \<Longrightarrow> qw_done x"
  by (drule arg_cong [of _ _ qw_done], simp)+

lemma release_mark_done:
  "g_windows (release_mark w c s) w = Some y \<Longrightarrow> qw_done y"
  "g_windows s v = Some x \<Longrightarrow> g_windows (release_mark w c s) v = Some y \<Longrightarrow> qw_done x \<Longrightarrow> qw_done y"
  "(g_windows (release_mark w c s) v = None) = (g_windows s v = None)"
  by (auto simp: release_mark_def Let_def dest: qw_done_upd split: if_splits)

lemma owned_release_mark: "owned_ok s \<Longrightarrow> owned_ok (release_mark w c s)"
  by (rule owned_transfer [of s]) (use release_mark_done in \<open>auto simp del: not_None_eq\<close>)

lemma owned_release_open: "owned_ok s \<Longrightarrow> owned_ok (release_open w s)"
  by (rule owned_transfer [of s]) (auto simp: release_open_def split: option.splits if_splits)

lemma owned_hold: "owned_ok s \<Longrightarrow> owned_ok (hold w cap s)"
  by (rule owned_transfer [of s]) (auto simp: hold_def split: if_splits)

lemma owned_decrement: "owned_ok s \<Longrightarrow> owned_ok (decrement s)"
  by (rule owned_transfer [of s]) (auto simp: decrement_def Let_def split: option.splits if_splits)

text \<open>A call of \<open>Begin\<close> keeps its window on the way, and gives it up only after reopening the gate.\<close>

lemma owned_set_begin:
  assumes own: "owned_ok s" and b: "g_begins s b = Some (o1, old)"
    and keep: "\<And>w. phase_window old = Some w \<Longrightarrow> ct_window (g_ctl s) = Some w \<Longrightarrow> phase_window ph = Some w"
    and there: "\<And>w. phase_window ph = Some w \<Longrightarrow> g_windows s w \<noteq> None"
    and given: "\<And>w e dl x. ph = GivingBack w e dl \<Longrightarrow> g_windows s w = Some x \<Longrightarrow> qw_done x"
  shows "owned_ok (set_begin b ph s)"
proof -
  let ?t = "set_begin b ph s"
  have eq: "g_begins ?t c = Some (o2, q) \<longleftrightarrow> (if c = b then o2 = o1 \<and> q = ph else g_begins s c = Some (o2, q))"
    for c o2 q using b by (auto simp: set_begin_def)
  have sel: "g_ctl ?t = g_ctl s" "g_windows ?t = g_windows s" by (simp_all add: set_begin_def)
  have "\<exists>c o2 q. g_begins ?t c = Some (o2, q) \<and> phase_window q = Some w" if w: "ct_window (g_ctl s) = Some w" for w
  proof -
    obtain c o2 q where q: "g_begins s c = Some (o2, q)" "phase_window q = Some w"
      using owned_okD(1) [OF own w] by blast
    show ?thesis
    proof (cases "c = b")
      case True
      with q b keep w have "phase_window ph = Some w" by simp
      then show ?thesis using eq [of b o1 ph] by auto
    next
      case False
      then show ?thesis using q eq [of c o2 q] by auto
    qed
  qed
  moreover have "g_windows s w \<noteq> None" if "g_begins ?t c = Some (o2, q)" "phase_window q = Some w" for c o2 q w
    using that there owned_okD(2) [OF own, of c o2 q w] eq [of c o2 q] by (cases "c = b") simp_all
  moreover have "qw_done x" if "g_begins ?t c = Some (o2, GivingBack w e dl)" "g_windows s w = Some x" for c o2 w e dl x
    using that given [of w e dl x] owned_okD(3) [OF own, of c o2 w e dl x] eq [of c o2 "GivingBack w e dl"]
    by (cases "c = b") simp_all
  ultimately show ?thesis unfolding owned_ok_def sel by blast
qed

lemma owned_give_back:
  assumes "owned_ok s" "g_begins s b = Some (o1, old)" "phase_window old = Some w"
  shows "owned_ok (give_back b w err dl s)"
  unfolding give_back_def
  by (rule owned_set_begin [OF owned_release_mark [OF assms(1)], where b = b and ?o1.0 = o1 and old = old])
    (use assms(2,3) release_mark_done owned_okD(2) [OF assms] in \<open>auto simp del: not_None_eq\<close>)

lemma owned_move:
  assumes "owned_ok s" "g_begins s b = Some (o1, old)" "phase_window ph = phase_window old"
    "\<And>w e dl. ph \<noteq> GivingBack w e dl"
  shows "owned_ok (set_begin b ph s)"
  by (rule owned_set_begin [OF assms(1,2)]) (use assms(3,4) owned_okD(2) [OF assms(1,2)] in auto)

lemma owned_close:
  assumes own: "owned_ok s" and b: "g_begins s b = Some (o1, Closing dl)" and w: "g_windows s w = None"
  shows "owned_ok (set_begin b (Draining dl w) (close_window w o2 s))"
proof -
  let ?t = "set_begin b (Draining dl w) (close_window w o2 s)"
  have eq: "g_begins ?t c = Some (o3, q) \<longleftrightarrow> (if c = b then o3 = o1 \<and> q = Draining dl w else g_begins s c = Some (o3, q))"
    for c o3 q using b by (auto simp: set_begin_def close_window_def Let_def)
  have other: "v \<noteq> w" if "g_begins s c = Some (o3, q)" "phase_window q = Some v" for c o3 q v
    using owned_okD(2) [OF own that] w by auto
  have sel: "ct_window (g_ctl ?t) = Some w" "g_windows ?t w \<noteq> None" "v \<noteq> w \<Longrightarrow> g_windows ?t v = g_windows s v" for v
    by (simp_all add: set_begin_def close_window_def Let_def)
  have "\<exists>c o3 q. g_begins ?t c = Some (o3, q) \<and> phase_window q = Some w"
    by (rule exI [of _ b], rule exI [of _ o1], rule exI [of _ "Draining dl w"]) (simp add: eq)
  moreover have "g_windows ?t v \<noteq> None" if "g_begins ?t c = Some (o3, q)" "phase_window q = Some v" for c o3 q v
    using that eq [of c o3 q] sel other owned_okD(2) [OF own] by (cases "c = b") auto
  moreover have "qw_done x" if "g_begins ?t c = Some (o3, GivingBack v e d)" "g_windows ?t v = Some x" for c o3 v e d x
    using that eq [of c o3 "GivingBack v e d"] sel(3) [of v] other [of c o3 "GivingBack v e d" v]
      owned_okD(3) [OF own, of c o3 v e d x] by (cases "c = b") simp_all
  ultimately show ?thesis unfolding owned_ok_def sel(1) by blast
qed

lemma owned_reopen:
  assumes own: "owned_ok s" and b: "g_begins s b = Some (o1, GivingBack w e dl)" and ph: "phase_window ph = None"
  shows "owned_ok (set_begin b ph (release_open w s))"
proof (rule owned_set_begin [OF owned_release_open [OF own], where b = b and ?o1.0 = o1 and old = "GivingBack w e dl"])
  show "g_begins (release_open w s) b = Some (o1, GivingBack w e dl)"
    using b by (simp add: release_open_def split: option.split)
  obtain x where "g_windows s w = Some x" "qw_done x"
    using owned_okD(2) [OF own b, of w] owned_okD(3) [OF own b] by auto
  then have "ct_window (g_ctl (release_open w s)) \<noteq> Some w" by (simp add: release_open_def)
  then show "phase_window ph = Some v" if "phase_window (GivingBack w e dl) = Some v"
      "ct_window (g_ctl (release_open w s)) = Some v" for v
    using that by simp
qed (use ph in auto)

lemma owned_begin_phase:
  assumes own: "owned_ok s" and b: "g_begins s b = Some (o1, ph)"
  shows "owned_ok (begin_phase_step b o1 ph st s)"
proof (cases ph)
  case (Closing dl)
  then show ?thesis using owned_close [OF own b [unfolded Closing]] owned_move [OF own b]
    by (auto simp: begin_phase_step_def close_step_def own split: begin_step.split)
next
  case (GivingBack w e dl)
  then show ?thesis using owned_reopen [OF own b [unfolded GivingBack]] by (simp add: begin_phase_step_def own)
next
  case (Holding_next w)
  have "g_begins (hold w (op_HoldCap o1) s) b = Some (o1, ph)" using b by (simp add: hold_def)
  then have "owned_ok (set_begin b (Holds_window w) (hold w (op_HoldCap o1) s))"
    using Holding_next by (intro owned_move [OF owned_hold [OF own]]) auto
  with Holding_next show ?thesis by (simp add: begin_phase_step_def own)
qed (auto simp: begin_step_defs own intro!: owned_move [OF own b] owned_give_back [OF own b] split: gate_splits)

lemma owned_cong:
  "owned_ok s \<Longrightarrow> g_windows t = g_windows s \<Longrightarrow> g_begins t = g_begins s \<Longrightarrow>
   ct_window (g_ctl t) = ct_window (g_ctl s) \<Longrightarrow> owned_ok t"
  by (simp add: owned_ok_def)

lemma owned_begin_call: "owned_ok s \<Longrightarrow> owned_ok (begin_call b opts env ok s)"
  unfolding owned_ok_def begin_call_def Let_def by (simp split: if_splits) (metis option.distinct(1))

lemma owned_step:
  assumes "owned_ok s"
  shows "owned_ok (gate_step a s)"
proof (cases a)
  case (BeginStep b st) then show ?thesis using assms by (auto intro: owned_begin_phase split: option.split)
next
  case (EnterCommit i)
  show ?thesis by (rule owned_cong [OF assms]) (auto simp: EnterCommit enter_commit_def Let_def split: option.split)
next
  case (StartRunCommit i)
  show ?thesis by (rule owned_cong [OF assms]) (auto simp: StartRunCommit start_commit_def Let_def split: option.split)
next
  case (LeaveMark i)
  show ?thesis by (rule owned_cong [OF assms]) (auto simp: LeaveMark leave_mark_def split: option.split)
next
  case (StepOut i)
  show ?thesis by (rule owned_cong [OF assms]) (auto simp: StepOut step_out_def split: option.split)
next
  case (Reenter i)
  show ?thesis by (rule owned_cong [OF assms]) (auto simp: Reenter reenter_def split: option.split)
qed (use assms in \<open>auto simp: owned_release_mark owned_release_open owned_decrement owned_begin_call run_mark_def
    run_decrement_def intro: owned_cong split: option.split begin_phase.split\<close>)

lemma owned_run: "owned_ok s \<Longrightarrow> owned_ok (gate_run as s)"
  by (induction as arbitrary: s) (simp_all add: owned_step)

lemma owned_new: "owned_ok (new_gate now)"
  by (simp add: owned_ok_def new_gate_def)

subsection \<open>Properties\<close>

text \<open>C18. While the quiet window is held no writer is inside the gate, no admitted run is live and both counters
  read zero: in every interleaving of the sections of \<open>Enter\<close>, \<open>Leave\<close>, \<open>Yield\<close>, \<open>StartRun\<close>, \<open>Done\<close>, \<open>Begin\<close>,
  \<open>Release\<close> and the hard cap, in which no child's parent leaves between the look at the context and the count.\<close>

theorem held_window_excludes_work:
  assumes "orderly as (new_gate now)" and "s = gate_run as (new_gate now)" and "Held s"
  shows "(\<forall>i. \<not> inside s i) \<and> (\<forall>i. \<not> live_run s i) \<and> ct_writers (g_ctl s) = 0 \<and> ct_runs (g_ctl s) = 0"
  using held_excludes [OF gate_inv_run [OF assms(1) gate_inv_new] assms(3) [unfolded assms(2)]] assms(2) by simp

definition plain_options :: Options where
  "plain_options = \<lparr>op_BusyWait = 0, op_HoldCap = 0, op_DrainTimeout = 0, op_Reason = ''instance backup''\<rparr>"

text \<open>Two writers are inside and one admitted child comes in while the window closes; the copy may run when all
  three have left.\<close>

definition demo_window :: "gate_action list" where
  "demo_window =
     [EnterCheck 1 None, EnterCommit 1, EnterCheck 2 None, EnterCommit 2,
      BeginCall 7 plain_options None True, BeginStep 7 (PollBusy True (Some 0)), BeginStep 7 (CloseIt 9),
      EnterCheck 3 (Some 1), EnterCommit 3, EnterCheck 4 None, EnterCommit 4,
      LeaveMark 1, Decrement, LeaveMark 3, Decrement, BeginStep 7 DrainSeen, StepOut 2, Decrement,
      BeginStep 7 DrainSeen, BeginStep 7 (Recheck (Some 0)), BeginStep 7 (AcquireIt True True), BeginStep 7 HoldIt]"

lemma held_window_excludes_work_witness:
  "Held (gate_run demo_window (new_gate 0))
   \<and> (\<forall>i. \<not> inside (gate_run demo_window (new_gate 0)) i) \<and> (\<forall>i. \<not> live_run (gate_run demo_window (new_gate 0)) i)
   \<and> ct_writers (g_ctl (gate_run demo_window (new_gate 0))) = 0 \<and> ct_runs (g_ctl (gate_run demo_window (new_gate 0))) = 0"
proof -
  have o1: "orderly demo_window (new_gate 0)" by code_simp
  have h: "Held (gate_run demo_window (new_gate 0))" by code_simp
  show ?thesis using held_window_excludes_work [OF o1 refl h] h by blast
qed

text \<open>The look of \<open>Enter\<close> at the writer its context carries and the section that counts the child are two
  sections: a parent that leaves in between lets the window hold, and the child is then counted as a writer inside
  the held window.\<close>

definition overtaken_child :: "gate_action list" where
  "overtaken_child =
     [EnterCheck 1 None, EnterCommit 1, EnterCheck 2 (Some 1), LeaveMark 1, Decrement,
      BeginCall 7 plain_options None True, BeginStep 7 (PollBusy True (Some 0)), BeginStep 7 (CloseIt 9),
      BeginStep 7 DrainSeen, BeginStep 7 (Recheck (Some 0)), BeginStep 7 (AcquireIt True True), BeginStep 7 HoldIt,
      EnterCommit 2]"

theorem child_admission_can_be_overtaken:
  "Held (gate_run overtaken_child (new_gate 0)) \<and> inside (gate_run overtaken_child (new_gate 0)) 2
   \<and> ct_writers (g_ctl (gate_run overtaken_child (new_gate 0))) = 1"
  by code_simp

text \<open>C19. Whatever the interleaving, an open window belongs to a call of \<open>Begin\<close> that has not failed: once every
  call of \<open>Begin\<close> is polling, about to close or has returned an error, admission is open.\<close>

theorem failed_begin_leaves_gate_open:
  assumes "s = gate_run as (new_gate now)"
    and "\<And>b o1 ph. g_begins s b = Some (o1, ph) \<Longrightarrow> phase_window ph = None"
  shows "\<not> Holding s"
proof
  assume "Holding s"
  then obtain w where "ct_window (g_ctl s) = Some w" by (auto simp: Holding_def)
  then show False using owned_okD(1) [OF owned_run [OF owned_new], of as now w] assms by fastforce
qed

text \<open>A window whose writer does not leave within the drain timeout.\<close>

definition demo_stuck :: "gate_action list" where
  "demo_stuck =
     [EnterCheck 1 None, EnterCommit 1, BeginCall 7 plain_options None True,
      BeginStep 7 (PollBusy True (Some 0)), BeginStep 7 (CloseIt 9), BeginStep 7 DrainTimeout, BeginStep 7 GiveBack]"

lemma failed_begin_leaves_gate_open_witness:
  "g_begins (gate_run demo_stuck (new_gate 0)) 7 = Some (with_defaults None plain_options, Failed ErrWritesDidNotDrain)
   \<and> \<not> Holding (gate_run demo_stuck (new_gate 0))"
proof -
  have begins: "g_begins (gate_run demo_stuck (new_gate 0)) =
      [7 \<mapsto> (with_defaults None plain_options, Failed ErrWritesDidNotDrain)]"
    by (simp add: demo_stuck_def new_gate_def enter_commit_def begin_call_def begin_step_defs close_window_def
        give_back_def set_begin_def release_mark_def release_open_def Holding_def Let_def fun_eq_iff)
  then have "phase_window ph = None" if "g_begins (gate_run demo_stuck (new_gate 0)) b = Some (o1, ph)" for b o1 ph
    using that by (auto split: if_splits)
  with begins show ?thesis using failed_begin_leaves_gate_open [OF refl, of demo_stuck 0] by auto
qed

end
