(* ===== verification/Quiesce_Holds.thy ===== *)
theory Quiesce_Holds
  imports Quiesce "HOL-Library.AList" "HOL-Library.List_Lexorder" "HOL-Library.Char_ord"
begin

text \<open>
  The holds an instance restore leaves behind (\<^verbatim>\<open>internal/quiesce/holds.go\<close>) and the predicates the hooks of
  the schedulers, the webhooks and the queue ask (\<^verbatim>\<open>quiesce.go\<close>).  The table \<open>instance_holds\<close> is a list of
  rows with distinct keys, \<open>None\<close> when the schema has no such table; the in-memory copy is an association
  list.  A stored \<open>created_at\<close> is RFC 3339 text without fraction digits, kept here as whole seconds since
  the epoch; reading it back gives that second as an instant.
\<close>

subsection \<open>Data and operations\<close>

record Hold =
  hd_Key :: string
  hd_Reason :: string
  hd_Count :: int
  hd_Detail :: string
  hd_CreatedAt :: time

record hold_row =
  hr_reason :: string
  hr_count :: int
  hr_detail :: string
  hr_created :: int

type_synonym holds_table = "(string \<times> hold_row) list option"
type_synonym Holds = "(string \<times> Hold) list"

datatype hold_error = ErrUnknownHold | NotAHoldKey string | HoldDatabase string

definition HoldRoutines :: string where "HoldRoutines = ''routines''"
definition HoldWebhooks :: string where "HoldWebhooks = ''webhooks''"
definition HoldQueue :: string where "HoldQueue = ''queue''"
definition HoldAll :: string where "HoldAll = ''all''"

definition ValidHoldKey :: "string \<Rightarrow> bool" where
  "ValidHoldKey key \<longleftrightarrow> key \<in> {HoldRoutines, HoldWebhooks, HoldQueue, HoldAll}"

definition NewHolds :: Holds where "NewHolds = []"

definition hold_held :: "Holds \<Rightarrow> string \<Rightarrow> bool" where
  "hold_held h key = (if map_of h HoldAll \<noteq> None then True else map_of h key \<noteq> None)"

definition holds_list :: "Holds \<Rightarrow> Hold list" where
  "holds_list h = sort_key hd_Key (map snd h)"

definition holds_replace :: "Hold list \<Rightarrow> Holds" where
  "holds_replace xs = fold (\<lambda>x. AList.update (hd_Key x) x) xs []"

text \<open>\<open>time.Time{}\<close> is the first of January of year 1; \<open>Format\<close> drops the fraction of the second.\<close>

definition zero_time :: time where "zero_time = - 62135596800 * second"

definition format_time :: "time \<Rightarrow> int" where "format_time t = t div second"
definition hold_parseTime :: "int \<Rightarrow> time" where "hold_parseTime n = n * second"

definition row_hold :: "string \<times> hold_row \<Rightarrow> Hold" where
  "row_hold kr = (case kr of (k, r) \<Rightarrow>
     \<lparr>hd_Key = k, hd_Reason = hr_reason r, hd_Count = hr_count r, hd_Detail = hr_detail r,
      hd_CreatedAt = hold_parseTime (hr_created r)\<rparr>)"

definition ReadHolds :: "holds_table \<Rightarrow> Hold list" where
  "ReadHolds db = (case db of None \<Rightarrow> [] | Some rows \<Rightarrow> map row_hold (sort_key fst rows))"

definition holds_load :: "holds_table \<Rightarrow> Holds" where
  "holds_load db = holds_replace (ReadHolds db)"

definition hold_row_of :: "time \<Rightarrow> Hold \<Rightarrow> hold_row" where
  "hold_row_of now x =
     \<lparr>hr_reason = hd_Reason x, hr_count = hd_Count x, hr_detail = hd_Detail x,
      hr_created = format_time (if hd_CreatedAt x = zero_time then now else hd_CreatedAt x)\<rparr>"

text \<open>The loop of \<open>SetHolds\<close>: the rows written before an error stay written.\<close>

fun SetHolds :: "time \<Rightarrow> Hold list \<Rightarrow> holds_table \<Rightarrow> holds_table \<times> hold_error option" where
  "SetHolds now [] db = (db, None)"
| "SetHolds now (x # xs) db =
     (if \<not> ValidHoldKey (hd_Key x) then (db, Some (NotAHoldKey (hd_Key x)))
      else case db of
             None \<Rightarrow> (None, Some (HoldDatabase (hd_Key x)))
           | Some rows \<Rightarrow> SetHolds now xs (Some (AList.update (hd_Key x) (hold_row_of now x) rows)))"

definition holds_resume :: "Holds \<Rightarrow> string \<Rightarrow> holds_table \<Rightarrow> holds_table \<times> (hold_error + Hold)" where
  "holds_resume h key db =
     (case map_of h key of
        None \<Rightarrow> (db, Inl ErrUnknownHold)
      | Some prev \<Rightarrow>
          (case db of
             None \<Rightarrow> (None, Inl (HoldDatabase key))
           | Some rows \<Rightarrow> (Some (if key = HoldAll then [] else AList.delete key rows), Inr prev)))"

definition holds_forget :: "string \<Rightarrow> Holds \<Rightarrow> Holds" where
  "holds_forget key h = (if key = HoldAll then [] else AList.delete key h)"

definition RoutinesPaused :: "gate \<Rightarrow> Holds \<Rightarrow> bool" where
  "RoutinesPaused s h \<longleftrightarrow> Holding s \<or> hold_held h HoldRoutines"

definition WebhooksPaused :: "gate \<Rightarrow> Holds \<Rightarrow> bool" where
  "WebhooksPaused s h \<longleftrightarrow> Holding s \<or> hold_held h HoldWebhooks"

definition QueuePaused :: "gate \<Rightarrow> Holds \<Rightarrow> bool" where
  "QueuePaused s h \<longleftrightarrow> Holding s \<or> hold_held h HoldQueue"

text \<open>
  \<open>AdmitQueue\<close> and the gates of the schedulers: the look at the holds, then \<open>Enter\<close> with the background
  context, which carries no writer.  The answer is the gate after both and whether it let the caller in.
\<close>

definition enter_background :: "nat \<Rightarrow> gate \<Rightarrow> gate \<times> bool" where
  "enter_background i s = (let t = gate_run [EnterCheck i None, EnterCommit i] s in (t, inside t i))"

definition AdmitQueue :: "Holds \<Rightarrow> nat \<Rightarrow> gate \<Rightarrow> gate \<times> bool" where
  "AdmitQueue h i s = (if hold_held h HoldQueue then (s, False) else enter_background i s)"

definition pausedGate_IsLeader :: "bool \<Rightarrow> bool option \<Rightarrow> bool" where
  "pausedGate_IsLeader paused inner = (if paused then False else inner = None \<or> inner = Some True)"

definition pausedGate_Enter :: "bool \<Rightarrow> bool option \<Rightarrow> nat \<Rightarrow> gate \<Rightarrow> gate \<times> bool" where
  "pausedGate_Enter paused inner i s =
     (if \<not> pausedGate_IsLeader paused inner then (s, False) else enter_background i s)"

subsection \<open>The table and its in-memory copy\<close>

lemma hold_parse_format: "hold_parseTime (format_time t) = t - t mod second"
  by (simp add: hold_parseTime_def format_time_def minus_mod_eq_div_mult)

lemma row_hold_key [simp]: "hd_Key (row_hold kr) = fst kr"
  by (simp add: row_hold_def split: prod.split)

lemma update_fold_map_of:
  "map_of (fold (\<lambda>x. AList.update (hd_Key x) x) xs m) k =
     (case find (\<lambda>x. hd_Key x = k) (rev xs) of Some x \<Rightarrow> Some x | None \<Rightarrow> map_of m k)"
  by (induction xs arbitrary: m) (auto simp: AList.update_conv' find_append split: option.split)

lemma find_rev_distinct:
  "distinct (map f xs) \<Longrightarrow> find (\<lambda>x. f x = k) (rev xs) = find (\<lambda>x. f x = k) xs"
proof (induction xs)
  case (Cons x xs)
  have "find (\<lambda>y. f y = k) xs = None" if "f x = k"
    unfolding find_None_iff using that Cons.prems by (metis distinct.simps(2) image_eqI list.set_map list.simps(9))
  with Cons show ?case by (auto simp: find_append split: option.split)
qed simp

lemma find_map_of: "find (\<lambda>x. fst x = k) rows = map_option (Pair k) (map_of rows k)"
  by (induction rows) auto

lemma find_map: "find P (map f xs) = map_option f (find (P \<circ> f) xs)"
  by (induction xs) auto

lemma find_sort_distinct:
  assumes "distinct (map fst rows)"
  shows "find (\<lambda>x. fst x = k) (sort_key fst rows) = find (\<lambda>x. fst x = k) rows"
proof -
  have "distinct (map fst (sort_key fst rows))" using assms by (simp add: distinct_map)
  then have "map_of (sort_key fst rows) = map_of rows"
    using assms by (intro map_of_inject_set [THEN iffD2]) auto
  then show ?thesis by (simp add: find_map_of)
qed

text \<open>What a restart reads for a key is the row of that key.\<close>

lemma load_lookup:
  assumes "distinct (map fst rows)"
  shows "map_of (holds_load (Some rows)) k = map_option (\<lambda>r. row_hold (k, r)) (map_of rows k)"
proof -
  let ?xs = "map row_hold (sort_key fst rows)"
  have "distinct (map hd_Key ?xs)" using assms by (simp add: distinct_map comp_def)
  then have "find (\<lambda>x. hd_Key x = k) (rev ?xs) = find (\<lambda>x. hd_Key x = k) ?xs" by (rule find_rev_distinct)
  also have "\<dots> = map_option row_hold (find (\<lambda>x. fst x = k) rows)"
    using find_sort_distinct [OF assms] by (simp add: find_map comp_def)
  finally show ?thesis
    by (simp add: holds_load_def holds_replace_def ReadHolds_def update_fold_map_of find_map_of option.map_comp comp_def
        split: option.split)
qed

lemma set_holds_rows:
  assumes "\<forall>x \<in> set xs. ValidHoldKey (hd_Key x)"
  shows "SetHolds now xs (Some rows) =
     (Some (fold (\<lambda>x. AList.update (hd_Key x) (hold_row_of now x)) xs rows), None)"
  using assms by (induction xs arbitrary: rows) auto

lemma update_rows_map_of:
  "map_of (fold (\<lambda>x. AList.update (hd_Key x) (f x)) xs rows) k =
     (case find (\<lambda>x. hd_Key x = k) (rev xs) of Some x \<Rightarrow> Some (f x) | None \<Rightarrow> map_of rows k)"
  by (induction xs arbitrary: rows) (auto simp: AList.update_conv' find_append split: option.split)

lemma update_rows_distinct:
  "distinct (map fst rows) \<Longrightarrow> distinct (map fst (fold (\<lambda>x. AList.update (hd_Key x) (f x)) xs rows))"
  by (induction xs arbitrary: rows) (auto simp: distinct_update)

definition stored :: "time \<Rightarrow> Hold \<Rightarrow> Hold" where
  "stored now x =
     x\<lparr>hd_CreatedAt := (let t = if hd_CreatedAt x = zero_time then now else hd_CreatedAt x in t - t mod second)\<rparr>"

lemma row_hold_of: "hd_Key x = k \<Longrightarrow> row_hold (k, hold_row_of now x) = stored now x"
  by (cases x) (simp add: row_hold_def hold_row_of_def stored_def hold_parse_format Let_def)

lemma find_key: "find (\<lambda>x. hd_Key x = k) xs = Some x \<Longrightarrow> hd_Key x = k"
  by (auto simp: find_Some_iff)

subsection \<open>Properties\<close>

text \<open>C20. Holds written by an instance restore are what the next start of the server loads: for every key the last
  hold written for it, its time cut to the second (the time of the write when it had none), and the hold the table
  had before for a key that was not written.\<close>

theorem set_holds_then_load:
  assumes "\<forall>x \<in> set xs. ValidHoldKey (hd_Key x)" and "distinct (map fst rows)"
  shows "\<exists>rows'. SetHolds now xs (Some rows) = (Some rows', None)
     \<and> (\<forall>k. map_of (holds_load (Some rows')) k =
          (case find (\<lambda>x. hd_Key x = k) (rev xs) of
             Some x \<Rightarrow> Some (stored now x) | None \<Rightarrow> map_of (holds_load (Some rows)) k))"
proof (intro exI conjI allI)
  let ?rows = "fold (\<lambda>x. AList.update (hd_Key x) (hold_row_of now x)) xs rows"
  show "SetHolds now xs (Some rows) = (Some ?rows, None)" by (rule set_holds_rows [OF assms(1)])
  show "map_of (holds_load (Some ?rows)) k =
      (case find (\<lambda>x. hd_Key x = k) (rev xs) of
         Some x \<Rightarrow> Some (stored now x) | None \<Rightarrow> map_of (holds_load (Some rows)) k)" for k
    unfolding load_lookup [OF update_rows_distinct [OF assms(2)]] load_lookup [OF assms(2)] update_rows_map_of
    by (auto simp: row_hold_of dest: find_key split: option.split)
qed

definition demo_holds :: "Hold list" where
  "demo_holds =
     [\<lparr>hd_Key = ''queue'', hd_Reason = ''restore'', hd_Count = 3, hd_Detail = '''', hd_CreatedAt = zero_time\<rparr>,
      \<lparr>hd_Key = ''routines'', hd_Reason = ''restore'', hd_Count = 1, hd_Detail = ''nightly'', hd_CreatedAt = 5500000000\<rparr>]"

lemma set_holds_then_load_witness:
  "\<exists>rows'. SetHolds 7900000000 demo_holds (Some []) = (Some rows', None)
     \<and> map_of (holds_load (Some rows')) ''queue'' =
         Some \<lparr>hd_Key = ''queue'', hd_Reason = ''restore'', hd_Count = 3, hd_Detail = '''', hd_CreatedAt = 7000000000\<rparr>"
proof -
  have "\<forall>x \<in> set demo_holds. ValidHoldKey (hd_Key x)"
    by (simp add: demo_holds_def ValidHoldKey_def HoldQueue_def HoldRoutines_def)
  from set_holds_then_load [OF this, of "[]" 7900000000]
  obtain rows' where "SetHolds 7900000000 demo_holds (Some []) = (Some rows', None)"
    and "map_of (holds_load (Some rows')) ''queue'' =
      (case find (\<lambda>x. hd_Key x = ''queue'') (rev demo_holds) of
         Some x \<Rightarrow> Some (stored 7900000000 x) | None \<Rightarrow> map_of (holds_load (Some [])) ''queue'')" by auto
  then show ?thesis by (auto simp: demo_holds_def stored_def zero_time_def second_def)
qed

text \<open>Resuming an automation keeps the in-memory copy what a restart would load: after the row's deletion and
  \<open>Forget\<close> the two agree on every key, the resumed key is held in neither, and resuming \<open>all\<close> leaves nothing held.\<close>

theorem resume_survives_restart:
  assumes "distinct (map fst rows)" and "\<forall>k. map_of h k = map_of (holds_load (Some rows)) k"
    and "holds_resume h key (Some rows) = (Some rows', Inr prev)"
  shows "(\<forall>k. map_of (holds_forget key h) k = map_of (holds_load (Some rows')) k)
     \<and> map_of h key = Some prev \<and> map_of (holds_forget key h) key = None
     \<and> (key = HoldAll \<longrightarrow> (\<forall>k. \<not> hold_held (holds_forget key h) k))"
proof -
  have prev: "map_of h key = Some prev" and rows': "rows' = (if key = HoldAll then [] else AList.delete key rows)"
    using assms(3) by (auto simp: holds_resume_def split: option.splits)
  have distinct': "distinct (map fst rows')" using assms(1) rows' by (auto simp: distinct_delete)
  have "map_of (holds_forget key h) k = map_of (holds_load (Some rows')) k" for k
    using assms(2) unfolding load_lookup [OF distinct'] load_lookup [OF assms(1)]
    by (auto simp: rows' holds_forget_def delete_conv')
  moreover have "map_of (holds_forget key h) key = None" by (simp add: holds_forget_def delete_conv')
  moreover have "\<not> hold_held (holds_forget HoldAll h) k" for k by (simp add: holds_forget_def hold_held_def)
  ultimately show ?thesis using prev by blast
qed

lemma resume_survives_restart_witness:
  "fst (holds_resume (holds_load (Some [(''queue'', \<lparr>hr_reason = ''restore'', hr_count = 3, hr_detail = '''', hr_created = 7\<rparr>)]))
      ''queue'' (Some [(''queue'', \<lparr>hr_reason = ''restore'', hr_count = 3, hr_detail = '''', hr_created = 7\<rparr>)])) = Some []
   \<and> map_of (holds_forget ''queue''
      (holds_load (Some [(''queue'', \<lparr>hr_reason = ''restore'', hr_count = 3, hr_detail = '''', hr_created = 7\<rparr>)])))
      ''queue'' = None"
proof -
  let ?rows = "[(''queue'', \<lparr>hr_reason = ''restore'', hr_count = 3, hr_detail = '''', hr_created = 7\<rparr>)]"
  let ?h = "holds_load (Some ?rows)"
  have r: "holds_resume ?h ''queue'' (Some ?rows) = (Some [], Inr (row_hold (hd ?rows)))" by code_simp
  have "map_of (holds_forget ''queue'' ?h) ''queue'' = None"
    using resume_survives_restart [of ?rows ?h "''queue''" "[]", OF _ _ r] by force
  then show ?thesis using r by (metis fst_conv)
qed

end
