(* ===== verification/Dispatch.thy ===== *)
theory Dispatch
  imports Work_Host
begin

text \<open>
  The dispatcher, the single owner of execution (\<^verbatim>\<open>internal/dispatch\<close>: \<^verbatim>\<open>runtime.go\<close>, \<^verbatim>\<open>dispatcher.go\<close>).
  Its operations are sequences of store calls.  Before each of them other parties may have run any
  commands on the ledger, the clock has moved, and the call may be lost to the storage, before its
  transaction or after it; a script lists what happens at each call.  What the runtime and the
  authorizer answer comes as an argument.
\<close>

subsection \<open>Outcomes, assignments and decisions\<close>

datatype Outcome = OutcomeUnclear | OutcomeSucceeded | OutcomeFailed | OutcomeRetryable | OutcomeDetached
  | OutcomeRetained

fun Outcome_String :: "Outcome \<Rightarrow> string" where
  "Outcome_String OutcomeSucceeded = ''succeeded''"
| "Outcome_String OutcomeFailed = ''failed''"
| "Outcome_String OutcomeRetryable = ''retryable''"
| "Outcome_String OutcomeDetached = ''detached''"
| "Outcome_String OutcomeRetained = ''retained''"
| "Outcome_String OutcomeUnclear = ''unclear''"

definition RetainedCapturePendingReason :: string where
  "RetainedCapturePendingReason = ''protected host capture awaiting retained result''"

record Assignment =
  as_Item :: Item
  as_RunID :: string
  as_Attempt :: int
  as_Generation :: int

datatype decisionKind = decisionAllow | decisionRefuse | decisionNotYet

record DispatchDecision =
  dc_kind :: decisionKind
  dc_reason :: string
  dc_retryAfter :: time

definition defaultNotYetRetry :: time where "defaultNotYetRetry = 30 * second"

definition Allow :: DispatchDecision where
  "Allow = \<lparr>dc_kind = decisionAllow, dc_reason = '''', dc_retryAfter = 0\<rparr>"

definition Refuse :: "string \<Rightarrow> DispatchDecision" where
  "Refuse reason = \<lparr>dc_kind = decisionRefuse, dc_reason = reason, dc_retryAfter = 0\<rparr>"

definition NotYet :: "string \<Rightarrow> time \<Rightarrow> DispatchDecision" where
  "NotYet reason retryAfter =
     \<lparr>dc_kind = decisionNotYet, dc_reason = reason,
      dc_retryAfter = (if retryAfter \<le> 0 then defaultNotYetRetry else retryAfter)\<rparr>"

record Config =
  cf_Owner :: string
  cf_Limits :: Limits
  cf_PollInterval :: time
  cf_HeartbeatInterval :: time
  cf_CancelPollInterval :: time
  cf_StopGrace :: time
  cf_Kinds :: "Kind list"
  cf_ConfirmPollInterval :: time
  cf_RecoveryInterval :: time

definition withDefaults :: "Config \<Rightarrow> Config" where
  "withDefaults c = c\<lparr>
     cf_Owner := (if cf_Owner c = '''' then ''dispatcher'' else cf_Owner c),
     cf_Limits := (if cf_Limits c = ZeroLimits then DefaultLimits else cf_Limits c),
     cf_PollInterval := (if cf_PollInterval c \<le> 0 then 2 * second else cf_PollInterval c),
     cf_HeartbeatInterval := (if cf_HeartbeatInterval c \<le> 0 then HeartbeatInterval else cf_HeartbeatInterval c),
     cf_CancelPollInterval := (if cf_CancelPollInterval c \<le> 0 then 2 * second else cf_CancelPollInterval c),
     cf_StopGrace := (if cf_StopGrace c \<le> 0 then CancelGrace else cf_StopGrace c),
     cf_ConfirmPollInterval := (if cf_ConfirmPollInterval c \<le> 0 then second else cf_ConfirmPollInterval c),
     cf_RecoveryInterval := (if cf_RecoveryInterval c \<le> 0 then RecoveryScanMax else cf_RecoveryInterval c)\<rparr>"

text \<open>
  An error of the runtime's \<open>Run\<close>: its text and whether it wraps \<open>work.ErrRunResultUnstored\<close>.  The runtime
  gives the locator of an assignment and classifies the errors; \<open>en_text\<close> is the text of a ledger error
  and \<open>en_rnd\<close> the random draw of the backoff.
\<close>

record run_error =
  re_text :: string
  re_unstored :: bool

record environment =
  en_Locator :: "Assignment \<Rightarrow> string"
  en_Classify :: "Assignment \<Rightarrow> run_error option \<Rightarrow> Outcome"
  en_text :: "work_error \<Rightarrow> string"
  en_rnd :: "int \<Rightarrow> int"

subsection \<open>Store calls\<close>

datatype store_error = Ledger work_error | Storage string

fun store_text :: "environment \<Rightarrow> store_error \<Rightarrow> string" where
  "store_text env (Ledger e) = en_text env e"
| "store_text env (Storage s) = s"

datatype fault = NoFault | LostBefore string | LostAfter string

record store_point =
  sp_others :: "command list"
  sp_now :: time
  sp_fault :: fault

text \<open>\<open>wd_own\<close> records the dispatcher's own calls that reached the ledger.  A used-up script means a quiet, working store.\<close>

record world =
  wd_db :: work_db
  wd_now :: time
  wd_script :: "store_point list"
  wd_own :: "command list"

definition next_point :: "world \<Rightarrow> store_point" where
  "next_point w = (case wd_script w of
     [] \<Rightarrow> \<lparr>sp_others = [], sp_now = wd_now w, sp_fault = NoFault\<rparr> | p # _ \<Rightarrow> p)"

definition reach_point :: "world \<Rightarrow> world" where
  "reach_point w = w\<lparr>wd_script := tl (wd_script w), wd_now := sp_now (next_point w),
     wd_db := run_commands (sp_others (next_point w)) (wd_db w)\<rparr>"

fun ledger_answer :: "(work_error + 'a) \<Rightarrow> store_error + 'a" where
  "ledger_answer (Inl e) = Inl (Ledger e)"
| "ledger_answer (Inr x) = Inr x"

definition store_call :: "(time \<Rightarrow> command) \<Rightarrow> (time \<Rightarrow> work_db \<Rightarrow> (work_error + 'a) \<times> work_db)
    \<Rightarrow> world \<Rightarrow> (store_error + 'a) \<times> world" where
  "store_call c f w =
     (let now = sp_now (next_point w); w1 = reach_point w; (r, db) = f now (wd_db w1);
          w2 = w1\<lparr>wd_db := db, wd_own := wd_own w1 @ [c now]\<rparr>
      in case sp_fault (next_point w) of
           NoFault \<Rightarrow> (ledger_answer r, w2)
         | LostBefore e \<Rightarrow> (Inl (Storage e), w1)
         | LostAfter e \<Rightarrow> (Inl (Storage e), w2))"

definition store_read :: "(work_db \<Rightarrow> work_error + 'a) \<Rightarrow> world \<Rightarrow> (store_error + 'a) \<times> world" where
  "store_read f w =
     (let w1 = reach_point w
      in case sp_fault (next_point w) of
           NoFault \<Rightarrow> (ledger_answer (f (wd_db w1)), w1)
         | LostBefore e \<Rightarrow> (Inl (Storage e), w1)
         | LostAfter e \<Rightarrow> (Inl (Storage e), w1))"

definition call_Transition :: "environment \<Rightarrow> TransitionRequest \<Rightarrow> world \<Rightarrow> (store_error + unit) \<times> world" where
  "call_Transition env req =
     store_call (\<lambda>now. DoTransition now (en_rnd env) req) (\<lambda>now. Transition now (en_rnd env) req)"

subsection \<open>Recording an outcome\<close>

definition transition_of :: "Assignment \<Rightarrow> State \<Rightarrow> string \<Rightarrow> bool \<Rightarrow> TransitionRequest" where
  "transition_of a to reason stoppedFailed =
     \<lparr>tr_WorkID = wi_id (as_Item a), tr_RunID = as_RunID a, tr_Generation = as_Generation a, tr_To = to,
      tr_Reason = reason, tr_ExitEvidence = '''', tr_CostUSD = 0, tr_StoppedRunFailed = stoppedFailed\<rparr>"

definition finishWithRunProof :: "environment \<Rightarrow> Assignment \<Rightarrow> State \<Rightarrow> string \<Rightarrow> bool \<Rightarrow> world \<Rightarrow> world" where
  "finishWithRunProof env a to reason stoppedFailed w =
     (case call_Transition env (transition_of a to reason stoppedFailed) w of
        (Inr _, w1) \<Rightarrow> w1
      | (Inl e, w1) \<Rightarrow>
          if to = StateNeedsReconciliation \<or> e = Ledger ErrTerminal \<or> e = Ledger ErrStaleGeneration
             \<or> e = Ledger ErrNotBound then w1
          else snd (call_Transition env (transition_of a StateNeedsReconciliation
                 (''the outcome '' @ state_string to @ '' could not be recorded ('' @ store_text env e
                  @ ''); it was: '' @ reason) False) w1))"

definition finish :: "environment \<Rightarrow> Assignment \<Rightarrow> State \<Rightarrow> string \<Rightarrow> world \<Rightarrow> world" where
  "finish env a to reason = finishWithRunProof env a to reason False"

definition park :: "environment \<Rightarrow> Assignment \<Rightarrow> string \<Rightarrow> world \<Rightarrow> world" where
  "park env a reason = finish env a StateNeedsReconciliation reason"

text \<open>\<open>alive\<close> is what the runtime answers if \<open>settle\<close> asks it: an error, or whether something is at the locator.\<close>

definition settle_failure :: "environment \<Rightarrow> Assignment \<Rightarrow> run_error \<Rightarrow> string + bool \<Rightarrow> world \<Rightarrow> world" where
  "settle_failure env a err alive =
     (case en_Classify env a (Some err) of
        OutcomeRetained \<Rightarrow> park env a RetainedCapturePendingReason
      | OutcomeRetryable \<Rightarrow> finish env a StateRetryWait (re_text err)
      | OutcomeFailed \<Rightarrow> finish env a StateFailed (re_text err)
      | OutcomeDetached \<Rightarrow>
          park env a (''detached runtime ended without a captured terminal result: '' @ re_text err)
      | OutcomeSucceeded \<Rightarrow> park env a (''the runtime classified a failure as success: '' @ re_text err)
      | OutcomeUnclear \<Rightarrow>
          finishWithRunProof env a StateNeedsReconciliation
            (''the runtime's outcome is unclear: '' @ re_text err) (alive = Inr False))"

definition settle :: "environment \<Rightarrow> Assignment \<Rightarrow> string \<Rightarrow> run_error option \<Rightarrow> string + bool \<Rightarrow> world \<Rightarrow> world" where
  "settle env a locator runErr alive w =
     (case runErr of
        Some err \<Rightarrow> if re_unstored err
          then park env a (''execution result requires reconciliation: '' @ re_text err) w
          else
            (case store_read (\<lambda>db. CancelRequested db (as_RunID a)) w of
               (Inl e, w1) \<Rightarrow> park env a (''cancel state could not be checked while settling: '' @ store_text env e) w1
             | (Inr requested, w1) \<Rightarrow>
                 if requested
                 then (case alive of
                         Inl e \<Rightarrow> park env a (''cancel requested and the runtime could not be checked: '' @ e) w1
                       | Inr True \<Rightarrow> park env a (''cancel requested and the runtime is still alive at '' @ locator) w1
                       | Inr False \<Rightarrow>
                           finish env a StateCancelled ''runtime confirmed stopped after a cancel request'' w1)
                 else settle_failure env a err alive w1)
      | None \<Rightarrow>
          (case store_read (\<lambda>db. CancelRequested db (as_RunID a)) w of
             (Inl e, w1) \<Rightarrow> park env a (''cancel state could not be checked while settling: '' @ store_text env e) w1
           | (Inr requested, w1) \<Rightarrow>
               finish env a StateSucceeded
                 (if requested then ''completed; a cancel was requested but the run had already finished''
                  else ''completed'') w1))"

subsection \<open>Claiming and starting\<close>

definition cancelledBeforeStart :: "environment \<Rightarrow> Assignment \<Rightarrow> world \<Rightarrow> (store_error + bool) \<times> world" where
  "cancelledBeforeStart env a w =
     (case store_read (\<lambda>db. CancelRequested db (as_RunID a)) w of
        (Inl e, w1) \<Rightarrow> (Inl e, w1)
      | (Inr False, w1) \<Rightarrow> (Inr False, w1)
      | (Inr True, w1) \<Rightarrow>
          (case call_Transition env (transition_of a StateCancelled
                  ''cancelled after claim, before any runtime was created'' False) w1 of
             (Inl e, w2) \<Rightarrow> (Inl e, w2)
           | (Inr _, w2) \<Rightarrow> (Inr True, w2)))"

text \<open>\<open>start\<close> hands back the locator of the attempt that is now supervised, if it got that far.\<close>

definition start :: "environment \<Rightarrow> Assignment \<Rightarrow> world \<Rightarrow> string option \<times> world" where
  "start env a w =
     (let locator = en_Locator env a
      in case store_call (\<lambda>now. DoMarkStarting (wi_id (as_Item a)) (as_RunID a) (as_Generation a) locator)
                (\<lambda>now. MarkStarting (wi_id (as_Item a)) (as_RunID a) (as_Generation a) locator) w of
           (Inl e, w1) \<Rightarrow> (None, park env a (''start intent could not be recorded: '' @ store_text env e) w1)
         | (Inr _, w1) \<Rightarrow> (Some locator, w1))"

definition defer_work :: "environment \<Rightarrow> Assignment \<Rightarrow> DispatchDecision \<Rightarrow> time \<Rightarrow> world \<Rightarrow> world" where
  "defer_work env a d dnow w =
     (let until = dnow + dc_retryAfter d; why = ''deferred at dispatch: '' @ dc_reason d
      in case store_call (\<lambda>now. DoDefer now (wi_id (as_Item a)) (as_RunID a) (as_Generation a) until why)
                (\<lambda>now. Defer now (wi_id (as_Item a)) (as_RunID a) (as_Generation a) until why) w of
           (Inr _, w1) \<Rightarrow> w1
         | (Inl e, w1) \<Rightarrow>
             park env a (''authorization deferred this work and it could not be requeued: '' @ store_text env e) w1)"

definition authorize_and_start :: "environment \<Rightarrow> (Assignment \<Rightarrow> string + DispatchDecision) option \<Rightarrow> time
    \<Rightarrow> Assignment \<Rightarrow> world \<Rightarrow> string option \<times> world" where
  "authorize_and_start env authz dnow a w =
     (case authz of
        None \<Rightarrow> start env a w
      | Some f \<Rightarrow>
          (case f a of
             Inl e \<Rightarrow> (None, park env a (''authorization could not be checked at dispatch: '' @ e) w)
           | Inr d \<Rightarrow>
               (case dc_kind d of
                  decisionRefuse \<Rightarrow> (None, finish env a StateFailed (''refused at dispatch: '' @ dc_reason d) w)
                | decisionNotYet \<Rightarrow> (None, defer_work env a d dnow w)
                | decisionAllow \<Rightarrow> start env a w)))"

definition claim_options :: "Config \<Rightarrow> ClaimOptions" where
  "claim_options cfg = \<lparr>co_LeaseOwner = cf_Owner cfg, co_Limits = cf_Limits cfg, co_Class = ClassOther '''',
     co_AgentID = '''', co_Kinds = cf_Kinds cfg, co_WorkID = ''''\<rparr>"

definition assignment_of :: "Claimed \<Rightarrow> Assignment" where
  "assignment_of c = \<lparr>as_Item = cl_Item c, as_RunID = cl_RunID c, as_Attempt = cl_Attempt c,
     as_Generation = cl_Generation c\<rparr>"

text \<open>
  \<open>claimOne\<close>: \<open>paused\<close> is the answer of \<open>Paused\<close>, \<open>entered\<close> whether the quiet window let the claim in,
  \<open>newid\<close> the identifier the store draws for the run, \<open>dnow\<close> the dispatcher's clock.  The answer says
  whether something was claimed or why not, and what is supervised from now on.
\<close>

definition claimOne :: "environment \<Rightarrow> Config \<Rightarrow> bool \<Rightarrow> bool \<Rightarrow> string
    \<Rightarrow> (Assignment \<Rightarrow> string + DispatchDecision) option \<Rightarrow> time \<Rightarrow> world
    \<Rightarrow> (bool \<times> store_error option) \<times> (Assignment \<times> string) option \<times> world" where
  "claimOne env cfg paused entered newid authz dnow w =
     (if paused then ((False, None), None, w)
      else if \<not> entered then ((False, None), None, w)
      else case store_call (\<lambda>now. DoClaim now now newid (claim_options cfg))
                  (\<lambda>now. Claim now now newid (claim_options cfg)) w of
             (Inl e, w1) \<Rightarrow> ((False, if e = Ledger ErrNoWork then None else Some e), None, w1)
           | (Inr c, w1) \<Rightarrow>
               let a = assignment_of c
               in case cancelledBeforeStart env a w1 of
                    (Inl e, w2) \<Rightarrow> ((True, Some e), None, w2)
                  | (Inr True, w2) \<Rightarrow> ((True, None), None, w2)
                  | (Inr False, w2) \<Rightarrow>
                      (case authorize_and_start env authz dnow a w2 of
                         (None, w3) \<Rightarrow> ((True, None), None, w3)
                       | (Some locator, w3) \<Rightarrow> ((True, None), Some (a, locator), w3)))"

text \<open>\<open>recover\<close> of the dispatcher, under the same admission.\<close>

definition dispatch_recover :: "bool \<Rightarrow> world \<Rightarrow> store_error option \<times> world" where
  "dispatch_recover entered w =
     (if \<not> entered then (None, w)
      else case store_call DoRecover RecoverExpiredLeases w of
             (Inl e, w1) \<Rightarrow> (Some e, w1) | (Inr _, w1) \<Rightarrow> (None, w1))"

subsection \<open>Supervision\<close>

datatype supervision = Watching | WaitingDetached "run_error option" nat | Over

text \<open>
  The supervisor of an attempt: where its wait is (the error of a detached return and the probe errors
  in a row), and what its goroutines have said: the heartbeat lost the lease, the cancel watch gave
  up, a confirmation was recorded or tried, the heartbeat and the cancel watch still run.
\<close>

record supervisor =
  sv_assignment :: Assignment
  sv_locator :: string
  sv_wait :: supervision
  sv_superseded :: bool
  sv_abandoned :: bool
  sv_confirmed :: bool
  sv_beating :: bool
  sv_watching :: bool

definition new_supervisor :: "Assignment \<Rightarrow> string \<Rightarrow> supervisor" where
  "new_supervisor a locator = \<lparr>sv_assignment = a, sv_locator = locator, sv_wait = Watching, sv_superseded = False,
     sv_abandoned = False, sv_confirmed = False, sv_beating = True, sv_watching = True\<rparr>"

definition confirm :: "supervisor \<Rightarrow> world \<Rightarrow> supervisor \<times> world" where
  "confirm sv w =
     (if sv_confirmed sv then (sv, w)
      else let a = sv_assignment sv
           in (sv\<lparr>sv_confirmed := True\<rparr>,
               snd (store_call (\<lambda>now. DoStartRunning now (wi_id (as_Item a)) (as_RunID a) (as_Generation a) (sv_locator sv))
                 (\<lambda>now. StartRunning now (wi_id (as_Item a)) (as_RunID a) (as_Generation a) (sv_locator sv)) w)))"

definition heartbeat_tick :: "supervisor \<Rightarrow> world \<Rightarrow> supervisor \<times> world" where
  "heartbeat_tick sv w =
     (if \<not> sv_beating sv then (sv, w)
      else let a = sv_assignment sv
           in case store_call (\<lambda>now. DoHeartbeat now (as_RunID a) (as_Generation a))
                     (\<lambda>now. Heartbeat now (as_RunID a) (as_Generation a)) w of
                (r, w1) \<Rightarrow> (if r = Inl (Ledger ErrStaleGeneration)
                             then sv\<lparr>sv_superseded := True, sv_beating := False\<rparr> else sv, w1))"

text \<open>
  \<open>enforceCancel\<close>: the answers of the first signal, of the escalation after the grace and of the last
  look; it answers whether the runtime is given up.
\<close>

definition enforceCancel :: "string + bool \<Rightarrow> string + bool \<Rightarrow> string + bool \<Rightarrow> bool" where
  "enforceCancel stop1 stop2 look =
     (if stop1 = Inr True then False else if stop2 = Inr True then False else look \<noteq> Inr False)"

definition watchCancel_tick :: "string + bool \<Rightarrow> string + bool \<Rightarrow> string + bool \<Rightarrow> supervisor \<Rightarrow> world
    \<Rightarrow> supervisor \<times> world" where
  "watchCancel_tick stop1 stop2 look sv w =
     (if \<not> sv_watching sv then (sv, w)
      else case store_read (\<lambda>db. CancelRequested db (as_RunID (sv_assignment sv))) w of
             (Inr True, w1) \<Rightarrow>
               (sv\<lparr>sv_watching := False, sv_abandoned := sv_abandoned sv \<or> enforceCancel stop1 stop2 look\<rparr>, w1)
           | (_, w1) \<Rightarrow> (sv, w1))"

definition maxProbeErrors :: nat where "maxProbeErrors = 5"

definition supervised_end :: "supervisor \<Rightarrow> supervisor" where
  "supervised_end sv = sv\<lparr>sv_wait := Over\<rparr>"

definition shutdownAttempt :: "environment \<Rightarrow> supervisor \<Rightarrow> string + bool \<Rightarrow> run_error option option \<Rightarrow> string + bool
    \<Rightarrow> world \<Rightarrow> world" where
  "shutdownAttempt env sv stopped runDone alive =
     (if stopped \<noteq> Inr True
      then park env (sv_assignment sv) (''server shutdown: runtime stop could not be confirmed at '' @ sv_locator sv)
      else case runDone of
             Some runErr \<Rightarrow> settle env (sv_assignment sv) (sv_locator sv) runErr alive
           | None \<Rightarrow> park env (sv_assignment sv)
               ''server shutdown: runtime stopped but its outcome was not returned'')"

text \<open>
  What can happen to a supervisor: the ticks of its goroutines, the branches of the select of
  \<open>supervise\<close>, and the iterations of the wait for a detached runtime.  A branch is taken only when its
  channel is ready; the answers of the runtime come along.
\<close>

datatype supervisor_event =
    Beat | StreamStarted | ProbeAnswer "string + bool" | CancelTick "string + bool" "string + bool" "string + bool"
  | RunDone "run_error option" "string + bool" | TakeSuperseded | TakeAbandoned
  | TakeShutdown "string + bool" "run_error option option" "string + bool"
  | DetachedProbe "string + bool" "string + bool" | DetachedWatch "string + bool"

definition detached_probe :: "environment \<Rightarrow> supervisor \<Rightarrow> run_error option \<Rightarrow> nat \<Rightarrow> string + bool \<Rightarrow> string + bool
    \<Rightarrow> world \<Rightarrow> supervisor \<times> world" where
  "detached_probe env sv runErr probeErrors probe alive w =
     (case probe of
        Inr False \<Rightarrow> (supervised_end sv, settle env (sv_assignment sv) (sv_locator sv) runErr alive w)
      | Inr True \<Rightarrow> (sv\<lparr>sv_wait := WaitingDetached runErr 0\<rparr>, w)
      | Inl _ \<Rightarrow>
          if Suc probeErrors \<ge> maxProbeErrors
          then (supervised_end sv, settle env (sv_assignment sv) (sv_locator sv) runErr alive w)
          else (sv\<lparr>sv_wait := WaitingDetached runErr (Suc probeErrors)\<rparr>, w))"

definition run_done :: "environment \<Rightarrow> supervisor \<Rightarrow> run_error option \<Rightarrow> string + bool \<Rightarrow> world \<Rightarrow> supervisor \<times> world" where
  "run_done env sv runErr alive w =
     (if en_Classify env (sv_assignment sv) runErr = OutcomeDetached
      then (sv\<lparr>sv_wait := WaitingDetached runErr 0\<rparr>, w)
      else (supervised_end sv, settle env (sv_assignment sv) (sv_locator sv) runErr alive w))"

text \<open>
  The branches that end both waits: the lease is lost and nothing is written, the cancel watch gave up,
  the server shuts down.  A detached return already has its result, so the shutdown finds it returned.
\<close>

definition take_superseded :: "supervisor \<Rightarrow> world \<Rightarrow> supervisor \<times> world" where
  "take_superseded sv w = (if sv_superseded sv then (supervised_end sv, w) else (sv, w))"

definition take_abandoned :: "environment \<Rightarrow> supervisor \<Rightarrow> world \<Rightarrow> supervisor \<times> world" where
  "take_abandoned env sv w =
     (if sv_abandoned sv
      then (supervised_end sv, park env (sv_assignment sv) (''cancel requested and the runtime at '' @ sv_locator sv
              @ '' did not stop within the grace period'') w)
      else (sv, w))"

definition supervise :: "environment \<Rightarrow> supervisor_event \<Rightarrow> supervisor \<times> world \<Rightarrow> supervisor \<times> world" where
  "supervise env ev svw =
     (case svw of (sv, w) \<Rightarrow>
       (case ev of
          Beat \<Rightarrow> heartbeat_tick sv w
        | StreamStarted \<Rightarrow> confirm sv w
        | ProbeAnswer r \<Rightarrow> (if r = Inr True then confirm sv w else (sv, w))
        | CancelTick stop1 stop2 look \<Rightarrow> watchCancel_tick stop1 stop2 look sv w
        | RunDone runErr alive \<Rightarrow> (if sv_wait sv = Watching then run_done env sv runErr alive w else (sv, w))
        | TakeSuperseded \<Rightarrow> (if sv_wait sv = Over then (sv, w) else take_superseded sv w)
        | TakeAbandoned \<Rightarrow> (if sv_wait sv = Over then (sv, w) else take_abandoned env sv w)
        | TakeShutdown stopped runDone alive \<Rightarrow>
            (case sv_wait sv of
               Watching \<Rightarrow> (supervised_end sv, shutdownAttempt env sv stopped runDone alive w)
             | WaitingDetached runErr _ \<Rightarrow> (supervised_end sv, shutdownAttempt env sv stopped (Some runErr) alive w)
             | Over \<Rightarrow> (sv, w))
        | DetachedProbe probe alive \<Rightarrow>
            (case sv_wait sv of
               WaitingDetached runErr n \<Rightarrow> detached_probe env sv runErr n probe alive w | _ \<Rightarrow> (sv, w))
        | DetachedWatch alive \<Rightarrow>
            (case sv_wait sv of
               WaitingDetached runErr n \<Rightarrow>
                 (supervised_end sv, settle env (sv_assignment sv) (sv_locator sv) runErr alive w)
             | _ \<Rightarrow> (sv, w))))"

fun supervise_all :: "environment \<Rightarrow> supervisor_event list \<Rightarrow> supervisor \<times> world \<Rightarrow> supervisor \<times> world" where
  "supervise_all env [] svw = svw"
| "supervise_all env (ev # evs) svw = supervise_all env evs (supervise env ev svw)"

text \<open>
  The loop of \<open>Run\<close> and the goroutines it starts: recovery passes, claims and the events of the supervised
  attempts, known by their run identifiers, in any order.
\<close>

datatype dispatch_action =
    Recover bool
  | ClaimNext bool bool string "(Assignment \<Rightarrow> string + DispatchDecision) option" time
  | Supervise string supervisor_event

definition dispatch :: "environment \<Rightarrow> Config \<Rightarrow> dispatch_action \<Rightarrow> (string \<rightharpoonup> supervisor) \<times> world
    \<Rightarrow> (string \<rightharpoonup> supervisor) \<times> world" where
  "dispatch env cfg act d =
     (case d of (running, w) \<Rightarrow>
       (case act of
          Recover entered \<Rightarrow> (running, snd (dispatch_recover entered w))
        | ClaimNext paused entered newid authz dnow \<Rightarrow>
            (case claimOne env cfg paused entered newid authz dnow w of
               (_, None, w1) \<Rightarrow> (running, w1)
             | (_, Some (a, locator), w1) \<Rightarrow> (running(as_RunID a \<mapsto> new_supervisor a locator), w1))
        | Supervise run ev \<Rightarrow>
            (case running run of
               None \<Rightarrow> (running, w)
             | Some sv \<Rightarrow> (case supervise env ev (sv, w) of (sv', w1) \<Rightarrow> (running(run \<mapsto> sv'), w1)))))"

fun dispatch_all :: "environment \<Rightarrow> Config \<Rightarrow> dispatch_action list \<Rightarrow> (string \<rightharpoonup> supervisor) \<times> world
    \<Rightarrow> (string \<rightharpoonup> supervisor) \<times> world" where
  "dispatch_all env cfg [] d = d"
| "dispatch_all env cfg (act # acts) d = dispatch_all env cfg acts (dispatch env cfg act d)"

text \<open>
  What \<open>Run\<close> does before its loop, and \<open>RunOne\<close> up to the wait for the supervised attempt: a dispatcher
  without executable kinds refuses, and a failed recovery pass ends the call before anything is claimed.
\<close>

datatype run_refusal = ErrNoExecutableKinds | RecoveryFailed store_error

definition Run_start :: "Config \<Rightarrow> bool \<Rightarrow> world \<Rightarrow> run_refusal option \<times> world" where
  "Run_start cfg entered w =
     (if cf_Kinds cfg = [] then (Some ErrNoExecutableKinds, w)
      else case dispatch_recover entered w of
             (Some e, w1) \<Rightarrow> (Some (RecoveryFailed e), w1) | (None, w1) \<Rightarrow> (None, w1))"

definition RunOne :: "environment \<Rightarrow> Config \<Rightarrow> bool \<Rightarrow> bool \<Rightarrow> bool \<Rightarrow> string
    \<Rightarrow> (Assignment \<Rightarrow> string + DispatchDecision) option \<Rightarrow> time \<Rightarrow> (string \<rightharpoonup> supervisor) \<times> world
    \<Rightarrow> run_refusal option \<times> (string \<rightharpoonup> supervisor) \<times> world" where
  "RunOne env cfg recover_entered paused entered newid authz dnow d =
     (case Run_start cfg recover_entered (snd d) of
        (Some e, w1) \<Rightarrow> (Some e, fst d, w1)
      | (None, w1) \<Rightarrow> (None, dispatch env cfg (ClaimNext paused entered newid authz dnow) (fst d, w1)))"

end
