(* ===== verification/Dispatch_Paths.thy ===== *)
theory Dispatch_Paths
  imports Dispatch
begin

text \<open>
  Every operation of the dispatcher is a path of store calls.  A relation between the world before and
  after that holds of each call, composes and admits the commands the operation issues holds of the
  whole operation; the locale says so once, and three relations interpret it: the ledger moves
  along a schedule of commands, a closed run's supervisor leaves the ledger to the others, and every
  command issued has a given property.
\<close>

subsection \<open>Calls\<close>

text \<open>The world after a call that reached the ledger.\<close>

definition issue :: "(time \<Rightarrow> command) \<Rightarrow> world \<Rightarrow> world" where
  "issue c w = (reach_point w)\<lparr>wd_db := exec_command (c (sp_now (next_point w))) (wd_db (reach_point w)),
     wd_own := wd_own w @ [c (sp_now (next_point w))]\<rparr>"

definition executes :: "(time \<Rightarrow> command) \<Rightarrow> (time \<Rightarrow> work_db \<Rightarrow> (work_error + 'a) \<times> work_db) \<Rightarrow> bool" where
  "executes c f \<longleftrightarrow> (\<forall>now db. snd (f now db) = exec_command (c now) db)"

lemma executesI: "(\<And>now db. snd (f now db) = exec_command (c now) db) \<Longrightarrow> executes c f"
  by (simp add: executes_def)

lemma reach_point_own [simp]: "wd_own (reach_point w) = wd_own w"
  by (simp add: reach_point_def)

lemma store_call_world:
  assumes "executes c f"
  shows "snd (store_call c f w) = reach_point w \<or> snd (store_call c f w) = issue c w"
proof -
  let ?now = "sp_now (next_point w)" and ?db = "wd_db (reach_point w)"
  have "snd (f ?now ?db) = exec_command (c ?now) ?db" using assms by (simp add: executes_def)
  then show ?thesis
    by (cases "sp_fault (next_point w)") (auto simp: store_call_def issue_def Let_def split: prod.split)
qed

lemma store_read_world: "snd (store_read f w) = reach_point w"
  by (simp add: store_read_def Let_def split: fault.split)

lemma executes_calls:
  "executes (\<lambda>now. DoTransition now rnd req) (\<lambda>now. Transition now rnd req)"
  "executes (\<lambda>now. DoMarkStarting x run gen loc) (\<lambda>now. MarkStarting x run gen loc)"
  "executes (\<lambda>now. DoStartRunning now x run gen loc) (\<lambda>now. StartRunning now x run gen loc)"
  "executes (\<lambda>now. DoHeartbeat now run gen) (\<lambda>now. Heartbeat now run gen)"
  "executes (\<lambda>now. DoDefer now x run gen until why) (\<lambda>now. Defer now x run gen until why)"
  "executes (\<lambda>now. DoClaim now now newid opts) (\<lambda>now. Claim now now newid opts)"
  "executes DoRecover RecoverExpiredLeases"
  by (simp_all add: executes_def)

text \<open>The commands that present the run of an assignment.\<close>

inductive presents :: "Assignment \<Rightarrow> command \<Rightarrow> bool" for a where
  "presents a (DoTransition now rnd (transition_of a to why gone))"
| "presents a (DoMarkStarting (wi_id (as_Item a)) (as_RunID a) (as_Generation a) loc)"
| "presents a (DoStartRunning now (wi_id (as_Item a)) (as_RunID a) (as_Generation a) loc)"
| "presents a (DoHeartbeat now (as_RunID a) (as_Generation a))"
| "presents a (DoDefer now (wi_id (as_Item a)) (as_RunID a) (as_Generation a) until why)"

subsection \<open>Paths\<close>

locale call_path =
  fixes R :: "world \<Rightarrow> world \<Rightarrow> bool" and P :: "command \<Rightarrow> bool"
  assumes refl: "R w w"
    and trans: "R u v \<Longrightarrow> R v w \<Longrightarrow> R u w"
    and point: "R w (reach_point w)"
    and issued: "P (c (sp_now (next_point w))) \<Longrightarrow> R w (issue c w)"
begin

lemma call:
  assumes "executes c f" "\<And>now. P (c now)"
  shows "R w (snd (store_call c f w))"
  using store_call_world [OF assms(1), of w] point issued [of c w] assms(2) by auto

lemma call_then:
  assumes "store_call c f w = (r, w1)" "executes c f" "\<And>now. P (c now)" "R w1 w2"
  shows "R w w2"
  using call [OF assms(2,3), of w] trans assms(1,4) by auto

lemma read_then:
  assumes "store_read f w = (r, w1)" "R w1 w2"
  shows "R w w2"
  using store_read_world [of f w] assms point trans by auto

lemma finish_path:
  assumes "\<And>now. P (DoTransition now (en_rnd env) (transition_of a to why gone))"
    and "\<And>now why. P (DoTransition now (en_rnd env) (transition_of a StateNeedsReconciliation why False))"
  shows "R w (finishWithRunProof env a to why gone w)"
proof -
  obtain r w1 where e: "call_Transition env (transition_of a to why gone) w = (r, w1)" by fastforce
  have 1: "R w w1" using call [OF executes_calls(1) assms(1), of w] e by (simp add: call_Transition_def)
  have 2: "R w1 (snd (call_Transition env (transition_of a StateNeedsReconciliation why' False) w1))" for why'
    using call [OF executes_calls(1) assms(2)] by (simp add: call_Transition_def)
  show ?thesis using 1 trans [OF 1 2] by (cases r) (auto simp: finishWithRunProof_def e)
qed

text \<open>A run may be reported in every state when all the transitions of its assignment are admitted.\<close>

lemma park_path:
  assumes "\<And>now why. P (DoTransition now (en_rnd env) (transition_of a StateNeedsReconciliation why False))"
  shows "R w (park env a why w)"
  unfolding park_def finish_def by (rule finish_path) (rule assms)+

lemma settle_path:
  assumes "\<And>now why gone. P (DoTransition now (en_rnd env) (transition_of a StateNeedsReconciliation why gone))"
    and "runErr = None \<Longrightarrow> (\<And>now why. P (DoTransition now (en_rnd env) (transition_of a StateSucceeded why False)))"
    and "runErr \<noteq> None \<Longrightarrow> alive = Inr False \<Longrightarrow>
           fst (store_read (\<lambda>db. CancelRequested db (as_RunID a)) w) = Inr True \<Longrightarrow>
           (\<And>now why. P (DoTransition now (en_rnd env) (transition_of a StateCancelled why False)))"
    and "\<And>e. runErr = Some e \<Longrightarrow> en_Classify env a runErr = OutcomeRetryable \<Longrightarrow>
           (\<And>now why. P (DoTransition now (en_rnd env) (transition_of a StateRetryWait why False)))"
    and "\<And>e. runErr = Some e \<Longrightarrow> en_Classify env a runErr = OutcomeFailed \<Longrightarrow>
           (\<And>now why. P (DoTransition now (en_rnd env) (transition_of a StateFailed why False)))"
  shows "R w (settle env a loc runErr alive w)"
proof -
  obtain r w1 where e: "store_read (\<lambda>db. CancelRequested db (as_RunID a)) w = (r, w1)" by fastforce
  have parked: "R v (park env a why v)" for why v by (rule park_path) (rule assms(1))
  have parked1: "R w (park env a why w1)" for why by (rule read_then [OF e parked])
  have done1: "R w (finish env a to why w1)"
    if "\<And>now why. P (DoTransition now (en_rnd env) (transition_of a to why False))" for to why
    unfolding finish_def by (rule read_then [OF e], rule finish_path) (rule that assms(1))+
  have unclear: "R w (finishWithRunProof env a StateNeedsReconciliation why gone w1)" for why gone
    by (rule read_then [OF e], rule finish_path) (rule assms(1))+
  show ?thesis
  proof (cases runErr)
    case None
    then show ?thesis using parked1 done1 [OF assms(2)] by (cases r) (auto simp: settle_def e)
  next
    case (Some err)
    have failure: "R w (settle_failure env a err alive w1)"
      using parked1 unclear done1 [OF assms(4) [OF Some]] done1 [OF assms(5) [OF Some]] Some
      by (simp add: settle_failure_def split: Outcome.split)
    show ?thesis
      using Some parked parked1 failure done1 [OF assms(3)]
      by (cases r) (auto simp: settle_def e split: sum.split bool.split)
  qed
qed

lemma start_path:
  assumes "\<And>c. presents a c \<Longrightarrow> P c"
  shows "R w (snd (start env a w))"
proof -
  let ?mark = "store_call (\<lambda>now. DoMarkStarting (wi_id (as_Item a)) (as_RunID a) (as_Generation a) (en_Locator env a))
     (\<lambda>now. MarkStarting (wi_id (as_Item a)) (as_RunID a) (as_Generation a) (en_Locator env a)) w"
  obtain r w1 where e: "?mark = (r, w1)" by fastforce
  have 1: "R w w1" using call [OF executes_calls(2), of "wi_id (as_Item a)" "as_RunID a" "as_Generation a" "en_Locator env a" w]
      assms presents.intros(2) e by simp
  have "R w1 (park env a why w1)" for why by (rule park_path) (rule assms presents.intros)+
  then show ?thesis using 1 trans [OF 1] by (cases r) (simp_all add: start_def Let_def e)
qed

lemma defer_path:
  assumes "\<And>c. presents a c \<Longrightarrow> P c"
  shows "R w (defer_work env a d dnow w)"
proof -
  let ?until = "dnow + dc_retryAfter d" and ?why = "''deferred at dispatch: '' @ dc_reason d"
  let ?defer = "store_call (\<lambda>now. DoDefer now (wi_id (as_Item a)) (as_RunID a) (as_Generation a) ?until ?why)
     (\<lambda>now. Defer now (wi_id (as_Item a)) (as_RunID a) (as_Generation a) ?until ?why) w"
  obtain r w1 where e: "?defer = (r, w1)" by fastforce
  have 1: "R w w1" using call [OF executes_calls(5), of "wi_id (as_Item a)" "as_RunID a" "as_Generation a" ?until ?why w]
      assms presents.intros(5) e by simp
  have "R w1 (park env a why w1)" for why by (rule park_path) (rule assms presents.intros)+
  then show ?thesis unfolding defer_work_def Let_def e using 1 trans [OF 1] by (cases r) simp_all
qed

lemma authorize_path:
  assumes "\<And>c. presents a c \<Longrightarrow> P c"
  shows "R w (snd (authorize_and_start env authz dnow a w))"
proof -
  have p: "R w (park env a why w)" for why by (rule park_path) (rule assms presents.intros)+
  have f: "R w (finish env a to why w)" for to why
    unfolding finish_def by (rule finish_path) (rule assms presents.intros)+
  show ?thesis
    using f p start_path [OF assms] defer_path [OF assms]
    by (auto simp: authorize_and_start_def split: option.split sum.split decisionKind.split)
qed

lemma confirm_path:
  assumes "\<And>c. presents (sv_assignment sv) c \<Longrightarrow> P c"
  shows "R w (snd (confirm sv w))"
  using refl assms presents.intros(3) by (auto simp: confirm_def Let_def intro!: call [OF executes_calls(3)])

lemma heartbeat_path:
  assumes "\<And>c. presents (sv_assignment sv) c \<Longrightarrow> P c"
  shows "R w (snd (heartbeat_tick sv w))"
proof -
  let ?beat = "store_call (\<lambda>now. DoHeartbeat now (as_RunID (sv_assignment sv)) (as_Generation (sv_assignment sv)))
     (\<lambda>now. Heartbeat now (as_RunID (sv_assignment sv)) (as_Generation (sv_assignment sv))) w"
  obtain r w1 where e: "?beat = (r, w1)" by fastforce
  have "R w (snd ?beat)"
    using assms presents.intros(4) by (auto intro!: call [OF executes_calls(4)])
  then show ?thesis using refl by (simp add: heartbeat_tick_def Let_def e)
qed

lemma watch_path: "R w (snd (watchCancel_tick s1 s2 look sv w))"
  using refl point store_read_world [of "\<lambda>db. CancelRequested db (as_RunID (sv_assignment sv))" w]
  by (auto simp: watchCancel_tick_def split: prod.split sum.split bool.split)

text \<open>All transitions of the assignment admitted, every event of its supervisor is a path.\<close>

lemma supervise_path:
  assumes "\<And>c. presents (sv_assignment sv) c \<Longrightarrow> P c"
  shows "R w (snd (supervise env ev (sv, w)))"
proof -
  have parked: "R w (park env (sv_assignment sv) why w)" for why by (rule park_path) (rule assms presents.intros)+
  have settled: "R w (settle env (sv_assignment sv) loc e alive w)" for loc e alive
    by (rule settle_path) (rule assms presents.intros)+
  show ?thesis
    using parked settled refl confirm_path [OF assms] heartbeat_path [OF assms] watch_path
    by (cases ev)
      (auto simp: supervise_def run_done_def detached_probe_def take_superseded_def take_abandoned_def
        shutdownAttempt_def split: supervision.split sum.split bool.split option.split)
qed

lemma supervise_assignment: "sv_assignment (fst (supervise env ev (sv, w))) = sv_assignment sv"
  by (cases ev)
    (auto simp: supervise_def run_done_def detached_probe_def take_superseded_def take_abandoned_def supervised_end_def
      confirm_def heartbeat_tick_def watchCancel_tick_def Let_def
      split: supervision.split sum.split bool.split option.split prod.split)

lemma supervise_all_path:
  assumes "\<And>c. presents (sv_assignment sv) c \<Longrightarrow> P c"
  shows "R w (snd (supervise_all env evs (sv, w)))"
  using assms
proof (induction evs arbitrary: sv w)
  case (Cons ev evs)
  obtain sv' w' where e: "supervise env ev (sv, w) = (sv', w')" by fastforce
  have "sv_assignment sv' = sv_assignment sv" using supervise_assignment [of env ev sv w] e by simp
  then have "R w' (snd (supervise_all env evs (sv', w')))" using Cons.prems by (intro Cons.IH) simp
  moreover have "R w w'" using supervise_path [of sv w env ev, OF Cons.prems] e by simp
  ultimately show ?case using trans e by simp
qed (simp add: refl)

text \<open>Every command admitted, the whole dispatcher is a path.\<close>

lemma dispatch_path:
  assumes "\<And>c. P c"
  shows "R (snd d) (snd (dispatch env cfg act d))"
proof -
  have cancelled: "R w (snd (cancelledBeforeStart env a w))" for a w
  proof -
    obtain r w1 where e: "store_read (\<lambda>db. CancelRequested db (as_RunID a)) w = (r, w1)" by fastforce
    have 1: "R w w1" by (rule read_then [OF e refl])
    let ?req = "transition_of a StateCancelled ''cancelled after claim, before any runtime was created'' False"
    obtain r2 w2 where e2: "call_Transition env ?req w1 = (r2, w2)" by fastforce
    have "R w1 (snd (call_Transition env ?req w1))"
      unfolding call_Transition_def by (rule call [OF executes_calls(1)]) (rule assms)
    then have 2: "R w w2" using trans [OF 1] e2 by simp
    show ?thesis unfolding cancelledBeforeStart_def e using 1 2
      by (cases r2) (simp_all add: e2 [simplified] split: sum.split bool.split)
  qed
  have claimed: "R w (snd (snd (claimOne env cfg paused entered newid authz dnow w)))" for paused entered newid authz dnow w
  proof -
    obtain r w1 where e: "store_call (\<lambda>now. DoClaim now now newid (claim_options cfg))
        (\<lambda>now. Claim now now newid (claim_options cfg)) w = (r, w1)" by fastforce
    have 1: "R w w1" using call [OF executes_calls(6), of newid "claim_options cfg" w] assms e by simp
    obtain q w2 where e2: "cancelledBeforeStart env (assignment_of (projr r)) w1 = (q, w2)" by fastforce
    have 2: "R w w2" using cancelled [of w1 "assignment_of (projr r)"] e2 trans [OF 1] by simp
    have "R w (snd (authorize_and_start env authz dnow (assignment_of (projr r)) w2))"
      by (rule trans [OF 2 authorize_path]) (rule assms)
    then show ?thesis using refl 1 2 e2
      by (cases r) (auto simp: claimOne_def e Let_def split: sum.split bool.split prod.split option.split)
  qed
  have recovered: "R w (snd (dispatch_recover entered w))" for entered w
    using call [OF executes_calls(7), of w] refl assms
    by (fastforce simp: dispatch_recover_def split: prod.split sum.split)
  obtain running w where d: "d = (running, w)" by (cases d) auto
  show ?thesis
  proof (cases act)
    case (ClaimNext paused entered newid authz dnow)
    then show ?thesis using claimed [of w paused entered newid authz dnow]
      by (auto simp: dispatch_def d split: prod.splits option.splits)
  next
    case (Supervise run ev)
    then show ?thesis using supervise_path [OF assms] refl
      by (auto simp: dispatch_def d split: option.split prod.split) (metis snd_conv)
  qed (simp add: dispatch_def d recovered)
qed

lemma dispatch_all_path:
  assumes "\<And>c. P c"
  shows "R (snd d) (snd (dispatch_all env cfg acts d))"
proof (induction acts arbitrary: d)
  case (Cons act acts)
  show ?case using trans [OF dispatch_path [OF assms] Cons] by simp
qed (simp add: refl)

end

end
