(* ===== verification/Dispatch_Properties.thy ===== *)
theory Dispatch_Properties
  imports Dispatch_Paths Work_Lifecycle Work_Admission
begin

text \<open>
  What the dispatcher guarantees on every script: it moves the ledger only along schedules of its
  operations, a supervisor whose run is over leaves the ledger to the others, an outcome is recorded only
  on the evidence the code asks for and is not lost when one write fails, and work whose runtime was
  started never returns to the queue by a recovery.
\<close>

subsection \<open>The dispatcher moves along schedules\<close>

lemma run_commands_Nil [simp]: "run_commands [] db = db"
  by (simp add: run_commands_def)

lemma run_commands_one: "exec_command c db = run_commands [c] db"
  by (simp add: run_commands_def)

lemma reach_point_db: "wd_db (reach_point w) = run_commands (sp_others (next_point w)) (wd_db w)"
  by (simp add: reach_point_def)

definition reaches :: "world \<Rightarrow> world \<Rightarrow> bool" where
  "reaches w w' \<longleftrightarrow> (\<exists>cs. wd_db w' = run_commands cs (wd_db w))"

interpretation schedule: call_path reaches "\<lambda>_. True"
proof unfold_locales
  show "reaches w w" for w unfolding reaches_def by (rule exI [of _ "[]"]) simp
  show "reaches u w" if "reaches u v" "reaches v w" for u v w
    using that unfolding reaches_def by (metis run_commands_append)
  show "reaches w (reach_point w)" for w unfolding reaches_def reach_point_db by blast
  show "reaches w (issue c w)" for c w
    unfolding reaches_def issue_def by (simp add: reach_point_db run_commands_one run_commands_append [symmetric]) blast
qed


subsection \<open>A run that is over\<close>

definition left_to_others :: "world \<Rightarrow> world \<Rightarrow> bool" where
  "left_to_others w w' \<longleftrightarrow>
     (\<exists>k. wd_script w' = drop k (wd_script w)
        \<and> wd_db w' = run_commands (concat (map sp_others (take k (wd_script w)))) (wd_db w))"

definition run_over :: "string \<Rightarrow> work_db \<Rightarrow> bool" where
  "run_over run db \<longleftrightarrow> (\<exists>cs. db = run_commands cs empty_db)
     \<and> (case attempt_row db run of None \<Rightarrow> False | Some a \<Rightarrow> wa_ended_at a \<noteq> None)"

definition fenced_off :: "string \<Rightarrow> world \<Rightarrow> world \<Rightarrow> bool" where
  "fenced_off run w w' \<longleftrightarrow> (run_over run (wd_db w) \<longrightarrow> left_to_others w w')"

lemma run_over_later:
  assumes "run_over run db"
  shows "run_over run (run_commands ds db)"
proof -
  obtain cs a where cs: "db = run_commands cs empty_db" and a: "attempt_row db run = Some a" "wa_ended_at a \<noteq> None"
    using assms by (auto simp: run_over_def split: option.splits)
  obtain b where b: "attempt_row (run_commands ds db) run = Some b" "attempt_later a b" "outcome_ok a"
    by (rule reachable_row_later [OF cs refl a(1)])
  then have "wa_ended_at b \<noteq> None" using a(2) by (auto simp: attempt_later_def attempt_kept_def)
  moreover have "\<exists>cs'. run_commands ds db = run_commands cs' empty_db"
    using cs by (metis run_commands_append)
  ultimately show ?thesis using b(1) by (simp add: run_over_def)
qed

lemma run_over_closed: "run_over run db \<Longrightarrow> \<not> run_open db run"
  using closed_run_stays_closed [of db run _ "[]"] reachable_good
  by (auto simp: run_over_def split: option.splits)

lemma run_over_refuses:
  assumes "run_over (as_RunID a) db" "presents a c"
  shows "exec_command c db = db"
proof -
  note closed = run_over_closed [OF assms(1)]
  have req: "(transition_of a to why gone)\<lparr>tr_RunID := as_RunID a\<rparr> = transition_of a to why gone" for to why gone
    by (simp add: transition_of_def)
  show ?thesis
    using assms(2) closed fence_Transition.fenced [OF closed] fence_MarkStarting.fenced [OF closed]
      fence_StartRunning.fenced [OF closed] fence_Heartbeat.fenced [OF closed] fence_Defer.fenced [OF closed]
    by cases (auto simp: rejected_def req dest: spec, metis req)
qed

lemma left_to_others_point: "left_to_others w (reach_point w)"
proof (cases "wd_script w")
  case Nil
  then show ?thesis unfolding left_to_others_def
    by (intro exI [of _ 0]) (simp add: reach_point_def next_point_def)
next
  case (Cons p ps)
  then show ?thesis unfolding left_to_others_def
    by (intro exI [of _ 1]) (simp add: reach_point_def next_point_def)
qed

lemma left_to_others_trans:
  assumes "left_to_others u v" "left_to_others v w"
  shows "left_to_others u w"
proof -
  obtain j k where "wd_script v = drop j (wd_script u)"
      "wd_db v = run_commands (concat (map sp_others (take j (wd_script u)))) (wd_db u)"
      "wd_script w = drop k (wd_script v)" "wd_db w = run_commands (concat (map sp_others (take k (wd_script v)))) (wd_db v)"
    using assms unfolding left_to_others_def by blast
  then show ?thesis unfolding left_to_others_def
    by (intro exI [of _ "j + k"]) (simp add: take_add run_commands_append add.commute)
qed

interpretation over: call_path "fenced_off (as_RunID a)" "presents a" for a
proof unfold_locales
  show "fenced_off (as_RunID a) w w" for w
    unfolding fenced_off_def left_to_others_def by (intro impI exI [of _ 0]) simp
  show "fenced_off (as_RunID a) u w" if "fenced_off (as_RunID a) u v" "fenced_off (as_RunID a) v w" for u v w
    unfolding fenced_off_def
  proof
    assume o1: "run_over (as_RunID a) (wd_db u)"
    then have 1: "left_to_others u v" using that(1) by (simp add: fenced_off_def)
    then have "run_over (as_RunID a) (wd_db v)" using run_over_later [OF o1] by (auto simp: left_to_others_def)
    then show "left_to_others u w" using that(2) left_to_others_trans [OF 1] by (simp add: fenced_off_def)
  qed
  show "fenced_off (as_RunID a) w (reach_point w)" for w
    by (simp add: fenced_off_def left_to_others_point)
  show "fenced_off (as_RunID a) w (issue c w)" if "presents a (c (sp_now (next_point w)))" for c w
  proof -
    have "exec_command (c (sp_now (next_point w))) (wd_db (reach_point w)) = wd_db (reach_point w)"
      if "run_over (as_RunID a) (wd_db w)"
      using run_over_refuses [OF _ \<open>presents a (c (sp_now (next_point w)))\<close>] run_over_later [OF that]
      by (simp add: reach_point_db)
    then show ?thesis using left_to_others_point [of w]
      by (simp add: fenced_off_def left_to_others_def issue_def)
  qed
qed

text \<open>C14. A supervisor whose run is over changes nothing: once the attempt has ended (settled, recovered, superseded),
  whatever its heartbeat, its confirmations, its cancel watch, its settlement and its shutdown still do, the ledger
  is what the other parties make of it.\<close>

theorem finished_supervisor_changes_nothing:
  assumes "wd_db w = run_commands cs empty_db" "attempt_row (wd_db w) (as_RunID (sv_assignment sv)) = Some a"
    and "wa_ended_at a \<noteq> None"
  shows "left_to_others w (snd (supervise_all env evs (sv, w)))"
  using over.supervise_all_path [of sv "sv_assignment sv" w env evs] assms
  by (auto simp: fenced_off_def run_over_def)

subsection \<open>Honest settlement\<close>

definition issues :: "(command \<Rightarrow> bool) \<Rightarrow> world \<Rightarrow> world \<Rightarrow> bool" where
  "issues Q w w' \<longleftrightarrow> (\<exists>cs. wd_own w' = wd_own w @ cs \<and> list_all Q cs)"

interpretation issued: call_path "issues Q" Q for Q
proof unfold_locales
  show "issues Q w w" for w unfolding issues_def by (rule exI [of _ "[]"]) simp
  show "issues Q u w" if "issues Q u v" "issues Q v w" for u v w
    using that unfolding issues_def by (metis append.assoc list_all_append)
  show "issues Q w (reach_point w)" for w unfolding issues_def by (rule exI [of _ "[]"]) simp
  show "issues Q w (issue c w)" if "Q (c (sp_now (next_point w)))" for c w
    using that unfolding issues_def issue_def by (intro exI [of _ "[c (sp_now (next_point w))]"]) simp
qed

text \<open>What a transition to a state rests on: the run's answer, the read of the cancel request, the last look at the
  runtime and the classification of the error.\<close>

fun grounded :: "environment \<Rightarrow> Assignment \<Rightarrow> run_error option \<Rightarrow> string + bool \<Rightarrow> (store_error + bool) \<Rightarrow> State \<Rightarrow> bool" where
  "grounded env a runErr alive asked StateSucceeded = (runErr = None)"
| "grounded env a runErr alive asked StateCancelled =
     (asked = Inr True \<and> runErr \<noteq> None \<and> alive = Inr False)"
| "grounded env a runErr alive asked StateRetryWait = (en_Classify env a runErr = OutcomeRetryable)"
| "grounded env a runErr alive asked StateFailed = (en_Classify env a runErr = OutcomeFailed)"
| "grounded env a runErr alive asked StateNeedsReconciliation = True"
| "grounded env a runErr alive asked _ = False"

fun settles_grounded :: "environment \<Rightarrow> Assignment \<Rightarrow> run_error option \<Rightarrow> string + bool \<Rightarrow> (store_error + bool)
    \<Rightarrow> command \<Rightarrow> bool" where
  "settles_grounded env a runErr alive asked (DoTransition now rnd req) =
     (tr_WorkID req = wi_id (as_Item a) \<and> tr_RunID req = as_RunID a \<and> tr_Generation req = as_Generation a
      \<and> grounded env a runErr alive asked (tr_To req))"
| "settles_grounded env a runErr alive asked _ = False"

text \<open>C15. A settlement is honest: on every script, the only commands \<open>settle\<close> issues are transitions of its own
  attempt, to succeeded only when the run returned no error, to cancelled only when a cancel was requested and the
  runtime answered that it is gone, to a retry or a failure only when the runtime classified the error so, and
  otherwise to reconciliation.\<close>

theorem settlement_is_grounded:
  "issues (settles_grounded env a runErr alive (fst (store_read (\<lambda>db. CancelRequested db (as_RunID a)) w)))
     w (settle env a locator runErr alive w)"
  by (rule issued.settle_path) (simp_all add: transition_of_def)

subsection \<open>Outcomes are not lost\<close>

text \<open>The open attempt of an assignment and its item.\<close>

definition held_by :: "work_db \<Rightarrow> Assignment \<Rightarrow> Item \<Rightarrow> Attempt \<Rightarrow> bool" where
  "held_by db a it b \<longleftrightarrow> item_row db (wi_id (as_Item a)) = Some it \<and> b \<in> set (work_attempts db)
     \<and> bound_row (wi_id (as_Item a)) (as_RunID a) (as_Generation a) b \<and> as_RunID a \<noteq> ''''"

lemma transition_of_sel [simp]:
  "tr_WorkID (transition_of a to why gone) = wi_id (as_Item a)" "tr_RunID (transition_of a to why gone) = as_RunID a"
  "tr_Generation (transition_of a to why gone) = as_Generation a" "tr_To (transition_of a to why gone) = to"
  "tr_Reason (transition_of a to why gone) = why" "tr_StoppedRunFailed (transition_of a to why gone) = gone"
  "tr_ExitEvidence (transition_of a to why gone) = ''''" "tr_CostUSD (transition_of a to why gone) = 0"
  by (simp_all add: transition_of_def)

lemma held_facts:
  assumes "good db" "held_by db a it b"
  shows "attempt_active (wi_state it)" "as_Generation a = wi_generation it" "as_Generation a \<noteq> 0"
    "attempt_row db (as_RunID a) = Some b" "wa_ended_at b = None" "wa_generation b = wi_generation it"
    "wa_work_id b = wi_id (as_Item a)" "wa_run_id b = as_RunID a"
proof -
  have h: "item_row db (wi_id (as_Item a)) = Some it" "b \<in> set (work_attempts db)"
      "bound_row (wi_id (as_Item a)) (as_RunID a) (as_Generation a) b"
    using assms(2) by (simp_all add: held_by_def)
  show act: "attempt_active (wi_state it)" and gen: "as_Generation a = wi_generation it"
    by (rule bound_facts [OF assms(1) h])+
  show "as_Generation a \<noteq> 0" using good_generation_pos [OF assms(1) h(1) act] gen by simp
  show "attempt_row db (as_RunID a) = Some b"
    using h(2,3) wf_attempt_row [OF good_wf [OF assms(1)]] by (simp add: bound_row_def)
  show "wa_ended_at b = None" "wa_generation b = wi_generation it" "wa_work_id b = wi_id (as_Item a)"
    "wa_run_id b = as_RunID a" using h(3) gen by (simp_all add: bound_row_def)
qed

lemma active_parks: "attempt_active s \<Longrightarrow> CanTransition s StateNeedsReconciliation"
  by (auto simp: attempt_active_def CanTransition_iff)

lemma reported_closes: "closes_attempt to \<Longrightarrow> closes_attempt (reported_state it to)"
  by (simp add: reported_state_def closes_attempt_def Terminal_def)

text \<open>What the fenced transition does for the attempt that holds the work.\<close>

lemma held_transition:
  assumes "good db" "held_by db a it b" "closes_attempt to" "valid_state to"
  shows "if CanTransition (wi_state it) to
     then \<exists>db' it' b'. Transition now rnd (transition_of a to why False) db = (Inr (), db')
        \<and> item_row db' (wi_id (as_Item a)) = Some it' \<and> wi_state it' = reported_state it to
        \<and> attempt_row db' (as_RunID a) = Some b' \<and> wa_ended_at b' \<noteq> None
     else Transition now rnd (transition_of a to why False) db = (Inl ErrIllegalTransition, db)"
proof -
  let ?req = "transition_of a to why False"
  note f = held_facts [OF assms(1,2)]
  have h: "item_row db (tr_WorkID ?req) = Some it" "b \<in> set (work_attempts db)"
      "bound_row (tr_WorkID ?req) (tr_RunID ?req) (tr_Generation ?req) b" "as_RunID a \<noteq> ''''"
    using assms(2) by (simp_all add: held_by_def)
  show ?thesis
  proof (cases "CanTransition (wi_state it) to")
    case True
    then have c: "CanTransition (wi_state it) (tr_To ?req)" "\<not> tr_StoppedRunFailed ?req" by simp_all
    obtain db' it' b' where "transitionTx now rnd ?req db = Inr ((), db')"
        "item_row db' (wi_id (as_Item a)) = Some it'" "wi_state it' = reported_state it to"
        "attempt_row db' (as_RunID a) = Some b'"
        "wa_ended_at b' = (if closes_attempt (reported_state it to) then Some now else None)"
      using transition_effect [OF assms(1) h(1-3) c, of now rnd] by auto
    then show ?thesis using True reported_closes [OF assms(3)] h(4) f(3) assms(4) by (auto simp: Transition_def)
  next
    case False
    have "verifyAttemptBindingTx db (wi_id (as_Item a)) (as_RunID a) (as_Generation a) (wi_generation it) = Inr ()"
      using binding_iff [OF good_wf [OF assms(1)]] f(2) h(2,3) by auto
    then show ?thesis
      using False h(1,4) f(3) assms(4) active_facts(1) [OF f(1)]
      by (simp add: Transition_def transitionTx_def getItemTx_def)
  qed
qed

text \<open>The call at the last point of a script.\<close>

lemma call_Transition_quiet:
  assumes "wd_script w = []"
  shows "call_Transition env req w =
     (case Transition (wd_now w) (en_rnd env) req (wd_db w) of (r, db) \<Rightarrow>
        (ledger_answer r, w\<lparr>wd_db := db, wd_own := wd_own w @ [DoTransition (wd_now w) (en_rnd env) req]\<rparr>))"
  using assms by (simp add: call_Transition_def store_call_def next_point_def reach_point_def Let_def split: prod.split)

lemma call_Transition_last:
  assumes "wd_script w = [p]"
  obtains w1 where "wd_script w1 = []"
    and "case sp_fault p of
        NoFault \<Rightarrow> call_Transition env req w =
          (ledger_answer (fst (Transition (sp_now p) (en_rnd env) req (run_commands (sp_others p) (wd_db w)))), w1)
      | LostBefore e \<Rightarrow> call_Transition env req w = (Inl (Storage e), w1)
      | LostAfter e \<Rightarrow> call_Transition env req w = (Inl (Storage e), w1)"
    and "wd_db w1 = (if \<exists>e. sp_fault p = LostBefore e then run_commands (sp_others p) (wd_db w)
        else snd (Transition (sp_now p) (en_rnd env) req (run_commands (sp_others p) (wd_db w))))"
proof (rule that [of "snd (call_Transition env req w)"])
  show "wd_script (snd (call_Transition env req w)) = []"
    using assms by (cases "sp_fault p")
      (auto simp: call_Transition_def store_call_def next_point_def reach_point_def Let_def split: prod.split)
qed (use assms in \<open>cases "sp_fault p"; auto simp: call_Transition_def store_call_def next_point_def reach_point_def Let_def
      split: prod.split\<close>)+

text \<open>The second write of \<open>finishWithRunProof\<close>: it parks work that is still held, and changes nothing once the first is recorded.\<close>

lemma second_write_parks:
  assumes "good (wd_db w)" and "held_by (wd_db w) a it b" and "wd_script w = []"
  shows "\<exists>it' b'. item_row (wd_db (snd (call_Transition env (transition_of a StateNeedsReconciliation why False) w))) (wi_id (as_Item a)) = Some it'
     \<and> attempt_row (wd_db (snd (call_Transition env (transition_of a StateNeedsReconciliation why False) w))) (as_RunID a) = Some b'
     \<and> wa_ended_at b' \<noteq> None \<and> wi_state it' = StateNeedsReconciliation"
  using held_transition [OF assms(1,2), of StateNeedsReconciliation "wd_now w" "en_rnd env" why]
    active_parks [OF held_facts(1) [OF assms(1,2)]]
  by (auto simp: closes_attempt_def valid_state_def allStates_def reported_state_def call_Transition_quiet [OF assms(3)])

lemma second_write_idle:
  assumes "db = run_commands cs empty_db" and "Transition now rnd req db = (Inr (), wd_db w)" and "wd_script w = []"
    and "attempt_row (wd_db w) (as_RunID a) = Some b" "wa_ended_at b \<noteq> None"
  shows "wd_db (snd (call_Transition env (transition_of a StateNeedsReconciliation why False) w)) = wd_db w"
proof -
  have "wd_db w = run_commands [DoTransition now rnd req] db" using assms(2) by (simp add: run_commands_def)
  then have over: "run_over (as_RunID a) (wd_db w)"
    using assms(1,4,5) by (auto simp: run_over_def) (metis run_commands_append)
  show ?thesis
    using run_over_refuses [OF over presents.intros(1) [of a "wd_now w" "en_rnd env" StateNeedsReconciliation why False]]
    by (auto simp: call_Transition_quiet [OF assms(3)] split: prod.split)
qed


subsection \<open>Started work\<close>

lemma marked_starting:
  assumes "good db" "MarkStarting x run gen loc db = (Inr (), db')"
  shows "\<exists>b. attempt_row db' run = Some b \<and> wa_runtime_phase b = runtimePhaseStarting
     \<and> wa_runtime_locator b = loc \<and> wa_ended_at b = None \<and> wa_work_id b = x"
proof -
  let ?P = "\<lambda>a. bound_row x run gen a \<and> wa_runtime_phase a = runtimePhasePlanned"
  have db': "count_where ?P (work_attempts db) = 1"
      "db' = upd_attempts ?P (\<lambda>a. a\<lparr>wa_runtime_locator := loc, wa_runtime_phase := runtimePhaseStarting\<rparr>) db"
    using assms(2) by (auto simp: MarkStarting_def markStartingTx_def in_tx_eq_Inr Let_def split: sum.splits if_splits)
  then obtain c where c: "c \<in> set (work_attempts db)" "?P c"
    using count_where_pos [of ?P "work_attempts db"] by auto
  have row: "attempt_row db run = Some c"
    using c wf_attempt_row [OF good_wf [OF assms(1)]] by (simp add: bound_row_def)
  show ?thesis using row c(2) by (auto simp: db'(2) attempt_row_upd bound_row_def)
qed

lemma schedule_reaches:
  "reaches w (snd (store_call (\<lambda>now. DoClaim now now newid opts) (\<lambda>now. Claim now now newid opts) w))"
  "reaches w (snd (store_read f w))"
  by (simp_all add: schedule.call [OF executes_calls(6)] store_read_world schedule.point)

lemma started_marks:
  assumes "start env a w = (Some locator, w1)"
  shows "locator = en_Locator env a
     \<and> MarkStarting (wi_id (as_Item a)) (as_RunID a) (as_Generation a) locator (wd_db (reach_point w)) = (Inr (), wd_db w1)"
  using assms
  by (auto simp: start_def store_call_def Let_def split: prod.splits sum.splits fault.splits)
    (metis Inl_Inr_False ledger_answer.simps(1) ledger_answer.simps(2) old.unit.exhaust sum.exhaust sum.inject(2))+

text \<open>The stages of a \<open>claimOne\<close> that claimed something, and of one that started it.\<close>

lemma claim_stage:
  assumes "claimOne env cfg paused entered newid authz dnow w = (r, Some (a, locator), w1)"
  obtains c w2 w3 where "a = assignment_of c"
    "store_call (\<lambda>now. DoClaim now now newid (claim_options cfg)) (\<lambda>now. Claim now now newid (claim_options cfg)) w = (Inr c, w2)"
    "cancelledBeforeStart env a w2 = (Inr False, w3)" "start env a w3 = (Some locator, w1)"
  using assms
  by (auto simp: claimOne_def authorize_and_start_def Let_def
      split: if_splits prod.splits sum.splits bool.splits option.splits decisionKind.splits)

lemma store_call_Inr:
  assumes "store_call c f w = (Inr x, w1)"
  shows "f (sp_now (next_point w)) (wd_db (reach_point w)) = (Inr x, wd_db w1)"
proof -
  obtain r db where e: "f (sp_now (next_point w)) (wd_db (reach_point w)) = (r, db)" by fastforce
  then show ?thesis using assms
    by (cases r) (auto simp: store_call_def Let_def split: fault.splits)
qed

lemma started_run:
  assumes "wd_db w = run_commands cs empty_db"
    and "claimOne env cfg paused entered newid authz dnow w = (r, Some (a, locator), w1)"
  obtains cs1 b where "wd_db w1 = run_commands cs1 empty_db" "attempt_row (wd_db w1) (as_RunID a) = Some b"
    "wa_runtime_phase b = runtimePhaseStarting" "wa_runtime_locator b = locator" "wa_ended_at b = None"
    "wa_work_id b = wi_id (as_Item a)" "locator = en_Locator env a"
proof -
  obtain c w2 w3 where st: "a = assignment_of c"
      "store_call (\<lambda>now. DoClaim now now newid (claim_options cfg)) (\<lambda>now. Claim now now newid (claim_options cfg)) w = (Inr c, w2)"
      "cancelledBeforeStart env a w2 = (Inr False, w3)" "start env a w3 = (Some locator, w1)"
    by (rule claim_stage [OF assms(2)])
  have 1: "reaches w w2" using schedule_reaches(1) [of w newid "claim_options cfg"] st(2) by simp
  have "w3 = snd (store_read (\<lambda>db. CancelRequested db (as_RunID a)) w2)"
    using st(3) by (auto simp: cancelledBeforeStart_def split: prod.splits sum.splits bool.splits)
  then have "reaches w2 w3" using schedule_reaches(2) by simp
  then have "reaches w (reach_point w3)" using 1 schedule.trans schedule.point by blast
  then obtain ds where ds: "wd_db (reach_point w3) = run_commands (cs @ ds) empty_db"
    using assms(1) by (auto simp: reaches_def run_commands_append)
  note m = started_marks [OF st(4)]
  have ok: "good (wd_db (reach_point w3))" using reachable_good ds by simp
  obtain b where b: "attempt_row (wd_db w1) (as_RunID a) = Some b" "wa_runtime_phase b = runtimePhaseStarting"
      "wa_runtime_locator b = locator" "wa_ended_at b = None" "wa_work_id b = wi_id (as_Item a)"
    using marked_starting [OF ok conjunct2 [OF m]] by auto
  have "wd_db w1 = run_commands [DoMarkStarting (wi_id (as_Item a)) (as_RunID a) (as_Generation a) locator]
      (wd_db (reach_point w3))"
    using conjunct2 [OF m] by (simp add: run_commands_def)
  then have "wd_db w1 = run_commands ((cs @ ds) @ [DoMarkStarting (wi_id (as_Item a)) (as_RunID a) (as_Generation a) locator]) empty_db"
    using ds by (simp only: run_commands_append)
  then show thesis using that b m by blast
qed

text \<open>C13. Work whose runtime was started never returns to the queue by a recovery or a deferral: after \<open>claimOne\<close> has
  handed an attempt to a supervisor, on every later ledger an expired lease of that run parks the work for
  reconciliation, and a deferral of the run is refused; so a restart cannot start a second runtime for it.\<close>

theorem started_work_never_requeued:
  assumes "wd_db w = run_commands cs empty_db"
    and "claimOne env cfg paused entered newid authz dnow w = (r, Some (a, locator), w1)"
    and "db = run_commands later_cs (wd_db w1)"
    and "b \<in> set (work_attempts db)" "wa_run_id b = as_RunID a" "expired_lease now db b"
  shows "map_option wi_state (item_row (snd (RecoverExpiredLeases now db)) (wi_id (as_Item a))) = Some StateNeedsReconciliation
     \<and> isl (fst (Defer now (wi_id (as_Item a)) (as_RunID a) gen until why db))"
proof -
  obtain cs1 b1 where cs1: "wd_db w1 = run_commands cs1 empty_db" and b1: "attempt_row (wd_db w1) (as_RunID a) = Some b1"
      "wa_runtime_phase b1 = runtimePhaseStarting" "wa_work_id b1 = wi_id (as_Item a)"
    by (rule started_run [OF assms(1,2)])
  have ok: "good db" using reachable_good cs1 assms(3) by (metis run_commands_append)
  have row: "attempt_row db (as_RunID a) = Some b" using wf_attempt_row [OF good_wf [OF ok]] assms(4,5) by simp
  obtain b' where "attempt_row db (as_RunID a) = Some b'" "attempt_later b1 b'" "outcome_ok b1"
    by (rule reachable_row_later [OF cs1 assms(3) b1(1)])
  then have b: "phase_rank (wa_runtime_phase b) \<ge> 1" "wa_work_id b = wi_id (as_Item a)"
    using row b1(2,3) by (auto simp: attempt_later_def attempt_kept_def)
  then have phase: "wa_runtime_phase b \<noteq> runtimePhasePlanned" by auto
  let ?es = "filter (expired_lease now db) (work_attempts db)"
  have "distinct (map wa_work_id ?es)" using ok by (rule open_attempts_distinct) (simp add: expired_lease_def)
  then obtain db' where loop: "recover_loop now ?es \<lparr>ro_Requeued = [], ro_Reconciliation = []\<rparr> db
        = Inr (recovery_report ?es \<lparr>ro_Requeued = [], ro_Reconciliation = []\<rparr>, db')"
      and settled: "\<forall>e \<in> set ?es. map_option wi_state (item_row db' (wa_work_id e)) = Some (recovered_state e)"
    using recover_loop_spec [OF ok, of ?es now] by (fastforce simp: expired_lease_def)
  have "map_option wi_state (item_row db' (wi_id (as_Item a))) = Some StateNeedsReconciliation"
    using settled assms(4,6) b(2) phase by (auto simp: recovered_state_def)
  moreover have "snd (RecoverExpiredLeases now db) = db'" using loop by (simp add: RecoverExpiredLeases_def)
  moreover have "find (\<lambda>x. bound_row v (as_RunID a) gen x \<and> wa_runtime_phase x = runtimePhasePlanned) (work_attempts db) = None" for v
    unfolding find_None_iff
    using wf_attempt_row [OF good_wf [OF ok], of "as_RunID a"] row phase unfolding bound_row_def
    by (metis option.inject)
  then have "isl (fst (Defer now (wi_id (as_Item a)) (as_RunID a) gen until why db))"
    by (auto simp: Defer_def deferTx_def in_tx_def Let_def split: sum.split)
  ultimately show ?thesis by simp
qed

text \<open>The dispatcher starts only what it declared it can run: the work of every attempt handed to a supervisor is of
  one of the configured kinds, and its recorded locator is the one the runtime derives from the assignment.\<close>

theorem starts_only_declared_kinds:
  assumes "wd_db w = run_commands cs empty_db"
    and "claimOne env cfg paused entered newid authz dnow w = (r, Some (a, locator), w1)" and "cf_Kinds cfg \<noteq> []"
  shows "list_ex (\<lambda>k. wi_source (as_Item a) = k_Source k \<and> wi_domain_kind (as_Item a) = k_DomainKind k) (cf_Kinds cfg)
     \<and> locator = en_Locator env a
     \<and> (case attempt_row (wd_db w1) (as_RunID a) of None \<Rightarrow> False | Some b \<Rightarrow> wa_runtime_locator b = locator)"
proof -
  obtain c w2 w3 where st: "a = assignment_of c"
      "store_call (\<lambda>now. DoClaim now now newid (claim_options cfg)) (\<lambda>now. Claim now now newid (claim_options cfg)) w = (Inr c, w2)"
    by (rule claim_stage [OF assms(2)])
  let ?now = "sp_now (next_point w)" and ?db = "wd_db (reach_point w)" and ?o = "claim_options cfg"
  have ok: "good ?db" using reachable_good assms(1) by (metis reach_point_db run_commands_append)
  obtain it classes where it: "find (\<lambda>x. wi_attempts x < MaxAttempts)
       (scanCandidatesTx (effective ?o) classes ?now (expireOverdueTx ?now ?db)) = Some it"
      "starts (co_Limits (effective ?o)) (countLiveTx (expireOverdueTx ?now ?db)) newid ?now it c
       (expireOverdueTx ?now ?db) (wd_db w2)"
    by (rule Claim_started [OF ok store_call_Inr [OF st(2)]])
  have "it \<in> set (scanCandidatesTx (effective ?o) classes ?now (expireOverdueTx ?now ?db))"
    using it(1) by (auto simp: find_Some_iff)
  then have "candidate (expireOverdueTx ?now ?db) (effective ?o) classes ?now it"
    by (auto simp: scanCandidatesTx_def dest: in_set_takeD)
  moreover have "co_Kinds (effective ?o) = cf_Kinds cfg" by (simp add: effective_def claim_options_def)
  ultimately have "list_ex (\<lambda>k. wi_source it = k_Source k \<and> wi_domain_kind it = k_DomainKind k) (cf_Kinds cfg)"
    using assms(3) by (simp add: candidate_def)
  moreover have "wi_source (as_Item a) = wi_source it" "wi_domain_kind (as_Item a) = wi_domain_kind it"
    using it(2) by (auto simp: starts_def claimed_as_def st(1) assignment_of_def)
  moreover obtain b where "attempt_row (wd_db w1) (as_RunID a) = Some b" "wa_runtime_locator b = locator"
      "locator = en_Locator env a"
    by (rule started_run [OF assms(1,2)])
  ultimately show ?thesis by simp
qed

subsection \<open>A retained capture completes the work\<close>

text \<open>The row a park leaves behind.\<close>

lemma parked_rows:
  assumes "good db" "held_by db a it b"
  shows "\<exists>db' it'. Transition now rnd (transition_of a StateNeedsReconciliation why False) db = (Inr (), db')
     \<and> item_row db' (wi_id (as_Item a)) = Some it' \<and> wi_state it' = StateNeedsReconciliation
     \<and> wi_generation it' = wi_generation it \<and> wi_source it' = wi_source it \<and> wi_domain_kind it' = wi_domain_kind it
     \<and> attempt_row db' (as_RunID a) = Some (b\<lparr>wa_ended_at := Some now, wa_end_reason := why,
         wa_exit_evidence := '''', wa_cost_usd := 0, wa_run_status := ''''\<rparr>)"
proof -
  let ?req = "transition_of a StateNeedsReconciliation why False"
  note f = held_facts [OF assms]
  obtain db' it' where t: "Transition now rnd ?req db = (Inr (), db')" "item_row db' (wi_id (as_Item a)) = Some it'"
      "wi_state it' = StateNeedsReconciliation"
    using held_transition [OF assms, of StateNeedsReconciliation now rnd why] active_parks [OF f(1)]
    by (auto simp: closes_attempt_def valid_state_def allStates_def reported_state_def)
  then have "transitionTx now rnd ?req db = Inr ((), db')"
    by (auto simp: Transition_def in_tx_eq_Inr split: if_splits)
  then have db': "db' = upd_attempts (bound_row (wi_id (as_Item a)) (as_RunID a) (as_Generation a))
      (\<lambda>r. r\<lparr>wa_ended_at := Some now, wa_end_reason := why, wa_exit_evidence := '''', wa_cost_usd := 0,
             wa_run_status := ''''\<rparr>)
      (setStateTx it StateNeedsReconciliation (as_RunID a) (wi_generation it) why now db)"
    using assms(2) by (auto simp: transitionTx_def getItemTx_def held_by_def Let_def closes_attempt_def split: sum.splits if_splits)
  have "bound_row (wi_id (as_Item a)) (as_RunID a) (as_Generation a) b" using assms(2) by (simp add: held_by_def)
  then have "attempt_row db' (as_RunID a) = Some (b\<lparr>wa_ended_at := Some now, wa_end_reason := why,
         wa_exit_evidence := '''', wa_cost_usd := 0, wa_run_status := ''''\<rparr>)"
    using f(4) by (simp add: db' attempt_row_upd setStateTx_attempt_row)
  moreover have "wi_generation it' = wi_generation it \<and> wi_source it' = wi_source it \<and> wi_domain_kind it' = wi_domain_kind it"
    using t(2) assms(2) by (auto simp: db' held_by_def item_row_setState row_simps)
  ultimately show ?thesis using t by blast
qed

text \<open>C17. A retained outcome is completed by its capture: when the runtime hands the observation of a live attempt to the
  protected capture, the settlement parks the work with the very reason the recovery of captures accepts, and a
  later \<open>RecoverRetainedResult\<close> with the observed exit settles it: success completes the work, a failed chat turn
  fails it, and other failed work stays in reconciliation.\<close>

theorem retained_outcome_is_completed:
  assumes "wd_db w = run_commands cs empty_db" "wd_script w = []" "held_by (wd_db w) a it b"
    and "en_Classify env a (Some err) = OutcomeRetained" "\<not> re_unstored err"
    and "wa_cancel_requested_at b = None" "wa_runtime_phase b \<noteq> runtimePhasePlanned"
    and "wa_runtime_locator b = ''agent-run:'' @ as_RunID a" "wa_run_result b = None"
    and "rr_ExitCode result = Some n" "ok \<longrightarrow> n = 0" "sz result = Some k" "k \<le> result_limit"
  shows "\<exists>db' it'. RecoverRetainedResult sz now (as_RunID a) result ok
        (wd_db (settle env a locator (Some err) alive w)) = (Inr True, db')
     \<and> item_row db' (wi_id (as_Item a)) = Some it'
     \<and> wi_state it' = (if ok then StateSucceeded
          else if wi_source it = SourceChat \<and> wi_domain_kind it = ''host_chat_turn'' then StateFailed
          else StateNeedsReconciliation)"
proof -
  let ?db = "wd_db (settle env a locator (Some err) alive w)"
  have ok: "good (wd_db w)" using reachable_good assms(1) by simp
  note f = held_facts [OF ok assms(3)]
  obtain db1 it1 where db1: "Transition (wd_now w) (en_rnd env)
        (transition_of a StateNeedsReconciliation RetainedCapturePendingReason False) (wd_db w) = (Inr (), db1)"
      "item_row db1 (wi_id (as_Item a)) = Some it1" "wi_state it1 = StateNeedsReconciliation"
      "wi_generation it1 = wi_generation it" "wi_source it1 = wi_source it" "wi_domain_kind it1 = wi_domain_kind it"
      "attempt_row db1 (as_RunID a) = Some (b\<lparr>wa_ended_at := Some (wd_now w), wa_end_reason := RetainedCapturePendingReason,
         wa_exit_evidence := '''', wa_cost_usd := 0, wa_run_status := ''''\<rparr>)"
    using parked_rows [OF ok assms(3)] by blast
  have read: "store_read (\<lambda>db. CancelRequested db (as_RunID a)) w = (Inr False, reach_point w)"
    using assms(2,6) f(4) by (simp add: store_read_def next_point_def reach_point_def CancelRequested_def Let_def)
  have quiet: "wd_script (reach_point w) = []" "wd_db (reach_point w) = wd_db w" "wd_now (reach_point w) = wd_now w"
    using assms(2) by (simp_all add: reach_point_def next_point_def)
  have db: "?db = db1"
    using db1(1) assms(4,5)
    by (simp add: settle_def read settle_failure_def park_def finish_def finishWithRunProof_def
        call_Transition_quiet [OF quiet(1)] quiet)
  have "db1 = run_commands [DoTransition (wd_now w) (en_rnd env)
        (transition_of a StateNeedsReconciliation RetainedCapturePendingReason False)] (wd_db w)"
    using db1(1) by (simp add: run_commands_def)
  then have ok1: "good db1" using reachable_good assms(1) by (metis run_commands_append)
  define c where "c = b\<lparr>wa_ended_at := Some (wd_now w), wa_end_reason := RetainedCapturePendingReason,
         wa_exit_evidence := '''', wa_cost_usd := 0, wa_run_status := ''''\<rparr>"
  have c: "attempt_row db1 (as_RunID a) = Some c" "wa_work_id c = wi_id (as_Item a)"
    using db1(7) f(7) by (simp_all add: c_def)
  have "retained_settles c it1 result"
    using db1(3,4) f(6,8) assms(7-9)
    by (simp add: retained_settles_def c_def parked_reason_def RetainedCapturePendingReason_def)
  then obtain db' d it' where rec: "recoverRetainedTx now (as_RunID a) result ok db1 = Inr (True, db')"
      "item_row db' (wi_id (as_Item a)) = Some it'"
      "wi_state it' = (if ok then StateSucceeded
          else if wi_source it1 = SourceChat \<and> wi_domain_kind it1 = ''host_chat_turn'' then StateFailed
          else StateNeedsReconciliation)"
    using recover_tx [OF ok1 c(1), of it1 result now ok] db1(2) c(2) by auto
  have "RecoverRetainedResult sz now (as_RunID a) result ok db1 = (Inr True, db')"
    using rec(1) assms(3,10-13) by (auto simp: RecoverRetainedResult_def held_by_def)
  then show ?thesis using rec(2,3) db1(5,6) by (auto simp: db)
qed

subsection \<open>A demonstration\<close>

definition demo_env :: environment where
  "demo_env = \<lparr>en_Locator = (\<lambda>a. ''agent-run:'' @ as_RunID a), en_Classify = (\<lambda>a e. OutcomeRetained),
     en_text = (\<lambda>e. ''store error''), en_rnd = (\<lambda>n. 0)\<rparr>"

definition demo_config :: Config where
  "demo_config = withDefaults \<lparr>cf_Owner = '''', cf_Limits = ZeroLimits, cf_PollInterval = 0, cf_HeartbeatInterval = 0,
     cf_CancelPollInterval = 0, cf_StopGrace = 0, cf_Kinds = [\<lparr>k_Source = SourceManual, k_DomainKind = ''agent_run''\<rparr>],
     cf_ConfirmPollInterval = 0, cf_RecoveryInterval = 0\<rparr>"

definition demo_world :: "command list \<Rightarrow> store_point list \<Rightarrow> world" where
  "demo_world cs ps = \<lparr>wd_db = run_commands cs empty_db, wd_now = 2, wd_script = ps, wd_own = []\<rparr>"

lemma demo_world_sel [simp]:
  "wd_db (demo_world cs ps) = run_commands cs empty_db" "wd_script (demo_world cs ps) = ps"
  by (simp_all add: demo_world_def)

definition demo_accepted :: "command list" where
  "demo_accepted = [DoAccept 0 ''w1'' demo_request]"

text \<open>The assignment of run \<open>r1\<close> for the first item.\<close>

definition demo_assignment :: "work_db \<Rightarrow> Assignment" where
  "demo_assignment db = \<lparr>as_Item = hd (work_items db), as_RunID = ''r1'', as_Attempt = 1, as_Generation = 1\<rparr>"

lemma demo_started:
  obtains r a locator w1 where
    "claimOne demo_env demo_config False True ''r1'' None 2 (demo_world demo_accepted []) = (r, Some (a, locator), w1)"
    "as_RunID a = ''r1''" "wi_id (as_Item a) = ''w1''"
    "list_ex (\<lambda>b. wa_run_id b = ''r1'' \<and> expired_lease (3 * LeaseDuration) (wd_db w1) b) (work_attempts (wd_db w1))"
proof -
  have "case claimOne demo_env demo_config False True ''r1'' None 2 (demo_world demo_accepted []) of
      (r, None, w1) \<Rightarrow> False
    | (r, Some (a, locator), w1) \<Rightarrow> as_RunID a = ''r1'' \<and> wi_id (as_Item a) = ''w1''
        \<and> list_ex (\<lambda>b. wa_run_id b = ''r1'' \<and> expired_lease (3 * LeaseDuration) (wd_db w1) b) (work_attempts (wd_db w1))"
    by code_simp
  then show thesis using that by (auto split: prod.splits option.splits)
qed

lemma started_work_never_requeued_witness:
  "\<exists>r a locator w1. claimOne demo_env demo_config False True ''r1'' None 2 (demo_world demo_accepted []) = (r, Some (a, locator), w1)
     \<and> map_option wi_state (item_row (snd (RecoverExpiredLeases (3 * LeaseDuration) (wd_db w1))) ''w1'')
         = Some StateNeedsReconciliation"
proof -
  obtain r a locator w1 where c: "claimOne demo_env demo_config False True ''r1'' None 2 (demo_world demo_accepted [])
        = (r, Some (a, locator), w1)" "as_RunID a = ''r1''" "wi_id (as_Item a) = ''w1''"
      "list_ex (\<lambda>b. wa_run_id b = ''r1'' \<and> expired_lease (3 * LeaseDuration) (wd_db w1) b) (work_attempts (wd_db w1))"
    by (rule demo_started)
  then obtain b where b: "b \<in> set (work_attempts (wd_db w1))" "wa_run_id b = as_RunID a"
      "expired_lease (3 * LeaseDuration) (wd_db w1) b" by (auto simp: list_ex_iff)
  have "wd_db w1 = run_commands [] (wd_db w1)" by simp
  from started_work_never_requeued [OF demo_world_sel(1) c(1) this b] c(1,3) show ?thesis by auto
qed

lemma starts_only_declared_kinds_witness:
  "\<exists>r a locator w1. claimOne demo_env demo_config False True ''r1'' None 2 (demo_world demo_accepted []) = (r, Some (a, locator), w1)
     \<and> wi_source (as_Item a) = SourceManual \<and> locator = ''agent-run:r1''"
proof -
  obtain r a locator w1 where c: "claimOne demo_env demo_config False True ''r1'' None 2 (demo_world demo_accepted [])
        = (r, Some (a, locator), w1)" "as_RunID a = ''r1''"
    by (rule demo_started)
  have "cf_Kinds demo_config \<noteq> []" by (simp add: demo_config_def withDefaults_def)
  from starts_only_declared_kinds [OF demo_world_sel(1) c(1) this] c show ?thesis
    by (auto simp: demo_config_def withDefaults_def demo_env_def)
qed

lemma finished_supervisor_changes_nothing_witness:
  "left_to_others (demo_world demo_done [\<lparr>sp_others = [DoAccept 5 ''w3'' demo_request], sp_now = 5, sp_fault = NoFault\<rparr>])
     (snd (supervise_all demo_env [Beat, TakeSuperseded]
        (new_supervisor (demo_assignment (run_commands demo_done empty_db)) ''agent-run:r1'',
         demo_world demo_done [\<lparr>sp_others = [DoAccept 5 ''w3'' demo_request], sp_now = 5, sp_fault = NoFault\<rparr>])))"
proof -
  let ?sv = "new_supervisor (demo_assignment (run_commands demo_done empty_db)) ''agent-run:r1''"
  have run: "as_RunID (sv_assignment ?sv) = ''r1''" by (simp add: new_supervisor_def demo_assignment_def)
  have "case attempt_row (run_commands demo_done empty_db) ''r1'' of
      None \<Rightarrow> False | Some a \<Rightarrow> wa_ended_at a \<noteq> None" by code_simp
  then obtain a where "attempt_row (run_commands demo_done empty_db) ''r1'' = Some a" "wa_ended_at a \<noteq> None"
    by (auto split: option.splits)
  then show ?thesis
    by (intro finished_supervisor_changes_nothing [OF demo_world_sel(1), of _ _ _ a]) (simp_all add: run)
qed

text \<open>The claimed item, held by its open attempt.\<close>

lemma demo_held:
  assumes "case item_row db ''w1'' of None \<Rightarrow> False | Some it \<Rightarrow>
      (case attempt_row db ''r1'' of None \<Rightarrow> False | Some b \<Rightarrow>
        bound_row ''w1'' ''r1'' 1 b \<and> wi_id (hd (work_items db)) = ''w1'' \<and> P it b)"
  obtains it b where "held_by db (demo_assignment db) it b" "P it b"
  using assms attempt_row_Some [of db "''r1''"]
  by (auto simp: held_by_def demo_assignment_def split: option.splits)


definition demo_marked :: "command list" where
  "demo_marked = demo_claimed @ [DoMarkStarting ''w1'' ''r1'' 1 ''agent-run:r1'']"

lemma retained_outcome_is_completed_witness:
  "\<exists>db' it'. RecoverRetainedResult (\<lambda>r. Some 10) 9 ''r1'' (demo_result (Some 0)) True
        (wd_db (settle demo_env (demo_assignment (run_commands demo_marked empty_db)) ''agent-run:r1''
           (Some \<lparr>re_text = ''retained'', re_unstored = False\<rparr>) (Inr True) (demo_world demo_marked []))) = (Inr True, db')
     \<and> item_row db' ''w1'' = Some it' \<and> wi_state it' = StateSucceeded"
proof -
  let ?db = "run_commands demo_marked empty_db" and ?a = "demo_assignment (run_commands demo_marked empty_db)"
  let ?P = "\<lambda>(it::Item) b. wa_cancel_requested_at b = None \<and> wa_runtime_phase b \<noteq> runtimePhasePlanned
      \<and> wa_runtime_locator b = ''agent-run:r1'' \<and> wa_run_result b = None"
  have "case item_row ?db ''w1'' of None \<Rightarrow> False | Some it \<Rightarrow>
      (case attempt_row ?db ''r1'' of None \<Rightarrow> False | Some b \<Rightarrow>
        bound_row ''w1'' ''r1'' 1 b \<and> wi_id (hd (work_items ?db)) = ''w1'' \<and> ?P it b)" by code_simp
  then obtain it b where h: "held_by ?db ?a it b" "?P it b" by (rule demo_held)
  have id: "wi_id (as_Item ?a) = ''w1''" "as_RunID ?a = ''r1''" by (code_simp, simp add: demo_assignment_def)
  from h have h1: "held_by (wd_db (demo_world demo_marked [])) ?a it b" by simp
  show ?thesis
    using retained_outcome_is_completed [OF demo_world_sel(1,2) h1, of demo_env "\<lparr>re_text = ''retained'', re_unstored = False\<rparr>"
        "demo_result (Some 0)" 0 True "\<lambda>r. Some 10" 10 9 "''agent-run:r1''" "Inr True"] h(2)
    by (auto simp: id demo_env_def demo_result_def result_limit_def)
qed

end
