(* ===== verification/Routine_Graph.thy ===== *)
theory Routine_Graph
  imports Ledger_Prelude "HOL-Library.List_Lexorder" "HOL-Library.Char_ord"
begin

text \<open>
  The step graph of a routine (\<^verbatim>\<open>internal/pipeline/dag.go\<close>): which scheduler a definition selects, the
  dependencies derived from the references in the step bodies, and the check that a graph of \<open>needs\<close>
  can be scheduled.  Of a step the record keeps the fields the schedulers read; the bodies of the
  step kinds are read by the step runner only, which is an argument of the schedulers.
\<close>

subsection \<open>Definitions of routines\<close>

datatype StepType = StepAgentRun | StepCallPipeline | StepHTTP | StepCode | StepWait | StepTransform
  | StepNotify | StepScript | StepQuery | StepForeach | StepCrewship | StepOther string

primrec StepType_text :: "StepType \<Rightarrow> string" where
  "StepType_text StepAgentRun = ''agent_run''"
| "StepType_text StepCallPipeline = ''call_pipeline''"
| "StepType_text StepHTTP = ''http''"
| "StepType_text StepCode = ''code''"
| "StepType_text StepWait = ''wait''"
| "StepType_text StepTransform = ''transform''"
| "StepType_text StepNotify = ''notify''"
| "StepType_text StepScript = ''script''"
| "StepType_text StepQuery = ''query''"
| "StepType_text StepForeach = ''foreach''"
| "StepType_text StepCrewship = ''crewship''"
| "StepType_text (StepOther s) = s"

record Step =
  st_ID :: string
  st_Type :: StepType
  st_Complexity :: string
  st_ModelOverride :: string
  st_If :: string
  st_Needs :: "string list"
  st_Raw :: string

record 'c DSL =
  ds_Name :: string
  ds_Parallelism :: string
  ds_MaxCostUSD :: 'c
  ds_Agentless :: bool
  ds_Steps :: "Step list"

definition ParallelismExplicit :: string where "ParallelismExplicit = ''explicit''"
definition ParallelismAuto :: string where "ParallelismAuto = ''auto''"
definition ParallelismOff :: string where "ParallelismOff = ''off''"

definition parallelismMode :: "'c DSL \<Rightarrow> string" where
  "parallelismMode d =
     (if ds_Parallelism d = ParallelismAuto then ParallelismAuto
      else if ds_Parallelism d = ParallelismOff then ParallelismOff
      else ParallelismExplicit)"

definition hasCallPipeline :: "'c DSL \<Rightarrow> bool" where
  "hasCallPipeline d \<longleftrightarrow> (\<exists>s\<in>set (ds_Steps d). st_Type s = StepCallPipeline)"

definition hasNeeds :: "'c DSL \<Rightarrow> bool" where
  "hasNeeds d \<longleftrightarrow> (\<exists>s\<in>set (ds_Steps d). 0 < length (st_Needs s))"

definition step_ids :: "'c DSL \<Rightarrow> string list" where
  "step_ids d = map st_ID (ds_Steps d)"

subsection \<open>Dependencies from the data flow\<close>

text \<open>
  The matches of the expression \<^verbatim>\<open>steps\.([a-zA-Z0-9_-]+)\<close> from left to right, without overlaps: each is the
  longest run of identifier characters behind \<^verbatim>\<open>steps.\<close>, and a position with no such character behind
  it is no match.
\<close>

definition ref_char :: "char \<Rightarrow> bool" where
  "ref_char c \<longleftrightarrow> (let n = (of_char c :: nat)
     in 97 \<le> n \<and> n \<le> 122 \<or> 65 \<le> n \<and> n \<le> 90 \<or> 48 \<le> n \<and> n \<le> 57 \<or> n = 95 \<or> n = 45)"

function stepRefs :: "string \<Rightarrow> string list" where
  "stepRefs [] = []"
| "stepRefs (c # cs) =
     (if take 6 (c # cs) = ''steps.'' then
        let body = drop 6 (c # cs); ref = takeWhile ref_char body
        in if ref = [] then stepRefs cs else ref # stepRefs (dropWhile ref_char body)
      else stepRefs cs)"
  by pat_completeness auto
termination
proof (relation "measure length")
  fix c :: char and cs body ref
  assume b: "body = drop 6 (c # cs)"
  have "length (dropWhile ref_char body) \<le> length body" by (rule length_dropWhile_le)
  also have "\<dots> < length (c # cs)" by (simp add: b)
  finally show "(dropWhile ref_char body, c # cs) \<in> measure length" by simp
qed simp_all

fun auto_refs :: "string list \<Rightarrow> string \<Rightarrow> string list \<Rightarrow> string list \<Rightarrow> string list" where
  "auto_refs known self seen [] = []"
| "auto_refs known self seen (ref # refs) =
     (if ref = self \<or> ref \<notin> set known \<or> ref \<in> set seen then auto_refs known self seen refs
      else ref # auto_refs known self (ref # seen) refs)"

definition auto_step :: "string list \<Rightarrow> Step \<Rightarrow> Step" where
  "auto_step known s =
     (if 0 < length (st_Needs s) then s
      else s\<lparr>st_Needs := sort (auto_refs known (st_ID s) [] (stepRefs (st_Raw s)))\<rparr>)"

definition deriveAutoNeeds :: "'c DSL \<Rightarrow> 'c DSL" where
  "deriveAutoNeeds d = d\<lparr>ds_Steps := map (auto_step (step_ids d)) (ds_Steps d)\<rparr>"

subsection \<open>The check of a graph\<close>

datatype dag_error = SelfNeed string | UnknownNeed string string | NeedCycle

definition dag_error_text :: "dag_error \<Rightarrow> string" where
  "dag_error_text e = (case e of
     SelfNeed s \<Rightarrow> ''step '' @ go_quote s @ '' depends on itself''
   | UnknownNeed s dep \<Rightarrow> ''step '' @ go_quote s @ '' needs unknown step '' @ go_quote dep
   | NeedCycle \<Rightarrow> ''pipeline DAG has a cycle'')"

fun check_needs :: "string list \<Rightarrow> string \<Rightarrow> string list \<Rightarrow> dag_error option" where
  "check_needs known self [] = None"
| "check_needs known self (dep # deps) =
     (if dep = self then Some (SelfNeed self)
      else if dep \<notin> set known then Some (UnknownNeed self dep)
      else check_needs known self deps)"

fun check_steps :: "string list \<Rightarrow> Step list \<Rightarrow> dag_error option" where
  "check_steps known [] = None"
| "check_steps known (s # ss) =
     (case check_needs known (st_ID s) (st_Needs s) of
        Some e \<Rightarrow> Some e
      | None \<Rightarrow> check_steps known ss)"

text \<open>
  The counters of Kahn's algorithm.  \<^verbatim>\<open>children\<close> is kept as the list of its pairs in the order they are
  appended, so \<open>children_of\<close> reads the slice of one parent.
\<close>

primrec indegrees :: "Step list \<Rightarrow> (string \<Rightarrow> int) \<Rightarrow> string \<Rightarrow> int" where
  "indegrees [] deg = deg"
| "indegrees (s # ss) deg = indegrees ss (deg(st_ID s := int (length (st_Needs s))))"

definition need_edges :: "Step list \<Rightarrow> (string \<times> string) list" where
  "need_edges ss = concat (map (\<lambda>s. map (\<lambda>dep. (dep, st_ID s)) (st_Needs s)) ss)"

definition children_of :: "(string \<times> string) list \<Rightarrow> string \<Rightarrow> string list" where
  "children_of edges x = map snd (filter (\<lambda>e. fst e = x) edges)"

primrec relax :: "(string \<Rightarrow> int) \<Rightarrow> string list \<Rightarrow> (string \<Rightarrow> int) \<times> string list" where
  "relax deg [] = (deg, [])"
| "relax deg (c # cs) =
     (let deg = deg(c := deg c - 1); (deg', fresh) = relax deg cs
      in (deg', if deg c = 0 then c # fresh else fresh))"

text \<open>Every identifier queued behind the start has its counter fall from one to zero, so the queue runs dry.\<close>

definition degree_left :: "(string \<times> string) list \<Rightarrow> (string \<Rightarrow> int) \<Rightarrow> nat" where
  "degree_left edges deg = (\<Sum>x\<in>snd ` set edges. nat (deg x))"

lemma relax_shrinks:
  assumes "set cs \<subseteq> snd ` set edges"
  shows "length (snd (relax deg cs)) + degree_left edges (fst (relax deg cs)) \<le> degree_left edges deg"
  using assms
proof (induction cs arbitrary: deg)
  case (Cons c cs)
  let ?deg = "deg(c := deg c - 1)" and ?A = "snd ` set edges"
  have c: "c \<in> ?A" and fin: "finite ?A" using Cons.prems by auto
  have "degree_left edges ?deg = nat (deg c - 1) + (\<Sum>x\<in>?A - {c}. nat (deg x))"
    unfolding degree_left_def by (subst sum.remove [OF fin c]) simp
  moreover have "degree_left edges deg = nat (deg c) + (\<Sum>x\<in>?A - {c}. nat (deg x))"
    unfolding degree_left_def by (rule sum.remove [OF fin c])
  ultimately have "degree_left edges ?deg + (if deg c = 1 then 1 else 0) \<le> degree_left edges deg" by auto
  moreover have "length (snd (relax ?deg cs)) + degree_left edges (fst (relax ?deg cs)) \<le> degree_left edges ?deg"
    using Cons by auto
  ultimately show ?case by (auto simp: Let_def split: prod.splits if_splits)
qed simp

lemma children_known: "set (children_of edges x) \<subseteq> snd ` set edges"
  by (auto simp: children_of_def)

function kahn :: "(string \<times> string) list \<Rightarrow> (string \<Rightarrow> int) \<Rightarrow> string list \<Rightarrow> nat \<Rightarrow> nat" where
  "kahn edges deg [] processed = processed"
| "kahn edges deg (x # queue) processed =
     (let (deg', fresh) = relax deg (children_of edges x)
      in kahn edges deg' (queue @ fresh) (Suc processed))"
  by pat_completeness auto
termination
proof (relation "measure (\<lambda>(edges, deg, queue, processed). length queue + degree_left edges deg)")
  fix edges :: "(string \<times> string) list" and deg deg' :: "string \<Rightarrow> int" and x queue processed r fresh
  assume r: "r = relax deg (children_of edges x)" and "(deg', fresh) = r"
  then have "length fresh + degree_left edges deg' \<le> degree_left edges deg"
    using relax_shrinks [OF children_known [of edges x], of deg] by (metis fst_conv snd_conv)
  then show "((edges, deg', queue @ fresh, Suc processed), (edges, deg, x # queue, processed))
      \<in> measure (\<lambda>(edges, deg, queue, processed). length queue + degree_left edges deg)" by simp
qed simp

text \<open>
  \<open>order\<close> is the order in which the iteration over the map \<^verbatim>\<open>indegree\<close> meets its keys, which the
  language leaves open.
\<close>

definition validateDAG :: "string list \<Rightarrow> 'c DSL \<Rightarrow> dag_error option" where
  "validateDAG order d =
     (case check_steps (step_ids d) (ds_Steps d) of
        Some e \<Rightarrow> Some e
      | None \<Rightarrow>
          (let deg = indegrees (ds_Steps d) (\<lambda>_. 0)
           in if kahn (need_edges (ds_Steps d)) deg (filter (\<lambda>x. deg x = 0) order) 0 \<noteq> length (ds_Steps d)
              then Some NeedCycle else None))"


subsection \<open>The predecessors a template may refer to\<close>

text \<open>
  \<^verbatim>\<open>stepByID\<close> keeps the last step of an identifier.  The recursion of \<^verbatim>\<open>collectReachableNeeds\<close> is a walk with
  a stack: what the calls on the stack still have to visit is the list of the model.
\<close>

definition step_by_id :: "Step list \<Rightarrow> string \<Rightarrow> Step option" where
  "step_by_id ss x = find (\<lambda>s. st_ID s = x) (rev ss)"

lemma step_by_id_in: "step_by_id ss x = Some s \<Longrightarrow> s \<in> set ss \<and> st_ID s = x"
  by (auto simp: step_by_id_def find_Some_iff) (metis nth_mem set_rev length_rev)

lemma step_by_id_known: "step_by_id ss x \<noteq> None \<longleftrightarrow> x \<in> st_ID ` set ss"
  by (auto simp: step_by_id_def find_None_iff)

function collect_needs :: "Step list \<Rightarrow> string list \<Rightarrow> string list \<Rightarrow> string list" where
  "collect_needs ss [] out = out"
| "collect_needs ss (dep # deps) out =
     (case step_by_id ss dep of
        None \<Rightarrow> collect_needs ss deps out
      | Some st \<Rightarrow>
          if dep \<in> set out then collect_needs ss deps out
          else collect_needs ss (st_Needs st @ deps) (dep # out))"
  by pat_completeness auto
termination
proof (relation "measures [\<lambda>(ss, deps, out). card (st_ID ` set ss - set out), \<lambda>(ss, deps, out). length deps]")
  fix ss dep deps out st
  assume "step_by_id ss dep = Some st" and "dep \<notin> set out"
  then have "st_ID ` set ss - set (dep # out) \<subset> st_ID ` set ss - set out"
    using step_by_id_in [of ss dep st] by auto
  then have "card (st_ID ` set ss - set (dep # out)) < card (st_ID ` set ss - set out)"
    by (intro psubset_card_mono) auto
  then show "((ss, st_Needs st @ deps, dep # out), ss, dep # deps, out)
      \<in> measures [\<lambda>(ss, deps, out). card (st_ID ` set ss - set out), \<lambda>(ss, deps, out). length deps]" by simp
qed auto

definition collectReachableNeeds :: "string \<Rightarrow> Step list \<Rightarrow> string list" where
  "collectReachableNeeds x ss = (case step_by_id ss x of None \<Rightarrow> [] | Some st \<Rightarrow> collect_needs ss (st_Needs st) [])"

subsection \<open>Kahn's algorithm is right\<close>

definition into :: "(string \<times> string) list \<Rightarrow> string set \<Rightarrow> string \<Rightarrow> int" where
  "into edges U x = int (length (filter (\<lambda>e. snd e = x \<and> fst e \<in> U) edges))"

lemma relax_Cons:
  "fst (relax deg (c # cs)) = fst (relax (deg(c := deg c - 1)) cs)"
  "snd (relax deg (c # cs)) = (if deg c = 1 then [c] else []) @ snd (relax (deg(c := deg c - 1)) cs)"
  by (auto simp: Let_def split: prod.splits)

lemma relax_degree: "fst (relax deg cs) x = deg x - int (count_list cs x)"
  by (induction cs arbitrary: deg) (simp_all add: relax_Cons del: relax.simps(2))

lemma relax_queued:
  "x \<in> set (snd (relax deg cs)) \<longleftrightarrow> 0 < deg x \<and> deg x \<le> int (count_list cs x)"
proof (induction cs arbitrary: deg)
  case (Cons c cs)
  show ?case unfolding relax_Cons(2) set_append Un_iff Cons.IH by auto
qed simp

lemma relax_distinct: "distinct (snd (relax deg cs))"
proof (induction cs arbitrary: deg)
  case (Cons c cs)
  show ?case unfolding relax_Cons(2) distinct_append relax_queued using Cons.IH by (auto simp: relax_queued)
qed simp

lemma count_children: "int (count_list (children_of edges x) c) = into edges {x} c"
proof (induction edges)
  case (Cons e edges)
  then show ?case by (cases e) (auto simp: children_of_def into_def)
qed (simp add: children_of_def into_def)

lemma into_insert: "x \<notin> U \<Longrightarrow> into edges (insert x U) c = into edges U c + into edges {x} c"
  by (induction edges) (auto simp: into_def)

lemma into_mono: "U \<subseteq> V \<Longrightarrow> into edges U x \<le> into edges V x"
  by (induction edges) (auto simp: into_def)

lemma into_UNIV: "into edges UNIV x \<le> into edges U x \<longleftrightarrow> (\<forall>u. (u, x) \<in> set edges \<longrightarrow> u \<in> U)"
proof (induction edges)
  case (Cons e edges)
  have "into edges U x \<le> into edges UNIV x" by (rule into_mono) simp
  then show ?case using Cons by (cases e) (auto simp: into_def)
qed (simp add: into_def)

text \<open>
  The state of the loop: what left the queue, then the queue, is a list without repetitions of
  exactly the identifiers whose counter ran out, each counter is the start value less the edges from
  what left the queue, and the start value of each listed identifier is covered by those listed
  before it.
\<close>

definition kahn_inv :: "string set \<Rightarrow> (string \<times> string) list \<Rightarrow> (string \<Rightarrow> int) \<Rightarrow> (string \<Rightarrow> int)
    \<Rightarrow> string list \<Rightarrow> string list \<Rightarrow> bool" where
  "kahn_inv V edges deg0 deg past queue \<longleftrightarrow>
     (\<forall>x. deg x = deg0 x - into edges (set past) x) \<and> distinct (past @ queue)
     \<and> set (past @ queue) = {x \<in> V. deg x \<le> 0}
     \<and> (\<forall>i<length (past @ queue).
          deg0 ((past @ queue) ! i) \<le> into edges (set (take i (past @ queue))) ((past @ queue) ! i))"

lemma kahn_inv_pop:
  assumes inv: "kahn_inv V edges deg0 deg past (x # queue)" and V: "snd ` set edges \<subseteq> V"
    and r: "relax deg (children_of edges x) = (deg', fresh)"
  shows "kahn_inv V edges deg0 deg' (past @ [x]) (queue @ fresh)"
proof -
  let ?L = "past @ x # queue"
  have deg: "deg y = deg0 y - into edges (set past) y" for y using inv by (simp add: kahn_inv_def)
  have dist: "distinct ?L" and set: "set ?L = {x \<in> V. deg x \<le> 0}" using inv by (simp_all add: kahn_inv_def)
  have x: "x \<notin> set past" using dist by simp
  have deg'_x: "deg' y = deg y - into edges {x} y" for y
    using relax_degree [of deg "children_of edges x" y] r by (simp add: count_children)
  have deg': "deg' y = deg0 y - into edges (set (past @ [x])) y" for y
    using deg deg'_x into_insert [OF x, of edges y] by simp
  have fresh: "y \<in> set fresh \<longleftrightarrow> 0 < deg y \<and> deg' y \<le> 0" for y
    using relax_queued [of y deg "children_of edges x"] r deg'_x [of y] by (auto simp: count_children)
  have less: "deg' y \<le> deg y" for y using deg'_x [of y] by (simp add: into_def)
  have moreV: "set fresh \<subseteq> V"
  proof
    fix y assume "y \<in> set fresh"
    then have "deg' y < deg y" by (simp add: fresh)
    then have "into edges {x} y \<noteq> 0" by (simp add: deg'_x)
    then have "filter (\<lambda>e. snd e = y \<and> fst e \<in> {x}) edges \<noteq> []" unfolding into_def by (rule contrapos_nn) (simp only: list.size of_nat_0)
    then obtain e where "e \<in> set edges" "snd e = y" by (auto simp: filter_empty_conv)
    then show "y \<in> V" using V by auto
  qed
  have "set ?L \<inter> set fresh = {}" unfolding set using fresh by auto
  then have dist': "distinct (?L @ fresh)" using dist relax_distinct [of deg "children_of edges x"] r by auto
  have "{y \<in> V. deg' y \<le> 0} = {y \<in> V. deg y \<le> 0} \<union> set fresh"
    using fresh moreV less by (auto simp: not_le) (meson dual_order.trans not_le)
  then have set': "set (?L @ fresh) = {y \<in> V. deg' y \<le> 0}" using set by (simp only: set_append)
  have pre: "deg0 ((?L @ fresh) ! i) \<le> into edges (set (take i (?L @ fresh))) ((?L @ fresh) ! i)"
    if i: "i < length (?L @ fresh)" for i
  proof (cases "i < length ?L")
    case True
    then show ?thesis using inv unfolding kahn_inv_def by (simp only: nth_append take_append if_True) simp
  next
    case False
    then have n: "(?L @ fresh) ! i = fresh ! (i - length ?L)" by (simp only: nth_append if_False)
    have "i - length ?L < length fresh" using False i by simp
    then have "(?L @ fresh) ! i \<in> set fresh" unfolding n by (rule nth_mem)
    then have "deg' ((?L @ fresh) ! i) \<le> 0" by (simp only: fresh)
    then have "deg0 ((?L @ fresh) ! i) \<le> into edges (set (past @ [x])) ((?L @ fresh) ! i)" by (simp only: deg')
    also have "\<dots> \<le> into edges (set (take i (?L @ fresh))) ((?L @ fresh) ! i)"
    proof (rule into_mono)
      have "set (take (Suc (length past)) (?L @ fresh)) \<subseteq> set (take i (?L @ fresh))"
        by (rule set_take_subset_set_take) (use False in simp)
      then show "set (past @ [x]) \<subseteq> set (take i (?L @ fresh))" by simp
    qed
    finally show ?thesis .
  qed
  show ?thesis using deg' dist' set' pre unfolding kahn_inv_def by simp
qed

lemma kahn_runs:
  assumes "snd ` set edges \<subseteq> V" and "kahn_inv V edges deg0 deg past queue"
  shows "\<exists>deg' L. kahn edges deg queue (length past) = length L \<and> kahn_inv V edges deg0 deg' L []"
  using assms
proof (induction edges deg queue "length past" arbitrary: past rule: kahn.induct)
  case (1 edges deg)
  then show ?case by (intro exI [of _ deg] exI [of _ past]) simp
next
  case (2 edges deg x queue)
  obtain deg' fresh where r: "relax deg (children_of edges x) = (deg', fresh)" by fastforce
  show ?case using 2(1) [OF refl r [symmetric], of "past @ [x]"] r kahn_inv_pop [OF 2(3) 2(2) r] 2(2) by simp
qed


lemma takeWhile_stops: "x \<in> set xs \<Longrightarrow> \<not> P x \<Longrightarrow> length (takeWhile P xs) < length xs"
  by (induction xs) auto

lemma path_rank:
  assumes "\<And>x u. (u, x) \<in> R \<Longrightarrow> u \<in> set (takeWhile (\<lambda>y. y \<noteq> x) L)"
  shows "acyclic R"
proof -
  let ?f = "\<lambda>x. length (takeWhile (\<lambda>y. y \<noteq> x) L)"
  have "?f u < ?f x" if "(u, x) \<in> R" for u x
  proof -
    have "u \<in> set (takeWhile (\<lambda>y. y \<noteq> x) L)" using assms that .
    then obtain j where j: "j < ?f x" "takeWhile (\<lambda>y. y \<noteq> x) L ! j = u" by (auto simp: in_set_conv_nth)
    have "L ! j = u" using j by (metis takeWhile_nth)
    then have "?f u \<le> j" by (metis (mono_tags, lifting) length_takeWhile_le linorder_not_le nth_mem
        set_takeWhileD takeWhile_nth)
    then show ?thesis using j(1) by simp
  qed
  then have "R \<subseteq> measure ?f" by (auto simp: in_measure)
  then show ?thesis by (meson wf_acyclic wf_measure wf_subset)
qed

lemma indegrees_other: "x \<notin> st_ID ` set ss \<Longrightarrow> indegrees ss deg x = deg x"
  by (induction ss arbitrary: deg) auto

lemma indegrees_nonneg: "(\<And>x. 0 \<le> deg x) \<Longrightarrow> 0 \<le> indegrees ss deg x"
  by (induction ss arbitrary: deg) auto

lemma need_edges_Cons: "need_edges (s # ss) = map (\<lambda>dep. (dep, st_ID s)) (st_Needs s) @ need_edges ss"
  by (simp add: need_edges_def)

lemma set_need_edges: "set (need_edges ss) = {(dep, st_ID s) |s dep. s \<in> set ss \<and> dep \<in> set (st_Needs s)}"
  by (induction ss) (auto simp: need_edges_def)

lemma need_edges_into: "snd ` set (need_edges ss) \<subseteq> st_ID ` set ss"
  by (auto simp: set_need_edges)

lemma into_Cons: "into (need_edges (s # ss)) UNIV x
    = (if st_ID s = x then int (length (st_Needs s)) else 0) + into (need_edges ss) UNIV x"
  by (simp add: need_edges_Cons into_def filter_map comp_def)

lemma into_none: "x \<notin> st_ID ` set ss \<Longrightarrow> into (need_edges ss) U x = 0"
  using need_edges_into [of ss] by (force simp: into_def filter_empty_conv)

lemma indegrees_exact:
  assumes "distinct (map st_ID ss)" "x \<in> st_ID ` set ss"
  shows "indegrees ss deg x = into (need_edges ss) UNIV x"
  using assms by (induction ss arbitrary: deg) (auto simp: into_Cons into_none indegrees_other)

lemma check_needs_None: "check_needs known self deps = None \<longleftrightarrow> (\<forall>d\<in>set deps. d \<noteq> self \<and> d \<in> set known)"
  by (induction deps) auto

lemma check_steps_None:
  "check_steps known ss = None \<longleftrightarrow> (\<forall>s\<in>set ss. \<forall>d\<in>set (st_Needs s). d \<noteq> st_ID s \<and> d \<in> set known)"
proof (induction ss)
  case (Cons s ss)
  show ?case using check_needs_None [of known "st_ID s" "st_Needs s"] Cons
    by (cases "check_needs known (st_ID s) (st_Needs s)") auto
qed simp

lemma kahn_counts:
  fixes ss :: "Step list"
  assumes ord: "distinct order" "set order = st_ID ` set ss"
  defines "deg \<equiv> indegrees ss (\<lambda>_. 0)"
  obtains deg' L where "kahn (need_edges ss) deg (filter (\<lambda>x. deg x = 0) order) 0 = length L"
    "kahn_inv (st_ID ` set ss) (need_edges ss) deg deg' L []"
proof -
  let ?q = "filter (\<lambda>x. deg x = 0) order"
  have nn: "0 \<le> deg x" for x unfolding deg_def by (rule indegrees_nonneg) simp
  have "kahn_inv (st_ID ` set ss) (need_edges ss) deg deg [] ?q"
    unfolding kahn_inv_def
  proof (intro conjI allI impI)
    show "set ([] @ ?q) = {x \<in> st_ID ` set ss. deg x \<le> 0}" using ord nn by (auto simp: order.antisym)
    fix i assume "i < length ([] @ ?q)"
    then have "([] @ ?q) ! i \<in> set ?q" by (metis append_Nil nth_mem)
    then show "deg (([] @ ?q) ! i) \<le> into (need_edges ss) (set (take i ([] @ ?q))) (([] @ ?q) ! i)"
      by (simp add: into_def)
  qed (use ord in \<open>simp_all add: into_def\<close>)
  from kahn_runs [OF need_edges_into this] that show ?thesis by auto
qed

text \<open>The check, on any order of the map: identifiers are distinct, every need is known and nothing waits for itself.\<close>

lemma kahn_all_iff:
  assumes ord: "distinct order" "set order = st_ID ` set ss"
    and known: "fst ` set (need_edges ss) \<subseteq> st_ID ` set ss"
  shows "kahn (need_edges ss) (indegrees ss (\<lambda>_. 0)) (filter (\<lambda>x. indegrees ss (\<lambda>_. 0) x = 0) order) 0 = length ss
     \<longleftrightarrow> distinct (map st_ID ss) \<and> acyclic (set (need_edges ss))"
    (is "?n = _ \<longleftrightarrow> _")
proof -
  let ?V = "st_ID ` set ss" and ?E = "need_edges ss" and ?deg = "indegrees ss (\<lambda>_. 0)"
  obtain deg' L where L: "?n = length L" and inv: "kahn_inv ?V ?E ?deg deg' L []"
    using kahn_counts [OF ord] .
  have d: "distinct L" and sL: "set L = {x \<in> ?V. deg' x \<le> 0}" and deg': "\<And>x. deg' x = ?deg x - into ?E (set L) x"
    and pre: "\<And>i. i < length L \<Longrightarrow> ?deg (L ! i) \<le> into ?E (set (take i L)) (L ! i)"
    using inv unfolding kahn_inv_def append_Nil2 by blast+
  have sub: "set L \<subseteq> ?V" using sL by auto
  then have le: "length L \<le> card ?V" using card_mono [OF _ sub] distinct_card [OF d] by simp
  have cV: "card ?V \<le> length ss" by (metis card_length length_map list.set_map)
  show ?thesis
  proof
    assume n: "?n = length ss"
    then have "card ?V = length (map st_ID ss)" using L le cV by simp
    then have dist: "distinct (map st_ID ss)" by (simp add: card_distinct)
    have "set L = ?V" by (rule card_subset_eq [OF _ sub]) (use n L le cV distinct_card [OF d] in simp_all)
    have "u \<in> set (takeWhile (\<lambda>y. y \<noteq> x) L)" if e: "(u, x) \<in> set ?E" for u x
    proof -
      let ?i = "length (takeWhile (\<lambda>y. y \<noteq> x) L)"
      have "x \<in> set L" using e need_edges_into [of ss] \<open>set L = ?V\<close> by force
      then have i: "?i < length L" "L ! ?i = x"
        using nth_length_takeWhile [of "\<lambda>y. y \<noteq> x" L] takeWhile_stops [of x L "\<lambda>y. y \<noteq> x"] by auto
      have "into ?E UNIV x \<le> into ?E (set (take ?i L)) x"
        using pre [OF i(1)] i indegrees_exact [OF dist, of x] \<open>x \<in> set L\<close> \<open>set L = ?V\<close> by simp
      then have "u \<in> set (take ?i L)" using e by (simp add: into_UNIV)
      then show ?thesis by (simp flip: takeWhile_eq_take)
    qed
    then have "acyclic (set ?E)" by (rule path_rank)
    then show "distinct (map st_ID ss) \<and> acyclic (set ?E)" using dist by simp
  next
    assume a: "distinct (map st_ID ss) \<and> acyclic (set ?E)"
    have "?V \<subseteq> set L"
    proof (rule ccontr)
      assume "\<not> ?V \<subseteq> set L"
      then have ne: "?V - set L \<noteq> {}" by auto
      have "wf (set ?E)" using a by (simp add: finite_acyclic_wf)
      then obtain x where x: "x \<in> ?V - set L" "\<And>u. (u, x) \<in> set ?E \<Longrightarrow> u \<notin> ?V - set L"
        using ne by (metis wf_eq_minimal ex_in_conv)
      have "u \<in> set L" if "(u, x) \<in> set ?E" for u using x(2) [OF that] known that by force
      then have "into ?E UNIV x \<le> into ?E (set L) x" by (simp add: into_UNIV)
      moreover have "?deg x = into ?E UNIV x" using x(1) a by (intro indegrees_exact) auto
      ultimately have "deg' x \<le> 0" by (simp add: deg')
      then show False using x(1) sL by auto
    qed
    then have "length ss \<le> length L" using a distinct_card [OF d] distinct_card [of "map st_ID ss"]
      by (metis card_mono finite_set length_map list.set_map)
    then show "?n = length ss" using L le cV by simp
  qed
qed

lemma validateDAG_correct:
  assumes "distinct order" and "set order = set (step_ids d)"
  shows "validateDAG order d = None \<longleftrightarrow>
     distinct (step_ids d) \<and> (\<forall>s\<in>set (ds_Steps d). set (st_Needs s) \<subseteq> set (step_ids d))
     \<and> acyclic {(dep, st_ID s) |s dep. s \<in> set (ds_Steps d) \<and> dep \<in> set (st_Needs s)}"
    (is "_ \<longleftrightarrow> ?D \<and> ?K \<and> acyclic ?R")
proof (cases "check_steps (step_ids d) (ds_Steps d)")
  case (Some e)
  then obtain s dep where s: "s \<in> set (ds_Steps d)" "dep \<in> set (st_Needs s)" "dep = st_ID s \<or> dep \<notin> set (step_ids d)"
    using check_steps_None [of "step_ids d" "ds_Steps d"] by auto
  have "\<not> acyclic ?R" if "dep = st_ID s"
  proof -
    have "(st_ID s, st_ID s) \<in> ?R" using s that by auto
    then show ?thesis unfolding acyclic_def by blast
  qed
  then show ?thesis using Some s by (auto simp: validateDAG_def)
next
  case None
  then have K: "?K" and "fst ` set (need_edges (ds_Steps d)) \<subseteq> st_ID ` set (ds_Steps d)"
    by (auto simp: check_steps_None set_need_edges step_ids_def)
  then show ?thesis using None kahn_all_iff [of order "ds_Steps d"] assms
    by (simp add: validateDAG_def Let_def step_ids_def set_need_edges)
qed

text \<open>
  C27. \<open>validateDAG\<close> accepts exactly the graphs that can be scheduled, whatever the order in which the
  map is iterated: the identifiers are distinct, every need names a step, and the needs have no cycle.
\<close>

theorem validateDAG_iff:
  assumes "distinct order" and "set order = set (step_ids d)"
  shows "validateDAG order d = None \<longleftrightarrow>
     distinct (step_ids d) \<and> (\<forall>s\<in>set (ds_Steps d). set (st_Needs s) \<subseteq> set (step_ids d))
     \<and> acyclic {(dep, st_ID s) |s dep. s \<in> set (ds_Steps d) \<and> dep \<in> set (st_Needs s)}"
  using assms by (rule validateDAG_correct)

subsection \<open>The graph of the data flow\<close>

lemma set_auto_refs: "set (auto_refs known self seen refs) = {r \<in> set refs. r \<noteq> self \<and> r \<in> set known \<and> r \<notin> set seen}"
  by (induction refs arbitrary: seen) auto

lemma auto_step_simps [simp]: "st_ID (auto_step known s) = st_ID s"
  by (simp add: auto_step_def)

lemma auto_step_needs: "set (st_Needs (auto_step known s)) =
    (if st_Needs s = [] then {r \<in> set (stepRefs (st_Raw s)). r \<noteq> st_ID s \<and> r \<in> set known} else set (st_Needs s))"
  by (simp add: auto_step_def set_auto_refs)

lemma step_ids_auto [simp]: "step_ids (deriveAutoNeeds d) = step_ids d"
  by (simp add: step_ids_def deriveAutoNeeds_def comp_def)

text \<open>
  In automatic mode a definition whose steps refer only to earlier steps always passes the check: the
  derived graph has no cycle, and each reference of a step without needs of its own has become a need.
\<close>

theorem auto_graph_schedulable:
  assumes ord: "distinct order" "set order = set (step_ids d)" and dist: "distinct (step_ids d)"
    and declared: "\<And>i. i < length (ds_Steps d) \<Longrightarrow> set (st_Needs (ds_Steps d ! i)) \<subseteq> set (take i (step_ids d))"
    and derived: "\<And>i. i < length (ds_Steps d) \<Longrightarrow> st_Needs (ds_Steps d ! i) = [] \<Longrightarrow>
        set (stepRefs (st_Raw (ds_Steps d ! i))) \<inter> set (step_ids d) \<subseteq> set (take (Suc i) (step_ids d))"
  shows "validateDAG order (deriveAutoNeeds d) = None
     \<and> (\<forall>s\<in>set (ds_Steps d). st_Needs s = [] \<longrightarrow>
          (\<forall>r\<in>set (stepRefs (st_Raw s)). r \<in> set (step_ids d) \<longrightarrow> r \<noteq> st_ID s \<longrightarrow>
             r \<in> set (st_Needs (auto_step (step_ids d) s))))"
proof
  let ?d = "deriveAutoNeeds d" and ?ids = "step_ids d"
  have less: "dep \<in> set (takeWhile (\<lambda>y. y \<noteq> st_ID t) ?ids)"
    if t: "t \<in> set (ds_Steps ?d)" and dep: "dep \<in> set (st_Needs t)" for t dep
  proof -
    obtain i where i: "i < length (ds_Steps d)" "t = auto_step ?ids (ds_Steps d ! i)"
      using t by (auto simp: deriveAutoNeeds_def in_set_conv_nth)
    have id: "st_ID t = ?ids ! i" "i < length ?ids" using i by (simp_all add: step_ids_def)
    have "takeWhile (\<lambda>y. y \<noteq> ?ids ! i) ?ids = take i ?ids"
      using dist id(2) by (intro takeWhile_eq_take_P_nth) (auto simp: distinct_conv_nth)
    moreover have "dep \<in> set (take i ?ids)"
    proof (cases "st_Needs (ds_Steps d ! i) = []")
      case True
      then have "dep \<in> set (stepRefs (st_Raw (ds_Steps d ! i)))" "dep \<in> set ?ids" "dep \<noteq> ?ids ! i"
        using dep i id by (auto simp: auto_step_needs step_ids_def)
      then have "dep \<in> set (take (Suc i) ?ids)" using derived [OF i(1) True] by blast
      then show ?thesis using \<open>dep \<noteq> ?ids ! i\<close> id(2) by (simp add: take_Suc_conv_app_nth)
    next
      case False
      then show ?thesis using dep i declared [OF i(1)] by (auto simp: auto_step_needs)
    qed
    ultimately show ?thesis by (simp add: id)
  qed
  have "acyclic {(dep, st_ID s) |s dep. s \<in> set (ds_Steps ?d) \<and> dep \<in> set (st_Needs s)}"
    by (rule path_rank [of _ ?ids]) (use less in auto)
  moreover have "set (st_Needs t) \<subseteq> set (step_ids ?d)" if "t \<in> set (ds_Steps ?d)" for t
    using less [OF that] by (auto dest: set_takeWhileD)
  ultimately show "validateDAG order ?d = None"
    using validateDAG_correct [of order ?d] ord dist by simp
qed (auto simp: auto_step_needs)

subsection \<open>The predecessors are the closure of the needs\<close>

lemma collect_grows: "set out \<subseteq> set (collect_needs ss deps out)"
  by (induction ss deps out rule: collect_needs.induct) (auto split: option.splits)

lemma collect_sound:
  assumes "x \<in> set (collect_needs ss deps out)"
  shows "x \<in> set out \<or> (\<exists>d\<in>set deps. (x, d) \<in> {(dep, st_ID s) |s dep. s \<in> set ss \<and> dep \<in> set (st_Needs s)}\<^sup>*)"
    (is "_ \<or> (\<exists>d\<in>_. _ \<in> ?R\<^sup>*)")
  using assms
proof (induction ss deps out rule: collect_needs.induct)
  case (2 ss dep deps out)
  show ?case
  proof (cases "step_by_id ss dep")
    case None
    then show ?thesis using 2 by auto
  next
    case (Some st)
    have st: "st \<in> set ss" "st_ID st = dep" using step_by_id_in [OF Some] by simp_all
    show ?thesis
    proof (cases "dep \<in> set out")
      case True
      then show ?thesis using 2 Some by auto
    next
      case False
      have "x \<in> set (collect_needs ss (st_Needs st @ deps) (dep # out))" using 2(4) Some False by simp
      from 2(3) [OF Some False this] show ?thesis
        using st by (auto intro: rtrancl_into_rtrancl)
    qed
  qed
qed simp

definition needs_within :: "Step list \<Rightarrow> string set \<Rightarrow> string set \<Rightarrow> bool" where
  "needs_within ss X A \<longleftrightarrow> (\<forall>x\<in>X. \<forall>s. step_by_id ss x = Some s \<longrightarrow> set (st_Needs s) \<inter> st_ID ` set ss \<subseteq> A)"

lemma needs_within_mono: "needs_within ss X A \<Longrightarrow> A \<subseteq> B \<Longrightarrow> needs_within ss X B"
  by (fastforce simp: needs_within_def)

lemma collect_complete:
  assumes "needs_within ss (set out) (set out \<union> (set deps \<inter> st_ID ` set ss))"
  shows "set deps \<inter> st_ID ` set ss \<subseteq> set (collect_needs ss deps out)
     \<and> needs_within ss (set (collect_needs ss deps out)) (set (collect_needs ss deps out))"
  using assms
proof (induction ss deps out rule: collect_needs.induct)
  case (1 ss out)
  then show ?case by simp
next
  case (2 ss dep deps out)
  show ?case
  proof (cases "step_by_id ss dep")
    case None
    then have "set (dep # deps) \<inter> st_ID ` set ss = set deps \<inter> st_ID ` set ss"
      using step_by_id_known [of ss dep] by auto
    then show ?thesis using 2(1) [OF None] 2(4) None by simp
  next
    case (Some st)
    show ?thesis
    proof (cases "dep \<in> set out")
      case True
      then have "dep \<in> set (collect_needs ss deps out)" using collect_grows [of out ss deps] by auto
      moreover have "needs_within ss (set out) (set out \<union> (set deps \<inter> st_ID ` set ss))"
        by (rule needs_within_mono [OF 2(4)]) (use True in auto)
      ultimately show ?thesis using 2(2) [OF Some True] True Some by auto
    next
      case False
      let ?r = "collect_needs ss (st_Needs st @ deps) (dep # out)"
      have r: "collect_needs ss (dep # deps) out = ?r" using Some False by simp
      have "dep \<in> set ?r" using collect_grows [of "dep # out" ss "st_Needs st @ deps"] by auto
      moreover have "needs_within ss (set out) (set (dep # out) \<union> (set (st_Needs st @ deps) \<inter> st_ID ` set ss))"
        by (rule needs_within_mono [OF 2(4)]) auto
      then have "needs_within ss (set (dep # out)) (set (dep # out) \<union> (set (st_Needs st @ deps) \<inter> st_ID ` set ss))"
        using Some by (auto simp: needs_within_def)
      note 2(3) [OF Some False this]
      ultimately show ?thesis unfolding r by auto
    qed
  qed
qed

lemma step_by_id_distinct: "distinct (map st_ID ss) \<Longrightarrow> s \<in> set ss \<Longrightarrow> step_by_id ss (st_ID s) = Some s"
  using keyed_rows.find_key_in [of st_ID "rev ss" s] by (simp add: step_by_id_def rev_map [symmetric])

text \<open>
  The predecessors to which the templates of a step may refer, in a graph that passes the check, are
  exactly the steps that must have completed before it: the transitive closure of the needs.
\<close>

theorem reachable_needs_closure:
  assumes ok: "validateDAG order d = None" and ord: "distinct order" "set order = set (step_ids d)"
    and s: "s \<in> set (ds_Steps d)"
  shows "set (collectReachableNeeds (st_ID s) (ds_Steps d))
    = {r. (r, st_ID s) \<in> {(dep, st_ID t) |t dep. t \<in> set (ds_Steps d) \<and> dep \<in> set (st_Needs t)}\<^sup>+}"
    (is "?C = {r. (r, _) \<in> ?R\<^sup>+}")
proof -
  let ?ss = "ds_Steps d"
  have dist: "distinct (map st_ID ?ss)" and known: "\<And>t. t \<in> set ?ss \<Longrightarrow> set (st_Needs t) \<subseteq> st_ID ` set ?ss"
    using validateDAG_correct [OF ord] ok by (auto simp: step_ids_def)
  have s': "step_by_id ?ss (st_ID s) = Some s" using step_by_id_distinct [OF dist s] .
  then have C: "?C = set (collect_needs ?ss (st_Needs s) [])" by (simp add: collectReachableNeeds_def)
  have closed: "set (st_Needs s) \<subseteq> ?C" "needs_within ?ss ?C ?C"
    using collect_complete [of ?ss "[]" "st_Needs s"] known [OF s] by (auto simp: C needs_within_def)
  have fst: "set (st_Needs t) \<subseteq> ?C" if t: "t \<in> set ?ss" "st_ID t \<in> ?C" for t
  proof -
    have "set (st_Needs t) \<inter> st_ID ` set ?ss \<subseteq> ?C"
      using closed(2) t(2) step_by_id_distinct [OF dist t(1)] unfolding needs_within_def by blast
    then show ?thesis using known [OF t(1)] by blast
  qed
  have "r \<in> ?C" if "(r, st_ID s) \<in> ?R\<^sup>+" for r
    using that
  proof (induction rule: converse_trancl_induct)
    case (base y)
    then obtain t where "t \<in> set ?ss" "st_ID t = st_ID s" "y \<in> set (st_Needs t)" by auto
    then show ?case using closed(1) step_by_id_distinct [OF dist] s' by (metis option.inject subsetD)
  next
    case (step y z)
    then show ?case using fst by auto
  qed
  moreover have "(r, st_ID s) \<in> ?R\<^sup>+" if r: "r \<in> ?C" for r
  proof -
    obtain dep where "dep \<in> set (st_Needs s)" "(r, dep) \<in> ?R\<^sup>*"
      using collect_sound [of r ?ss "st_Needs s" "[]"] r by (auto simp: C)
    then show ?thesis using s by (auto intro: rtrancl_into_trancl1)
  qed
  ultimately show ?thesis by blast
qed

subsection \<open>Concrete graphs\<close>

definition demo_node :: "string \<Rightarrow> string list \<Rightarrow> string \<Rightarrow> Step" where
  "demo_node x needs raw = \<lparr>st_ID = x, st_Type = StepAgentRun, st_Complexity = [], st_ModelOverride = [],
     st_If = [], st_Needs = needs, st_Raw = raw\<rparr>"

definition demo_routine :: "Step list \<Rightarrow> int DSL" where
  "demo_routine ss = \<lparr>ds_Name = ''nightly'', ds_Parallelism = [], ds_MaxCostUSD = 0, ds_Agentless = False,
     ds_Steps = ss\<rparr>"

definition demo_diamond :: "int DSL" where
  "demo_diamond = demo_routine [demo_node ''d'' [''b'', ''c''] [], demo_node ''b'' [''a''] [],
     demo_node ''c'' [''a''] [], demo_node ''a'' [] []]"

definition demo_flow :: "int DSL" where
  "demo_flow = demo_routine [demo_node ''a'' [] [], demo_node ''b'' [] ''use steps.a.output and steps.zz'']"

lemma validateDAG_iff_witness: "acyclic {(dep, st_ID s) |s dep. s \<in> set (ds_Steps demo_diamond) \<and> dep \<in> set (st_Needs s)}"
proof -
  have "validateDAG [''c'', ''a'', ''d'', ''b''] demo_diamond = None" by code_simp
  moreover have "distinct [''c'', ''a'', ''d'', ''b'']" by simp
  moreover have "set [''c'', ''a'', ''d'', ''b''] = set (step_ids demo_diamond)" by code_simp
  ultimately show ?thesis using validateDAG_iff [of "[''c'', ''a'', ''d'', ''b'']" demo_diamond] by blast
qed

lemma auto_graph_schedulable_witness: "validateDAG [''a'', ''b''] (deriveAutoNeeds demo_flow) = None"
proof -
  have "set (st_Needs (ds_Steps demo_flow ! i)) \<subseteq> set (take i (step_ids demo_flow))" if "i < length (ds_Steps demo_flow)" for i
    using that by (auto simp: demo_flow_def demo_routine_def demo_node_def less_Suc_eq nth_Cons')
  moreover have "set (stepRefs (st_Raw (ds_Steps demo_flow ! i))) \<inter> set (step_ids demo_flow) \<subseteq> set (take (Suc i) (step_ids demo_flow))"
    if "i < length (ds_Steps demo_flow)" for i
  proof -
    have "i = 0 \<or> i = 1" using that by (auto simp: demo_flow_def demo_routine_def)
    moreover have "set (stepRefs (st_Raw (ds_Steps demo_flow ! 0))) = {}" by code_simp
    moreover have "set (step_ids demo_flow) \<subseteq> set (take (Suc 1) (step_ids demo_flow))" by code_simp
    ultimately show ?thesis by auto
  qed
  moreover have "set [''a'', ''b''] = set (step_ids demo_flow)" by code_simp
  moreover have "distinct (step_ids demo_flow)" by code_simp
  ultimately show ?thesis using auto_graph_schedulable [of "[''a'', ''b'']" demo_flow] by simp
qed

lemma reachable_needs_closure_witness:
  "set (collectReachableNeeds ''d'' (ds_Steps demo_diamond))
    = {r. (r, ''d'') \<in> {(dep, st_ID t) |t dep. t \<in> set (ds_Steps demo_diamond) \<and> dep \<in> set (st_Needs t)}\<^sup>+}"
proof -
  let ?o = "[''c'', ''a'', ''d'', ''b'']" and ?s = "demo_node ''d'' [''b'', ''c''] []"
  have "validateDAG ?o demo_diamond = None" "set ?o = set (step_ids demo_diamond)" by code_simp+
  moreover have "?s \<in> set (ds_Steps demo_diamond)" by (simp add: demo_diamond_def demo_routine_def)
  moreover have "st_ID ?s = ''d''" by (simp add: demo_node_def)
  ultimately show ?thesis using reachable_needs_closure [of ?o demo_diamond ?s] by simp
qed

end
