(* ===== verification/Routine_Run.thy ===== *)
theory Routine_Run
  imports Routine_Graph
begin

text \<open>
  A run of a routine (\<^verbatim>\<open>internal/pipeline/executor.go\<close>): its result, the gates before the first step, the
  sequential scheduler, and the labels a cancelled run ends with.  What lies outside, the tier
  resolver, the step runner, the template renderer, the database, answers through the environment:
  each answer may depend on the position of the step, so an environment is any behaviour of them.
  Costs are \<^verbatim>\<open>float64\<close> in the code; their arithmetic and formatting are a parameter, and no theorem
  assumes a law of it.
\<close>

subsection \<open>Inputs, results and effects\<close>

record 'c costs =
  c_zero :: 'c
  c_add :: "'c \<Rightarrow> 'c \<Rightarrow> 'c"
  c_sub :: "'c \<Rightarrow> 'c \<Rightarrow> 'c"
  c_less :: "'c \<Rightarrow> 'c \<Rightarrow> bool"
  c_le :: "'c \<Rightarrow> 'c \<Rightarrow> bool"
  c_show :: "'c \<Rightarrow> string"
  c_negligible :: 'c

datatype RunMode = ModeRun | ModeDryRun | ModeOther string

record Pipeline =
  pl_ID :: string
  pl_Status :: string

record 'c RunInput =
  ri_Mode :: RunMode
  ri_pipeline :: "Pipeline option"
  ri_dsl :: "'c DSL"
  ri_TierOverride :: string
  ri_remainingBudget :: 'c
  ri_resume :: bool
  ri_restoredOutputs :: "string \<rightharpoonup> string"
  ri_restoredCostUSD :: 'c
  ri_resumeCurrentStepID :: string

record 'c DryRunStep =
  dr_StepID :: string
  dr_StepType :: string
  dr_WouldPass :: string
  dr_Tier :: string
  dr_EstimatedCost :: 'c

record 'c RoutineResult =
  rr_Status :: string
  rr_Output :: string
  rr_StepOutputs :: "string \<rightharpoonup> string"
  rr_WouldExecute :: "'c DryRunStep list"
  rr_CostUSD :: 'c
  rr_FailedAtStep :: string
  rr_ErrorMessage :: string
  rr_WaitpointToken :: string
  rr_CurrentStep :: string

datatype 'c emit =
    StepSkipped string string
  | StepStarted string nat string
  | StepFailed string string string
  | StepCompleted string string 'c
  | RunFailed string string
  | RunCompleted 'c
  | RecordInvocation string string

text \<open>
  The run's result in memory, the journal it wrote, and its projection in the database: the rows of
  \<^verbatim>\<open>pipeline_run_step_outputs\<close>, the cost and the step of the row in \<^verbatim>\<open>pipeline_runs\<close>.
\<close>

record 'c run_state =
  rs_result :: "'c RoutineResult"
  rs_journal :: "'c emit list"
  rs_stored :: "string \<rightharpoonup> string"
  rs_storedCost :: 'c
  rs_currentStep :: string

text \<open>What \<^verbatim>\<open>runStepWithRetry\<close> comes back with: an output, a suspension at an approval, or an error, and the cost.\<close>

datatype 'c step_answer = StepDone string 'c | StepSuspends string string | StepErrs string 'c

record 'c step_env =
  se_costs :: "'c costs"
  se_ctx :: "nat \<Rightarrow> string option"
  se_prompt :: "Step \<Rightarrow> (string \<rightharpoonup> string) \<Rightarrow> string"
  se_cond :: "Step \<Rightarrow> (string \<rightharpoonup> string) \<Rightarrow> bool"
  se_resolve :: "nat \<Rightarrow> Step \<Rightarrow> string + string"
  se_run :: "nat \<Rightarrow> Step \<Rightarrow> string \<Rightarrow> string \<Rightarrow> (string \<rightharpoonup> string) \<Rightarrow> 'c step_answer"
  se_estimate :: "string \<Rightarrow> 'c"
  se_scrub :: "string \<Rightarrow> string"
  se_runStore :: bool
  se_storeEntry :: "nat \<Rightarrow> bool"
  se_store :: "nat \<Rightarrow> bool"
  se_depth :: nat

definition skipped_output :: string where "skipped_output = ''<skipped>''"

definition output_of :: "(string \<rightharpoonup> string) \<Rightarrow> string \<Rightarrow> string" where
  "output_of outs x = (case outs x of None \<Rightarrow> [] | Some v \<Rightarrow> v)"

subsection \<open>The cost cap\<close>

definition minNonZero :: "'c costs \<Rightarrow> 'c \<Rightarrow> 'c \<Rightarrow> 'c" where
  "minNonZero C a b =
     (if c_le C a (c_zero C) then b else if c_le C b (c_zero C) then a else if c_less C a b then a else b)"

definition effectiveCostCap :: "'c costs \<Rightarrow> 'c RunInput \<Rightarrow> 'c" where
  "effectiveCostCap C inp = minNonZero C (ds_MaxCostUSD (ri_dsl inp)) (ri_remainingBudget inp)"

definition childRemainingBudget :: "'c costs \<Rightarrow> 'c RunInput \<Rightarrow> 'c \<Rightarrow> 'c" where
  "childRemainingBudget C inp spent =
     (let cap = effectiveCostCap C inp
      in if c_le C cap (c_zero C) then c_zero C
         else let rem = c_sub C cap spent in if c_le C rem (c_zero C) then c_negligible C else rem)"

definition costCapExceededMessage :: "'c costs \<Rightarrow> 'c \<Rightarrow> 'c \<Rightarrow> string \<Rightarrow> string" where
  "costCapExceededMessage C cost cap stepID =
     ''cost cap exceeded: $'' @ c_show C cost @ '' > $'' @ c_show C cap @ '' after step '' @ go_quote stepID"

definition over_cap :: "'c costs \<Rightarrow> 'c RunInput \<Rightarrow> 'c \<Rightarrow> bool" where
  "over_cap C inp cost \<longleftrightarrow> (let cap = effectiveCostCap C inp in c_less C (c_zero C) cap \<and> c_less C cap cost)"

subsection \<open>The end of a run\<close>

definition failRun :: "'c RunInput \<Rightarrow> string \<Rightarrow> string \<Rightarrow> bool \<Rightarrow> 'c run_state \<Rightarrow> 'c run_state" where
  "failRun inp stepID msg recordInvocation s = s\<lparr>
     rs_result := (rs_result s)\<lparr>rr_Status := ''FAILED'', rr_FailedAtStep := stepID, rr_ErrorMessage := msg\<rparr>,
     rs_journal := rs_journal s @ [RunFailed stepID msg]
       @ (case ri_pipeline inp of
            Some p \<Rightarrow> if recordInvocation \<and> ri_Mode inp = ModeRun then [RecordInvocation (pl_ID p) ''FAILED''] else []
          | None \<Rightarrow> [])\<rparr>"

definition completeRun :: "'c RunInput \<Rightarrow> 'c run_state \<Rightarrow> 'c run_state" where
  "completeRun inp s = s\<lparr>
     rs_result := (rs_result s)\<lparr>rr_Status := ''COMPLETED''\<rparr>,
     rs_journal := rs_journal s @ [RunCompleted (rr_CostUSD (rs_result s))]
       @ (case ri_pipeline inp of
            Some p \<Rightarrow> if ri_Mode inp = ModeRun then [RecordInvocation (pl_ID p) ''COMPLETED''] else []
          | None \<Rightarrow> [])\<rparr>"

definition suspendRun :: "string \<Rightarrow> string \<Rightarrow> 'c run_state \<Rightarrow> 'c run_state" where
  "suspendRun token stepID s = s\<lparr>
     rs_result := (rs_result s)\<lparr>rr_Status := ''WAITING'', rr_CurrentStep := stepID, rr_WaitpointToken := token\<rparr>\<rparr>"

definition meaningful :: "string \<Rightarrow> bool" where
  "meaningful out \<longleftrightarrow> out \<noteq> [] \<and> out \<noteq> skipped_output"

definition first_output :: "(string \<rightharpoonup> string) \<Rightarrow> Step list \<Rightarrow> string" where
  "first_output outs ss =
     (case find (\<lambda>s. meaningful (output_of outs (st_ID s))) ss of
        None \<Rightarrow> [] | Some s \<Rightarrow> output_of outs (st_ID s))"

subsection \<open>Before the first step\<close>

definition newResult :: "'c costs \<Rightarrow> 'c RunInput \<Rightarrow> 'c RoutineResult" where
  "newResult C inp = \<lparr>rr_Status = [], rr_Output = [],
     rr_StepOutputs = (if ri_resume inp then ri_restoredOutputs inp else Map.empty), rr_WouldExecute = [],
     rr_CostUSD = (if ri_resume inp then ri_restoredCostUSD inp else c_zero C),
     rr_FailedAtStep = [], rr_ErrorMessage = [], rr_WaitpointToken = [], rr_CurrentStep = []\<rparr>"

text \<open>A fresh run has a fresh row; a resumed run finds the row it left.\<close>

definition run_start :: "'c costs \<Rightarrow> 'c RunInput \<Rightarrow> 'c run_state" where
  "run_start C inp = \<lparr>rs_result = newResult C inp, rs_journal = [],
     rs_stored = (if ri_resume inp then ri_restoredOutputs inp else Map.empty),
     rs_storedCost = (if ri_resume inp then ri_restoredCostUSD inp else c_zero C),
     rs_currentStep = (if ri_resume inp then ri_resumeCurrentStepID inp else [])\<rparr>"

definition routineStatusRunnable :: "string \<Rightarrow> bool" where
  "routineStatusRunnable status \<longleftrightarrow> status = [] \<or> status = ''active''"

definition statusGate :: "'c RunInput \<Rightarrow> 'c run_state \<Rightarrow> 'c run_state option" where
  "statusGate inp s =
     (case ri_pipeline inp of
        None \<Rightarrow> None
      | Some p \<Rightarrow> if ri_Mode inp = ModeRun \<and> \<not> routineStatusRunnable (pl_Status p)
          then Some (failRun inp [] (''pipeline: routine is not active: status='' @ pl_Status p) False s) else None)"

definition resumeCostCapGate :: "'c costs \<Rightarrow> 'c RunInput \<Rightarrow> 'c run_state \<Rightarrow> 'c run_state option" where
  "resumeCostCapGate C inp s =
     (let cap = effectiveCostCap C inp; cost = rr_CostUSD (rs_result s)
      in if \<not> ri_resume inp \<or> c_le C cap (c_zero C) \<or> c_less C cost cap then None
         else let restored = filter (\<lambda>st. ri_restoredOutputs inp (st_ID st) \<noteq> None) (ds_Steps (ri_dsl inp));
                  lastRestored = (if restored = [] then ri_resumeCurrentStepID inp else st_ID (last restored))
              in Some (failRun inp lastRestored (costCapExceededMessage C cost cap lastRestored) True s))"

definition agentlessGate :: "'c RunInput \<Rightarrow> 'c run_state \<Rightarrow> 'c run_state option" where
  "agentlessGate inp s =
     (if \<not> ds_Agentless (ri_dsl inp) then None
      else map_option
        (\<lambda>st. failRun inp (st_ID st) (''agentless routine contains '' @ StepType_text (st_Type st) @ '' step ''
           @ go_quote (st_ID st) @ '' '' @ [CHR 0xE2, CHR 0x80, CHR 0x94]
           @ '' token-zero guarantee violated; fix and re-save the definition'') True s)
        (find (\<lambda>st. st_Type st = StepAgentRun \<or> st_Type st = StepCallPipeline) (ds_Steps (ri_dsl inp))))"


subsection \<open>The sequential scheduler\<close>

definition stepPersistEnabled :: "'c step_env \<Rightarrow> 'c RunInput \<Rightarrow> bool" where
  "stepPersistEnabled env inp \<longleftrightarrow>
     se_runStore env \<and> se_depth env = 0 \<and> ri_Mode inp \<noteq> ModeDryRun \<and> ri_pipeline inp \<noteq> None"

definition persistStepEntry :: "'c step_env \<Rightarrow> 'c RunInput \<Rightarrow> nat \<Rightarrow> string \<Rightarrow> 'c run_state \<Rightarrow> 'c run_state" where
  "persistStepEntry env inp i stepID s =
     (if stepPersistEnabled env inp \<and> se_storeEntry env i then s\<lparr>rs_currentStep := stepID\<rparr> else s)"

definition persistStepOutput ::
  "'c step_env \<Rightarrow> 'c RunInput \<Rightarrow> bool \<Rightarrow> string \<Rightarrow> string \<Rightarrow> 'c \<Rightarrow> 'c run_state \<Rightarrow> 'c run_state" where
  "persistStepOutput env inp ok stepID out cost s =
     (if stepPersistEnabled env inp \<and> ok
      then s\<lparr>rs_stored := (rs_stored s)(stepID \<mapsto> se_scrub env out), rs_storedCost := cost\<rparr> else s)"

definition step_for_resolve :: "'c RunInput \<Rightarrow> Step \<Rightarrow> Step" where
  "step_for_resolve inp st =
     (if ri_TierOverride inp \<noteq> [] \<and> st_Type st = StepAgentRun \<and> st_ModelOverride st = []
      then st\<lparr>st_Complexity := ri_TierOverride inp\<rparr> else st)"

text \<open>\<open>Inl\<close> is the run's terminal result, \<open>Inr\<close> lets the loop go on.\<close>

definition dryRunStep :: "'c step_env \<Rightarrow> Step \<Rightarrow> string \<Rightarrow> string \<Rightarrow> 'c run_state \<Rightarrow> 'c run_state" where
  "dryRunStep env st prompt tier s =
     (let r = rs_result s; est = (if st_Type st = StepAgentRun then se_estimate env prompt else c_zero (se_costs env));
          d = \<lparr>dr_StepID = st_ID st, dr_StepType = StepType_text (st_Type st), dr_WouldPass = prompt, dr_Tier = tier,
               dr_EstimatedCost = est\<rparr>
      in s\<lparr>rs_result := r\<lparr>rr_CostUSD := (if st_Type st = StepAgentRun then c_add (se_costs env) (rr_CostUSD r) est else rr_CostUSD r),
             rr_WouldExecute := rr_WouldExecute r @ [d],
             rr_StepOutputs := (rr_StepOutputs r)(st_ID st \<mapsto> ''<dry-run>'')\<rparr>\<rparr>)"

definition record_answer ::
  "'c step_env \<Rightarrow> 'c RunInput \<Rightarrow> nat \<Rightarrow> Step \<Rightarrow> 'c step_answer \<Rightarrow> 'c run_state \<Rightarrow> 'c run_state + 'c run_state" where
  "record_answer env inp i st a s =
     (let C = se_costs env; r = rs_result s
      in case a of
           StepSuspends token stepID \<Rightarrow> Inl (suspendRun token stepID s)
         | StepErrs msg cost \<Rightarrow>
             Inl (failRun inp (st_ID st) msg True (s\<lparr>rs_result := r\<lparr>rr_CostUSD := c_add C (rr_CostUSD r) cost\<rparr>\<rparr>))
         | StepDone out cost \<Rightarrow>
             (let total = c_add C (rr_CostUSD r) cost;
                  s = s\<lparr>rs_result := r\<lparr>rr_StepOutputs := (rr_StepOutputs r)(st_ID st \<mapsto> out), rr_CostUSD := total\<rparr>,
                        rs_journal := rs_journal s @ [StepCompleted (st_ID st) (se_scrub env out) cost]\<rparr>;
                  s = persistStepOutput env inp (se_store env i) (st_ID st) out total s
              in if over_cap C inp total
                 then Inl (failRun inp (st_ID st) (costCapExceededMessage C total (effectiveCostCap C inp) (st_ID st)) True s)
                 else Inr s))"

definition budget_spent :: "'c step_env \<Rightarrow> 'c RunInput \<Rightarrow> string \<Rightarrow> 'c \<Rightarrow> bool" where
  "budget_spent env inp prompt cost \<longleftrightarrow>
     (let C = se_costs env; cap = effectiveCostCap C inp
      in c_less C (c_zero C) cap \<and> (c_le C cap cost \<or> c_less C cap (c_add C cost (se_estimate env prompt))))"

definition runLinearStep ::
  "'c step_env \<Rightarrow> 'c RunInput \<Rightarrow> nat \<Rightarrow> Step \<Rightarrow> 'c run_state \<Rightarrow> 'c run_state + 'c run_state" where
  "runLinearStep env inp i st s =
     (let C = se_costs env; r = rs_result s; outs = rr_StepOutputs r; prompt = se_prompt env st outs
      in if st_If st \<noteq> [] \<and> \<not> se_cond env st outs then
           Inr (persistStepOutput env inp (se_store env i) (st_ID st) skipped_output (rr_CostUSD r)
             (s\<lparr>rs_result := r\<lparr>rr_StepOutputs := outs(st_ID st \<mapsto> skipped_output)\<rparr>,
                rs_journal := rs_journal s @ [StepSkipped (st_ID st) (st_If st)]\<rparr>))
         else
           (let s = persistStepEntry env inp i (st_ID st) s
            in case se_resolve env i (step_for_resolve inp st) of
                 Inl e \<Rightarrow>
                   (let s = failRun inp (st_ID st) e False
                              (s\<lparr>rs_journal := rs_journal s @ [StepFailed (st_ID st) ''tier_resolution'' e]\<rparr>)
                    in Inl (s\<lparr>rs_result := (rs_result s)\<lparr>rr_ErrorMessage := ''tier resolver: '' @ e\<rparr>\<rparr>))
               | Inr tier \<Rightarrow>
                   (case ri_Mode inp of
                      ModeDryRun \<Rightarrow> Inr (dryRunStep env st prompt tier s)
                    | ModeRun \<Rightarrow>
                        if budget_spent env inp prompt (rr_CostUSD r)
                        then Inl (failRun inp (st_ID st)
                               (costCapExceededMessage C (rr_CostUSD r) (effectiveCostCap C inp) (st_ID st)) True s)
                        else record_answer env inp i st (se_run env i st tier prompt outs)
                               (s\<lparr>rs_journal := rs_journal s @ [StepStarted (st_ID st) i tier]\<rparr>)
                    | ModeOther _ \<Rightarrow> Inr s)))"

definition linear_iteration ::
  "'c step_env \<Rightarrow> 'c RunInput \<Rightarrow> nat \<Rightarrow> Step \<Rightarrow> 'c run_state \<Rightarrow> 'c run_state + 'c run_state" where
  "linear_iteration env inp i st s =
     (case se_ctx env i of
        Some e \<Rightarrow> Inl (failRun inp (if i > 0 then st_ID (ds_Steps (ri_dsl inp) ! (i - 1)) else st_ID st) e False s)
      | None \<Rightarrow>
          if ri_resume inp \<and> rr_StepOutputs (rs_result s) (st_ID st) \<noteq> None then Inr s
          else runLinearStep env inp i st s)"

fun linear_loop :: "'c step_env \<Rightarrow> 'c RunInput \<Rightarrow> nat \<Rightarrow> Step list \<Rightarrow> 'c run_state \<Rightarrow> 'c run_state + 'c run_state" where
  "linear_loop env inp i [] s = Inr s"
| "linear_loop env inp i (st # ss) s =
     (case linear_iteration env inp i st s of
        Inl t \<Rightarrow> Inl t
      | Inr t \<Rightarrow> linear_loop env inp (Suc i) ss t)"

definition linear_finish :: "'c RunInput \<Rightarrow> 'c run_state \<Rightarrow> 'c run_state" where
  "linear_finish inp s =
     (let r = rs_result s;
          s = s\<lparr>rs_result := r\<lparr>rr_Output := first_output (rr_StepOutputs r) (rev (ds_Steps (ri_dsl inp)))\<rparr>\<rparr>
      in case ri_Mode inp of
           ModeDryRun \<Rightarrow> s\<lparr>rs_result := (rs_result s)\<lparr>rr_Status := ''DRY_RUN_OK''\<rparr>\<rparr>
         | ModeRun \<Rightarrow> completeRun inp s
         | ModeOther m \<Rightarrow> s\<lparr>rs_result := (rs_result s)\<lparr>rr_Status := ''FAILED'',
             rr_ErrorMessage := ''unknown run mode '' @ go_quote m\<rparr>\<rparr>)"

definition run_linear :: "'c step_env \<Rightarrow> 'c RunInput \<Rightarrow> 'c run_state \<Rightarrow> 'c run_state" where
  "run_linear env inp s =
     (case linear_loop env inp 0 (ds_Steps (ri_dsl inp)) s of Inl s \<Rightarrow> s | Inr s \<Rightarrow> linear_finish inp s)"

text \<open>The gates in the code's order, then the choice of the scheduler; the concurrent one gets its definition.\<close>

definition run_gates :: "'c costs \<Rightarrow> 'c RunInput \<Rightarrow> 'c run_state \<Rightarrow> 'c run_state option" where
  "run_gates C inp s =
     (case statusGate inp s of Some t \<Rightarrow> Some t
      | None \<Rightarrow> (case resumeCostCapGate C inp s of Some t \<Rightarrow> Some t | None \<Rightarrow> agentlessGate inp s))"

definition dag_definition :: "'c RunInput \<Rightarrow> 'c DSL option" where
  "dag_definition inp =
     (let d = ri_dsl inp
      in if ri_Mode inp = ModeDryRun then None
         else if parallelismMode d = ParallelismAuto then (if hasCallPipeline d then None else Some (deriveAutoNeeds d))
         else if parallelismMode d = ParallelismOff then None
         else if hasNeeds d then Some d else None)"

definition runDSL ::
  "'c step_env \<Rightarrow> ('c DSL \<Rightarrow> 'c run_state \<Rightarrow> 'c run_state) \<Rightarrow> 'c RunInput \<Rightarrow> 'c run_state" where
  "runDSL env dag inp =
     (let s = run_start (se_costs env) inp
      in case run_gates (se_costs env) inp s of
           Some t \<Rightarrow> t
         | None \<Rightarrow> (case dag_definition inp of Some d \<Rightarrow> dag d s | None \<Rightarrow> run_linear env inp s))"


subsection \<open>The labels of a cancelled run\<close>

definition runWasCancelled :: "bool \<Rightarrow> string option \<Rightarrow> bool" where
  "runWasCancelled requested ctxErr \<longleftrightarrow> requested \<or> ctxErr = Some ''context canceled''"

definition cancelledRunMessage :: "string \<Rightarrow> string \<Rightarrow> string" where
  "cancelledRunMessage current failedAtStep =
     (if current \<noteq> [] \<and> current \<noteq> ''context canceled'' then current
      else if failedAtStep \<noteq> [] then ''run cancelled at step '' @ failedAtStep else ''run cancelled'')"

text \<open>The deferred relabelling of \<^verbatim>\<open>runDSL\<close>, which runs before the row is written.\<close>

definition label_cancelled :: "bool \<Rightarrow> 'c RoutineResult \<Rightarrow> 'c RoutineResult" where
  "label_cancelled cancelled r =
     (if rr_Status r = ''FAILED'' \<and> cancelled
      then r\<lparr>rr_Status := ''CANCELLED'', rr_ErrorMessage := cancelledRunMessage (rr_ErrorMessage r) (rr_FailedAtStep r)\<rparr>
      else r)"

definition terminalStatus :: "string \<Rightarrow> string option" where
  "terminalStatus status =
     (if status = ''COMPLETED'' then Some ''completed'' else if status = ''FAILED'' then Some ''failed''
      else if status = ''CANCELLED'' then Some ''cancelled'' else if status = ''DRY_RUN_OK'' then Some ''dry_run''
      else if status = ''DEDUPED'' \<or> status = ''WAITING'' then None else Some ''failed'')"

text \<open>\<^verbatim>\<open>persistRunTerminal\<close> with \<^verbatim>\<open>MarkTerminal\<close>, whose update leaves a terminal row alone.\<close>

definition persistRunTerminal :: "'c RoutineResult \<Rightarrow> string \<Rightarrow> string" where
  "persistRunTerminal r row =
     (case terminalStatus (rr_Status r) of
        None \<Rightarrow> row
      | Some t \<Rightarrow> if row \<in> {''completed'', ''failed'', ''cancelled'', ''interrupted'', ''dry_run''} then row else t)"

text \<open>The second relabelling, at the end of \<^verbatim>\<open>Run\<close>, of what the caller gets.\<close>

definition label_returned :: "bool \<Rightarrow> 'c RoutineResult \<Rightarrow> 'c RoutineResult" where
  "label_returned cancelled r =
     (if cancelled
      then r\<lparr>rr_Status := ''CANCELLED'',
             rr_ErrorMessage := (if rr_ErrorMessage r = [] then ''run cancelled'' else rr_ErrorMessage r)\<rparr>
      else r)"

definition finish_run :: "bool \<Rightarrow> bool \<Rightarrow> 'c RoutineResult \<Rightarrow> string \<Rightarrow> 'c RoutineResult \<times> string" where
  "finish_run early late r row =
     (let r = label_cancelled early r in (label_returned late r, persistRunTerminal r row))"

text \<open>What a row says of a returned status.\<close>

definition row_says :: "string \<Rightarrow> string \<Rightarrow> bool" where
  "row_says status row \<longleftrightarrow> (case terminalStatus status of Some t \<Rightarrow> row = t | None \<Rightarrow> row = ''waiting'')"

text \<open>
  The row and the result returned to the caller disagree in exactly one case: a cancellation is seen at
  the end of a run that completed, that parked at an approval, or that failed before the cancellation.
  Then the caller is told the run was cancelled while the row says it completed, failed, or still waits.
\<close>

theorem cancel_labels_agree:
  assumes status: "rr_Status r = ''COMPLETED'' \<or> rr_Status r = ''FAILED'' \<or> rr_Status r = ''WAITING''"
    and row: "row = (if rr_Status r = ''WAITING'' then ''waiting'' else ''running'')"
    and seen: "early \<longrightarrow> late"
  shows "row_says (rr_Status (fst (finish_run early late r row))) (snd (finish_run early late r row))
     \<longleftrightarrow> \<not> late \<or> early \<and> rr_Status r = ''FAILED''"
  using status seen
  by (elim disjE; cases early; cases late)
    (simp_all add: row finish_run_def label_cancelled_def label_returned_def persistRunTerminal_def row_says_def
      terminalStatus_def)

lemma cancel_labels_agree_witness:
  "\<not> row_says (rr_Status (fst (finish_run False True
       ((undefined :: int RoutineResult)\<lparr>rr_Status := ''WAITING''\<rparr>) ''waiting'')))
     (snd (finish_run False True ((undefined :: int RoutineResult)\<lparr>rr_Status := ''WAITING''\<rparr>) ''waiting''))"
  using cancel_labels_agree [of "(undefined :: int RoutineResult)\<lparr>rr_Status := ''WAITING''\<rparr>" "''waiting''" False True] by simp

subsection \<open>A killed run resumes where it was\<close>

definition result_of :: "'c run_state + 'c run_state \<Rightarrow> 'c RoutineResult + 'c RoutineResult" where
  "result_of = map_sum rs_result rs_result"

lemma result_of_simps [simp]: "result_of (Inl s) = Inl (rs_result s)" "result_of (Inr s) = Inr (rs_result s)"
  by (simp_all add: result_of_def)

lemma persist_result [simp]:
  "rs_result (persistStepEntry env inp i x s) = rs_result s"
  "rs_result (persistStepOutput env inp ok x out cost s) = rs_result s"
  by (simp_all add: persistStepEntry_def persistStepOutput_def)

lemma failRun_result [simp]: "rs_result (failRun inp x msg b s) =
    (rs_result s)\<lparr>rr_Status := ''FAILED'', rr_FailedAtStep := x, rr_ErrorMessage := msg\<rparr>"
  by (simp add: failRun_def)

lemma suspendRun_result [simp]: "rs_result (suspendRun token x s) =
    (rs_result s)\<lparr>rr_Status := ''WAITING'', rr_CurrentStep := x, rr_WaitpointToken := token\<rparr>"
  by (simp add: suspendRun_def)

lemma completeRun_result [simp]: "rs_result (completeRun inp s) = (rs_result s)\<lparr>rr_Status := ''COMPLETED''\<rparr>"
  by (simp add: completeRun_def)

text \<open>What a resumed run is given: the same request with the restored outputs and cost.\<close>

definition resumed :: "'c RunInput \<Rightarrow> 'c run_state \<Rightarrow> 'c RunInput" where
  "resumed inp s = inp\<lparr>ri_resume := True, ri_restoredOutputs := rs_stored s,
     ri_restoredCostUSD := rs_storedCost s, ri_resumeCurrentStepID := rs_currentStep s\<rparr>"

lemma resumed_simps [simp]:
  "ri_Mode (resumed inp s) = ri_Mode inp" "ri_pipeline (resumed inp s) = ri_pipeline inp"
  "ri_dsl (resumed inp s) = ri_dsl inp" "ri_TierOverride (resumed inp s) = ri_TierOverride inp"
  "ri_remainingBudget (resumed inp s) = ri_remainingBudget inp" "ri_resume (resumed inp s)"
  "ri_restoredOutputs (resumed inp s) = rs_stored s" "ri_restoredCostUSD (resumed inp s) = rs_storedCost s"
  "effectiveCostCap C (resumed inp s) = effectiveCostCap C inp" "over_cap C (resumed inp s) = over_cap C inp"
  "budget_spent env (resumed inp s) = budget_spent env inp" "dag_definition (resumed inp s) = dag_definition inp"
  "step_for_resolve (resumed inp s) = step_for_resolve inp"
  by (simp_all add: resumed_def effectiveCostCap_def over_cap_def budget_spent_def dag_definition_def
      step_for_resolve_def fun_eq_iff Let_def)

lemma record_answer_result:
  "result_of (record_answer env inp i st a s) = (let C = se_costs env; r = rs_result s in case a of
      StepSuspends token x \<Rightarrow> Inl (r\<lparr>rr_Status := ''WAITING'', rr_CurrentStep := x, rr_WaitpointToken := token\<rparr>)
    | StepErrs msg cost \<Rightarrow> Inl (r\<lparr>rr_CostUSD := c_add C (rr_CostUSD r) cost, rr_Status := ''FAILED'',
        rr_FailedAtStep := st_ID st, rr_ErrorMessage := msg\<rparr>)
    | StepDone out cost \<Rightarrow> (let total = c_add C (rr_CostUSD r) cost;
          r = r\<lparr>rr_StepOutputs := (rr_StepOutputs r)(st_ID st \<mapsto> out), rr_CostUSD := total\<rparr>
        in if over_cap C inp total
           then Inl (r\<lparr>rr_Status := ''FAILED'', rr_FailedAtStep := st_ID st,
             rr_ErrorMessage := costCapExceededMessage C total (effectiveCostCap C inp) (st_ID st)\<rparr>)
           else Inr r))"
  by (cases a) (auto simp: record_answer_def Let_def)

lemma runLinearStep_result:
  assumes "rs_result s = rs_result t"
  shows "result_of (runLinearStep env (resumed inp k) i st s) = result_of (runLinearStep env inp i st t)"
  using assms
  by (simp add: runLinearStep_def Let_def record_answer_result dryRunStep_def split: sum.split RunMode.split step_answer.split)

lemma runLinearStep_dom:
  assumes "runLinearStep env inp i st s = Inr t" "ri_Mode inp = ModeRun"
  shows "dom (rr_StepOutputs (rs_result t)) = insert (st_ID st) (dom (rr_StepOutputs (rs_result s)))"
  using assms
  by (auto simp: runLinearStep_def record_answer_def Let_def split: sum.splits if_splits step_answer.splits)

lemma linear_loop_append:
  "linear_loop env inp i (xs @ ys) s =
     (case linear_loop env inp i xs s of Inl t \<Rightarrow> Inl t | Inr t \<Rightarrow> linear_loop env inp (i + length xs) ys t)"
proof (induction xs arbitrary: i s)
  case (Cons st xs)
  show ?case by (cases "linear_iteration env inp i st s") (simp_all add: Cons.IH split: sum.split)
qed simp

lemma linear_iteration_fresh: "\<not> ri_resume inp \<Longrightarrow> linear_iteration env inp i st s =
    (case se_ctx env i of Some e \<Rightarrow> Inl (failRun inp (if i > 0 then st_ID (ds_Steps (ri_dsl inp) ! (i - 1)) else st_ID st) e False s)
     | None \<Rightarrow> runLinearStep env inp i st s)"
  by (simp add: linear_iteration_def)

text \<open>The steps behind the kill run as they would have, from any state with the same result.\<close>

lemma linear_iteration_resumed:
  assumes "rs_result s = rs_result t" and "\<not> ri_resume inp" and "rr_StepOutputs (rs_result s) (st_ID st) = None"
  shows "result_of (linear_iteration env (resumed inp k) i st s) = result_of (linear_iteration env inp i st t)"
  using assms runLinearStep_result [OF assms(1), of env inp k i st]
  by (cases "se_ctx env i") (simp_all add: linear_iteration_def)

lemma linear_iteration_dom:
  assumes "linear_iteration env inp i st s = Inr t" "ri_Mode inp = ModeRun"
  shows "dom (rr_StepOutputs (rs_result t)) = insert (st_ID st) (dom (rr_StepOutputs (rs_result s)))"
  using assms runLinearStep_dom [of env inp i st s t]
  by (auto simp: linear_iteration_def split: option.splits if_splits)

lemma linear_loop_resumed:
  assumes "rs_result s = rs_result t" and "ri_Mode inp = ModeRun" and "\<not> ri_resume inp"
    and "distinct (map st_ID ss)" and "st_ID ` set ss \<inter> dom (rr_StepOutputs (rs_result s)) = {}"
  shows "result_of (linear_loop env (resumed inp k) i ss s) = result_of (linear_loop env inp i ss t)"
  using assms
proof (induction ss arbitrary: i s t)
  case (Cons st ss)
  have "rr_StepOutputs (rs_result s) (st_ID st) = None" using Cons.prems(5) by auto
  from linear_iteration_resumed [OF Cons.prems(1,3) this]
  have eq: "result_of (linear_iteration env (resumed inp k) i st s) = result_of (linear_iteration env inp i st t)" .
  show ?case
  proof (cases "linear_iteration env inp i st t")
    case (Inl t')
    then show ?thesis using eq by (cases "linear_iteration env (resumed inp k) i st s") simp_all
  next
    case (Inr t')
    then obtain s' where s': "linear_iteration env (resumed inp k) i st s = Inr s'" "rs_result s' = rs_result t'"
      using eq by (cases "linear_iteration env (resumed inp k) i st s") simp_all
    have "st_ID ` set ss \<inter> dom (rr_StepOutputs (rs_result s')) = {}"
      using linear_iteration_dom [OF s'(1)] Cons.prems(2,4,5) by auto
    then show ?thesis using Cons.IH [OF s'(2), of "Suc i"] Cons.prems s' Inr by simp
  qed
qed simp

lemma linear_loop_skips:
  assumes "ri_resume inp" and "st_ID ` set ss \<subseteq> dom (rr_StepOutputs (rs_result s))"
    and "\<And>j. i \<le> j \<Longrightarrow> j < i + length ss \<Longrightarrow> se_ctx env j = None"
  shows "linear_loop env inp i ss s = Inr s"
  using assms by (induction ss arbitrary: i) (auto simp: linear_iteration_def)

text \<open>A state of a fresh run whose projection keeps up: what is stored is what the run has.\<close>

definition kept_up :: "'c step_env \<Rightarrow> 'c RunInput \<Rightarrow> 'c run_state \<Rightarrow> bool" where
  "kept_up env inp s \<longleftrightarrow>
     rs_stored s = map_option (se_scrub env) \<circ> rr_StepOutputs (rs_result s)
     \<and> rs_storedCost s = rr_CostUSD (rs_result s)
     \<and> rs_result s = (newResult (se_costs env) inp)\<lparr>rr_StepOutputs := rr_StepOutputs (rs_result s),
         rr_CostUSD := rr_CostUSD (rs_result s)\<rparr>"

lemma kept_up_step:
  assumes "kept_up env inp s" and "runLinearStep env inp i st s = Inr t" and "ri_Mode inp = ModeRun"
    and "stepPersistEnabled env inp" and "se_store env i" and "se_scrub env skipped_output = skipped_output"
  shows "kept_up env inp t"
proof (cases "st_If st \<noteq> [] \<and> \<not> se_cond env st (rr_StepOutputs (rs_result s))")
  case True
  then have "t = persistStepOutput env inp (se_store env i) (st_ID st) skipped_output (rr_CostUSD (rs_result s))
     (s\<lparr>rs_result := (rs_result s)\<lparr>rr_StepOutputs := (rr_StepOutputs (rs_result s))(st_ID st \<mapsto> skipped_output)\<rparr>,
        rs_journal := rs_journal s @ [StepSkipped (st_ID st) (st_If st)]\<rparr>)"
    using assms(2) by (simp add: runLinearStep_def Let_def)
  then show ?thesis using assms by (cases "rs_result s") (auto simp: kept_up_def persistStepOutput_def newResult_def fun_eq_iff)
next
  case False
  then obtain tier out cost where "t = persistStepOutput env inp (se_store env i) (st_ID st) out
      (c_add (se_costs env) (rr_CostUSD (rs_result s)) cost)
      ((persistStepEntry env inp i (st_ID st) s)\<lparr>rs_result := (rs_result s)\<lparr>rr_StepOutputs := (rr_StepOutputs (rs_result s))(st_ID st \<mapsto> out),
          rr_CostUSD := c_add (se_costs env) (rr_CostUSD (rs_result s)) cost\<rparr>,
        rs_journal := rs_journal (persistStepEntry env inp i (st_ID st) s) @ [StepStarted (st_ID st) i tier]
          @ [StepCompleted (st_ID st) (se_scrub env out) cost]\<rparr>)"
    using assms(2,3) by (auto simp: runLinearStep_def record_answer_def Let_def split: sum.splits if_splits step_answer.splits)
  then show ?thesis using assms(1,4,5)
    by (cases "rs_result s") (auto simp: kept_up_def persistStepOutput_def persistStepEntry_def newResult_def fun_eq_iff)
qed

lemma linear_loop_kept_up:
  assumes "linear_loop env inp i ss s = Inr t" and "kept_up env inp s" and "ri_Mode inp = ModeRun" and "\<not> ri_resume inp"
    and "stepPersistEnabled env inp" and "\<And>i. se_store env i" and "se_scrub env skipped_output = skipped_output"
  shows "kept_up env inp t \<and> dom (rr_StepOutputs (rs_result t)) = st_ID ` set ss \<union> dom (rr_StepOutputs (rs_result s))
     \<and> (\<forall>j. i \<le> j \<longrightarrow> j < i + length ss \<longrightarrow> se_ctx env j = None)"
  using assms(1,2)
proof (induction ss arbitrary: i s)
  case (Cons st ss)
  obtain s' where s': "linear_iteration env inp i st s = Inr s'" "linear_loop env inp (Suc i) ss s' = Inr t"
    using Cons.prems(1) by (auto split: sum.splits)
  then have c: "se_ctx env i = None" "runLinearStep env inp i st s = Inr s'"
    using assms(4) by (auto simp: linear_iteration_fresh split: option.splits)
  have "kept_up env inp s'" by (rule kept_up_step [OF Cons.prems(2) c(2) assms(3,5) assms(6) assms(7)])
  from Cons.IH [OF s'(2) this] have ih: "kept_up env inp t"
    "dom (rr_StepOutputs (rs_result t)) = st_ID ` set ss \<union> dom (rr_StepOutputs (rs_result s'))"
    "\<And>j. Suc i \<le> j \<Longrightarrow> j < Suc i + length ss \<Longrightarrow> se_ctx env j = None" by blast+
  have "se_ctx env j = None" if "i \<le> j" "j < i + length (st # ss)" for j
    using ih(3) [of j] c(1) that by (cases "j = i") simp_all
  then show ?case using ih(1,2) runLinearStep_dom [OF c(2) assms(3)] by auto
qed simp



subsection \<open>Concrete runs\<close>

definition int_costs :: "int costs" where
  "int_costs = \<lparr>c_zero = 0, c_add = (+), c_sub = (-), c_less = (<), c_le = (\<le>), c_show = go_itoa, c_negligible = 1\<rparr>"

definition demo_step_env :: "int step_env" where
  "demo_step_env = \<lparr>se_costs = int_costs, se_ctx = (\<lambda>_. None), se_prompt = (\<lambda>st outs. st_Raw st),
     se_cond = (\<lambda>st outs. outs ''a'' \<noteq> None), se_resolve = (\<lambda>i st. Inr (st_Complexity st)),
     se_run = (\<lambda>i st tier prompt outs. if st_ID st = ''c'' then StepErrs ''refused'' 2 else StepDone (''out '' @ st_ID st) 3),
     se_estimate = (\<lambda>p. 0), se_scrub = (\<lambda>x. x), se_runStore = True, se_storeEntry = (\<lambda>_. True), se_store = (\<lambda>_. True),
     se_depth = 0\<rparr>"

definition demo_run_input :: "Step list \<Rightarrow> int RunInput" where
  "demo_run_input ss = \<lparr>ri_Mode = ModeRun, ri_pipeline = Some \<lparr>pl_ID = ''p1'', pl_Status = ''active''\<rparr>,
     ri_dsl = demo_routine ss, ri_TierOverride = [], ri_remainingBudget = 10, ri_resume = False,
     ri_restoredOutputs = Map.empty, ri_restoredCostUSD = 0, ri_resumeCurrentStepID = []\<rparr>"

definition demo_linear :: "int RunInput" where
  "demo_linear = demo_run_input [demo_node ''a'' [] [], demo_node ''b'' [] [], demo_node ''c'' [] []]"

definition demo_killed :: "int run_state" where
  "demo_killed = (case linear_loop demo_step_env demo_linear 0 (take 2 (ds_Steps (ri_dsl demo_linear)))
     (run_start int_costs demo_linear) of Inr s \<Rightarrow> s | Inl s \<Rightarrow> s)"


end
