(* ===== verification/Routine_Dag.thy ===== *)
theory Routine_Dag
  imports Routine_Run
begin

text \<open>
  The concurrent scheduler of a routine (\<^verbatim>\<open>internal/pipeline/dag.go\<close>: \<open>runDAG\<close>, \<open>executeOneStep\<close>).  The
  scheduler runs the steps in waves: it spawns a goroutine for each step whose needs are completed, at
  most \<open>dagWaveConcurrency\<close> at once, waits for all of them, and goes on.  A state holds the variables
  the goroutines share; an event is one section of one of them between two synchronisations, or an
  answer from outside, and a run is any list of events the state admits.
\<close>

subsection \<open>State\<close>

definition dagWaveConcurrency :: nat where "dagWaveConcurrency = 12"

text \<open>Where a step's goroutine is, with what it holds in its own variables.\<close>

datatype 'c dag_task =
    Spawned
  | Rendering
  | Deciding "string \<rightharpoonup> string"
  | Skipping
  | Resolving Step
  | Executing string
  | Flushing string 'c 'c
  | Failing string string
  | Suspending string string
  | Cancelling

text \<open>Where the scheduler is: the steps of the wave spawned so far, then those to spawn.\<close>

datatype dag_phase =
    Scheduling
  | Spawning "nat list" "nat list"
  | Draining "nat list"
  | WaveFlushing "nat list"
  | Returned

record 'c dag_state =
  dg_run :: "'c run_state"
  dg_ctxErr :: "string option"
  dg_cancelled :: bool
  dg_completed :: "string set"
  dg_firstErr :: "(string \<times> string) option"
  dg_suspended :: "(string \<times> string) option"
  dg_slots :: nat
  dg_tasks :: "nat \<rightharpoonup> 'c dag_task"
  dg_phase :: dag_phase

definition dg_outputs :: "'c dag_state \<Rightarrow> string \<rightharpoonup> string" where
  "dg_outputs s = rr_StepOutputs (rs_result (dg_run s))"

definition dg_cost :: "'c dag_state \<Rightarrow> 'c" where
  "dg_cost s = rr_CostUSD (rs_result (dg_run s))"

definition step_at :: "'c DSL \<Rightarrow> nat \<Rightarrow> Step" where
  "step_at d i = ds_Steps d ! i"

definition id_at :: "'c DSL \<Rightarrow> nat \<Rightarrow> string" where
  "id_at d i = st_ID (step_at d i)"

subsection \<open>The shared variables\<close>

definition set_task :: "nat \<Rightarrow> 'c dag_task \<Rightarrow> 'c dag_state \<Rightarrow> 'c dag_state" where
  "set_task i t s = s\<lparr>dg_tasks := (dg_tasks s)(i \<mapsto> t)\<rparr>"

definition end_task :: "nat \<Rightarrow> 'c dag_state \<Rightarrow> 'c dag_state" where
  "end_task i s = s\<lparr>dg_tasks := (dg_tasks s)(i := None), dg_slots := dg_slots s - 1\<rparr>"

definition put_output :: "string \<Rightarrow> string \<Rightarrow> 'c dag_state \<Rightarrow> 'c dag_state" where
  "put_output x out s = s\<lparr>dg_run := (dg_run s)\<lparr>rs_result := (rs_result (dg_run s))
     \<lparr>rr_StepOutputs := (dg_outputs s)(x \<mapsto> out)\<rparr>\<rparr>\<rparr>"

definition put_cost :: "'c \<Rightarrow> 'c dag_state \<Rightarrow> 'c dag_state" where
  "put_cost c s = s\<lparr>dg_run := (dg_run s)\<lparr>rs_result := (rs_result (dg_run s))\<lparr>rr_CostUSD := c\<rparr>\<rparr>\<rparr>"

definition log_emit :: "'c emit \<Rightarrow> 'c dag_state \<Rightarrow> 'c dag_state" where
  "log_emit e s = s\<lparr>dg_run := (dg_run s)\<lparr>rs_journal := rs_journal (dg_run s) @ [e]\<rparr>\<rparr>"

text \<open>\<^verbatim>\<open>CompareAndSwap(nil, \<dots>)\<close>: the first value stays.\<close>

definition first_of :: "'a option \<Rightarrow> 'a \<Rightarrow> 'a option" where
  "first_of old new = (case old of None \<Rightarrow> Some new | Some x \<Rightarrow> Some x)"

subsection \<open>A step's goroutine\<close>

text \<open>Its own sections (\<^verbatim>\<open>executeOneStep\<close>), one branch per place.\<close>

definition task_section :: "'c step_env \<Rightarrow> 'c DSL \<Rightarrow> nat \<Rightarrow> 'c dag_task \<Rightarrow> 'c dag_state \<Rightarrow> 'c dag_state option" where
  "task_section env d i t s = (let st = step_at d i in
     case t of
       Spawned \<Rightarrow> Some (if dg_cancelled s \<or> dg_ctxErr s \<noteq> None then end_task i s else set_task i Rendering s)
     | Rendering \<Rightarrow> Some (set_task i (Deciding (dg_outputs s)) s)
     | Deciding snap \<Rightarrow>
         Some (if st_If st \<noteq> [] \<and> \<not> se_cond env st snap
               then set_task i Skipping (log_emit (StepSkipped (st_ID st) (st_If st)) s)
               else set_task i (Resolving st) s)
     | Skipping \<Rightarrow> Some (end_task i (put_output (st_ID st) skipped_output s))
     | Failing x msg \<Rightarrow> Some (set_task i Cancelling (s\<lparr>dg_firstErr := first_of (dg_firstErr s) (x, msg)\<rparr>))
     | Suspending token x \<Rightarrow> Some (set_task i Cancelling (s\<lparr>dg_suspended := first_of (dg_suspended s) (token, x)\<rparr>))
     | Cancelling \<Rightarrow> Some (end_task i (s\<lparr>dg_cancelled := True\<rparr>))
     | _ \<Rightarrow> None)"

text \<open>The tier resolver's answer, the step runner's, and the database's to the flush of the output.\<close>

definition task_resolved :: "'c DSL \<Rightarrow> nat \<Rightarrow> 'c dag_task \<Rightarrow> string + string \<Rightarrow> 'c dag_state \<Rightarrow> 'c dag_state option" where
  "task_resolved d i t a s = (let st = step_at d i in
     case t of
       Resolving _ \<Rightarrow> Some (case a of
           Inl e \<Rightarrow> set_task i (Failing (st_ID st) (''tier resolver: '' @ e)) (log_emit (StepFailed (st_ID st) ''tier_resolution'' e) s)
         | Inr tier \<Rightarrow> set_task i (Executing tier) (log_emit (StepStarted (st_ID st) i tier) s))
     | _ \<Rightarrow> None)"

definition task_answered :: "'c step_env \<Rightarrow> 'c DSL \<Rightarrow> nat \<Rightarrow> 'c dag_task \<Rightarrow> 'c step_answer \<Rightarrow> 'c dag_state \<Rightarrow> 'c dag_state option" where
  "task_answered env d i t a s = (let st = step_at d i; C = se_costs env in
     case t of
       Executing _ \<Rightarrow> Some (case a of
           StepSuspends token x \<Rightarrow> set_task i (Suspending token x) s
         | StepErrs msg cost \<Rightarrow> set_task i (Failing (st_ID st) msg) (put_cost (c_add C (dg_cost s) cost) s)
         | StepDone out cost \<Rightarrow> (let now = c_add C (dg_cost s) cost
             in set_task i (Flushing out cost now) (put_cost now (put_output (st_ID st) out s))))
     | _ \<Rightarrow> None)"

definition task_stored :: "'c step_env \<Rightarrow> 'c RunInput \<Rightarrow> 'c DSL \<Rightarrow> nat \<Rightarrow> 'c dag_task \<Rightarrow> bool \<Rightarrow> 'c dag_state \<Rightarrow> 'c dag_state option" where
  "task_stored env inp d i t ok s = (let st = step_at d i; C = se_costs env in
     case t of
       Flushing out cost now \<Rightarrow> Some (
         let s = log_emit (StepCompleted (st_ID st) (se_scrub env out) cost)
                   (s\<lparr>dg_run := persistStepOutput env inp ok (st_ID st) out now (dg_run s)\<rparr>)
         in if over_cap C inp now
            then set_task i (Failing (st_ID st) (costCapExceededMessage C now (effectiveCostCap C inp) (st_ID st))) s
            else end_task i s)
     | _ \<Rightarrow> None)"

subsection \<open>The scheduler's goroutine\<close>

definition ready_steps :: "'c DSL \<Rightarrow> string set \<Rightarrow> nat list" where
  "ready_steps d completed =
     filter (\<lambda>i. id_at d i \<notin> completed \<and> (\<forall>dep\<in>set (st_Needs (step_at d i)). dep \<in> completed)) [0..<length (ds_Steps d)]"

definition dag_output :: "'c DSL \<Rightarrow> (string \<rightharpoonup> string) \<Rightarrow> string" where
  "dag_output d outs =
     (let referenced = concat (map st_Needs (ds_Steps d));
          leaf = (if hasNeeds d then first_output outs (filter (\<lambda>st. st_ID st \<notin> set referenced) (ds_Steps d)) else [])
      in if leaf = [] then first_output outs (rev (ds_Steps d)) else leaf)"

definition dag_return :: "('c run_state \<Rightarrow> 'c run_state) \<Rightarrow> 'c dag_state \<Rightarrow> 'c dag_state" where
  "dag_return f s = s\<lparr>dg_run := f (dg_run s), dg_phase := Returned\<rparr>"

definition dag_complete :: "'c RunInput \<Rightarrow> 'c DSL \<Rightarrow> 'c dag_state \<Rightarrow> 'c dag_state" where
  "dag_complete inp d s = dag_return (\<lambda>r. completeRun inp
     (r\<lparr>rs_result := (rs_result r)\<lparr>rr_Output := dag_output d (rr_StepOutputs (rs_result r))\<rparr>\<rparr>)) s"

definition scheduler_section :: "'c RunInput \<Rightarrow> 'c DSL \<Rightarrow> 'c dag_state \<Rightarrow> 'c dag_state option" where
  "scheduler_section inp d s =
     (case dg_phase s of
        Scheduling \<Rightarrow> Some (case dg_ctxErr s of
            Some e \<Rightarrow> dag_return (failRun inp [] e False) s
          | None \<Rightarrow>
              (let ready = ready_steps d (dg_completed s)
               in if ready = [] \<or> dg_firstErr s \<noteq> None then dag_complete inp d s
                  else s\<lparr>dg_phase := Spawning [] ready\<rparr>))
      | Spawning spawned [] \<Rightarrow> Some (s\<lparr>dg_phase := Draining spawned\<rparr>)
      | Spawning spawned (i # rest) \<Rightarrow>
          if dg_slots s < dagWaveConcurrency
          then Some (s\<lparr>dg_slots := Suc (dg_slots s), dg_tasks := (dg_tasks s)(i \<mapsto> Spawned), dg_phase := Spawning (spawned @ [i]) rest\<rparr>)
          else None
      | Draining wave \<Rightarrow>
          if dg_slots s = 0
          then Some (s\<lparr>dg_completed := dg_completed s \<union> {x \<in> id_at d ` set wave. dg_outputs s x \<noteq> None}, dg_phase := WaveFlushing wave\<rparr>)
          else None
      | _ \<Rightarrow> None)"

definition persistWaveOutputs :: "'c step_env \<Rightarrow> 'c RunInput \<Rightarrow> bool \<Rightarrow> 'c run_state \<Rightarrow> 'c run_state" where
  "persistWaveOutputs env inp ok r =
     (let outs = rr_StepOutputs (rs_result r)
      in if stepPersistEnabled env inp \<and> ok \<and> outs \<noteq> Map.empty
         then r\<lparr>rs_stored := rs_stored r ++ (map_option (se_scrub env) \<circ> outs), rs_storedCost := rr_CostUSD (rs_result r)\<rparr>
         else r)"

definition wave_stored :: "'c step_env \<Rightarrow> 'c RunInput \<Rightarrow> bool \<Rightarrow> 'c dag_state \<Rightarrow> 'c dag_state option" where
  "wave_stored env inp ok s =
     (case dg_phase s of
        WaveFlushing _ \<Rightarrow>
          (let s = s\<lparr>dg_run := persistWaveOutputs env inp ok (dg_run s)\<rparr>
           in Some (case dg_suspended s of
                Some (token, x) \<Rightarrow> dag_return (suspendRun token x) s
              | None \<Rightarrow> (case dg_firstErr s of
                    Some (x, msg) \<Rightarrow> dag_return (failRun inp x msg True) s
                  | None \<Rightarrow> s\<lparr>dg_phase := Scheduling\<rparr>)))
      | _ \<Rightarrow> None)"

subsection \<open>Runs\<close>

datatype 'c dag_event =
    Advance
  | WaveStored bool
  | Work nat
  | Resolves nat "string + string"
  | Answers nat "'c step_answer"
  | Stores nat bool
  | ContextDone string

definition on_task :: "nat \<Rightarrow> ('c dag_task \<Rightarrow> 'c dag_state \<Rightarrow> 'c dag_state option) \<Rightarrow> 'c dag_state \<Rightarrow> 'c dag_state option" where
  "on_task i f s = (case dg_tasks s i of None \<Rightarrow> None | Some t \<Rightarrow> f t s)"

primrec dag_step :: "'c step_env \<Rightarrow> 'c RunInput \<Rightarrow> 'c DSL \<Rightarrow> 'c dag_event \<Rightarrow> 'c dag_state \<Rightarrow> 'c dag_state option" where
  "dag_step env inp d Advance s = scheduler_section inp d s"
| "dag_step env inp d (WaveStored ok) s = wave_stored env inp ok s"
| "dag_step env inp d (Work i) s = on_task i (task_section env d i) s"
| "dag_step env inp d (Resolves i a) s = on_task i (\<lambda>t. task_resolved d i t a) s"
| "dag_step env inp d (Answers i a) s = on_task i (\<lambda>t. task_answered env d i t a) s"
| "dag_step env inp d (Stores i ok) s = on_task i (\<lambda>t. task_stored env inp d i t ok) s"
| "dag_step env inp d (ContextDone e) s =
     (if dg_ctxErr s = None \<and> dg_phase s \<noteq> Returned then Some (s\<lparr>dg_ctxErr := Some e\<rparr>) else None)"

primrec dag_run :: "'c step_env \<Rightarrow> 'c RunInput \<Rightarrow> 'c DSL \<Rightarrow> 'c dag_event list \<Rightarrow> 'c dag_state \<Rightarrow> 'c dag_state option" where
  "dag_run env inp d [] s = Some s"
| "dag_run env inp d (e # es) s =
     (case dag_step env inp d e s of None \<Rightarrow> None | Some t \<Rightarrow> dag_run env inp d es t)"

text \<open>Before the loop: the check of the graph, the ban of nested routines, the restored steps.\<close>

definition dag_refused :: "string \<Rightarrow> string \<Rightarrow> 'c run_state \<Rightarrow> 'c run_state" where
  "dag_refused x msg r = r\<lparr>rs_result := (rs_result r)\<lparr>rr_Status := ''FAILED'', rr_FailedAtStep := x, rr_ErrorMessage := msg\<rparr>,
     rs_journal := rs_journal r @ [RunFailed x msg]\<rparr>"

definition dag_loop_start :: "'c RunInput \<Rightarrow> 'c DSL \<Rightarrow> 'c run_state \<Rightarrow> 'c dag_state" where
  "dag_loop_start inp d r = \<lparr>dg_run = r, dg_ctxErr = None, dg_cancelled = False,
     dg_completed = (if ri_resume inp then {x \<in> set (step_ids d). ri_restoredOutputs inp x \<noteq> None} else {}),
     dg_firstErr = None, dg_suspended = None, dg_slots = 0, dg_tasks = Map.empty, dg_phase = Scheduling\<rparr>"

definition dag_begin :: "'c RunInput \<Rightarrow> string list \<Rightarrow> 'c DSL \<Rightarrow> 'c run_state \<Rightarrow> 'c dag_state" where
  "dag_begin inp order d r =
     (let s = dag_loop_start inp d r
      in case validateDAG order d of
           Some e \<Rightarrow> dag_return (dag_refused (case ds_Steps d of [] \<Rightarrow> rr_FailedAtStep (rs_result r) | st # _ \<Rightarrow> st_ID st) (dag_error_text e)) s
         | None \<Rightarrow> (case find (\<lambda>st. st_Type st = StepCallPipeline) (ds_Steps d) of
               Some st \<Rightarrow> dag_return (dag_refused (st_ID st) (''step '' @ go_quote (st_ID st)
                 @ '': call_pipeline cannot be used inside a DAG (steps with `needs:`); split into a separate sequential pipeline'')) s
             | None \<Rightarrow> s))"


subsection \<open>The moves of a run\<close>

lemma state_simps [simp]:
  "dg_phase (set_task i t s) = dg_phase s" "dg_phase (end_task i s) = dg_phase s"
  "dg_phase (put_output x out s) = dg_phase s" "dg_phase (put_cost c s) = dg_phase s" "dg_phase (log_emit e s) = dg_phase s"
  "dg_tasks (set_task i t s) = (dg_tasks s)(i \<mapsto> t)" "dg_tasks (end_task i s) = (dg_tasks s)(i := None)"
  "dg_tasks (put_output x out s) = dg_tasks s" "dg_tasks (put_cost c s) = dg_tasks s" "dg_tasks (log_emit e s) = dg_tasks s"
  "dg_slots (set_task i t s) = dg_slots s" "dg_slots (end_task i s) = dg_slots s - 1"
  "dg_slots (put_output x out s) = dg_slots s" "dg_slots (put_cost c s) = dg_slots s" "dg_slots (log_emit e s) = dg_slots s"
  "dg_completed (set_task i t s) = dg_completed s" "dg_completed (end_task i s) = dg_completed s"
  "dg_completed (put_output x out s) = dg_completed s" "dg_completed (put_cost c s) = dg_completed s"
  "dg_completed (log_emit e s) = dg_completed s"
  by (simp_all add: set_task_def end_task_def put_output_def put_cost_def log_emit_def)

lemma stop_simps [simp]:
  "dg_ctxErr (set_task i t s) = dg_ctxErr s" "dg_ctxErr (end_task i s) = dg_ctxErr s"
  "dg_ctxErr (put_output x out s) = dg_ctxErr s" "dg_ctxErr (put_cost c s) = dg_ctxErr s" "dg_ctxErr (log_emit e s) = dg_ctxErr s"
  "dg_cancelled (set_task i t s) = dg_cancelled s" "dg_cancelled (end_task i s) = dg_cancelled s"
  "dg_cancelled (put_output x out s) = dg_cancelled s" "dg_cancelled (put_cost c s) = dg_cancelled s"
  "dg_cancelled (log_emit e s) = dg_cancelled s"
  "dg_firstErr (set_task i t s) = dg_firstErr s" "dg_firstErr (end_task i s) = dg_firstErr s"
  "dg_firstErr (put_output x out s) = dg_firstErr s" "dg_firstErr (put_cost c s) = dg_firstErr s"
  "dg_firstErr (log_emit e s) = dg_firstErr s"
  "dg_suspended (set_task i t s) = dg_suspended s" "dg_suspended (end_task i s) = dg_suspended s"
  "dg_suspended (put_output x out s) = dg_suspended s" "dg_suspended (put_cost c s) = dg_suspended s"
  "dg_suspended (log_emit e s) = dg_suspended s"
  by (simp_all add: set_task_def end_task_def put_output_def put_cost_def log_emit_def)

lemma run_simps [simp]:
  "dg_run (set_task i t s) = dg_run s" "dg_run (end_task i s) = dg_run s"
  "dg_outputs (set_task i t s) = dg_outputs s" "dg_outputs (end_task i s) = dg_outputs s"
  "dg_outputs (put_output x out s) = (dg_outputs s)(x \<mapsto> out)" "dg_outputs (put_cost c s) = dg_outputs s"
  "dg_outputs (log_emit e s) = dg_outputs s"
  "rs_journal (dg_run (put_output x out s)) = rs_journal (dg_run s)" "rs_journal (dg_run (put_cost c s)) = rs_journal (dg_run s)"
  "rs_journal (dg_run (log_emit e s)) = rs_journal (dg_run s) @ [e]"
  "rs_stored (dg_run (put_output x out s)) = rs_stored (dg_run s)" "rs_stored (dg_run (put_cost c s)) = rs_stored (dg_run s)"
  "rs_stored (dg_run (log_emit e s)) = rs_stored (dg_run s)"
  by (simp_all add: set_task_def end_task_def put_output_def put_cost_def log_emit_def dg_outputs_def)

lemma update_simps [simp]:
  "dg_outputs (s\<lparr>dg_ctxErr := a\<rparr>) = dg_outputs s" "dg_outputs (s\<lparr>dg_cancelled := b\<rparr>) = dg_outputs s"
  "dg_outputs (s\<lparr>dg_completed := c\<rparr>) = dg_outputs s" "dg_outputs (s\<lparr>dg_firstErr := e\<rparr>) = dg_outputs s"
  "dg_outputs (s\<lparr>dg_suspended := e'\<rparr>) = dg_outputs s" "dg_outputs (s\<lparr>dg_slots := k\<rparr>) = dg_outputs s"
  "dg_outputs (s\<lparr>dg_tasks := f\<rparr>) = dg_outputs s" "dg_outputs (s\<lparr>dg_phase := ph\<rparr>) = dg_outputs s"
  "dg_outputs (s\<lparr>dg_run := r\<rparr>) = rr_StepOutputs (rs_result r)"
  by (simp_all add: dg_outputs_def)

lemma persistWave_result [simp]: "rs_result (persistWaveOutputs env inp ok r) = rs_result r"
  "rs_journal (persistWaveOutputs env inp ok r) = rs_journal r"
  by (simp_all add: persistWaveOutputs_def Let_def)

lemma persist_journal [simp]: "rs_journal (persistStepOutput env inp ok x out c r) = rs_journal r"
  by (simp add: persistStepOutput_def)

text \<open>
  \<open>goroutine env inp d i s k s' r\<close>: the goroutine of step \<open>i\<close>, at \<open>k\<close>, changes the shared variables from \<open>s\<close>
  to \<open>s'\<close> and goes on at \<open>r\<close>, or returns.
\<close>

inductive goroutine :: "'c step_env \<Rightarrow> 'c RunInput \<Rightarrow> 'c DSL \<Rightarrow> nat \<Rightarrow> 'c dag_state \<Rightarrow> 'c dag_task
    \<Rightarrow> 'c dag_state \<Rightarrow> 'c dag_task option \<Rightarrow> bool"
  for env inp d i s where
  gives_up: "dg_cancelled s \<or> dg_ctxErr s \<noteq> None \<Longrightarrow> goroutine env inp d i s Spawned s None"
| enters: "\<not> dg_cancelled s \<Longrightarrow> dg_ctxErr s = None \<Longrightarrow> goroutine env inp d i s Spawned s (Some Rendering)"
| renders: "goroutine env inp d i s Rendering s (Some (Deciding (dg_outputs s)))"
| decides_skip: "st_If (step_at d i) \<noteq> [] \<Longrightarrow> \<not> se_cond env (step_at d i) snap \<Longrightarrow>
    goroutine env inp d i s (Deciding snap) (log_emit (StepSkipped (id_at d i) (st_If (step_at d i))) s) (Some Skipping)"
| decides_run: "goroutine env inp d i s (Deciding snap) s (Some (Resolving (step_at d i)))"
| skips: "goroutine env inp d i s Skipping (put_output (id_at d i) skipped_output s) None"
| unresolved: "goroutine env inp d i s (Resolving q) (log_emit (StepFailed (id_at d i) stage e) s) (Some (Failing (id_at d i) msg))"
| starts: "goroutine env inp d i s (Resolving q) (log_emit (StepStarted (id_at d i) i tier) s) (Some (Executing tier))"
| suspends: "goroutine env inp d i s (Executing tier) s (Some (Suspending token x))"
| errs: "goroutine env inp d i s (Executing tier) (put_cost c s) (Some (Failing (id_at d i) msg))"
| produces: "goroutine env inp d i s (Executing tier) (put_cost now (put_output (id_at d i) out s)) (Some (Flushing out cost now))"
| stores_over: "goroutine env inp d i s (Flushing out cost now) (log_emit (StepCompleted (id_at d i) (se_scrub env out) cost)
      (s\<lparr>dg_run := persistStepOutput env inp ok (id_at d i) out now (dg_run s)\<rparr>)) (Some (Failing (id_at d i) msg))"
| stores: "goroutine env inp d i s (Flushing out cost now) (log_emit (StepCompleted (id_at d i) (se_scrub env out) cost)
      (s\<lparr>dg_run := persistStepOutput env inp ok (id_at d i) out now (dg_run s)\<rparr>)) None"
| fails: "goroutine env inp d i s (Failing x msg) (s\<lparr>dg_firstErr := first_of (dg_firstErr s) (x, msg)\<rparr>) (Some Cancelling)"
| parks: "goroutine env inp d i s (Suspending token x) (s\<lparr>dg_suspended := first_of (dg_suspended s) (token, x)\<rparr>) (Some Cancelling)"
| cancels: "goroutine env inp d i s Cancelling (s\<lparr>dg_cancelled := True\<rparr>) None"

lemma goroutine_frame:
  assumes "goroutine env inp d i s k s' r"
  shows "dg_phase s' = dg_phase s" "dg_tasks s' = dg_tasks s" "dg_completed s' = dg_completed s" "dg_slots s' = dg_slots s"
    "dg_ctxErr s' = dg_ctxErr s"
  using assms by (cases; simp)+

definition place :: "nat \<Rightarrow> 'c dag_task option \<Rightarrow> 'c dag_state \<Rightarrow> 'c dag_state" where
  "place i r s = (case r of Some k \<Rightarrow> set_task i k s | None \<Rightarrow> end_task i s)"

lemma place_simps [simp]:
  "dg_phase (place i r s) = dg_phase s" "dg_completed (place i r s) = dg_completed s" "dg_outputs (place i r s) = dg_outputs s"
  "dg_ctxErr (place i r s) = dg_ctxErr s" "dg_cancelled (place i r s) = dg_cancelled s" "dg_firstErr (place i r s) = dg_firstErr s"
  "dg_suspended (place i r s) = dg_suspended s" "dg_run (place i r s) = dg_run s" "dg_tasks (place i r s) = (dg_tasks s)(i := r)"
  "dg_slots (place i r s) = (if r = None then dg_slots s - 1 else dg_slots s)"
  by (simp_all add: place_def split: option.split)

inductive dag_moves :: "'c step_env \<Rightarrow> 'c RunInput \<Rightarrow> 'c DSL \<Rightarrow> 'c dag_state \<Rightarrow> 'c dag_state \<Rightarrow> bool"
  for env inp d s where
  ctx_done: "dg_ctxErr s = None \<Longrightarrow> dg_phase s \<noteq> Returned \<Longrightarrow> dag_moves env inp d s (s\<lparr>dg_ctxErr := Some e\<rparr>)"
| sched_cancelled: "dg_phase s = Scheduling \<Longrightarrow> dg_ctxErr s = Some e \<Longrightarrow> dag_moves env inp d s (dag_return (failRun inp [] e False) s)"
| sched_done: "dg_phase s = Scheduling \<Longrightarrow> dg_ctxErr s = None \<Longrightarrow> ready_steps d (dg_completed s) = [] \<or> dg_firstErr s \<noteq> None \<Longrightarrow>
    dag_moves env inp d s (dag_complete inp d s)"
| sched_wave: "dg_phase s = Scheduling \<Longrightarrow> dg_ctxErr s = None \<Longrightarrow> ready_steps d (dg_completed s) \<noteq> [] \<Longrightarrow> dg_firstErr s = None \<Longrightarrow>
    dag_moves env inp d s (s\<lparr>dg_phase := Spawning [] (ready_steps d (dg_completed s))\<rparr>)"
| spawned_all: "dg_phase s = Spawning wave [] \<Longrightarrow> dag_moves env inp d s (s\<lparr>dg_phase := Draining wave\<rparr>)"
| spawn: "dg_phase s = Spawning wave (i # rest) \<Longrightarrow> dg_slots s < dagWaveConcurrency \<Longrightarrow>
    dag_moves env inp d s (s\<lparr>dg_slots := Suc (dg_slots s), dg_tasks := (dg_tasks s)(i \<mapsto> Spawned), dg_phase := Spawning (wave @ [i]) rest\<rparr>)"
| drained: "dg_phase s = Draining wave \<Longrightarrow> dg_slots s = 0 \<Longrightarrow>
    dag_moves env inp d s (s\<lparr>dg_completed := dg_completed s \<union> {x \<in> id_at d ` set wave. dg_outputs s x \<noteq> None}, dg_phase := WaveFlushing wave\<rparr>)"
| flush_suspended: "dg_phase s = WaveFlushing wave \<Longrightarrow> dg_suspended s = Some (token, x) \<Longrightarrow>
    dag_moves env inp d s (dag_return (suspendRun token x) (s\<lparr>dg_run := persistWaveOutputs env inp ok (dg_run s)\<rparr>))"
| flush_failed: "dg_phase s = WaveFlushing wave \<Longrightarrow> dg_suspended s = None \<Longrightarrow> dg_firstErr s = Some (x, msg) \<Longrightarrow>
    dag_moves env inp d s (dag_return (failRun inp x msg True) (s\<lparr>dg_run := persistWaveOutputs env inp ok (dg_run s)\<rparr>))"
| flush_next: "dg_phase s = WaveFlushing wave \<Longrightarrow> dg_suspended s = None \<Longrightarrow> dg_firstErr s = None \<Longrightarrow>
    dag_moves env inp d s (s\<lparr>dg_run := persistWaveOutputs env inp ok (dg_run s), dg_phase := Scheduling\<rparr>)"
| task: "dg_tasks s i = Some k \<Longrightarrow> goroutine env inp d i s k s' r \<Longrightarrow> dag_moves env inp d s (place i r s')"

lemma scheduler_moves: "scheduler_section inp d s = Some t \<Longrightarrow> dag_moves env inp d s t"
  by (auto simp: scheduler_section_def Let_def simp del: not_None_eq split: dag_phase.splits option.splits list.splits if_splits
      intro: dag_moves.intros(2-7))

lemma wave_moves: "wave_stored env inp ok s = Some t \<Longrightarrow> dag_moves env inp d s t"
  by (auto simp: wave_stored_def Let_def split: dag_phase.splits option.splits intro: dag_moves.intros(8-10))

lemma goroutine_place:
  "goroutine env inp d i s k s' (Some k') \<Longrightarrow> \<exists>s'' r. set_task i k' s' = place i r s'' \<and> goroutine env inp d i s k s'' r"
  "goroutine env inp d i s k s' None \<Longrightarrow> \<exists>s'' r. end_task i s' = place i r s'' \<and> goroutine env inp d i s k s'' r"
  by (rule exI [of _ s'], rule exI [of _ "Some k'"], simp add: place_def)
    (rule exI [of _ s'], rule exI [of _ None], simp add: place_def)

lemma task_sections:
  "task_section env d i k s = Some t \<Longrightarrow> \<exists>s' r. t = place i r s' \<and> goroutine env inp d i s k s' r"
  "task_resolved d i k a s = Some t \<Longrightarrow> \<exists>s' r. t = place i r s' \<and> goroutine env inp d i s k s' r"
  "task_answered env d i k b s = Some t \<Longrightarrow> \<exists>s' r. t = place i r s' \<and> goroutine env inp d i s k s' r"
  "task_stored env inp d i k ok s = Some t \<Longrightarrow> \<exists>s' r. t = place i r s' \<and> goroutine env inp d i s k s' r"
  by (auto simp: task_section_def task_resolved_def task_answered_def task_stored_def Let_def simp flip: id_at_def
      split: dag_task.splits sum.splits step_answer.splits if_splits intro!: goroutine_place intro: goroutine.intros)

lemma task_moves:
  "on_task i (task_section env d i) s = Some t \<Longrightarrow> dag_moves env inp d s t"
  "on_task i (\<lambda>k. task_resolved d i k a) s = Some t \<Longrightarrow> dag_moves env inp d s t"
  "on_task i (\<lambda>k. task_answered env d i k b) s = Some t \<Longrightarrow> dag_moves env inp d s t"
  "on_task i (\<lambda>k. task_stored env inp d i k ok) s = Some t \<Longrightarrow> dag_moves env inp d s t"
  by (auto simp: on_task_def split: option.splits dest!: task_sections [where inp = inp and env = env] intro: dag_moves.task)

lemma dag_step_moves: "dag_step env inp d e s = Some t \<Longrightarrow> dag_moves env inp d s t"
  by (cases e) (auto split: if_splits intro: ctx_done scheduler_moves wave_moves task_moves)

inductive dag_reaches :: "'c step_env \<Rightarrow> 'c RunInput \<Rightarrow> 'c DSL \<Rightarrow> 'c dag_state \<Rightarrow> 'c dag_state \<Rightarrow> bool"
  for env inp d s0 where
  start: "dag_reaches env inp d s0 s0"
| move: "dag_reaches env inp d s0 s \<Longrightarrow> dag_moves env inp d s t \<Longrightarrow> dag_reaches env inp d s0 t"

interpretation dag_runs: event_runs "dag_step env inp d" "dag_run env inp d" for env inp d
  by unfold_locales simp_all

lemma dag_run_reaches:
  assumes "dag_run env inp d es s = Some t" and "dag_reaches env inp d s0 s"
  shows "dag_reaches env inp d s0 t"
  using assms by (rule dag_runs.run_invariant) (blast intro: dag_reaches.move dag_step_moves)

subsection \<open>What every reachable state satisfies\<close>

definition spawned :: "'c dag_state \<Rightarrow> nat list" where
  "spawned s = (case dg_phase s of Spawning w _ \<Rightarrow> w | Draining w \<Rightarrow> w | WaveFlushing w \<Rightarrow> w | _ \<Rightarrow> [])"

definition unspawned :: "'c dag_state \<Rightarrow> nat list" where
  "unspawned s = (case dg_phase s of Spawning _ r \<Rightarrow> r | _ \<Rightarrow> [])"

definition stopped :: "'c dag_state \<Rightarrow> bool" where
  "stopped s \<longleftrightarrow> dg_firstErr s \<noteq> None \<or> dg_suspended s \<noteq> None"

primrec unstarted :: "'c dag_task \<Rightarrow> bool" where
  "unstarted Spawned = True" | "unstarted Rendering = True" | "unstarted (Deciding snap) = True"
| "unstarted Skipping = True" | "unstarted (Resolving q) = True" | "unstarted (Executing tier) = False"
| "unstarted (Flushing out c now) = False" | "unstarted (Failing x msg) = False"
| "unstarted (Suspending tok x) = False" | "unstarted Cancelling = False"

definition before_output :: "'c dag_task \<Rightarrow> bool" where
  "before_output t \<longleftrightarrow> unstarted t \<or> (\<exists>tier. t = Executing tier)"

lemma before_output_simps [simp]:
  "before_output Spawned" "before_output Rendering" "before_output (Deciding snap)" "before_output Skipping"
  "before_output (Resolving q)" "before_output (Executing tier)" "\<not> before_output (Flushing out c now)"
  "\<not> before_output (Failing x msg)" "\<not> before_output (Suspending tok x)" "\<not> before_output Cancelling"
  by (simp_all add: before_output_def)

text \<open>The goroutines: the slots count them, and they belong to the wave.\<close>

definition wave_ok :: "'c DSL \<Rightarrow> 'c dag_state \<Rightarrow> bool" where
  "wave_ok d s \<longleftrightarrow>
     finite (dom (dg_tasks s)) \<and> dg_slots s = card (dom (dg_tasks s)) \<and> dg_slots s \<le> dagWaveConcurrency
     \<and> dom (dg_tasks s) \<subseteq> set (spawned s) \<and> distinct (spawned s @ unspawned s)
     \<and> (\<forall>w. dg_phase s = WaveFlushing w \<longrightarrow> dg_tasks s = Map.empty \<and> w \<noteq> [])
     \<and> (\<forall>w r. dg_phase s = Spawning w r \<longrightarrow> set (w @ r) = set (ready_steps d (dg_completed s)) \<and> w @ r \<noteq> [])
     \<and> (\<forall>w. dg_phase s = Draining w \<longrightarrow> set w = set (ready_steps d (dg_completed s)) \<and> w \<noteq> [])"

lemma ready_distinct [simp]: "distinct (ready_steps d c)"
  by (simp add: ready_steps_def)

lemma set_ready: "set (ready_steps d c) =
    {i. i < length (ds_Steps d) \<and> id_at d i \<notin> c \<and> set (st_Needs (step_at d i)) \<subseteq> c}"
  by (auto simp: ready_steps_def)

lemma wave_ok_count:
  assumes "wave_ok d s"
  shows "finite (dom (dg_tasks s))" "dg_slots s = card (dom (dg_tasks s))" "dg_slots s \<le> dagWaveConcurrency"
    "dom (dg_tasks s) \<subseteq> set (spawned s)"
  using assms unfolding wave_ok_def by blast+

lemma task_counted: "dg_tasks s i = Some t \<Longrightarrow> wave_ok d s \<Longrightarrow> 0 < dg_slots s"
  using wave_ok_count(1,2) [of d s] by (auto simp: card_gt_0_iff)

text \<open>A goroutine that goes on or returns keeps the count.\<close>

lemma wave_ok_place:
  assumes "wave_ok d s" and "dg_tasks s i = Some k"
    and "dg_phase s' = dg_phase s" "dg_tasks s' = dg_tasks s" "dg_completed s' = dg_completed s" "dg_slots s' = dg_slots s"
  shows "wave_ok d (place i r s')"
proof -
  have ne: "dg_tasks s \<noteq> Map.empty" and i: "i \<in> dom (dg_tasks s)" using assms(2) by auto
  have "dom ((dg_tasks s)(i := r)) = (if r = None then dom (dg_tasks s) - {i} else dom (dg_tasks s))"
    using i by (auto split: if_splits)
  then show ?thesis using assms(1) i ne
    by (auto simp: wave_ok_def spawned_def unspawned_def assms(3-6))
qed

lemma wave_ok_moves:
  assumes "dag_moves env inp d s t" and ok: "wave_ok d s"
  shows "wave_ok d t"
  using assms(1)
proof cases
  case (spawn wave i rest)
  then have "dg_tasks s i = None" using ok by (auto simp: wave_ok_def spawned_def unspawned_def)
  then show ?thesis using spawn ok by (auto simp: wave_ok_def spawned_def unspawned_def card_insert_if)
next
  case (task i k s' r)
  then show ?thesis using wave_ok_place [OF ok task(2) goroutine_frame(1-4) [OF task(3)]] by simp
qed (use ok in \<open>auto simp: wave_ok_def spawned_def unspawned_def dag_return_def dag_complete_def\<close>)


lemma task_wave: "wave_ok d s \<Longrightarrow> dg_tasks s i = Some k \<Longrightarrow> j \<in> set (spawned s) \<Longrightarrow> j < length (ds_Steps d)"
proof -
  assume w: "wave_ok d s" and i: "dg_tasks s i = Some k" and j: "j \<in> set (spawned s)"
  have ne: "dg_tasks s \<noteq> Map.empty" using i by auto
  have "j \<in> set (ready_steps d (dg_completed s))"
  proof (cases "dg_phase s")
    case (Spawning a b)
    then have "set (a @ b) = set (ready_steps d (dg_completed s))" using w unfolding wave_ok_def by blast
    then show ?thesis using j Spawning by (auto simp: spawned_def)
  next
    case (Draining a)
    then have "set a = set (ready_steps d (dg_completed s))" using w unfolding wave_ok_def by blast
    then show ?thesis using j Draining by (auto simp: spawned_def)
  next
    case (WaveFlushing a)
    then show ?thesis using w ne unfolding wave_ok_def by blast
  qed (use j in \<open>auto simp: spawned_def\<close>)
  then show ?thesis by (simp add: set_ready)
qed

text \<open>
  The data: completed steps have outputs, a step with an output is completed or in the wave, and a step's
  goroutine runs behind its needs, has no output before it puts one, and decides on the outputs of its needs.
\<close>

definition task_ok :: "'c DSL \<Rightarrow> 'c dag_state \<Rightarrow> nat \<Rightarrow> 'c dag_task \<Rightarrow> bool" where
  "task_ok d s i k \<longleftrightarrow>
     i < length (ds_Steps d) \<and> id_at d i \<notin> dg_completed s \<and> set (st_Needs (step_at d i)) \<subseteq> dg_completed s
     \<and> (before_output k \<longrightarrow> dg_outputs s (id_at d i) = None)
     \<and> (\<forall>out c now. k = Flushing out c now \<longrightarrow> dg_outputs s (id_at d i) = Some out)
     \<and> (\<forall>snap. k = Deciding snap \<longrightarrow> (\<forall>dep\<in>set (st_Needs (step_at d i)). snap dep = dg_outputs s dep))"

definition data_ok :: "'c DSL \<Rightarrow> 'c dag_state \<Rightarrow> bool" where
  "data_ok d s \<longleftrightarrow>
     dg_completed s \<subseteq> dom (dg_outputs s)
     \<and> (\<forall>i<length (ds_Steps d). dg_outputs s (id_at d i) \<noteq> None \<longrightarrow> id_at d i \<in> dg_completed s \<or> i \<in> set (spawned s))
     \<and> (\<forall>i k. dg_tasks s i = Some k \<longrightarrow> task_ok d s i k)
     \<and> (\<forall>w. dg_phase s = WaveFlushing w \<longrightarrow> (\<forall>i\<in>set w. dg_outputs s (id_at d i) \<noteq> None \<longrightarrow> id_at d i \<in> dg_completed s))"

lemma id_at_eq: "distinct (step_ids d) \<Longrightarrow> i < length (ds_Steps d) \<Longrightarrow> j < length (ds_Steps d) \<Longrightarrow> id_at d i = id_at d j \<longleftrightarrow> i = j"
  by (auto simp: id_at_def step_at_def step_ids_def distinct_conv_nth)

lemma goroutine_cases:
  assumes "goroutine env inp d i s k s' r"
  shows "dg_outputs s' = dg_outputs s \<and> (\<forall>out c now. r \<noteq> Some (Flushing out c now))
      \<and> (\<forall>k'. r = Some k' \<longrightarrow> before_output k' \<longrightarrow> before_output k) \<and> (\<forall>snap. r = Some (Deciding snap) \<longrightarrow> snap = dg_outputs s)
    \<or> (\<exists>out. dg_outputs s' = (dg_outputs s)(id_at d i \<mapsto> out) \<and> before_output k \<and> (r = None \<or> (\<exists>c now. r = Some (Flushing out c now))))"
  using assms by cases (auto simp flip: dg_outputs_def)

lemma goroutine_outputs:
  assumes "goroutine env inp d i s k s' r"
  obtains (same) "dg_outputs s' = dg_outputs s" "\<And>out c now. r \<noteq> Some (Flushing out c now)"
    "\<And>k'. r = Some k' \<Longrightarrow> before_output k' \<Longrightarrow> before_output k" "\<And>snap. r = Some (Deciding snap) \<Longrightarrow> snap = dg_outputs s"
  | (put) out where "dg_outputs s' = (dg_outputs s)(id_at d i \<mapsto> out)" "before_output k" "r = None \<or> (\<exists>c now. r = Some (Flushing out c now))"
  using goroutine_cases [OF assms] by blast

lemma data_ok_place:
  assumes ok: "data_ok d s" "dg_tasks s i = Some k" and fr: "dg_phase s' = dg_phase s" "dg_tasks s' = dg_tasks s"
    "dg_completed s' = dg_completed s" and out: "dg_outputs s' = dg_outputs s"
    and r: "\<And>k'. r = Some k' \<Longrightarrow> task_ok d s i k'"
  shows "data_ok d (place i r s')"
proof -
  have "task_ok d (place i r s') j k'" if "((dg_tasks s)(i := r)) j = Some k'" for j k'
  proof (cases "j = i")
    case True
    then show ?thesis using r that by (simp add: task_ok_def fr out)
  next
    case False
    then have "task_ok d s j k'" using ok(1) that by (simp add: data_ok_def)
    then show ?thesis by (simp add: task_ok_def fr out)
  qed
  then show ?thesis using ok(1) unfolding data_ok_def by (simp add: fr out spawned_def)
qed

lemma data_ok_put:
  assumes ok: "data_ok d s" "wave_ok d s" "dg_tasks s i = Some k" "before_output k" and dist: "distinct (step_ids d)"
    and fr: "dg_phase s' = dg_phase s" "dg_tasks s' = dg_tasks s" "dg_completed s' = dg_completed s"
    and out: "dg_outputs s' = (dg_outputs s)(id_at d i \<mapsto> out)" and r: "r = None \<or> (\<exists>c now. r = Some (Flushing out c now))"
  shows "data_ok d (place i r s')"
proof -
  have i: "task_ok d s i k" using ok(1,3) by (simp add: data_ok_def)
  have dep: "dep \<noteq> id_at d i" if "dep \<in> dg_completed s" for dep using i that by (auto simp: task_ok_def)
  have "task_ok d (place i r s') j k'" if j: "((dg_tasks s)(i := r)) j = Some k'" for j k'
  proof (cases "j = i")
    case True
    then show ?thesis using i r j by (auto simp: task_ok_def fr out)
  next
    case False
    then have "task_ok d s j k'" using ok(1) j by (simp add: data_ok_def)
    moreover have "id_at d j \<noteq> id_at d i"
      using False calculation i dist id_at_eq [of d j i] by (simp add: task_ok_def)
    ultimately show ?thesis using dep by (auto simp: task_ok_def fr out)
  qed
  moreover have "i \<in> set (spawned s)" using wave_ok_count(4) [OF ok(2)] ok(3) by auto
  moreover have "\<forall>j<length (ds_Steps d). id_at d j = id_at d i \<longrightarrow> j = i"
    using i dist id_at_eq [of d _ i] by (simp add: task_ok_def)
  moreover have "\<forall>w. dg_phase s \<noteq> WaveFlushing w" using ok(2,3) unfolding wave_ok_def by (metis option.distinct(1))
  ultimately show ?thesis using ok(1) unfolding data_ok_def by (auto simp: fr out spawned_def)
qed

lemma data_ok_moves:
  assumes "dag_moves env inp d s t" and ok: "data_ok d s" and w: "wave_ok d s" and dist: "distinct (step_ids d)"
  shows "data_ok d t"
  using assms(1)
proof cases
  case (spawn wave i rest)
  have ready: "i \<in> set (ready_steps d (dg_completed s))" "i \<notin> set (spawned s)"
    using w spawn(2) by (auto simp: wave_ok_def spawned_def unspawned_def)
  then have "dg_outputs s (id_at d i) = None" using ok by (auto simp: data_ok_def set_ready)
  then have new: "task_ok d t i Spawned" using ready(1) by (auto simp: spawn(1) task_ok_def set_ready)
  have "task_ok d t j k" if "dg_tasks t j = Some k" for j k
    using that new ok by (cases "j = i") (auto simp: spawn(1) task_ok_def data_ok_def)
  then show ?thesis using ok spawn(2) unfolding data_ok_def by (auto simp: spawn(1) spawned_def)
next
  case (drained wave)
  have none: "dg_tasks s = Map.empty" using drained(3) wave_ok_count(1,2) [OF w] by simp
  show ?thesis using ok none drained(2) unfolding data_ok_def by (auto simp: drained(1) spawned_def)
next
  case (task i k s' r)
  note fr = goroutine_frame(1-3) [OF task(3)]
  have i: "task_ok d s i k" using ok task(2) by (simp add: data_ok_def)
  from task(3) show ?thesis
  proof (cases rule: goroutine_outputs)
    case same
    have "task_ok d s i k'" if "r = Some k'" for k' using i same that by (auto simp: task_ok_def)
    then show ?thesis unfolding task(1) by (rule data_ok_place [OF ok task(2) fr same(1)])
  next
    case (put out)
    show ?thesis unfolding task(1) by (rule data_ok_put [OF ok w task(2) put(2) dist fr put(1,3)])
  qed
qed (use ok in \<open>auto simp: data_ok_def task_ok_def spawned_def dag_return_def dag_complete_def dg_outputs_def\<close>)


text \<open>
  The reasons to stop: nothing is cancelled without a recorded failure or suspension, the loop never starts a
  wave over one, and a goroutine that returned without an output left such a reason or met a cancelled run.
\<close>

definition started_ids :: "'c emit list \<Rightarrow> string list" where
  "started_ids j = concat (map (\<lambda>e. case e of StepStarted x _ _ \<Rightarrow> [x] | _ \<Rightarrow> []) j)"

lemma started_ids_simps [simp]:
  "started_ids [] = []" "started_ids (j @ k) = started_ids j @ started_ids k"
  "started_ids [StepStarted x i tier] = [x]" "started_ids [StepSkipped x c] = []" "started_ids [StepFailed x st e] = []"
  "started_ids [StepCompleted x out cost] = []" "started_ids [RunFailed x e] = []" "started_ids [RunCompleted cost] = []"
  by (simp_all add: started_ids_def)

definition started :: "'c dag_state \<Rightarrow> string list" where
  "started s = started_ids (rs_journal (dg_run s))"

lemma started_simps [simp]:
  "started (set_task i k s) = started s" "started (end_task i s) = started s" "started (put_output x out s) = started s"
  "started (put_cost c s) = started s" "started (log_emit e s) = started s @ started_ids [e]"
  "started (place i r s) = started s" "started (s\<lparr>dg_firstErr := fe\<rparr>) = started s" "started (s\<lparr>dg_suspended := su\<rparr>) = started s"
  "started (s\<lparr>dg_cancelled := b\<rparr>) = started s" "started (s\<lparr>dg_ctxErr := ce\<rparr>) = started s" "started (s\<lparr>dg_phase := ph\<rparr>) = started s"
  "started (s\<lparr>dg_slots := n\<rparr>) = started s" "started (s\<lparr>dg_tasks := f\<rparr>) = started s" "started (s\<lparr>dg_completed := c'\<rparr>) = started s"
  "started (s\<lparr>dg_run := persistStepOutput env inp ok x out c (dg_run s)\<rparr>) = started s"
  "started (s\<lparr>dg_run := persistWaveOutputs env inp ok (dg_run s)\<rparr>) = started s"
  by (simp_all add: started_def set_task_def end_task_def place_def put_output_def put_cost_def log_emit_def split: option.split)

lemma goroutine_stop:
  assumes "goroutine env inp d i s k s' r"
  shows "(stopped s \<longrightarrow> stopped s') \<and> (dg_cancelled s' \<longrightarrow> dg_cancelled s \<or> k = Cancelling)
    \<and> (r = Some Cancelling \<longrightarrow> stopped s')
    \<and> (r = None \<longrightarrow> k = Spawned \<and> (dg_cancelled s \<or> dg_ctxErr s \<noteq> None) \<or> dg_outputs s' (id_at d i) \<noteq> None
        \<or> (\<exists>out c now. k = Flushing out c now) \<or> k = Cancelling)"
  using assms by cases (simp_all add: stopped_def first_of_def split: option.split)

lemma goroutine_keeps_output:
  assumes "goroutine env inp d i s k s' r" and "dg_outputs s x \<noteq> None"
  shows "dg_outputs s' x \<noteq> None"
  using goroutine_cases [OF assms(1)] assms(2) by auto

lemma goroutine_started:
  assumes "goroutine env inp d i s k s' r"
  shows "started s' = started s \<and> (\<forall>k'. r = Some k' \<longrightarrow> unstarted k' \<longrightarrow> unstarted k)
      \<or> started s' = started s @ [id_at d i] \<and> unstarted k \<and> (\<exists>tier. r = Some (Executing tier))"
  using assms by cases simp_all

definition stop_ok :: "'c DSL \<Rightarrow> 'c dag_state \<Rightarrow> bool" where
  "stop_ok d s \<longleftrightarrow>
     (dg_cancelled s \<longrightarrow> stopped s) \<and> (\<forall>i. dg_tasks s i = Some Cancelling \<longrightarrow> stopped s)
     \<and> (dg_phase s = Scheduling \<longrightarrow> \<not> stopped s)
     \<and> (\<forall>i\<in>set (spawned s). dg_tasks s i = None \<longrightarrow>
          dg_outputs s (id_at d i) \<noteq> None \<or> stopped s \<or> dg_ctxErr s \<noteq> None \<and> id_at d i \<notin> set (started s))"

text \<open>Every step starts at most once, and not at all if it was restored.\<close>

definition once_ok :: "string set \<Rightarrow> 'c DSL \<Rightarrow> 'c dag_state \<Rightarrow> bool" where
  "once_ok R d s \<longleftrightarrow> distinct (started s) \<and> (dg_phase s = Returned \<or> R \<subseteq> dg_completed s)
     \<and> (\<forall>x\<in>set (started s). x \<notin> R)
     \<and> (dg_phase s \<noteq> Returned \<longrightarrow> (\<forall>i<length (ds_Steps d). id_at d i \<in> set (started s) \<longrightarrow> id_at d i \<in> dg_completed s \<or> i \<in> set (spawned s)))
     \<and> (\<forall>i k. dg_tasks s i = Some k \<longrightarrow> unstarted k \<longrightarrow> id_at d i \<notin> set (started s))"

lemma stopped_simps [simp]:
  "stopped (place i r s) = stopped s" "stopped (s\<lparr>dg_phase := ph\<rparr>) = stopped s" "stopped (s\<lparr>dg_ctxErr := e\<rparr>) = stopped s"
  "stopped (s\<lparr>dg_slots := n\<rparr>) = stopped s" "stopped (s\<lparr>dg_tasks := f\<rparr>) = stopped s" "stopped (s\<lparr>dg_completed := c\<rparr>) = stopped s"
  "stopped (s\<lparr>dg_run := q\<rparr>) = stopped s"
  by (simp_all add: stopped_def)

lemma stop_ok_moves:
  assumes "dag_moves env inp d s t" and ok: "stop_ok d s" and data: "data_ok d s" and w: "wave_ok d s"
    and o: "once_ok R d s" and dist: "distinct (step_ids d)"
  shows "stop_ok d t"
  using assms(1)
proof cases
  case (task i k s' r)
  note st = goroutine_stop [OF task(3)] and fr = goroutine_frame [OF task(3)]
  have i: "task_ok d s i k" using data task(2) by (simp add: data_ok_def)
  have "dg_cancelled s \<Longrightarrow> stopped s" "k = Cancelling \<Longrightarrow> stopped s"
    using ok task(2) unfolding stop_ok_def by blast+
  then have mono: "stopped s \<or> dg_cancelled s \<or> k = Cancelling \<Longrightarrow> stopped s'" using st by blast
  have "i \<in> set (spawned s)" using wave_ok_count(4) [OF w] task(2) by auto
  then have nosched: "dg_phase s \<noteq> Scheduling" by (auto simp: spawned_def)
  have "dg_outputs s' (id_at d j) \<noteq> None \<or> stopped s' \<or> dg_ctxErr s \<noteq> None \<and> id_at d j \<notin> set (started s')"
    if j: "j \<in> set (spawned s)" "((dg_tasks s)(i := r)) j = None" for j
  proof (cases "j = i")
    case True
    then have r: "r = None" using j by simp
    consider "k = Spawned" "dg_cancelled s \<or> dg_ctxErr s \<noteq> None" | "dg_outputs s' (id_at d i) \<noteq> None"
      | out c now where "k = Flushing out c now" | "k = Cancelling"
      using st r by blast
    then show ?thesis
    proof cases
      case 1
      then have "id_at d i \<notin> set (started s)" using o task(2) unfolding once_ok_def by auto
      then show ?thesis using 1 mono goroutine_started [OF task(3)] r True by auto
    next
      case (3 out c now)
      then have "dg_outputs s (id_at d i) \<noteq> None" using i by (simp add: task_ok_def)
      then show ?thesis using goroutine_keeps_output [OF task(3)] True by blast
    qed (use True mono in auto)
  next
    case False
    then have "dg_tasks s j = None" using j(2) by simp
    then have old: "dg_outputs s (id_at d j) \<noteq> None \<or> stopped s \<or> dg_ctxErr s \<noteq> None \<and> id_at d j \<notin> set (started s)"
      using ok j(1) unfolding stop_ok_def by blast
    have "j < length (ds_Steps d)" using task_wave [OF w task(2) j(1)] .
    then have "id_at d j \<noteq> id_at d i" using False i dist id_at_eq [of d j i] by (simp add: task_ok_def)
    then show ?thesis using old mono goroutine_keeps_output [OF task(3), of "id_at d j"] goroutine_started [OF task(3)] by auto
  qed
  moreover have "((dg_tasks s)(i := r)) j = Some Cancelling \<Longrightarrow> stopped s'" for j
    using st mono ok unfolding stop_ok_def by (cases "j = i") auto
  moreover have "dg_cancelled s' \<Longrightarrow> stopped s'" using st mono by blast
  ultimately show ?thesis using nosched unfolding stop_ok_def task(1)
    by (simp add: fr spawned_def)
next
  case (drained wave)
  then show ?thesis using ok by (auto simp: stop_ok_def spawned_def)
qed (use ok in \<open>auto simp: stop_ok_def spawned_def dag_return_def dag_complete_def stopped_def\<close>)


lemma started_returns [simp]:
  "started (dag_return (failRun inp x msg b) s) = started s" "started (dag_return (suspendRun tok x) s) = started s"
  "started (dag_complete inp d s) = started s"
  by (auto simp: started_def dag_return_def dag_complete_def failRun_def suspendRun_def completeRun_def started_ids_def
      split: option.split)

lemma return_simps [simp]:
  "dg_phase (dag_return f s) = Returned" "dg_phase (dag_complete inp d s) = Returned"
  "dg_tasks (dag_return f s) = dg_tasks s" "dg_tasks (dag_complete inp d s) = dg_tasks s"
  "dg_completed (dag_return f s) = dg_completed s" "dg_completed (dag_complete inp d s) = dg_completed s"
  by (simp_all add: dag_return_def dag_complete_def)

lemma returned_tasks: "wave_ok d s \<Longrightarrow> spawned s = [] \<Longrightarrow> dg_tasks s i = None"
  using wave_ok_count(4) [of d s] by auto

lemma spawn_fresh:
  assumes "wave_ok d s" and "dg_phase s = Spawning wave (i # rest)"
  shows "i < length (ds_Steps d)" "id_at d i \<notin> dg_completed s" "i \<notin> set (spawned s)"
  using assms by (auto simp: wave_ok_def spawned_def unspawned_def set_ready)

lemma once_ok_moves:
  assumes "dag_moves env inp d s t" and o: "once_ok R d s" and ok: "stop_ok d s" and data: "data_ok d s" and w: "wave_ok d s"
    and dist: "distinct (step_ids d)"
  shows "once_ok R d t"
  using assms(1)
proof cases
  case (spawn wave i rest)
  note new = spawn_fresh [OF w spawn(2)]
  then have "id_at d i \<notin> set (started s)" using o spawn(2) by (auto simp: once_ok_def)
  then show ?thesis using o spawn(2) unfolding once_ok_def spawn(1) by (auto simp: spawned_def)
next
  case (flush_next wave ok')
  have none: "dg_tasks s = Map.empty" using w flush_next(2) unfolding wave_ok_def by blast
  have "id_at d i \<in> dg_completed s" if "i < length (ds_Steps d)" "id_at d i \<in> set (started s)" for i
  proof (cases "i \<in> set (spawned s)")
    case True
    then have "dg_outputs s (id_at d i) \<noteq> None"
      using ok none that(2) flush_next(3,4) unfolding stop_ok_def stopped_def by auto
    then show ?thesis using data True flush_next(2) unfolding data_ok_def spawned_def by auto
  next
    case False
    then show ?thesis using o that flush_next(2) by (auto simp: once_ok_def)
  qed
  then show ?thesis using o none flush_next(2) unfolding once_ok_def flush_next(1) by (auto simp: spawned_def)
next
  case (task i k s' r)
  note fr = goroutine_frame [OF task(3)]
  have i: "task_ok d s i k" using data task(2) by (simp add: data_ok_def)
  have isp: "i \<in> set (spawned s)" using wave_ok_count(4) [OF w] task(2) by auto
  have nr: "dg_phase s \<noteq> Returned" using isp by (auto simp: spawned_def)
  from goroutine_started [OF task(3)] show ?thesis
  proof (elim disjE conjE)
    assume st: "started s' = started s" and r: "\<forall>k'. r = Some k' \<longrightarrow> unstarted k' \<longrightarrow> unstarted k"
    have "id_at d j \<notin> set (started s)" if "((dg_tasks s)(i := r)) j = Some k'" "unstarted k'" for j k'
      using that r o task(2) unfolding once_ok_def by (cases "j = i") auto
    then show ?thesis using o nr unfolding once_ok_def task(1) by (auto simp: fr st spawned_def)
  next
    assume st: "started s' = started s @ [id_at d i]" and u: "unstarted k" and r: "\<exists>tier. r = Some (Executing tier)"
    have new: "id_at d i \<notin> set (started s)" using o task(2) u by (auto simp: once_ok_def)
    have "id_at d j \<noteq> id_at d i" if "dg_tasks s j = Some k'" "j \<noteq> i" for j k'
      using that i data dist id_at_eq [of d j i] by (auto simp: data_ok_def task_ok_def)
    then have un: "id_at d j \<notin> set (started s @ [id_at d i])" if "((dg_tasks s)(i := r)) j = Some k'" "unstarted k'" for j k'
      using that r o unfolding once_ok_def by (cases "j = i") auto
    have "j = i" if "j < length (ds_Steps d)" "id_at d j = id_at d i" for j
      using that i dist id_at_eq [of d j i] by (simp add: task_ok_def)
    then have same: "j = i" if "j < length (ds_Steps d)" "id_at d j = id_at d i" for j using that by blast
    have R: "R \<subseteq> dg_completed s" "id_at d i \<notin> dg_completed s" using o nr i by (simp_all add: once_ok_def task_ok_def)
    show ?thesis unfolding once_ok_def task(1)
    proof (intro conjI allI impI ballI)
      show "distinct (started (place i r s'))" using o new by (simp add: st once_ok_def)
      show "dg_phase (place i r s') = Returned \<or> R \<subseteq> dg_completed (place i r s')" using R by (simp add: fr)
      show "x \<notin> R" if "x \<in> set (started (place i r s'))" for x
        using that R o by (auto simp: st once_ok_def)
      show "id_at d j \<in> dg_completed (place i r s') \<or> j \<in> set (spawned (place i r s'))"
        if "j < length (ds_Steps d)" "id_at d j \<in> set (started (place i r s'))" for j
      proof (cases "j = i")
        case True
        then show ?thesis using isp by (simp add: spawned_def fr)
      next
        case False
        then have "id_at d j \<in> set (started s)" using that same by (auto simp: st)
        then show ?thesis using o nr that(1) by (simp add: once_ok_def spawned_def fr)
      qed
      show "id_at d j \<notin> set (started (place i r s'))" if "dg_tasks (place i r s') j = Some k'" "unstarted k'" for j k'
        using un that by (simp add: st fr)
    qed
  qed
next
  case (drained wave)
  then show ?thesis using o by (auto simp: once_ok_def spawned_def)
next
  case (sched_wave)
  then show ?thesis using o by (auto simp: once_ok_def spawned_def)
next
  case (spawned_all wave)
  then show ?thesis using o by (auto simp: once_ok_def spawned_def)
next
  case (ctx_done e)
  then show ?thesis using o by (auto simp: once_ok_def spawned_def)
next
  case (sched_cancelled e)
  then show ?thesis using o returned_tasks [OF w] by (auto simp: once_ok_def spawned_def)
next
  case sched_done
  then show ?thesis using o returned_tasks [OF w] by (auto simp: once_ok_def spawned_def)
next
  case (flush_suspended wave token x ok')
  have "dg_tasks s = Map.empty" using w flush_suspended(2) unfolding wave_ok_def by blast
  then show ?thesis using o flush_suspended by (auto simp: once_ok_def)
next
  case (flush_failed wave x msg ok')
  have "dg_tasks s = Map.empty" using w flush_failed(2) unfolding wave_ok_def by blast
  then show ?thesis using o flush_failed by (auto simp: once_ok_def)
qed

subsection \<open>Every run returns\<close>

primrec rank :: "'c dag_task \<Rightarrow> nat" where
  "rank Spawned = 8" | "rank Rendering = 7" | "rank (Deciding snap) = 6" | "rank Skipping = 1" | "rank (Resolving q) = 5"
| "rank (Executing tier) = 4" | "rank (Flushing out c now) = 3" | "rank (Failing x msg) = 2" | "rank (Suspending tok x) = 2"
| "rank Cancelling = 1"

definition load :: "'c DSL \<Rightarrow> 'c dag_state \<Rightarrow> nat" where
  "load d s = (\<Sum>i<length (ds_Steps d). case dg_tasks s i of None \<Rightarrow> 0 | Some k \<Rightarrow> rank k)"

definition open_steps :: "'c DSL \<Rightarrow> 'c dag_state \<Rightarrow> nat" where
  "open_steps d s = card {i. i < length (ds_Steps d) \<and> id_at d i \<notin> dg_completed s}"

definition halting :: "'c dag_state \<Rightarrow> bool" where
  "halting s \<longleftrightarrow> dg_ctxErr s \<noteq> None \<or> stopped s"

definition weight :: "'c DSL \<Rightarrow> nat" where
  "weight d = 9 * length (ds_Steps d) + 6"

lemma weight_bounds: "5 < weight d" "9 * length (ds_Steps d) + 5 < weight d"
  by (simp_all add: weight_def)

definition moves_left :: "'c DSL \<Rightarrow> 'c dag_state \<Rightarrow> nat" where
  "moves_left d s =
     (let W = weight d; U = open_steps d s; c = (if dg_ctxErr s = None then 1 else 0)
      in case dg_phase s of
           Returned \<Rightarrow> 0
         | Scheduling \<Rightarrow> if dg_ctxErr s \<noteq> None then 1 else W * U + (W - 1)
         | Spawning w r \<Rightarrow> W * U + 9 * length r + load d s + 2 + c
         | Draining w \<Rightarrow> W * U + load d s + 1 + c
         | WaveFlushing w \<Rightarrow> if halting s then 2 + c else W * (U + 1) + c)"

lemma load_at:
  assumes "i < length (ds_Steps d)"
  shows "load d s = (case dg_tasks s i of None \<Rightarrow> 0 | Some k \<Rightarrow> rank k)
    + (\<Sum>j\<in>{..<length (ds_Steps d)} - {i}. case dg_tasks s j of None \<Rightarrow> 0 | Some k \<Rightarrow> rank k)"
  unfolding load_def by (rule sum.remove) (use assms in simp_all)

lemma load_upd:
  assumes "i < length (ds_Steps d)" and "dg_tasks t = (dg_tasks s)(i := r)"
  shows "load d t + (case dg_tasks s i of None \<Rightarrow> 0 | Some k \<Rightarrow> rank k) = load d s + (case r of None \<Rightarrow> 0 | Some k \<Rightarrow> rank k)"
  using load_at [OF assms(1), of s] load_at [OF assms(1), of t] assms(2) by simp

lemma load_same: "dg_tasks t = dg_tasks s \<Longrightarrow> load d t = load d s"
  by (simp add: load_def)

lemma goroutine_rank:
  assumes "goroutine env inp d i s k s' r"
  shows "(case r of None \<Rightarrow> 0 | Some k' \<Rightarrow> rank k') < rank k"
  using assms by cases simp_all

lemma open_steps_le: "open_steps d s \<le> length (ds_Steps d)"
proof -
  have "open_steps d s \<le> card {..<length (ds_Steps d)}" unfolding open_steps_def by (rule card_mono) auto
  then show ?thesis by simp
qed

lemma length_ready: "length (ready_steps d c) \<le> length (ds_Steps d)"
  unfolding ready_steps_def using length_filter_le [of _ "[0..<length (ds_Steps d)]"] by simp


lemma open_steps_same: "dg_completed t = dg_completed s \<Longrightarrow> open_steps d t = open_steps d s"
  by (simp add: open_steps_def)

lemma halting_simps [simp]:
  "halting (s\<lparr>dg_phase := ph\<rparr>) = halting s" "halting (s\<lparr>dg_ctxErr := Some e\<rparr>)"
  "halting (s\<lparr>dg_completed := c\<rparr>) = halting s"
  by (simp_all add: halting_def)

text \<open>A wave that comes to its end with nothing to stop the run has completed a step.\<close>

lemma wave_progress:
  assumes d: "dg_phase s = Draining wave" and w: "wave_ok d s" and ok: "stop_ok d s" and none: "dg_tasks s = Map.empty"
    and go: "\<not> halting s"
  shows "open_steps d (s\<lparr>dg_completed := dg_completed s \<union> {x \<in> id_at d ` set wave. dg_outputs s x \<noteq> None}, dg_phase := WaveFlushing wave\<rparr>)
    < open_steps d s"
proof -
  have ready: "set wave = set (ready_steps d (dg_completed s))" "wave \<noteq> []" using w d unfolding wave_ok_def by blast+
  then obtain i where i: "i \<in> set wave" by (cases wave) auto
  then have old: "i < length (ds_Steps d)" "id_at d i \<notin> dg_completed s" using ready(1) by (auto simp: set_ready)
  have out: "dg_outputs s (id_at d i) \<noteq> None"
    using ok i none go d unfolding stop_ok_def halting_def by (auto simp: spawned_def)
  have new: "id_at d i \<in> {x \<in> id_at d ` set wave. dg_outputs s x \<noteq> None}" using i out by simp
  have "{j. j < length (ds_Steps d) \<and> id_at d j \<notin> dg_completed s \<union> {x \<in> id_at d ` set wave. dg_outputs s x \<noteq> None}}
      \<subseteq> {j. j < length (ds_Steps d) \<and> id_at d j \<notin> dg_completed s} - {i}" (is "?B \<subseteq> ?A - {i}")
    using new by blast
  then have "card ?B \<le> card (?A - {i})" by (rule card_mono [rotated]) simp
  also have "\<dots> < card ?A" by (rule card_Diff1_less) (use old in simp_all)
  finally show ?thesis by (simp add: open_steps_def)
qed

lemma open_steps_mono: "dg_completed s \<subseteq> dg_completed t \<Longrightarrow> open_steps d t \<le> open_steps d s"
  unfolding open_steps_def by (rule card_mono) auto

lemma moves_left_step:
  assumes "dag_moves env inp d s t" and w: "wave_ok d s" and ok: "stop_ok d s"
  shows "moves_left d t < moves_left d s"
  using assms(1)
proof cases
  case (ctx_done e)
  have same: "load d t = load d s" "open_steps d t = open_steps d s" "dg_phase t = dg_phase s" "dg_ctxErr t = Some e" "halting t"
    by (simp_all add: ctx_done load_def open_steps_def)
  show ?thesis using weight_bounds(1) [of d] ctx_done(3)
    by (cases "dg_phase s") (simp_all add: moves_left_def same ctx_done(2) Let_def)
next
  case sched_wave
  have "dg_tasks s = Map.empty" using wave_ok_count(4) [OF w] sched_wave by (auto simp: spawned_def)
  then have "load d t = 0" "open_steps d t = open_steps d s" by (simp_all add: sched_wave load_def open_steps_def)
  then show ?thesis using sched_wave length_ready [of d "dg_completed s"] weight_bounds(2) [of d]
    by (simp add: moves_left_def Let_def)
next
  case (spawned_all wave)
  have "load d t = load d s" "open_steps d t = open_steps d s" by (simp_all add: spawned_all load_def open_steps_def)
  then show ?thesis using spawned_all by (simp add: moves_left_def Let_def)
next
  case (spawn wave i rest)
  have "dg_tasks s i = None" using spawn_fresh(3) [OF w spawn(2)] wave_ok_count(4) [OF w] by auto
  then have "load d t = load d s + 8"
    using load_upd [OF spawn_fresh(1) [OF w spawn(2)], of t s "Some Spawned"] by (simp add: spawn)
  moreover have "open_steps d t = open_steps d s" by (simp add: spawn open_steps_def)
  ultimately show ?thesis using spawn by (simp add: moves_left_def Let_def)
next
  case (drained wave)
  have none: "dg_tasks s = Map.empty" using drained(3) wave_ok_count(1,2) [OF w] by simp
  then have load: "load d s = 0" by (simp add: load_def)
  show ?thesis
  proof (cases "halting s")
    case True
    obtain i where "i < length (ds_Steps d)" "id_at d i \<notin> dg_completed s"
    proof -
      have "set wave = set (ready_steps d (dg_completed s))" "wave \<noteq> []" using w drained(2) unfolding wave_ok_def by blast+
      then show thesis using that by (cases wave) (auto simp: set_ready)
    qed
    then have "0 < open_steps d s" unfolding open_steps_def by (subst card_gt_0_iff) auto
    then have "weight d \<le> weight d * open_steps d s" by simp
    then have "5 < weight d * open_steps d s" by (rule less_le_trans [OF weight_bounds(1)])
    then show ?thesis using drained True load by (simp add: moves_left_def Let_def)
  next
    case False
    have "open_steps d t < open_steps d s" unfolding drained(1) by (rule wave_progress [OF drained(2) w ok none False])
    then have "weight d * (open_steps d t + 1) \<le> weight d * open_steps d s"
      by (intro mult_le_mono2) simp
    then show ?thesis using drained False load by (simp add: moves_left_def Let_def)
  qed
next
  case (flush_next wave ok')
  have "open_steps d t = open_steps d s" by (simp add: flush_next open_steps_def)
  then show ?thesis using flush_next weight_bounds(1) [of d] by (auto simp: moves_left_def Let_def halting_def stopped_def)
next
  case (task i k s' r)
  note fr = goroutine_frame [OF task(3)]
  have isp: "i \<in> set (spawned s)" using wave_ok_count(4) [OF w] task(2) by auto
  have "load d t < load d s"
    using load_upd [OF task_wave [OF w task(2) isp], of t s r] goroutine_rank [OF task(3)] task by (simp add: fr)
  moreover have "open_steps d t = open_steps d s" by (rule open_steps_same) (simp add: task(1) fr)
  moreover have "dg_tasks s \<noteq> Map.empty" using task(2) by auto
  then have "\<And>a. dg_phase s \<noteq> WaveFlushing a" using w unfolding wave_ok_def by blast
  ultimately show ?thesis using isp by (auto simp: moves_left_def Let_def task(1) fr spawned_def split: dag_phase.splits)
qed (use weight_bounds(1) [of d] in \<open>auto simp: moves_left_def Let_def halting_def\<close>)

text \<open>All of it together, from the start of the loop.\<close>

definition dag_inv :: "string set \<Rightarrow> 'c DSL \<Rightarrow> 'c dag_state \<Rightarrow> bool" where
  "dag_inv R d s \<longleftrightarrow> wave_ok d s \<and> data_ok d s \<and> stop_ok d s \<and> once_ok R d s"

lemma dag_inv_moves:
  assumes "dag_moves env inp d s t" and "dag_inv R d s" and "distinct (step_ids d)"
  shows "dag_inv R d t"
proof -
  note inv = assms(2) [unfolded dag_inv_def]
  show ?thesis unfolding dag_inv_def
    using wave_ok_moves [OF assms(1)] data_ok_moves [OF assms(1) _ _ assms(3)]
      stop_ok_moves [OF assms(1) _ _ _ _ assms(3)] once_ok_moves [OF assms(1) _ _ _ _ assms(3)] inv by blast
qed

definition restored_ids :: "'c RunInput \<Rightarrow> 'c DSL \<Rightarrow> string set" where
  "restored_ids inp d = (if ri_resume inp then {x \<in> set (step_ids d). ri_restoredOutputs inp x \<noteq> None} else {})"

lemma dag_inv_start: "dag_inv (restored_ids inp d) d (dag_loop_start inp d (run_start C inp))"
  by (auto simp: dag_inv_def wave_ok_def data_ok_def stop_ok_def once_ok_def dag_loop_start_def spawned_def unspawned_def
      stopped_def started_def run_start_def newResult_def dg_outputs_def dagWaveConcurrency_def restored_ids_def
      step_ids_def id_at_def step_at_def)

lemma dag_inv_reaches:
  assumes "dag_reaches env inp d s t" and "dag_inv R d s" and "distinct (step_ids d)"
  shows "dag_inv R d t"
  using assms(1,2) by (induction rule: dag_reaches.induct) (auto intro: dag_inv_moves [OF _ _ assms(3)])

end
