(* ===== verification/Routine_Schedule.thy ===== *)
theory Routine_Schedule
  imports Routine_Dag
begin

text \<open>
  What the concurrent scheduler guarantees of any interleaving: steps start behind their needs and at most once,
  at most twelve run at the same time, every run returns, the result tells what happened, and a
  resumed run repeats nothing that was stored.
\<close>

subsection \<open>Runs from the beginning\<close>

lemma begin_cases:
  obtains (refused) x msg where "dag_begin inp order d r = dag_return (dag_refused x msg) (dag_loop_start inp d r)"
      "validateDAG order d \<noteq> None \<or> (\<exists>st\<in>set (ds_Steps d). st_Type st = StepCallPipeline)"
  | (loop) "dag_begin inp order d r = dag_loop_start inp d r" "validateDAG order d = None"
      "\<forall>st\<in>set (ds_Steps d). st_Type st \<noteq> StepCallPipeline"
proof (cases "validateDAG order d = None \<and> find (\<lambda>st. st_Type st = StepCallPipeline) (ds_Steps d) = None")
  case True
  show thesis
  proof (rule that(2))
    show "dag_begin inp order d r = dag_loop_start inp d r" using True by (simp add: dag_begin_def Let_def)
    show "\<forall>st\<in>set (ds_Steps d). st_Type st \<noteq> StepCallPipeline" using True by (auto simp: find_None_iff)
  qed (use True in simp)
next
  case False
  then have "validateDAG order d \<noteq> None \<or> (\<exists>st\<in>set (ds_Steps d). st_Type st = StepCallPipeline)"
    by (auto simp: find_None_iff)
  moreover obtain x msg where "dag_begin inp order d r = dag_return (dag_refused x msg) (dag_loop_start inp d r)"
  proof (cases "validateDAG order d")
    case (Some e)
    then show thesis by (intro that) (simp add: dag_begin_def Let_def)
  next
    case None
    then obtain st where "find (\<lambda>st. st_Type st = StepCallPipeline) (ds_Steps d) = Some st" using False by auto
    then show thesis using None by (intro that) (simp add: dag_begin_def Let_def)
  qed
  ultimately show thesis using that(1) by blast
qed

lemma returned_stuck:
  assumes "dg_phase s = Returned" and "dg_tasks s = Map.empty"
  shows "dag_step env inp d e s = None"
  using assms by (cases e) (simp_all add: scheduler_section_def wave_stored_def on_task_def)

lemma returned_run: "dg_phase s = Returned \<Longrightarrow> dg_tasks s = Map.empty \<Longrightarrow> dag_run env inp d es s = Some t \<Longrightarrow> es = [] \<and> t = s"
  by (cases es) (simp_all add: returned_stuck)

lemma refused_simps [simp]:
  "dg_phase (dag_return (dag_refused x msg) s) = Returned" "dg_outputs (dag_return (dag_refused x msg) s) = dg_outputs s"
  "started (dag_return (dag_refused x msg) s) = started s"
  by (simp_all add: dag_return_def dag_refused_def dg_outputs_def started_def started_ids_def)

lemma loop_start_simps [simp]:
  "dg_tasks (dag_loop_start inp d r) = Map.empty" "dg_phase (dag_loop_start inp d r) = Scheduling"
  "dg_run (dag_loop_start inp d r) = r" "dg_slots (dag_loop_start inp d r) = 0"
  "dg_ctxErr (dag_loop_start inp d r) = None" "dg_firstErr (dag_loop_start inp d r) = None"
  "dg_suspended (dag_loop_start inp d r) = None" "\<not> dg_cancelled (dag_loop_start inp d r)"
  by (simp_all add: dag_loop_start_def)

lemma start_journal [simp]: "rs_journal (run_start C inp) = []"
  by (simp add: run_start_def)

text \<open>
  A run from \<open>dag_begin\<close> either ended at once, with the graph refused, or it comes from a loop over distinct steps.
\<close>

lemma run_from_begin:
  assumes "dag_run env inp d es (dag_begin inp order d (run_start C inp)) = Some s"
    and "distinct order" and "set order = set (step_ids d)"
  obtains (refused) x msg where "s = dag_return (dag_refused x msg) (dag_loop_start inp d (run_start C inp))" "es = []"
      "validateDAG order d \<noteq> None \<or> (\<exists>st\<in>set (ds_Steps d). st_Type st = StepCallPipeline)"
  | (loop) "dag_reaches env inp d (dag_loop_start inp d (run_start C inp)) s" "dag_inv (restored_ids inp d) d s"
      "distinct (step_ids d)" "validateDAG order d = None" "\<forall>st\<in>set (ds_Steps d). st_Type st \<noteq> StepCallPipeline"
      "dag_run env inp d es (dag_loop_start inp d (run_start C inp)) = Some s"
proof (cases rule: begin_cases [of inp order d "run_start C inp"])
  case (refused x msg)
  have "es = [] \<and> s = dag_return (dag_refused x msg) (dag_loop_start inp d (run_start C inp))"
    by (rule returned_run) (use assms(1) refused in simp_all)
  then show thesis using that(1) refused(2) by blast
next
  case loop
  let ?s0 = "dag_loop_start inp d (run_start C inp)"
  have run: "dag_run env inp d es ?s0 = Some s" using assms(1) loop by simp
  have dist: "distinct (step_ids d)" using loop(2) validateDAG_correct [OF assms(2,3)] by blast
  have reach: "dag_reaches env inp d ?s0 s" by (rule dag_run_reaches [OF run start])
  show thesis using that(2) [OF reach dag_inv_reaches [OF reach dag_inv_start dist] dist loop(2,3) run] .
qed

lemma inv_parts:
  assumes "dag_inv R d s"
  shows "wave_ok d s" "data_ok d s" "stop_ok d s" "once_ok R d s"
  using assms by (simp_all add: dag_inv_def)

subsection \<open>Steps start behind their needs\<close>

definition finished :: "'c emit list \<Rightarrow> string \<Rightarrow> bool" where
  "finished j x \<longleftrightarrow> (\<exists>out cost. StepCompleted x out cost \<in> set j) \<or> (\<exists>c. StepSkipped x c \<in> set j)"

lemma finished_append [simp]: "finished (j @ k) x \<longleftrightarrow> finished j x \<or> finished k x"
  by (auto simp: finished_def)

text \<open>Each start in the journal stands behind the ends of the step's needs, or the need was restored.\<close>

definition behind :: "string set \<Rightarrow> 'c DSL \<Rightarrow> 'c emit list \<Rightarrow> bool" where
  "behind R d j \<longleftrightarrow> (\<forall>j1 x i tier j2. j = j1 @ StepStarted x i tier # j2 \<longrightarrow>
     i < length (ds_Steps d) \<and> x = id_at d i \<and> (\<forall>dep\<in>set (st_Needs (step_at d i)). dep \<in> R \<or> finished j1 dep))"

lemma behind_snoc:
  assumes "behind R d j" and "\<And>x i tier. e \<noteq> StepStarted x i tier"
  shows "behind R d (j @ [e])"
  unfolding behind_def
proof (intro allI impI)
  fix j1 x i tier j2
  assume "j @ [e] = j1 @ StepStarted x i tier # j2"
  then obtain j2' where "j = j1 @ StepStarted x i tier # j2'"
    using assms(2) by (cases j2 rule: rev_cases) simp_all
  then show "i < length (ds_Steps d) \<and> x = id_at d i \<and> (\<forall>dep\<in>set (st_Needs (step_at d i)). dep \<in> R \<or> finished j1 dep)"
    using assms(1) unfolding behind_def by blast
qed

lemma behind_append:
  "behind R d j \<Longrightarrow> (\<And>x i tier. StepStarted x i tier \<notin> set k) \<Longrightarrow> behind R d (j @ k)"
proof (induction k rule: rev_induct)
  case (snoc e k)
  have "behind R d (j @ k)" using snoc by auto
  then have "behind R d ((j @ k) @ [e])" by (rule behind_snoc) (use snoc.prems(2) in auto)
  then show ?case by simp
qed simp

lemma behind_start:
  assumes "behind R d j" and "i < length (ds_Steps d)"
    and "\<And>dep. dep \<in> set (st_Needs (step_at d i)) \<Longrightarrow> dep \<in> R \<or> finished j dep"
  shows "behind R d (j @ [StepStarted (id_at d i) i tier])"
  unfolding behind_def
proof (intro allI impI)
  fix j1 x i' tier' j2
  assume eq: "j @ [StepStarted (id_at d i) i tier] = j1 @ StepStarted x i' tier' # j2"
  show "i' < length (ds_Steps d) \<and> x = id_at d i' \<and> (\<forall>dep\<in>set (st_Needs (step_at d i')). dep \<in> R \<or> finished j1 dep)"
  proof (cases j2 rule: rev_cases)
    case Nil
    then have "j1 = j" "i' = i" "x = id_at d i" using eq by auto
    then show ?thesis using assms(2,3) by simp
  next
    case (snoc j2' e)
    then have "j = j1 @ StepStarted x i' tier' # j2'" using eq by simp
    then show ?thesis using assms(1) unfolding behind_def by blast
  qed
qed

definition journal :: "'c dag_state \<Rightarrow> 'c emit list" where
  "journal s = rs_journal (dg_run s)"

definition trail_ok :: "string set \<Rightarrow> 'c DSL \<Rightarrow> 'c dag_state \<Rightarrow> bool" where
  "trail_ok R d s \<longleftrightarrow> behind R d (journal s)
     \<and> (\<forall>x\<in>dg_completed s. x \<in> R \<or> finished (journal s) x)
     \<and> (\<forall>i<length (ds_Steps d). dg_outputs s (id_at d i) \<noteq> None \<longrightarrow> id_at d i \<in> R \<or> finished (journal s) (id_at d i)
          \<or> (\<exists>out c now. dg_tasks s i = Some (Flushing out c now)))
     \<and> (\<forall>i. dg_tasks s i = Some Skipping \<longrightarrow> finished (journal s) (id_at d i))"

lemma journal_simps [simp]:
  "journal (place i r s) = journal s" "journal (put_output x out s) = journal s" "journal (put_cost c s) = journal s"
  "journal (log_emit e s) = journal s @ [e]" "journal (s\<lparr>dg_firstErr := fe\<rparr>) = journal s"
  "journal (s\<lparr>dg_suspended := su\<rparr>) = journal s" "journal (s\<lparr>dg_cancelled := b\<rparr>) = journal s"
  "journal (s\<lparr>dg_ctxErr := ce\<rparr>) = journal s" "journal (s\<lparr>dg_phase := ph\<rparr>) = journal s"
  "journal (s\<lparr>dg_slots := n\<rparr>) = journal s" "journal (s\<lparr>dg_tasks := f\<rparr>) = journal s" "journal (s\<lparr>dg_completed := c'\<rparr>) = journal s"
  "journal (s\<lparr>dg_run := persistStepOutput env inp ok x out c (dg_run s)\<rparr>) = journal s"
  "journal (s\<lparr>dg_run := persistWaveOutputs env inp ok (dg_run s)\<rparr>) = journal s"
  by (simp_all add: journal_def)

lemma return_outputs [simp]:
  "dg_outputs (dag_return (failRun inp x msg b) s) = dg_outputs s" "dg_outputs (dag_return (suspendRun tok x) s) = dg_outputs s"
  "dg_outputs (dag_complete inp d s) = dg_outputs s"
  by (simp_all add: dag_return_def dag_complete_def dg_outputs_def)

text \<open>What a goroutine writes to the journal.\<close>

lemma goroutine_journal:
  assumes "goroutine env inp d i s k s' r"
  shows "journal s' = journal s \<and> (\<forall>k'. r = Some k' \<longrightarrow> k' \<noteq> Skipping) \<and> (dg_outputs s' = dg_outputs s
        \<and> (\<forall>out c now. k \<noteq> Flushing out c now)
      \<or> k = Skipping \<or> (\<exists>out c now. r = Some (Flushing out c now)))
    \<or> (\<exists>tier. journal s' = journal s @ [StepStarted (id_at d i) i tier]) \<and> dg_outputs s' = dg_outputs s \<and> r \<noteq> Some Skipping
        \<and> (\<forall>out c now. k \<noteq> Flushing out c now)
    \<or> (\<exists>e. journal s' = journal s @ [e] \<and> (\<forall>x i tier. e \<noteq> StepStarted x i tier)) \<and> dg_outputs s' = dg_outputs s
        \<and> (r = Some Skipping \<or> (\<exists>out c now. k = Flushing out c now) \<longrightarrow> finished (journal s') (id_at d i))"
  using assms by cases (auto simp: finished_def simp flip: dg_outputs_def)

text \<open>The journal only grows, and the end of a run starts nothing.\<close>

lemma return_journal:
  "\<exists>k. journal (dag_return (failRun inp x msg b) s) = journal s @ k \<and> (\<forall>y i tier. StepStarted y i tier \<notin> set k)"
  "\<exists>k. journal (dag_return (suspendRun tok x) s) = journal s @ k \<and> (\<forall>y i tier. StepStarted y i tier \<notin> set k)"
  "\<exists>k. journal (dag_complete inp d s) = journal s @ k \<and> (\<forall>y i tier. StepStarted y i tier \<notin> set k)"
  by (auto simp: journal_def dag_return_def dag_complete_def failRun_def suspendRun_def completeRun_def split: option.split)

lemma trail_ok_return:
  assumes "trail_ok R d s" and "journal t = journal s @ k" and "\<And>y i tier. StepStarted y i tier \<notin> set k"
    and "dg_completed t = dg_completed s" "dg_outputs t = dg_outputs s" "dg_tasks t = dg_tasks s"
  shows "trail_ok R d t"
proof -
  have "behind R d (journal t)" using assms(1,3) unfolding assms(2) trail_ok_def by (blast intro: behind_append)
  then show ?thesis using assms(1) unfolding trail_ok_def by (simp add: assms(2,4-6)) blast
qed

lemma trail_ok_place:
  assumes ok: "trail_ok R d s" and g: "goroutine env inp d i s k s' r" and i: "task_ok d s i k" and k: "dg_tasks s i = Some k"
    and data: "data_ok d s" and dist: "distinct (step_ids d)"
  shows "trail_ok R d (place i r s')"
proof -
  note fr = goroutine_frame [OF g]
  have needs: "\<And>dep. dep \<in> set (st_Needs (step_at d i)) \<Longrightarrow> dep \<in> R \<or> finished (journal s) dep"
    using i ok unfolding task_ok_def trail_ok_def by blast
  have b: "behind R d (journal s)" using ok unfolding trail_ok_def by blast
  have behind: "behind R d (journal s')"
    using goroutine_journal [OF g] behind_start [OF b _ needs] behind_snoc [OF b] i b by (auto simp: task_ok_def)
  have mono: "finished (journal s) x \<Longrightarrow> finished (journal s') x" for x using goroutine_journal [OF g] by auto
  show ?thesis unfolding trail_ok_def
  proof (intro conjI allI impI ballI)
    show "behind R d (journal (place i r s'))" using behind by simp
    show "x \<in> R \<or> finished (journal (place i r s')) x" if "x \<in> dg_completed (place i r s')" for x
      using that ok mono by (auto simp: fr trail_ok_def)
    show "finished (journal (place i r s')) (id_at d j)" if "dg_tasks (place i r s') j = Some Skipping" for j
      using that ok mono goroutine_journal [OF g] by (cases "j = i") (auto simp: fr trail_ok_def)
    show "id_at d j \<in> R \<or> finished (journal (place i r s')) (id_at d j) \<or> (\<exists>out c now. dg_tasks (place i r s') j = Some (Flushing out c now))"
      if "j < length (ds_Steps d)" "dg_outputs (place i r s') (id_at d j) \<noteq> None" for j
    proof (cases "j = i")
      case True
      have "k = Skipping \<Longrightarrow> finished (journal s) (id_at d i)" using ok k by (simp add: trail_ok_def)
      moreover have "dg_outputs s (id_at d i) \<noteq> None \<Longrightarrow> \<forall>out c now. k \<noteq> Flushing out c now \<Longrightarrow>
          id_at d i \<in> R \<or> finished (journal s) (id_at d i)"
      proof -
        have "dg_outputs s (id_at d i) \<noteq> None \<longrightarrow> id_at d i \<in> R \<or> finished (journal s) (id_at d i)
            \<or> (\<exists>out c now. dg_tasks s i = Some (Flushing out c now))"
          using ok that(1) True unfolding trail_ok_def by blast
        then show "dg_outputs s (id_at d i) \<noteq> None \<Longrightarrow> \<forall>out c now. k \<noteq> Flushing out c now \<Longrightarrow>
          id_at d i \<in> R \<or> finished (journal s) (id_at d i)" using k by auto
      qed
      ultimately show ?thesis using goroutine_journal [OF g] that(2) mono True by (auto simp: fr)
    next
      case False
      have "id_at d j \<noteq> id_at d i" using False that(1) i dist id_at_eq [of d j i] by (simp add: task_ok_def)
      then have "dg_outputs s (id_at d j) \<noteq> None" using that(2) goroutine_cases [OF g] by auto
      then show ?thesis using ok that(1) mono False by (auto simp: fr trail_ok_def)
    qed
  qed
qed

lemma trail_ok_moves:
  assumes "dag_moves env inp d s t" and ok: "trail_ok R d s" and data: "data_ok d s" and w: "wave_ok d s"
    and dist: "distinct (step_ids d)"
  shows "trail_ok R d t"
  using assms(1)
proof cases
  case (sched_cancelled e)
  show ?thesis using return_journal(1) [of inp "[]" e False s] trail_ok_return [OF ok, of t] by (auto simp: sched_cancelled(1))
next
  case sched_done
  show ?thesis using return_journal(3) [of inp d s] trail_ok_return [OF ok, of t] by (auto simp: sched_done(1))
next
  case (flush_suspended wave token x ok')
  let ?s = "s\<lparr>dg_run := persistWaveOutputs env inp ok' (dg_run s)\<rparr>"
  show ?thesis using return_journal(2) [of token x ?s] trail_ok_return [OF ok, of t] by (auto simp: flush_suspended(1) simp flip: dg_outputs_def)
next
  case (flush_failed wave x msg ok')
  let ?s = "s\<lparr>dg_run := persistWaveOutputs env inp ok' (dg_run s)\<rparr>"
  show ?thesis using return_journal(1) [of inp x msg True ?s] trail_ok_return [OF ok, of t] by (auto simp: flush_failed(1) simp flip: dg_outputs_def)
next
  case (flush_next wave ok')
  show ?thesis by (rule trail_ok_return [OF ok, of t "[]"]) (simp_all add: flush_next(1) flip: dg_outputs_def)
next
  case (spawn wave i rest)
  have "dg_tasks s i = None" using spawn_fresh(3) [OF w spawn(2)] wave_ok_count(4) [OF w] by auto
  then show ?thesis using ok unfolding trail_ok_def spawn(1) by auto
next
  case (drained wave)
  have none: "dg_tasks s = Map.empty" using drained(3) wave_ok_count(1,2) [OF w] by simp
  have "x \<in> R \<or> finished (journal s) x" if x: "x \<in> id_at d ` set wave" "dg_outputs s x \<noteq> None" for x
  proof -
    have "set wave = set (ready_steps d (dg_completed s))" using w drained(2) unfolding wave_ok_def by blast
    then obtain j where "j < length (ds_Steps d)" "x = id_at d j" using x(1) by (auto simp: set_ready)
    then show ?thesis using ok x(2) none unfolding trail_ok_def by auto
  qed
  then show ?thesis using ok none unfolding trail_ok_def drained(1) by auto
next
  case (task i k s' r)
  have "task_ok d s i k" using data task(2) by (simp add: data_ok_def)
  then show ?thesis unfolding task(1) by (rule trail_ok_place [OF ok task(3) _ task(2) data dist])
qed (use ok in \<open>simp_all add: trail_ok_def\<close>)

lemma trail_ok_start: "trail_ok (restored_ids inp d) d (dag_loop_start inp d (run_start C inp))"
  by (auto simp: trail_ok_def behind_def journal_def dag_loop_start_def dg_outputs_def run_start_def newResult_def
      restored_ids_def step_ids_def id_at_def step_at_def)

lemma trail_ok_reaches:
  assumes "dag_reaches env inp d s0 s" and "dag_inv R d s0" and "trail_ok R d s0" and dist: "distinct (step_ids d)"
  shows "trail_ok R d s"
  using assms(1)
proof induction
  case (move s t)
  note inv = inv_parts [OF dag_inv_reaches [OF move(1) assms(2) dist]]
  show ?case by (rule trail_ok_moves [OF move(2) move.IH inv(2,1) dist])
qed (rule assms(3))

lemma trail_from_begin:
  assumes "dag_run env inp d es (dag_begin inp order d (run_start C inp)) = Some s"
    and "distinct order" and "set order = set (step_ids d)"
  shows "behind (restored_ids inp d) d (journal s)"
  using assms
proof (cases rule: run_from_begin)
  case (refused x msg)
  then show ?thesis by (auto simp: behind_def journal_def dag_return_def dag_refused_def append_eq_Cons_conv Cons_eq_append_conv)
next
  case loop
  then show ?thesis using trail_ok_reaches [OF loop(1) dag_inv_start trail_ok_start loop(3)] by (simp add: trail_ok_def)
qed

lemma decides_on_needs:
  assumes "dag_run env inp d es (dag_begin inp order d (run_start C inp)) = Some s"
    and "distinct order" and "set order = set (step_ids d)"
  shows "\<forall>i snap. dg_tasks s i = Some (Deciding snap) \<longrightarrow>
      (\<forall>dep\<in>set (st_Needs (step_at d i)). snap dep \<noteq> None \<and> snap dep = dg_outputs s dep)"
  using assms
proof (cases rule: run_from_begin)
  case loop
  then have data: "data_ok d s" by (simp add: dag_inv_def)
  then have out: "\<And>dep. dep \<in> dg_completed s \<Longrightarrow> dg_outputs s dep \<noteq> None" unfolding data_ok_def by blast
  show ?thesis
  proof (intro allI impI ballI)
    fix i snap dep
    assume "dg_tasks s i = Some (Deciding snap)" and dep: "dep \<in> set (st_Needs (step_at d i))"
    then have "task_ok d s i (Deciding snap)" using data unfolding data_ok_def by blast
    then have "snap dep = dg_outputs s dep" "dep \<in> dg_completed s" using dep unfolding task_ok_def by blast+
    then show "snap dep \<noteq> None \<and> snap dep = dg_outputs s dep" using out by metis
  qed
qed simp

text \<open>
  C22. A step starts only behind its needs: in the journal of any run, however its goroutines interleave, each
  start names a step of the routine, and each of the step's needs was completed or skipped before it, or was
  restored from an earlier lifetime of the run.  A goroutine that decides on its condition and renders its prompt
  sees exactly the outputs its needs have.
\<close>

theorem starts_behind_needs:
  assumes "dag_run env inp d es (dag_begin inp order d (run_start C inp)) = Some s"
    and "distinct order" and "set order = set (step_ids d)"
  shows "(\<forall>j1 x i tier j2. rs_journal (dg_run s) = j1 @ StepStarted x i tier # j2 \<longrightarrow>
      i < length (ds_Steps d) \<and> x = id_at d i
      \<and> (\<forall>dep\<in>set (st_Needs (step_at d i)). dep \<in> restored_ids inp d \<or> finished j1 dep))
    \<and> (\<forall>i snap. dg_tasks s i = Some (Deciding snap) \<longrightarrow>
      (\<forall>dep\<in>set (st_Needs (step_at d i)). snap dep \<noteq> None \<and> snap dep = dg_outputs s dep))"
  using trail_from_begin [OF assms] decides_on_needs [OF assms] by (simp add: behind_def journal_def)

lemma started_once:
  assumes "dag_run env inp d es (dag_begin inp order d (run_start C inp)) = Some s"
    and "distinct order" and "set order = set (step_ids d)"
  shows "distinct (started s) \<and> set (started s) \<inter> restored_ids inp d = {}"
  using assms
proof (cases rule: run_from_begin)
  case (refused x msg)
  then have "started s = started (dag_loop_start inp d (run_start C inp))" by simp
  then show ?thesis by (simp add: started_def)
next
  case loop
  then have "once_ok (restored_ids inp d) d s" by (simp add: dag_inv_def)
  then show ?thesis unfolding once_ok_def by blast
qed

text \<open>C28. Every step is started at most once in a run, and a step that was restored is not started at all.\<close>

theorem steps_run_once:
  assumes "dag_run env inp d es (dag_begin inp order d (run_start C inp)) = Some s"
    and "distinct order" and "set order = set (step_ids d)"
  shows "distinct (started s) \<and> set (started s) \<inter> restored_ids inp d = {}"
  using assms by (rule started_once)

text \<open>At most twelve steps are in flight at any time, each a different step of the routine, and the semaphore counts them.\<close>

theorem wave_is_bounded:
  assumes "dag_run env inp d es (dag_begin inp order d (run_start C inp)) = Some s"
    and "distinct order" and "set order = set (step_ids d)"
  shows "dom (dg_tasks s) \<subseteq> {..<length (ds_Steps d)} \<and> card (dom (dg_tasks s)) = dg_slots s \<and> dg_slots s \<le> 12"
  using assms
proof (cases rule: run_from_begin)
  case (refused x msg)
  then show ?thesis by (simp add: dag_return_def)
next
  case loop
  then have w: "wave_ok d s" by (simp add: dag_inv_def)
  have "i < length (ds_Steps d)" if "i \<in> dom (dg_tasks s)" for i
    using that task_wave [OF w] wave_ok_count(4) [OF w] by blast
  then show ?thesis using wave_ok_count [OF w] by (auto simp: dagWaveConcurrency_def)
qed

subsection \<open>Every run returns\<close>

lemma moves_left_run:
  assumes "dag_run env inp d es s = Some t" and "dag_inv R d s" and "distinct (step_ids d)"
  shows "moves_left d t + length es \<le> moves_left d s"
  using assms(1,2)
proof (rule dag_runs.run_measure)
  fix e r u
  assume step: "dag_step env inp d e r = Some u" and inv: "dag_inv R d r"
  note m = dag_step_moves [OF step]
  show "dag_inv R d u \<and> moves_left d u < moves_left d r"
    using dag_inv_moves [OF m inv assms(3)] moves_left_step [OF m inv_parts(1,3) [OF inv]] by blast
qed

text \<open>A goroutine never waits for another one, and the scheduler only for the goroutines.\<close>

lemma task_enabled:
  assumes "dg_tasks s i = Some k"
  shows "\<exists>e t. (\<forall>x. e \<noteq> ContextDone x) \<and> dag_step env inp d e s = Some t"
proof (cases k)
  case (Resolving q)
  then show ?thesis using assms by (intro exI [of _ "Resolves i a" for a]) (auto simp: on_task_def task_resolved_def Let_def)
next
  case (Executing tier)
  then show ?thesis using assms by (intro exI [of _ "Answers i a" for a]) (auto simp: on_task_def task_answered_def Let_def)
next
  case (Flushing out c now)
  then show ?thesis using assms by (intro exI [of _ "Stores i a" for a]) (auto simp: on_task_def task_stored_def Let_def)
qed (use assms in \<open>intro exI [of _ "Work i"], simp add: on_task_def task_section_def Let_def\<close>)+

lemma scheduler_enabled:
  assumes "scheduler_section inp d s \<noteq> None \<or> wave_stored env inp True s \<noteq> None"
  shows "\<exists>e t. (\<forall>x. e \<noteq> ContextDone x) \<and> dag_step env inp d e s = Some t"
  using assms by (elim disjE; intro exI [of _ Advance] exI [of _ "WaveStored True"]) simp_all

lemma run_enabled:
  assumes "wave_ok d s" and "dg_phase s \<noteq> Returned"
  shows "\<exists>e t. (\<forall>x. e \<noteq> ContextDone x) \<and> dag_step env inp d e s = Some t"
proof (cases "dg_tasks s = Map.empty")
  case True
  then have "dg_slots s = 0" using wave_ok_count(2) [OF assms(1)] by simp
  then have "scheduler_section inp d s \<noteq> None \<or> wave_stored env inp True s \<noteq> None"
    using assms(2) by (auto simp: scheduler_section_def wave_stored_def dagWaveConcurrency_def Let_def
        split: dag_phase.splits list.splits option.splits)
  then show ?thesis by (rule scheduler_enabled)
next
  case False
  then obtain i k where "dg_tasks s i = Some k" by (auto simp: fun_eq_iff)
  then show ?thesis by (rule task_enabled)
qed

lemma returned_no_tasks: "wave_ok d s \<Longrightarrow> dg_phase s = Returned \<Longrightarrow> dg_tasks s = Map.empty"
  using wave_ok_count(4) [of d s] by (simp add: spawned_def)

text \<open>
  C25. Every run of the concurrent scheduler returns: whatever the goroutines, the step runner, the database and
  the context do, no run has more than \<open>(9 n + 6) (n + 1)\<close> events for \<open>n\<close> steps, and a run can only stop going on
  when it has returned: until then some event other than the end of the context is possible.
\<close>

theorem every_run_returns:
  assumes "dag_run env inp d es (dag_begin inp order d (run_start C inp)) = Some s"
    and "distinct order" and "set order = set (step_ids d)"
  shows "length es \<le> (9 * length (ds_Steps d) + 6) * (length (ds_Steps d) + 1)
    \<and> (dg_phase s = Returned \<longleftrightarrow> (\<forall>e. (\<forall>x. e \<noteq> ContextDone x) \<longrightarrow> dag_step env inp d e s = None))"
  using assms
proof (cases rule: run_from_begin)
  case (refused x msg)
  then show ?thesis by (simp add: returned_stuck dag_return_def)
next
  case loop
  let ?s0 = "dag_loop_start inp d (run_start C inp)" and ?n = "length (ds_Steps d)"
  have "length es \<le> moves_left d ?s0" using moves_left_run [OF loop(6) dag_inv_start loop(3)] by simp
  also have "\<dots> \<le> weight d * open_steps d ?s0 + weight d" by (simp add: moves_left_def Let_def)
  also have "\<dots> \<le> weight d * ?n + weight d" using open_steps_le [of d ?s0] by simp
  also have "\<dots> = (9 * ?n + 6) * (?n + 1)" by (simp add: weight_def)
  finally have bound: "length es \<le> (9 * ?n + 6) * (?n + 1)" .
  note w = inv_parts(1) [OF loop(2)]
  have "dag_step env inp d e s = None" if "dg_phase s = Returned" for e
    by (rule returned_stuck [OF that returned_no_tasks [OF w that]])
  then show ?thesis using bound run_enabled [OF w, of env inp] by (metis option.distinct(1))
qed

subsection \<open>The result of a run\<close>

definition verdict_ok :: "'c DSL \<Rightarrow> 'c dag_state \<Rightarrow> bool" where
  "verdict_ok d s \<longleftrightarrow> (let r = rs_result (dg_run s) in dg_phase s = Returned \<longrightarrow>
      rr_Status r = ''COMPLETED'' \<and> dg_firstErr s = None \<and> dg_suspended s = None \<and> dg_ctxErr s = None
        \<and> ready_steps d (dg_completed s) = [] \<and> rr_Output r = dag_output d (rr_StepOutputs r)
    \<or> rr_Status r = ''FAILED'' \<and> dg_suspended s = None
        \<and> (dg_firstErr s = Some (rr_FailedAtStep r, rr_ErrorMessage r)
          \<or> dg_firstErr s = None \<and> rr_FailedAtStep r = [] \<and> dg_ctxErr s = Some (rr_ErrorMessage r))
    \<or> rr_Status r = ''WAITING'' \<and> dg_suspended s = Some (rr_WaitpointToken r, rr_CurrentStep r))"

lemma return_fields [simp]:
  "dg_firstErr (dag_return f s) = dg_firstErr s" "dg_suspended (dag_return f s) = dg_suspended s"
  "dg_ctxErr (dag_return f s) = dg_ctxErr s" "dg_run (dag_return f s) = f (dg_run s)"
  "dg_firstErr (dag_complete inp d s) = dg_firstErr s" "dg_suspended (dag_complete inp d s) = dg_suspended s"
  "dg_ctxErr (dag_complete inp d s) = dg_ctxErr s"
  "rs_result (dg_run (dag_complete inp d s)) = (rs_result (dg_run s))
     \<lparr>rr_Output := dag_output d (rr_StepOutputs (rs_result (dg_run s))), rr_Status := ''COMPLETED''\<rparr>"
  by (simp_all add: dag_return_def dag_complete_def)

lemma verdict_ok_moves:
  assumes "dag_moves env inp d s t" and ok: "stop_ok d s" and w: "wave_ok d s"
  shows "verdict_ok d t"
  using assms(1)
proof cases
  case (sched_cancelled e)
  then have "dg_firstErr s = None" "dg_suspended s = None" using ok unfolding stop_ok_def stopped_def by blast+
  then show ?thesis using sched_cancelled by (simp add: verdict_ok_def Let_def)
next
  case sched_done
  then have "dg_firstErr s = None" "dg_suspended s = None" using ok unfolding stop_ok_def stopped_def by blast+
  then show ?thesis using sched_done by (simp add: verdict_ok_def Let_def)
next
  case (task i k s' r)
  have "dg_phase s \<noteq> Returned" using returned_no_tasks [OF w] task(2) by auto
  then show ?thesis by (simp add: verdict_ok_def task(1) goroutine_frame [OF task(3)])
qed (simp_all add: verdict_ok_def Let_def)

lemma verdict_ok_reaches:
  assumes "dag_reaches env inp d (dag_loop_start inp d (run_start C inp)) s" and "distinct (step_ids d)"
  shows "verdict_ok d s"
  using assms(1)
proof cases
  case start
  then show ?thesis by (simp add: verdict_ok_def)
next
  case (move s')
  note inv = inv_parts [OF dag_inv_reaches [OF move(1) dag_inv_start assms(2)]]
  show ?thesis by (rule verdict_ok_moves [OF move(2) inv(3,1)])
qed

text \<open>When nothing is ready, everything is completed: in a graph without cycles some open step has no open need.\<close>

lemma nothing_ready:
  assumes "validateDAG order d = None" and "distinct order" and "set order = set (step_ids d)"
    and "ready_steps d c = []"
  shows "set (step_ids d) \<subseteq> c"
proof (rule ccontr)
  let ?R = "{(dep, st_ID s) |s dep. s \<in> set (ds_Steps d) \<and> dep \<in> set (st_Needs s)}"
  assume "\<not> set (step_ids d) \<subseteq> c"
  then obtain y where y: "y \<in> set (step_ids d) - c" by blast
  have known: "\<And>s. s \<in> set (ds_Steps d) \<Longrightarrow> set (st_Needs s) \<subseteq> set (step_ids d)" and acyc: "acyclic ?R"
    using validateDAG_correct [OF assms(2,3)] assms(1) by blast+
  have "finite ?R"
  proof (rule finite_subset)
    have "st_ID s \<in> set (step_ids d)" if "s \<in> set (ds_Steps d)" for s using that by (simp add: step_ids_def)
    then show "?R \<subseteq> set (step_ids d) \<times> set (step_ids d)" using known by blast
  qed simp
  then have "wf ?R" using acyc by (rule finite_acyclic_wf)
  then obtain x where x: "x \<in> set (step_ids d) - c" "\<And>u. (u, x) \<in> ?R \<Longrightarrow> u \<notin> set (step_ids d) - c"
    using wfE_min [of ?R y "set (step_ids d) - c"] y by blast
  then have "x \<in> set (step_ids d)" by blast
  then obtain i where i: "i < length (ds_Steps d)" "x = id_at d i"
    using in_set_conv_nth [of x "map st_ID (ds_Steps d)"] by (auto simp: step_ids_def id_at_def step_at_def)
  then have st: "step_at d i \<in> set (ds_Steps d)" by (simp add: step_at_def)
  have "u \<in> c" if u: "u \<in> set (st_Needs (step_at d i))" for u
  proof -
    have "(u, x) \<in> ?R" using st u i(2) by (auto simp: id_at_def)
    then show ?thesis using x(2) known [OF st] u by blast
  qed
  then have "i \<in> set (ready_steps d c)" using i x(1) by (auto simp: set_ready)
  then show False using assms(4) by simp
qed

text \<open>
  C23. The result of a concurrent run tells the truth.  \<^verbatim>\<open>COMPLETED\<close>: every step has an output, nothing failed,
  nothing is suspended and the output is the primary leaf's.  \<^verbatim>\<open>WAITING\<close>: it names the recorded suspension.  \<^verbatim>\<open>FAILED\<close>:
  it names the first recorded failure, or the end of the context when no step failed, or the graph was refused and nothing ran.
\<close>

theorem result_is_truthful:
  assumes "dag_run env inp d es (dag_begin inp order d (run_start C inp)) = Some s"
    and "distinct order" and "set order = set (step_ids d)" and "dg_phase s = Returned"
    and "r = rs_result (dg_run s)"
  shows "rr_Status r = ''COMPLETED'' \<and> (\<forall>x\<in>set (step_ids d). rr_StepOutputs r x \<noteq> None) \<and> dg_firstErr s = None
        \<and> dg_suspended s = None \<and> dg_ctxErr s = None \<and> rr_Output r = dag_output d (rr_StepOutputs r)
    \<or> rr_Status r = ''WAITING'' \<and> dg_suspended s = Some (rr_WaitpointToken r, rr_CurrentStep r)
    \<or> rr_Status r = ''FAILED'' \<and> dg_suspended s = None
        \<and> (dg_firstErr s = Some (rr_FailedAtStep r, rr_ErrorMessage r)
          \<or> dg_firstErr s = None \<and> rr_FailedAtStep r = [] \<and> dg_ctxErr s = Some (rr_ErrorMessage r))
    \<or> rr_Status r = ''FAILED'' \<and> es = [] \<and> started s = []
        \<and> (validateDAG order d \<noteq> None \<or> (\<exists>st\<in>set (ds_Steps d). st_Type st = StepCallPipeline))"
  using assms(1,2,3)
proof (cases rule: run_from_begin)
  case (refused x msg)
  have "started s = started (dag_loop_start inp d (run_start C inp))" by (simp add: refused)
  then have "started s = []" by (simp add: started_def)
  moreover have "rr_Status r = ''FAILED''" by (simp add: assms(5) refused dag_refused_def)
  ultimately show ?thesis using refused(2,3) by simp
next
  case loop
  have v: "verdict_ok d s" by (rule verdict_ok_reaches [OF loop(1,3)])
  have "rr_StepOutputs r x \<noteq> None" if "ready_steps d (dg_completed s) = []" "x \<in> set (step_ids d)" for x
  proof -
    have "x \<in> dg_completed s" using nothing_ready [OF loop(4) assms(2,3) that(1)] that(2) by blast
    then show ?thesis using inv_parts(2) [OF loop(2)] unfolding data_ok_def dg_outputs_def assms(5) by blast
  qed
  then show ?thesis using v assms(4) unfolding verdict_ok_def Let_def assms(5) by blast
qed

subsection \<open>A resumed run repeats nothing that was stored\<close>

definition persisted :: "'c run_state \<Rightarrow> bool" where
  "persisted r \<longleftrightarrow> (\<forall>x out cost. StepCompleted x out cost \<in> set (rs_journal r) \<longrightarrow> rs_stored r x \<noteq> None)"

lemma persisted_simps [simp]:
  "persisted (dg_run (set_task i k s)) = persisted (dg_run s)" "persisted (dg_run (end_task i s)) = persisted (dg_run s)"
  "persisted (dg_run (put_output x out s)) = persisted (dg_run s)" "persisted (dg_run (put_cost c s)) = persisted (dg_run s)"
  by (simp_all add: persisted_def)

lemma persisted_log:
  "persisted (dg_run (log_emit (StepSkipped x c) s)) = persisted (dg_run s)"
  "persisted (dg_run (log_emit (StepStarted x i tier) s)) = persisted (dg_run s)"
  "persisted (dg_run (log_emit (StepFailed x stage e) s)) = persisted (dg_run s)"
  by (simp_all add: persisted_def)

lemma persisted_flush:
  assumes "stepPersistEnabled env inp" and "persisted (dg_run s)"
  shows "persisted (dg_run (log_emit (StepCompleted x (se_scrub env out) cost)
    (s\<lparr>dg_run := persistStepOutput env inp True x out now (dg_run s)\<rparr>)))"
  using assms by (auto simp: persisted_def persistStepOutput_def)

lemma persisted_wave: "persisted r \<Longrightarrow> persisted (persistWaveOutputs env inp ok r)"
  unfolding persisted_def by (auto simp: persistWaveOutputs_def Let_def map_add_def split: option.split)

lemma persisted_end:
  "persisted (failRun inp x msg b r) = persisted r" "persisted (suspendRun tok x r) = persisted r"
  "persisted (completeRun inp r) = persisted r"
  "persisted (r\<lparr>rs_result := res\<rparr>) = persisted r"
  by (auto simp: persisted_def failRun_def suspendRun_def completeRun_def split: option.split)

lemma persisted_step:
  assumes "dag_step env inp d e s = Some t" and "stepPersistEnabled env inp" and "\<And>i. e \<noteq> Stores i False"
    and "persisted (dg_run s)"
  shows "persisted (dg_run t)"
proof (cases e)
  case Advance
  then show ?thesis using assms
    by (auto simp: scheduler_section_def Let_def persisted_end dag_complete_def dag_return_def
        split: dag_phase.splits option.splits list.splits if_splits)
next
  case (WaveStored ok)
  then show ?thesis using assms persisted_wave [OF assms(4), of env inp ok]
    by (auto simp: wave_stored_def Let_def persisted_end dag_return_def split: dag_phase.splits option.splits)
next
  case (Work i)
  then show ?thesis using assms
    by (auto simp: on_task_def task_section_def Let_def persisted_log split: option.splits dag_task.splits if_splits)
next
  case (Resolves i a)
  then show ?thesis using assms
    by (auto simp: on_task_def task_resolved_def Let_def persisted_log split: option.splits dag_task.splits sum.splits)
next
  case (Answers i a)
  then show ?thesis using assms
    by (auto simp: on_task_def task_answered_def Let_def split: option.splits dag_task.splits step_answer.splits)
next
  case (Stores i ok)
  then have "ok = True" using assms(3) by blast
  then show ?thesis using assms Stores persisted_flush [OF assms(2,4)]
    by (auto simp: on_task_def task_stored_def Let_def split: option.splits dag_task.splits if_splits)
next
  case (ContextDone x)
  then show ?thesis using assms by (auto split: if_splits)
qed

lemma persisted_run:
  assumes "dag_run env inp d es s = Some t" and "stepPersistEnabled env inp" and "\<And>i. Stores i False \<notin> set es"
    and "persisted (dg_run s)"
  shows "persisted (dg_run t)"
  using assms(1,4) by (rule dag_runs.run_invariant) (metis assms(2,3) persisted_step)

lemma persisted_begin: "persisted (dg_run (dag_begin inp order d (run_start C inp)))"
  by (cases rule: begin_cases [of inp order d "run_start C inp"])
    (simp_all add: persisted_def dag_refused_def)

lemma started_known:
  assumes "behind R d (journal s)" and "x \<in> set (started s)"
  shows "x \<in> set (step_ids d)"
proof -
  obtain i tier where "StepStarted x i tier \<in> set (journal s)"
    using assms(2) by (auto simp: started_def started_ids_def journal_def split: emit.splits)
  then obtain j1 j2 where "journal s = j1 @ StepStarted x i tier # j2" by (auto dest: split_list)
  then have "i < length (ds_Steps d)" "x = id_at d i" using assms(1) unfolding behind_def by blast+
  then show ?thesis by (simp add: step_ids_def id_at_def step_at_def)
qed


subsection \<open>The tier a step is resolved with\<close>

definition resolving_ok :: "'c DSL \<Rightarrow> 'c dag_state \<Rightarrow> bool" where
  "resolving_ok d s \<longleftrightarrow> (\<forall>i q. dg_tasks s i = Some (Resolving q) \<longrightarrow> q = step_at d i)"

lemma goroutine_resolving:
  "goroutine env inp d i s k s' (Some (Resolving q)) \<Longrightarrow> q = step_at d i"
  by (erule goroutine.cases) simp_all

lemma resolving_ok_moves:
  assumes "dag_moves env inp d s t" and "resolving_ok d s"
  shows "resolving_ok d t"
  using assms(1)
proof cases
  case (task i k s' r)
  then show ?thesis using assms(2)
    by (auto simp: resolving_ok_def goroutine_frame [OF task(3)] dest: goroutine_resolving)
qed (use assms(2) in \<open>auto simp: resolving_ok_def\<close>)

lemma resolving_ok_reaches: "dag_reaches env inp d s0 s \<Longrightarrow> resolving_ok d s0 \<Longrightarrow> resolving_ok d s"
  by (induction rule: dag_reaches.induct) (auto intro: resolving_ok_moves)

text \<open>
  The concurrent scheduler asks the tier resolver about the step as it is written, so the run's \<open>TierOverride\<close>
  never reaches it: where the sequential scheduler would ask about the step with the override
  (\<open>step_for_resolve\<close>), the two ask about different steps whenever the override changes anything.
\<close>

theorem override_misses_dag_steps:
  assumes "dag_run env inp d es (dag_begin inp order d (run_start C inp)) = Some s"
    and "distinct order" and "set order = set (step_ids d)" and "dg_tasks s i = Some (Resolving q)"
    and "ri_TierOverride inp \<noteq> []" and "st_Type (step_at d i) = StepAgentRun" and "st_ModelOverride (step_at d i) = []"
  shows "q = step_at d i \<and> st_Complexity (step_for_resolve inp (step_at d i)) = ri_TierOverride inp
     \<and> (q = step_for_resolve inp (step_at d i) \<longleftrightarrow> st_Complexity (step_at d i) = ri_TierOverride inp)"
  using assms(1-3)
proof (cases rule: run_from_begin)
  case loop
  have "resolving_ok d s" by (rule resolving_ok_reaches [OF loop(1)]) (simp add: resolving_ok_def)
  then have "q = step_at d i" using assms(4) unfolding resolving_ok_def by blast
  then show ?thesis using assms(5-7) by (cases "step_at d i") (auto simp: step_for_resolve_def)
qed (use assms(4) in simp)

subsection \<open>A concrete run\<close>

definition demo_fork :: "int DSL" where
  "demo_fork = demo_routine [demo_node ''a'' [] [], demo_node ''b'' [''a''] [], demo_node ''c'' [''a''] []]"

definition demo_fork_input :: "int RunInput" where
  "demo_fork_input = (demo_run_input (ds_Steps demo_fork))\<lparr>ri_TierOverride := ''deep''\<rparr>"

definition demo_enter :: "nat \<Rightarrow> int dag_event list" where
  "demo_enter i = [Work i, Work i, Work i]"

definition demo_first_wave :: "int dag_event list" where
  "demo_first_wave = [Advance, Advance, Advance] @ demo_enter 0 @ [Resolves 0 (Inr ''fast''), Answers 0 (StepDone ''A'' 3),
     Stores 0 True, Advance, WaveStored True]"

definition demo_second_wave :: "int dag_event list" where
  "demo_second_wave = [Advance, Advance, Advance, Advance] @ demo_enter 2 @ demo_enter 1
     @ [Resolves 2 (Inr ''fast''), Resolves 1 (Inr ''fast''), Answers 1 (StepDone ''B'' 1), Answers 2 (StepDone ''C'' 2),
        Stores 2 True, Stores 1 True, Advance, WaveStored True, Advance]"

lemmas demo_fork_defs = demo_fork_def demo_fork_input_def demo_enter_def demo_first_wave_def demo_second_wave_def
  demo_routine_def demo_node_def demo_run_input_def demo_step_env_def int_costs_def

lemmas dag_defs = dag_step.simps scheduler_section_def wave_stored_def on_task_def task_section_def task_resolved_def
  task_answered_def task_stored_def set_task_def end_task_def put_output_def put_cost_def log_emit_def dg_outputs_def dg_cost_def
  step_at_def id_at_def ready_steps_def persistWaveOutputs_def persistStepOutput_def stepPersistEnabled_def over_cap_def
  effectiveCostCap_def minNonZero_def dagWaveConcurrency_def dag_loop_start_def run_start_def newResult_def
  dag_return_def dag_complete_def completeRun_def

lemma demo_begin: "dag_begin inp [''c'', ''a'', ''b''] demo_fork r = dag_loop_start inp demo_fork r"
proof -
  have "validateDAG [''c'', ''a'', ''b''] demo_fork = None" by code_simp
  then show ?thesis by (simp add: dag_begin_def Let_def) (simp add: demo_fork_def demo_routine_def demo_node_def)
qed

definition demo_start :: "int dag_state" where
  "demo_start = dag_begin demo_fork_input [''c'', ''a'', ''b''] demo_fork (run_start int_costs demo_fork_input)"

definition demo_mid :: "int dag_state" where
  "demo_mid = the (dag_run demo_step_env demo_fork_input demo_fork demo_first_wave demo_start)"

definition demo_final :: "int dag_state" where
  "demo_final = the (dag_run demo_step_env demo_fork_input demo_fork (demo_first_wave @ demo_second_wave) demo_start)"

lemma demo_order: "distinct [''c'', ''a'', ''b'']" "set [''c'', ''a'', ''b''] = set (step_ids demo_fork)"
  by (auto simp: demo_fork_defs step_ids_def)

lemma demo_mid_run: "dag_run demo_step_env demo_fork_input demo_fork demo_first_wave demo_start = Some demo_mid"
  "StepCompleted ''a'' ''A'' 3 \<in> set (rs_journal (dg_run demo_mid))"
  unfolding demo_mid_def demo_start_def demo_begin by (simp_all add: demo_fork_defs dag_defs Let_def upt_rec)

lemma demo_final_run:
  "dag_run demo_step_env demo_fork_input demo_fork (demo_first_wave @ demo_second_wave) demo_start = Some demo_final"
  "dg_phase demo_final = Returned" "rr_Status (rs_result (dg_run demo_final)) = ''COMPLETED''"
  unfolding demo_final_def demo_start_def demo_begin by (simp_all add: demo_fork_defs dag_defs Let_def upt_rec)

lemma starts_behind_needs_witness:
  "\<exists>s snap. dag_run demo_step_env demo_fork_input demo_fork (demo_first_wave @ take 6 demo_second_wave) demo_start = Some s
     \<and> dg_tasks s 2 = Some (Deciding snap) \<and> snap ''a'' \<noteq> None \<and> snap ''a'' = dg_outputs s ''a''"
proof -
  obtain s snap where s: "dag_run demo_step_env demo_fork_input demo_fork (demo_first_wave @ take 6 demo_second_wave) demo_start = Some s"
      "dg_tasks s 2 = Some (Deciding snap)"
    unfolding demo_start_def demo_begin by (simp add: demo_fork_defs dag_defs Let_def upt_rec)
  have "''a'' \<in> set (st_Needs (step_at demo_fork 2))" by (simp add: demo_fork_defs step_at_def)
  then show ?thesis
    using starts_behind_needs [OF s(1) [unfolded demo_start_def] demo_order] s by blast
qed

lemma steps_run_once_witness: "distinct (started demo_final)"
  using steps_run_once [OF demo_final_run(1) [unfolded demo_start_def] demo_order] by blast

lemma wave_is_bounded_witness: "dg_slots demo_mid \<le> 12"
  using wave_is_bounded [OF demo_mid_run(1) [unfolded demo_start_def] demo_order] by blast

lemma every_run_returns_witness: "length (demo_first_wave @ demo_second_wave) \<le> 132"
  using every_run_returns [OF demo_final_run(1) [unfolded demo_start_def] demo_order] by (simp add: demo_fork_def demo_routine_def)

lemma result_is_truthful_witness:
  "rr_Status (rs_result (dg_run demo_final)) = ''COMPLETED''
     \<and> rr_Output (rs_result (dg_run demo_final)) = dag_output demo_fork (rr_StepOutputs (rs_result (dg_run demo_final)))"
  using result_is_truthful [OF demo_final_run(1) [unfolded demo_start_def] demo_order demo_final_run(2) refl] demo_final_run(3)
  by simp


lemma override_misses_dag_steps_witness:
  "\<exists>s. dag_run demo_step_env demo_fork_input demo_fork (take 6 demo_first_wave) demo_start = Some s
     \<and> dg_tasks s 0 = Some (Resolving (step_at demo_fork 0))
     \<and> step_at demo_fork 0 \<noteq> step_for_resolve demo_fork_input (step_at demo_fork 0)"
proof -
  obtain s q where s: "dag_run demo_step_env demo_fork_input demo_fork (take 6 demo_first_wave) demo_start = Some s"
      "dg_tasks s 0 = Some (Resolving q)"
    unfolding demo_start_def demo_begin by (simp add: demo_fork_defs dag_defs Let_def upt_rec)
  have "ri_TierOverride demo_fork_input \<noteq> []" "st_Type (step_at demo_fork 0) = StepAgentRun"
    "st_ModelOverride (step_at demo_fork 0) = []" "st_Complexity (step_at demo_fork 0) \<noteq> ri_TierOverride demo_fork_input"
    by (simp_all add: demo_fork_defs step_at_def)
  then show ?thesis
    using s override_misses_dag_steps [OF s(1) [unfolded demo_start_def] demo_order s(2)] by auto
qed

end
