(* ===== verification/Routine_Registry.thy ===== *)
theory Routine_Registry
  imports Routine_Run
begin

text \<open>
  The registry of live runs (\<^verbatim>\<open>internal/pipeline/run_registry.go\<close>): the slots of a concurrency key and the
  cancellation of runs.  An entry is a cell named by a number, its identity; the closure \<open>release\<close> that
  \<open>Acquire\<close> hands out remembers the cell, so it is named by that number too.  Every operation is one
  critical section of the registry's mutex.
\<close>

subsection \<open>State\<close>

datatype registry_error = ErrConcurrencyLimitReached | ErrDuplicateRunID | ErrRunNotFound | ErrConcurrencyKeyEmpty

record RunInfo =
  in_RunID :: string
  in_WorkspaceID :: string
  in_PipelineID :: string
  in_PipelineSlug :: string
  in_ConcurrencyKey :: string
  in_StartedAt :: int
  in_CancelRequested :: bool

record runEntry =
  en_info :: RunInfo
  en_cancelled :: bool
  en_released :: bool

record RunRegistry =
  rg_runs :: "string \<rightharpoonup> nat"
  rg_entries :: "nat \<rightharpoonup> runEntry"
  rg_keyCounts :: "string \<rightharpoonup> int"
  rg_next :: nat

record AcquireOpts =
  ao_RunID :: string
  ao_WorkspaceID :: string
  ao_PipelineID :: string
  ao_PipelineSlug :: string
  ao_ConcurrencyKey :: string
  ao_MaxConcurrent :: int

definition NewRunRegistry :: RunRegistry where
  "NewRunRegistry = \<lparr>rg_runs = Map.empty, rg_entries = Map.empty, rg_keyCounts = Map.empty, rg_next = 0\<rparr>"

subsection \<open>Operations\<close>

definition concurrencyCountKey :: "string \<Rightarrow> string \<Rightarrow> string" where
  "concurrencyCountKey workspaceID concurrencyKey = workspaceID @ [CHR 0x00] @ concurrencyKey"

definition count_key :: "string \<Rightarrow> string \<Rightarrow> string" where
  "count_key workspaceID concurrencyKey = (if concurrencyKey \<noteq> [] then concurrencyCountKey workspaceID concurrencyKey else [])"

definition key_count :: "RunRegistry \<Rightarrow> string \<Rightarrow> int" where
  "key_count r k = (case rg_keyCounts r k of None \<Rightarrow> 0 | Some n \<Rightarrow> n)"

definition max_slots :: "int \<Rightarrow> int" where
  "max_slots maxConcurrent = (if maxConcurrent \<le> 0 then 1 else maxConcurrent)"

definition Acquire :: "AcquireOpts \<Rightarrow> int \<Rightarrow> RunRegistry \<Rightarrow> (registry_error + nat) \<times> RunRegistry" where
  "Acquire opts now r =
     (if rg_runs r (ao_RunID opts) \<noteq> None then (Inl ErrDuplicateRunID, r)
      else
        let countKey = count_key (ao_WorkspaceID opts) (ao_ConcurrencyKey opts)
        in if ao_ConcurrencyKey opts \<noteq> [] \<and> key_count r countKey \<ge> max_slots (ao_MaxConcurrent opts)
           then (Inl ErrConcurrencyLimitReached, r)
           else
             let entry = rg_next r;
                 info = \<lparr>in_RunID = ao_RunID opts, in_WorkspaceID = ao_WorkspaceID opts, in_PipelineID = ao_PipelineID opts,
                   in_PipelineSlug = ao_PipelineSlug opts, in_ConcurrencyKey = ao_ConcurrencyKey opts,
                   in_StartedAt = now, in_CancelRequested = False\<rparr>
             in (Inr entry, r\<lparr>
                   rg_runs := (rg_runs r)(ao_RunID opts \<mapsto> entry),
                   rg_entries := (rg_entries r)(entry \<mapsto> \<lparr>en_info = info, en_cancelled = False, en_released = False\<rparr>),
                   rg_keyCounts := (if countKey \<noteq> [] then (rg_keyCounts r)(countKey \<mapsto> key_count r countKey + 1) else rg_keyCounts r),
                   rg_next := Suc entry\<rparr>))"

text \<open>The closure of an entry.  A second \<^verbatim>\<open>close\<close> of its channel would panic: \<open>None\<close>.\<close>

definition give_slot_back :: "string \<Rightarrow> RunRegistry \<Rightarrow> RunRegistry" where
  "give_slot_back countKey r =
     (if countKey \<noteq> [] then
        let n = key_count r countKey - 1
        in r\<lparr>rg_keyCounts := (rg_keyCounts r)(countKey := if n > 0 then Some n else None)\<rparr>
      else r)"

definition release_run :: "nat \<Rightarrow> RunRegistry \<Rightarrow> RunRegistry option" where
  "release_run entry r =
     (case rg_entries r entry of
        None \<Rightarrow> Some r
      | Some e \<Rightarrow>
          let info = en_info e
          in if rg_runs r (in_RunID info) = Some entry then
               (if en_released e then None
                else Some (give_slot_back (count_key (in_WorkspaceID info) (in_ConcurrencyKey info)) (r\<lparr>
                  rg_runs := (rg_runs r)(in_RunID info := None),
                  rg_entries := (rg_entries r)(entry \<mapsto> e\<lparr>en_cancelled := True, en_released := True\<rparr>)\<rparr>)))
             else Some r)"

definition entry_of_run :: "RunRegistry \<Rightarrow> string \<Rightarrow> runEntry option" where
  "entry_of_run r runID = (case rg_runs r runID of None \<Rightarrow> None | Some n \<Rightarrow> rg_entries r n)"

definition CancelRun :: "string \<Rightarrow> RunRegistry \<Rightarrow> registry_error option \<times> RunRegistry" where
  "CancelRun runID r =
     (case rg_runs r runID of
        None \<Rightarrow> (Some ErrRunNotFound, r)
      | Some n \<Rightarrow> (None, (case rg_entries r n of
            None \<Rightarrow> r
          | Some e \<Rightarrow> r\<lparr>rg_entries := (rg_entries r)(n \<mapsto>
              e\<lparr>en_info := (en_info e)\<lparr>in_CancelRequested := True\<rparr>, en_cancelled := True\<rparr>)\<rparr>)))"

definition IsLive :: "string \<Rightarrow> RunRegistry \<Rightarrow> bool" where
  "IsLive runID r \<longleftrightarrow> rg_runs r runID \<noteq> None"

definition IsCancelRequested :: "string \<Rightarrow> RunRegistry \<Rightarrow> bool" where
  "IsCancelRequested runID r \<longleftrightarrow>
     (case entry_of_run r runID of None \<Rightarrow> False | Some e \<Rightarrow> in_CancelRequested (en_info e))"

text \<open>\<open>order\<close> is the order in which the iteration over the map of the runs meets its keys.\<close>

definition Active :: "string list \<Rightarrow> string \<Rightarrow> RunRegistry \<Rightarrow> RunInfo list" where
  "Active order workspaceID r =
     filter (\<lambda>info. workspaceID = [] \<or> in_WorkspaceID info = workspaceID)
       (map en_info (List.map_filter (entry_of_run r) order))"

definition Count :: "string list \<Rightarrow> string \<Rightarrow> string \<Rightarrow> RunRegistry \<Rightarrow> int" where
  "Count order workspaceID concurrencyKey r =
     (if concurrencyKey \<noteq> [] then key_count r (concurrencyCountKey workspaceID concurrencyKey)
      else int (length (filter (\<lambda>info. in_WorkspaceID info = workspaceID) (map en_info (List.map_filter (entry_of_run r) order)))))"

text \<open>The rendered key of a definition: \<open>Inl\<close> when the author asked for a gate and the template renders empty.\<close>

definition renderConcurrencyKey :: "string \<Rightarrow> string \<Rightarrow> registry_error + string \<times> bool" where
  "renderConcurrencyKey template rendered =
     (if template = [] then Inr ([], False) else if rendered = [] then Inl ErrConcurrencyKeyEmpty else Inr (rendered, True))"

definition PrecheckConcurrency :: "string list \<Rightarrow> string \<Rightarrow> string \<Rightarrow> int \<Rightarrow> string \<Rightarrow> RunRegistry \<Rightarrow> registry_error option" where
  "PrecheckConcurrency order template rendered maxConcurrent workspaceID r =
     (if template = [] then None
      else (case renderConcurrencyKey template rendered of
          Inl e \<Rightarrow> Some e
        | Inr (key, _) \<Rightarrow>
            if Count order workspaceID key r \<ge> max_slots maxConcurrent then Some ErrConcurrencyLimitReached else None))"

subsection \<open>Histories\<close>

datatype registry_op = AcquireOp AcquireOpts int | ReleaseOp nat | CancelOp string

primrec registry_step :: "registry_op \<Rightarrow> RunRegistry \<Rightarrow> RunRegistry option" where
  "registry_step (AcquireOp opts now) r = Some (snd (Acquire opts now r))"
| "registry_step (ReleaseOp n) r = release_run n r"
| "registry_step (CancelOp runID) r = Some (snd (CancelRun runID r))"

primrec registry_run :: "registry_op list \<Rightarrow> RunRegistry \<Rightarrow> RunRegistry option" where
  "registry_run [] r = Some r"
| "registry_run (op # ops) r = (case registry_step op r of None \<Rightarrow> None | Some r' \<Rightarrow> registry_run ops r')"

subsection \<open>The counters count the live runs\<close>

definition key_of :: "runEntry \<Rightarrow> string" where
  "key_of e = count_key (in_WorkspaceID (en_info e)) (in_ConcurrencyKey (en_info e))"

definition slots :: "RunRegistry \<Rightarrow> string \<Rightarrow> nat set" where
  "slots r k = {n. \<exists>e. rg_entries r n = Some e \<and> \<not> en_released e \<and> key_of e = k}"

definition registry_ok :: "RunRegistry \<Rightarrow> bool" where
  "registry_ok r \<longleftrightarrow>
     (\<forall>x n. rg_runs r x = Some n \<longrightarrow> (\<exists>e. rg_entries r n = Some e \<and> in_RunID (en_info e) = x \<and> \<not> en_released e))
     \<and> (\<forall>n e. rg_entries r n = Some e \<longrightarrow> n < rg_next r \<and> (\<not> en_released e \<longrightarrow> rg_runs r (in_RunID (en_info e)) = Some n))
     \<and> (\<forall>k. k \<noteq> [] \<longrightarrow> key_count r k = int (card (slots r k)))
     \<and> (\<forall>k c. rg_keyCounts r k = Some c \<longrightarrow> 0 < c)
     \<and> (\<forall>n<rg_next r. rg_entries r n \<noteq> None)"

lemma registry_okD:
  assumes "registry_ok r"
  shows "rg_runs r x = Some n \<Longrightarrow> \<exists>e. rg_entries r n = Some e \<and> in_RunID (en_info e) = x \<and> \<not> en_released e"
    and "rg_entries r n = Some e \<Longrightarrow> n < rg_next r"
    and "rg_entries r n = Some e \<Longrightarrow> \<not> en_released e \<Longrightarrow> rg_runs r (in_RunID (en_info e)) = Some n"
    and "k \<noteq> [] \<Longrightarrow> key_count r k = int (card (slots r k))"
    and "rg_keyCounts r k = Some c \<Longrightarrow> 0 < c"
    and "n < rg_next r \<Longrightarrow> rg_entries r n \<noteq> None"
  using assms unfolding registry_ok_def by blast+

lemma finite_slots: "registry_ok r \<Longrightarrow> finite (slots r k)"
  by (rule finite_subset [of _ "{..<rg_next r}"]) (auto simp: slots_def dest: registry_okD(2))

lemma count_key_empty [simp]: "count_key ws key = [] \<longleftrightarrow> key = []"
  by (simp add: count_key_def concurrencyCountKey_def)

lemma registry_ok_new: "registry_ok NewRunRegistry"
  by (simp add: registry_ok_def NewRunRegistry_def key_count_def slots_def)

lemma Acquire_cases:
  obtains (refused) e where "Acquire opts now r = (Inl e, r)"
  | (taken) entry where "Acquire opts now r = (Inr (rg_next r), r\<lparr>
        rg_runs := (rg_runs r)(ao_RunID opts \<mapsto> rg_next r), rg_entries := (rg_entries r)(rg_next r \<mapsto> entry),
        rg_keyCounts := (if key_of entry \<noteq> [] then (rg_keyCounts r)(key_of entry \<mapsto> key_count r (key_of entry) + 1) else rg_keyCounts r),
        rg_next := Suc (rg_next r)\<rparr>)"
      "rg_runs r (ao_RunID opts) = None" "in_RunID (en_info entry) = ao_RunID opts" "\<not> en_released entry"
      "key_of entry = count_key (ao_WorkspaceID opts) (ao_ConcurrencyKey opts)"
      "key_of entry \<noteq> [] \<Longrightarrow> key_count r (key_of entry) < max_slots (ao_MaxConcurrent opts)"
proof (cases "rg_runs r (ao_RunID opts) \<noteq> None
    \<or> ao_ConcurrencyKey opts \<noteq> [] \<and> key_count r (count_key (ao_WorkspaceID opts) (ao_ConcurrencyKey opts)) \<ge> max_slots (ao_MaxConcurrent opts)")
  case True
  then have "\<exists>e. Acquire opts now r = (Inl e, r)" by (auto simp: Acquire_def Let_def)
  then show thesis using refused by blast
next
  case False
  show thesis
    by (rule taken [of "\<lparr>en_info = \<lparr>in_RunID = ao_RunID opts, in_WorkspaceID = ao_WorkspaceID opts, in_PipelineID = ao_PipelineID opts,
        in_PipelineSlug = ao_PipelineSlug opts, in_ConcurrencyKey = ao_ConcurrencyKey opts, in_StartedAt = now,
        in_CancelRequested = False\<rparr>, en_cancelled = False, en_released = False\<rparr>"])
      (use False in \<open>auto simp: Acquire_def Let_def key_of_def\<close>)
qed

lemma registry_ok_add:
  assumes ok: "registry_ok r" and fresh: "rg_runs r x = None" and e: "in_RunID (en_info e) = x" "\<not> en_released e"
    and r': "r' = r\<lparr>rg_runs := (rg_runs r)(x \<mapsto> rg_next r), rg_entries := (rg_entries r)(rg_next r \<mapsto> e),
      rg_keyCounts := (if key_of e \<noteq> [] then (rg_keyCounts r)(key_of e \<mapsto> key_count r (key_of e) + 1) else rg_keyCounts r),
      rg_next := Suc (rg_next r)\<rparr>"
  shows "registry_ok r'" "slots r' k = (if k = key_of e then insert (rg_next r) (slots r k) else slots r k)"
proof -
  have new: "rg_entries r (rg_next r) = None" using registry_okD(2) [OF ok] by (metis less_irrefl not_Some_eq)
  show slots: "slots r' k = (if k = key_of e then insert (rg_next r) (slots r k) else slots r k)" for k
    using new e by (auto simp: slots_def r' split: if_splits)
  have "rg_next r \<notin> slots r k" for k using new by (auto simp: slots_def)
  then have card: "card (slots r' k) = (if k = key_of e then Suc (card (slots r k)) else card (slots r k))" for k
    using finite_slots [OF ok] by (simp add: slots)
  have count: "key_count r' k = (if k = key_of e \<and> k \<noteq> [] then key_count r k + 1 else key_count r k)" for k
    by (auto simp: key_count_def r')
  show "registry_ok r'" unfolding registry_ok_def
  proof (intro conjI allI impI)
    show "\<exists>e. rg_entries r' n = Some e \<and> in_RunID (en_info e) = y \<and> \<not> en_released e" if "rg_runs r' y = Some n" for y n
      using that e registry_okD(1) [OF ok, of y n] new by (cases "y = x") (auto simp: r')
    show "n < rg_next r'" if "rg_entries r' n = Some e'" for n e'
      using that registry_okD(2) [OF ok, of n] by (cases "n = rg_next r") (auto simp: r' less_Suc_eq)
    show "rg_runs r' (in_RunID (en_info e')) = Some n" if "rg_entries r' n = Some e'" "\<not> en_released e'" for n e'
      using that e fresh registry_okD(3) [OF ok, of n e'] by (cases "n = rg_next r") (auto simp: r')
    show "key_count r' k = int (card (slots r' k))" if "k \<noteq> []" for k
      using that registry_okD(4) [OF ok that] by (cases "k = key_of e") (simp_all add: card count)
    show "0 < c" if "rg_keyCounts r' k = Some c" for k c
    proof -
      have "0 \<le> key_count r k" by (auto simp: key_count_def split: option.split dest: registry_okD(5) [OF ok])
      then show ?thesis using that registry_okD(5) [OF ok, of k c] by (auto simp: r' split: if_splits)
    qed
    show "rg_entries r' n \<noteq> None" if "n < rg_next r'" for n
      using that registry_okD(6) [OF ok, of n] by (auto simp: r' less_Suc_eq)
  qed
qed

lemma registry_ok_remove:
  assumes ok: "registry_ok r" and e: "rg_entries r n = Some e" "rg_runs r (in_RunID (en_info e)) = Some n"
    and r': "release_run n r = Some r'"
  shows "registry_ok r'" "slots r' k = slots r k - {n}"
proof -
  have live: "\<not> en_released e" using registry_okD(1) [OF ok e(2)] e(1) by auto
  let ?k = "key_of e"
  have r'': "r' = give_slot_back ?k (r\<lparr>rg_runs := (rg_runs r)(in_RunID (en_info e) := None),
      rg_entries := (rg_entries r)(n \<mapsto> e\<lparr>en_cancelled := True, en_released := True\<rparr>)\<rparr>)"
    using r' e live by (simp add: release_run_def key_of_def Let_def)
  have f: "rg_runs r' = (rg_runs r)(in_RunID (en_info e) := None)"
    "rg_entries r' = (rg_entries r)(n \<mapsto> e\<lparr>en_cancelled := True, en_released := True\<rparr>)" "rg_next r' = rg_next r"
    by (simp_all add: r'' give_slot_back_def Let_def)
  have count: "key_count r' k = (if k = ?k \<and> k \<noteq> [] then max 0 (key_count r k - 1) else key_count r k)" for k
    by (auto simp: r'' give_slot_back_def key_count_def Let_def)
  show slots: "slots r' k = slots r k - {n}" for k by (auto simp: slots_def f)
  have "n \<in> slots r ?k" using e(1) live by (simp add: slots_def)
  then have card: "card (slots r' k) = (if k = ?k then card (slots r k) - 1 else card (slots r k))" for k
    using e(1) by (auto simp: slots card_Diff_singleton_if) (auto simp: slots_def)
  show "registry_ok r'" unfolding registry_ok_def
  proof (intro conjI allI impI)
    show "\<exists>e. rg_entries r' m = Some e \<and> in_RunID (en_info e) = y \<and> \<not> en_released e" if "rg_runs r' y = Some m" for y m
      using that registry_okD(1) [OF ok, of y m] e by (auto simp: f split: if_splits)
    show "m < rg_next r'" if "rg_entries r' m = Some e'" for m e'
      using that registry_okD(2) [OF ok] e(1) by (auto simp: f split: if_splits)
    show "rg_runs r' (in_RunID (en_info e')) = Some m" if m: "rg_entries r' m = Some e'" "\<not> en_released e'" for m e'
    proof -
      have "m \<noteq> n" using m by (auto simp: f)
      then have old: "rg_entries r m = Some e'" using m(1) by (simp add: f)
      then have "rg_runs r (in_RunID (en_info e')) = Some m" using registry_okD(3) [OF ok old m(2)] by simp
      then show ?thesis using e(2) \<open>m \<noteq> n\<close> by (auto simp: f)
    qed
    show "key_count r' k = int (card (slots r' k))" if "k \<noteq> []" for k
      using that registry_okD(4) [OF ok that] by (cases "k = key_of e") (simp_all add: card count)
    show "0 < c" if "rg_keyCounts r' k = Some c" for k c
      using that registry_okD(5) [OF ok] by (auto simp: r'' give_slot_back_def Let_def split: if_splits)
    show "rg_entries r' m \<noteq> None" if "m < rg_next r'" for m
      using that registry_okD(6) [OF ok, of m] by (simp add: f)
  qed
qed

lemma CancelRun_cases:
  obtains (missing) "CancelRun x r = (Some ErrRunNotFound, r)" "rg_runs r x = None"
  | (found) n where "rg_runs r x = Some n" "fst (CancelRun x r) = None" "rg_runs (snd (CancelRun x r)) = rg_runs r"
      "rg_keyCounts (snd (CancelRun x r)) = rg_keyCounts r" "rg_next (snd (CancelRun x r)) = rg_next r"
      "rg_entries (snd (CancelRun x r)) = (rg_entries r)(n := map_option (\<lambda>e. e\<lparr>en_info := (en_info e)\<lparr>in_CancelRequested := True\<rparr>,
         en_cancelled := True\<rparr>) (rg_entries r n))"
  by (cases "rg_runs r x") (auto simp: CancelRun_def fun_upd_idem split: option.splits)

lemma registry_ok_cancel:
  assumes ok: "registry_ok r"
  shows "registry_ok (snd (CancelRun x r))" "slots (snd (CancelRun x r)) k = slots r k"
proof -
  show slots: "slots (snd (CancelRun x r)) k = slots r k" for k
    by (cases rule: CancelRun_cases [of x r]) (auto simp: slots_def key_of_def)
  show "registry_ok (snd (CancelRun x r))"
  proof (cases rule: CancelRun_cases [of x r])
    case (found n)
    obtain e where e: "rg_entries r n = Some e" "in_RunID (en_info e) = x" "\<not> en_released e"
      using registry_okD(1) [OF ok found(1)] by blast
    have "key_count (snd (CancelRun x r)) k = key_count r k" for k by (simp add: key_count_def found)
    moreover have "\<exists>e'. rg_entries (snd (CancelRun x r)) m = Some e' \<and> in_RunID (en_info e') = y \<and> \<not> en_released e'"
      if "rg_runs r y = Some m" for y m
    proof (cases "m = n")
      case True
      then have "y = x" using registry_okD(1) [OF ok that] e by auto
      then show ?thesis using e True by (simp add: found)
    qed (use registry_okD(1) [OF ok that] in \<open>simp add: found\<close>)
    moreover have "m < rg_next r \<and> (\<not> en_released e' \<longrightarrow> rg_runs r (in_RunID (en_info e')) = Some m)"
      if "rg_entries (snd (CancelRun x r)) m = Some e'" for m e'
      using that registry_okD(2,3) [OF ok] e by (cases "m = n") (auto simp: found)
    moreover have "rg_entries (snd (CancelRun x r)) m \<noteq> None" if "m < rg_next r" for m
      using registry_okD(6) [OF ok that] e by (simp add: found)
    ultimately show ?thesis using ok unfolding registry_ok_def slots by (simp add: found)
  qed (use ok in simp)
qed

lemma release_idle:
  assumes "\<And>e. rg_entries r n = Some e \<Longrightarrow> rg_runs r (in_RunID (en_info e)) \<noteq> Some n"
  shows "release_run n r = Some r"
  using assms by (auto simp: release_run_def Let_def split: option.split)

lemma release_live:
  assumes "registry_ok r" and "rg_entries r n = Some e" "rg_runs r (in_RunID (en_info e)) = Some n"
  obtains r' where "release_run n r = Some r'" "registry_ok r'" "\<And>k. slots r' k = slots r k - {n}"
    "rg_entries r' n = Some (e\<lparr>en_cancelled := True, en_released := True\<rparr>)"
    "\<And>m. m \<noteq> n \<Longrightarrow> rg_entries r' m = rg_entries r m" "rg_next r' = rg_next r"
proof -
  have "\<not> en_released e" using registry_okD(1) [OF assms(1,3)] assms(2) by auto
  then obtain r' where r': "release_run n r = Some r'" "rg_entries r' = (rg_entries r)(n \<mapsto> e\<lparr>en_cancelled := True, en_released := True\<rparr>)"
      "rg_next r' = rg_next r"
    using assms(2,3) by (auto simp: release_run_def give_slot_back_def Let_def)
  then show thesis using that registry_ok_remove [OF assms r'(1)] by simp
qed

text \<open>What a step does to the slots of a key.\<close>

lemma registry_step_ok:
  assumes ok: "registry_ok r"
  obtains r' where "registry_step op r = Some r'" "registry_ok r'"
    "\<And>n e. rg_entries r n = Some e \<Longrightarrow> en_released e \<Longrightarrow> \<exists>e'. rg_entries r' n = Some e' \<and> en_released e'"
    "\<And>k. k \<noteq> [] \<Longrightarrow> card (slots r' k) \<le> card (slots r k)
      \<or> (\<exists>opts now. op = AcquireOp opts now \<and> k = count_key (ao_WorkspaceID opts) (ao_ConcurrencyKey opts)
          \<and> int (card (slots r' k)) \<le> max_slots (ao_MaxConcurrent opts))"
proof (cases op)
  case (AcquireOp opts now)
  show thesis
  proof (cases rule: Acquire_cases [of opts now r])
    case (refused e)
    then show thesis using that [of r] AcquireOp ok by simp
  next
    case (taken entry)
    define r' where r': "r' = snd (Acquire opts now r)"
    note add = registry_ok_add [OF ok taken(2-4) r' [unfolded taken(1) snd_conv]]
    have "rg_entries r (rg_next r) = None" using registry_okD(2) [OF ok] by (metis less_irrefl not_Some_eq)
    moreover have "card (slots r' k) \<le> card (slots r k) \<or> k = key_of entry \<and> int (card (slots r' k)) \<le> max_slots (ao_MaxConcurrent opts)"
      if "k \<noteq> []" for k
    proof (cases "k = key_of entry")
      case True
      then have "key_count r' k = key_count r k + 1" using that by (simp add: r' taken(1) key_count_def)
      then show ?thesis using taken(6) True that registry_okD(4) [OF add(1) that] by simp
    qed (simp add: add(2))
    ultimately have entries: "\<And>n e. rg_entries r n = Some e \<Longrightarrow> rg_entries r' n = Some e"
      and limit: "\<And>k. k \<noteq> [] \<Longrightarrow> card (slots r' k) \<le> card (slots r k)
        \<or> k = key_of entry \<and> int (card (slots r' k)) \<le> max_slots (ao_MaxConcurrent opts)"
      by (auto simp: r' taken(1))
    show thesis
    proof (rule that)
      show "registry_step op r = Some r'" "registry_ok r'" using AcquireOp add(1) by (simp_all add: r')
    qed (use entries limit AcquireOp taken(5) in blast)+
  qed
next
  case (ReleaseOp n)
  show thesis
  proof (cases "\<exists>e. rg_entries r n = Some e \<and> rg_runs r (in_RunID (en_info e)) = Some n")
    case True
    then obtain e where e: "rg_entries r n = Some e" "rg_runs r (in_RunID (en_info e)) = Some n" by blast
    obtain r' where r': "release_run n r = Some r'" "registry_ok r'" "\<And>k. slots r' k = slots r k - {n}"
        "rg_entries r' n = Some (e\<lparr>en_cancelled := True, en_released := True\<rparr>)" "\<And>m. m \<noteq> n \<Longrightarrow> rg_entries r' m = rg_entries r m"
        "rg_next r' = rg_next r"
      using release_live [OF ok e] by blast
    show thesis
    proof (rule that)
      show "registry_step op r = Some r'" "registry_ok r'" using r' ReleaseOp by simp_all
      show "\<exists>e'. rg_entries r' m = Some e' \<and> en_released e'" if "rg_entries r m = Some e''" "en_released e''" for m e''
        using r'(4,5) that by (cases "m = n") auto
      show "card (slots r' k) \<le> card (slots r k) \<or> (\<exists>opts now. op = AcquireOp opts now
          \<and> k = count_key (ao_WorkspaceID opts) (ao_ConcurrencyKey opts) \<and> int (card (slots r' k)) \<le> max_slots (ao_MaxConcurrent opts))" for k
        using card_mono [OF finite_slots [OF ok, of k], of "slots r k - {n}"] by (simp add: r'(3))
    qed
  next
    case False
    then show thesis using that [of r] ReleaseOp ok release_idle [of r n] by auto
  qed
next
  case (CancelOp x)
  have "\<exists>e'. rg_entries (snd (CancelRun x r)) n = Some e' \<and> en_released e'" if "rg_entries r n = Some e" "en_released e" for n e
    using that by (cases rule: CancelRun_cases [of x r]) auto
  then show thesis using that [of "snd (CancelRun x r)"] CancelOp registry_ok_cancel [OF ok] by simp
qed

interpretation registry_runs: event_runs registry_step registry_run
  by unfold_locales simp_all

lemma registry_run_ok: "registry_ok r \<Longrightarrow> \<exists>r'. registry_run ops r = Some r' \<and> registry_ok r'"
  by (erule registry_runs.run_total) (metis registry_step_ok)

lemma released_stays:
  assumes "registry_run ops r = Some r'" and "registry_ok r" and "\<exists>e. rg_entries r n = Some e \<and> en_released e"
  shows "registry_ok r' \<and> (\<exists>e. rg_entries r' n = Some e \<and> en_released e)"
proof (rule registry_runs.run_invariant [OF assms(1)])
  fix op q u
  assume "registry_step op q = Some u" and q: "registry_ok q \<and> (\<exists>e. rg_entries q n = Some e \<and> en_released e)"
  moreover obtain u' where "registry_step op q = Some u'" "registry_ok u'"
      "\<And>n e. rg_entries q n = Some e \<Longrightarrow> en_released e \<Longrightarrow> \<exists>e'. rg_entries u' n = Some e' \<and> en_released e'"
    by (rule registry_step_ok [OF conjunct1 [OF q], of op]) blast
  ultimately show "registry_ok u \<and> (\<exists>e. rg_entries u n = Some e \<and> en_released e)" by auto
qed (use assms(2,3) in blast)

lemma slots_bounded:
  assumes "registry_ok r" and "k \<noteq> []" and "int (card (slots r k)) \<le> m" and "registry_run ops r = Some r'"
    and limit: "\<And>opts now. AcquireOp opts now \<in> set ops \<Longrightarrow>
      k = count_key (ao_WorkspaceID opts) (ao_ConcurrencyKey opts) \<Longrightarrow> max_slots (ao_MaxConcurrent opts) \<le> m"
  shows "int (card (slots r' k)) \<le> m"
proof -
  have "registry_ok r' \<and> int (card (slots r' k)) \<le> m"
  proof (rule registry_runs.run_invariant [OF assms(4)])
    fix op q u
    assume op: "op \<in> set ops" and step: "registry_step op q = Some u" and q: "registry_ok q \<and> int (card (slots q k)) \<le> m"
    obtain u' where u': "registry_step op q = Some u'" "registry_ok u'"
        "\<And>k. k \<noteq> [] \<Longrightarrow> card (slots u' k) \<le> card (slots q k)
        \<or> (\<exists>opts now. op = AcquireOp opts now \<and> k = count_key (ao_WorkspaceID opts) (ao_ConcurrencyKey opts)
            \<and> int (card (slots u' k)) \<le> max_slots (ao_MaxConcurrent opts))"
      by (rule registry_step_ok [OF conjunct1 [OF q], of op]) blast
    from u'(3) [OF assms(2)] have "int (card (slots u' k)) \<le> m"
    proof (elim disjE exE conjE)
      assume "card (slots u' k) \<le> card (slots q k)"
      then show ?thesis using q by linarith
    next
      fix opts now
      assume acq: "op = AcquireOp opts now" "k = count_key (ao_WorkspaceID opts) (ao_ConcurrencyKey opts)"
        "int (card (slots u' k)) \<le> max_slots (ao_MaxConcurrent opts)"
      have "max_slots (ao_MaxConcurrent opts) \<le> m" by (rule limit) (use acq op in simp_all)
      then show ?thesis using acq(3) by linarith
    qed
    then show "registry_ok u \<and> int (card (slots u k)) \<le> m" using u'(1,2) step by simp
  qed (use assms(1,3) in blast)
  then show ?thesis by blast
qed

text \<open>
  C30. The admission counters are exact on every history of acquisitions, releases (in any order, repeated, by
  anyone who ever held the closure) and cancellations: no release closes a channel twice, the counter of each
  key is the number of its unreleased runs, and a key without runs has no counter.
\<close>

theorem registry_counts_live:
  "\<exists>r. registry_run ops NewRunRegistry = Some r
    \<and> (\<forall>ws key. key \<noteq> [] \<longrightarrow>
         rg_keyCounts r (concurrencyCountKey ws key)
           = (if slots r (concurrencyCountKey ws key) = {} then None else Some (int (card (slots r (concurrencyCountKey ws key))))))
    \<and> (\<forall>n e. rg_entries r n = Some e \<longrightarrow> (\<not> en_released e \<longleftrightarrow> rg_runs r (in_RunID (en_info e)) = Some n))"
proof -
  obtain r where r: "registry_run ops NewRunRegistry = Some r" "registry_ok r"
    using registry_run_ok [OF registry_ok_new] by blast
  have "rg_keyCounts r k = (if slots r k = {} then None else Some (int (card (slots r k))))" if "k \<noteq> []" for k
    using registry_okD(4) [OF r(2) that] registry_okD(5) [OF r(2), of k] finite_slots [OF r(2), of k]
    by (auto simp: key_count_def card_gt_0_iff split: option.splits)
  moreover have "concurrencyCountKey ws key \<noteq> []" for ws key by (simp add: concurrencyCountKey_def)
  moreover have "\<not> en_released e \<longleftrightarrow> rg_runs r (in_RunID (en_info e)) = Some n" if "rg_entries r n = Some e" for n e
    using registry_okD(1) [OF r(2), of "in_RunID (en_info e)" n] registry_okD(3) [OF r(2) that] that by auto
  ultimately show ?thesis using r(1) by blast
qed

text \<open>
  C31. A concurrency key is never overbooked: if every acquisition of a key in a workspace asks for at most \<open>m\<close>
  slots (the definition of the routine says how many), at most \<open>m\<close> runs of it are live at any time.
\<close>

theorem slots_never_exceeded:
  assumes "registry_run ops NewRunRegistry = Some r" and "key \<noteq> []" and "0 \<le> m"
    and "\<forall>opts now. AcquireOp opts now \<in> set ops \<longrightarrow>
      count_key (ao_WorkspaceID opts) (ao_ConcurrencyKey opts) = concurrencyCountKey ws key \<longrightarrow> max_slots (ao_MaxConcurrent opts) \<le> m"
  shows "int (card {n. \<exists>e. rg_entries r n = Some e \<and> \<not> en_released e
      \<and> in_WorkspaceID (en_info e) = ws \<and> in_ConcurrencyKey (en_info e) = key}) \<le> m"
proof -
  let ?k = "concurrencyCountKey ws key"
  have k: "?k \<noteq> []" by (simp add: concurrencyCountKey_def)
  have ok: "registry_ok r" using registry_run_ok [OF registry_ok_new, of ops] assms(1) by auto
  have "int (card (slots r ?k)) \<le> m"
    by (rule slots_bounded [OF registry_ok_new k _ assms(1)])
      (use assms(3,4) in \<open>auto simp: slots_def NewRunRegistry_def\<close>)
  moreover have "{n. \<exists>e. rg_entries r n = Some e \<and> \<not> en_released e \<and> in_WorkspaceID (en_info e) = ws
      \<and> in_ConcurrencyKey (en_info e) = key} \<subseteq> slots r ?k"
    using assms(2) by (auto simp: slots_def key_of_def count_key_def)
  ultimately show ?thesis using card_mono [OF finite_slots [OF ok, of ?k]] by (meson of_nat_le_iff order_trans)
qed

lemma released_is_idle:
  assumes "registry_ok r" and "rg_entries r n = Some e" and "en_released e"
  shows "release_run n r = Some r"
proof (rule release_idle)
  fix e'
  assume "rg_entries r n = Some e'"
  then show "rg_runs r (in_RunID (en_info e')) \<noteq> Some n"
    using assms registry_okD(1) [OF assms(1), of "in_RunID (en_info e')" n] by auto
qed

lemma release_releases:
  assumes "registry_ok r" and "n < rg_next r" and "release_run n r = Some r1"
  shows "registry_ok r1 \<and> (\<exists>e. rg_entries r1 n = Some e \<and> en_released e)"
proof -
  obtain e where e: "rg_entries r n = Some e" using registry_okD(6) [OF assms(1,2)] by blast
  show ?thesis
  proof (cases "rg_runs r (in_RunID (en_info e)) = Some n")
    case True
    show ?thesis
    proof (rule release_live [OF assms(1) e True])
      fix r'
      assume "release_run n r = Some r'" "registry_ok r'" "rg_entries r' n = Some (e\<lparr>en_cancelled := True, en_released := True\<rparr>)"
      then show ?thesis using assms(3) by simp
    qed
  next
    case False
    then have "en_released e" using registry_okD(3) [OF assms(1) e] by blast
    then show ?thesis using released_is_idle [OF assms(1) e] assms(1,3) e by simp
  qed
qed

text \<open>
  A closure frees its slot once: after its first call nothing it does later changes the registry, whatever
  happened in between, even if the same run identifier is live again.
\<close>

theorem stale_release_harmless:
  assumes "registry_run ops NewRunRegistry = Some r" and "n < rg_next r"
    and "release_run n r = Some r1" and "registry_run ops' r1 = Some r2"
  shows "release_run n r2 = Some r2"
proof -
  have "registry_ok r" using registry_run_ok [OF registry_ok_new, of ops] assms(1) by auto
  then have r1: "registry_ok r1" "\<exists>e. rg_entries r1 n = Some e \<and> en_released e"
    using release_releases [OF _ assms(2,3)] by blast+
  from released_stays [OF assms(4) r1] show ?thesis by (blast intro: released_is_idle)
qed

text \<open>A cancellation reaches its run, and only its run; the registry answers it until the run is released.\<close>

lemma cancel_only_its_run:
  assumes "registry_ok r" and "IsLive x r"
  shows "fst (CancelRun x r) = None" "IsCancelRequested x (snd (CancelRun x r))"
    "y \<noteq> x \<Longrightarrow> entry_of_run (snd (CancelRun x r)) y = entry_of_run r y"
proof -
  obtain n where n: "rg_runs r x = Some n" using assms(2) by (auto simp: IsLive_def)
  obtain e where e: "rg_entries r n = Some e" "in_RunID (en_info e) = x" using registry_okD(1) [OF assms(1) n] by blast
  show "fst (CancelRun x r) = None" "IsCancelRequested x (snd (CancelRun x r))"
    using n e by (simp_all add: CancelRun_def IsCancelRequested_def entry_of_run_def)
  show "y \<noteq> x \<Longrightarrow> entry_of_run (snd (CancelRun x r)) y = entry_of_run r y"
    using n e registry_okD(1) [OF assms(1), of y]
    by (auto simp: CancelRun_def entry_of_run_def split: option.split)
qed

text \<open>The check before the asynchronous dispatch answers what \<open>Acquire\<close> would answer at that moment.\<close>

lemma precheck_mirrors_acquire:
  assumes "template \<noteq> []" and "rendered \<noteq> []" and "rg_runs r (ao_RunID opts) = None"
    and "ao_ConcurrencyKey opts = rendered" and "ao_MaxConcurrent opts = maxConcurrent"
  shows "PrecheckConcurrency order template rendered maxConcurrent (ao_WorkspaceID opts) r = Some ErrConcurrencyLimitReached
    \<longleftrightarrow> fst (Acquire opts now r) = Inl ErrConcurrencyLimitReached"
  using assms by (simp add: PrecheckConcurrency_def renderConcurrencyKey_def Count_def Acquire_def count_key_def Let_def)

text \<open>Two workspaces share no counter as long as their identifiers hold no NUL character.\<close>

lemma count_keys_apart:
  assumes "CHR 0x00 \<notin> set ws" and "CHR 0x00 \<notin> set ws'" and "concurrencyCountKey ws key = concurrencyCountKey ws' key'"
  shows "ws = ws' \<and> key = key'"
proof -
  have "takeWhile (\<lambda>c. c \<noteq> CHR 0x00) (concurrencyCountKey v k) = v" if "CHR 0x00 \<notin> set v" for v k
    using that by (induction v) (auto simp: concurrencyCountKey_def)
  then have "ws = ws'" using assms by metis
  then show ?thesis using assms(3) by (simp add: concurrencyCountKey_def)
qed

subsection \<open>A concrete history\<close>

definition demo_acquire :: "string \<Rightarrow> registry_op" where
  "demo_acquire x = AcquireOp \<lparr>ao_RunID = x, ao_WorkspaceID = ''w1'', ao_PipelineID = ''p1'', ao_PipelineSlug = ''nightly'',
     ao_ConcurrencyKey = ''tenant'', ao_MaxConcurrent = 1\<rparr> 0"

lemma registry_counts_live_witness:
  "\<exists>r. registry_run [demo_acquire ''r1'', CancelOp ''r1'', ReleaseOp 0, ReleaseOp 0] NewRunRegistry = Some r
     \<and> rg_keyCounts r (concurrencyCountKey ''w1'' ''tenant'')
       = (if slots r (concurrencyCountKey ''w1'' ''tenant'') = {} then None else Some (int (card (slots r (concurrencyCountKey ''w1'' ''tenant'')))))"
  using registry_counts_live [of "[demo_acquire ''r1'', CancelOp ''r1'', ReleaseOp 0, ReleaseOp 0]"] by blast

lemma slots_never_exceeded_witness:
  "\<exists>r. registry_run [demo_acquire ''r1'', demo_acquire ''r2''] NewRunRegistry = Some r
     \<and> int (card {n. \<exists>e. rg_entries r n = Some e \<and> \<not> en_released e \<and> in_WorkspaceID (en_info e) = ''w1''
         \<and> in_ConcurrencyKey (en_info e) = ''tenant''}) \<le> 1"
proof -
  obtain r where r: "registry_run [demo_acquire ''r1'', demo_acquire ''r2''] NewRunRegistry = Some r"
    by (simp add: demo_acquire_def)
  have "\<forall>opts now. AcquireOp opts now \<in> set [demo_acquire ''r1'', demo_acquire ''r2''] \<longrightarrow>
      count_key (ao_WorkspaceID opts) (ao_ConcurrencyKey opts) = concurrencyCountKey ''w1'' ''tenant'' \<longrightarrow>
      max_slots (ao_MaxConcurrent opts) \<le> 1"
    by (auto simp: demo_acquire_def max_slots_def)
  from slots_never_exceeded [OF r _ _ this] show ?thesis using r by simp
qed

lemma stale_release_harmless_witness:
  "\<exists>r. registry_run [demo_acquire ''r1'', ReleaseOp 0, demo_acquire ''r1''] NewRunRegistry = Some r
     \<and> rg_runs r ''r1'' = Some 1 \<and> release_run 0 r = Some r"
proof -
  obtain r r1 r2 where r: "registry_run [demo_acquire ''r1''] NewRunRegistry = Some r" "0 < rg_next r" "release_run 0 r = Some r1"
      "registry_run [demo_acquire ''r1''] r1 = Some r2" "rg_runs r2 ''r1'' = Some 1"
    by (simp add: demo_acquire_def Acquire_def NewRunRegistry_def key_count_def count_key_def concurrencyCountKey_def max_slots_def
        release_run_def give_slot_back_def Let_def)
  have "registry_run [demo_acquire ''r1'', ReleaseOp 0, demo_acquire ''r1''] NewRunRegistry = Some r2"
    using r(1,3,4) by (simp add: demo_acquire_def)
  then show ?thesis using r(5) stale_release_harmless [OF r(1-4)] by blast
qed

end
