(* ===== verification/Routine_Retry.thy ===== *)
theory Routine_Retry
  imports Routine_Run
begin

text \<open>
  Retries of a step (\<^verbatim>\<open>internal/pipeline/executor_retry.go\<close>): the policy of a step, the loop over its attempts
  (\<^verbatim>\<open>runStepWithRetry\<close>), and below it the loop over the calls of the agent runner in one tier
  (\<^verbatim>\<open>runRunnerWithTransientRetry\<close>).  The attempts, the context, the sleeps, the random draws, the expression
  language of \<^verbatim>\<open>retry_on\<close> and floating point are arguments.
\<close>

subsection \<open>Policies\<close>

text \<open>The operations on \<^verbatim>\<open>float64\<close> the code uses: a growth factor, its comparisons, and a delay times a factor.\<close>

record 'f factors =
  fa_positive :: "'f \<Rightarrow> bool"
  fa_below_one :: "'f \<Rightarrow> bool"
  fa_one :: 'f
  fa_two :: 'f
  fa_scale :: "'f \<Rightarrow> int \<Rightarrow> int"

record 'f BackoffPolicy =
  bp_MinMs :: int
  bp_MaxMs :: int
  bp_Factor :: 'f
  bp_Jitter :: "bool option"

record 'f RetryPolicy =
  rp_MaxAttempts :: int
  rp_Backoff :: "'f BackoffPolicy option"
  rp_RetryOn :: string

text \<open>What the retry loops read of a step.\<close>

record 'f retried_step =
  rs_ID :: string
  rs_Retry :: "'f RetryPolicy option"
  rs_OnFail :: string

definition OnFailRetryStep :: string where "OnFailRetryStep = ''retry_step''"
definition retryMaxAttemptsCeiling :: int where "retryMaxAttemptsCeiling = 10"
definition defaultRetryMaxAttempts :: int where "defaultRetryMaxAttempts = 3"
definition defaultBackoffMinMs :: int where "defaultBackoffMinMs = 1000"
definition defaultBackoffMaxMs :: int where "defaultBackoffMaxMs = 60000"
definition Millisecond :: int where "Millisecond = 1000000"

definition defaultRetryPolicy :: "'f RetryPolicy" where
  "defaultRetryPolicy = \<lparr>rp_MaxAttempts = defaultRetryMaxAttempts, rp_Backoff = None, rp_RetryOn = []\<rparr>"

definition stepHasExplicitRetry :: "'f retried_step \<Rightarrow> bool" where
  "stepHasExplicitRetry st =
     (case rs_Retry st of Some rp \<Rightarrow> rp_MaxAttempts rp > 1 | None \<Rightarrow> rs_OnFail st = OnFailRetryStep)"

definition retry_policy :: "'f retried_step \<Rightarrow> 'f RetryPolicy option" where
  "retry_policy st =
     (case rs_Retry st of Some rp \<Rightarrow> Some rp
      | None \<Rightarrow> if rs_OnFail st = OnFailRetryStep then Some defaultRetryPolicy else None)"

text \<open>The shortest delay, the longest one, the factor and whether to jitter; \<open>int\<close> and durations have 64 bits.\<close>

definition resolveBackoff :: "'f factors \<Rightarrow> 'f BackoffPolicy option \<Rightarrow> int \<times> int \<times> 'f \<times> bool" where
  "resolveBackoff F bp =
     (let (minMs, maxMs, f, j) = (case bp of
            None \<Rightarrow> (defaultBackoffMinMs, defaultBackoffMaxMs, fa_two F, True)
          | Some p \<Rightarrow> (if bp_MinMs p > 0 then bp_MinMs p else defaultBackoffMinMs,
                       if bp_MaxMs p > 0 then bp_MaxMs p else defaultBackoffMaxMs,
                       if fa_positive F (bp_Factor p) then bp_Factor p else fa_two F,
                       (case bp_Jitter p of Some b \<Rightarrow> b | None \<Rightarrow> True)));
          f = (if fa_below_one F f then fa_one F else f);
          minDelay = wrap64 (minMs * Millisecond);
          maxDelay = wrap64 (maxMs * Millisecond);
          maxDelay = (if maxDelay < minDelay then minDelay else maxDelay)
      in (minDelay, maxDelay, f, j))"

text \<open>\<^verbatim>\<open>applyJitter\<close> with the draw of the random source: uniform in \<open>[0, d)\<close>, or in \<open>[d / 2, d]\<close>.\<close>

datatype jitterMode = jitterFull | jitterHalf

definition applyJitter :: "(int \<Rightarrow> int) \<Rightarrow> int \<Rightarrow> jitterMode \<Rightarrow> int" where
  "applyJitter draw d mode =
     (if d \<le> 0 then 0
      else case mode of
        jitterHalf \<Rightarrow> (let half = go_div d 2 in half + draw (d - half + 1))
      | jitterFull \<Rightarrow> draw d)"

subsection \<open>Errors and attempts\<close>

datatype step_error =
    SuspendError string string
  | OutcomeExhausted string
  | RunnerError string
  | ContextError string
  | BudgetExhausted string step_error

primrec error_text :: "step_error \<Rightarrow> string" where
  "error_text (SuspendError token x) = ''run suspended awaiting approval at step '' @ go_quote x"
| "error_text (OutcomeExhausted msg) = msg"
| "error_text (RunnerError msg) = msg"
| "error_text (ContextError msg) = msg"
| "error_text (BudgetExhausted msg e) = msg @ '': '' @ error_text e"

primrec is_suspension :: "step_error \<Rightarrow> bool" where
  "is_suspension (SuspendError token x) = True"
| "is_suspension (OutcomeExhausted msg) = False"
| "is_suspension (RunnerError msg) = False"
| "is_suspension (ContextError msg) = False"
| "is_suspension (BudgetExhausted msg e) = is_suspension e"

primrec is_exhausted :: "step_error \<Rightarrow> bool" where
  "is_exhausted (SuspendError token x) = False"
| "is_exhausted (OutcomeExhausted msg) = True"
| "is_exhausted (RunnerError msg) = False"
| "is_exhausted (ContextError msg) = False"
| "is_exhausted (BudgetExhausted msg e) = is_exhausted e"

record 'c attempt_result =
  at_out :: string
  at_cost :: 'c
  at_dur :: int
  at_err :: "step_error option"

text \<open>A compiled predicate: none for an empty expression; its answer is true only for the boolean true.\<close>

type_synonym predicate = "(step_error \<Rightarrow> bool) option"

definition evalRetryOn :: "predicate \<Rightarrow> step_error \<Rightarrow> bool" where
  "evalRetryOn prg e = (case prg of None \<Rightarrow> \<not> is_exhausted e | Some p \<Rightarrow> p e)"

record ('c, 'f) retry_env =
  rt_costs :: "'c costs"
  rt_average :: "'c \<Rightarrow> nat \<Rightarrow> 'c"
  rt_factors :: "'f factors"
  rt_compile :: "string \<Rightarrow> (step_error \<Rightarrow> bool) option"
  rt_ctx :: "nat \<Rightarrow> string option"
  rt_try :: "nat \<Rightarrow> 'c attempt_result"
  rt_draw :: "nat \<Rightarrow> int \<Rightarrow> int"
  rt_sleep :: "nat \<Rightarrow> int \<Rightarrow> string option"

text \<open>\<^verbatim>\<open>compileRetryOn\<close> around the third-party compiler \<open>rt_compile\<close>: \<open>Inl\<close> is a predicate that does not compile.\<close>

definition compileRetryOn :: "('c, 'f) retry_env \<Rightarrow> string \<Rightarrow> unit + predicate" where
  "compileRetryOn env expr =
     (if blank expr then Inr None else case rt_compile env expr of None \<Rightarrow> Inl () | Some p \<Rightarrow> Inr (Some p))"

definition retryBudgetExhaustedMessage :: "'c costs \<Rightarrow> 'c \<Rightarrow> 'c \<Rightarrow> 'c \<Rightarrow> string \<Rightarrow> string" where
  "retryBudgetExhaustedMessage C spent avg cap stepID =
     ''cost cap would be exceeded: $'' @ c_show C spent @ '' spent on step '' @ go_quote stepID
       @ '', next retry (~$'' @ c_show C avg @ '') would breach cap $'' @ c_show C cap"

subsection \<open>The loop over the attempts of a step\<close>

text \<open>What comes back, with the attempts made and, for each retry, the delay of the schedule and the sleep.\<close>

record 'c retry_result =
  rx_out :: string
  rx_cost :: 'c
  rx_dur :: int
  rx_err :: "step_error option"
  rx_tries :: "nat list"
  rx_sleeps :: "(int \<times> int) list"

record ('c, 'f) retry_plan =
  pn_id :: string
  pn_max :: nat
  pn_maxDelay :: int
  pn_factor :: 'f
  pn_jitter :: bool
  pn_cap :: 'c
  pn_prior :: 'c
  pn_program :: "unit + predicate"

definition stops_on_budget :: "('c, 'f) retry_env \<Rightarrow> ('c, 'f) retry_plan \<Rightarrow> nat \<Rightarrow> 'c \<Rightarrow> bool" where
  "stops_on_budget env pn attempt costSum \<longleftrightarrow>
     (let C = rt_costs env; spent = c_add C (pn_prior pn) costSum; avg = rt_average env costSum attempt
      in c_less C (c_zero C) (pn_cap pn) \<and> (c_le C (pn_cap pn) spent \<or> c_less C (pn_cap pn) (c_add C spent avg)))"

definition gives_up :: "('c, 'f) retry_plan \<Rightarrow> nat \<Rightarrow> step_error \<Rightarrow> bool" where
  "gives_up pn attempt e \<longleftrightarrow>
     (case pn_program pn of Inl _ \<Rightarrow> True | Inr prg \<Rightarrow> \<not> evalRetryOn prg e) \<or> attempt = pn_max pn"

definition next_delay :: "('c, 'f) retry_env \<Rightarrow> ('c, 'f) retry_plan \<Rightarrow> int \<Rightarrow> int" where
  "next_delay env pn delay =
     (let d = fa_scale (rt_factors env) (pn_factor pn) delay in if d > pn_maxDelay pn then pn_maxDelay pn else d)"

definition no_attempt :: "'c costs \<Rightarrow> 'c attempt_result" where
  "no_attempt C = \<lparr>at_out = [], at_cost = c_zero C, at_dur = 0, at_err = None\<rparr>"

function retry_loop :: "('c, 'f) retry_env \<Rightarrow> ('c, 'f) retry_plan \<Rightarrow> nat \<Rightarrow> int \<Rightarrow> 'c \<Rightarrow> 'c attempt_result
    \<Rightarrow> nat list \<Rightarrow> (int \<times> int) list \<Rightarrow> 'c retry_result" where
  "retry_loop env pn attempt delay costSum prev tries sleeps =
     (if attempt > pn_max pn
      then \<lparr>rx_out = at_out prev, rx_cost = costSum, rx_dur = at_dur prev, rx_err = at_err prev, rx_tries = tries, rx_sleeps = sleeps\<rparr>
      else case rt_ctx env attempt of
        Some e \<Rightarrow> \<lparr>rx_out = [], rx_cost = costSum, rx_dur = 0, rx_err = Some (ContextError e), rx_tries = tries, rx_sleeps = sleeps\<rparr>
      | None \<Rightarrow>
          let C = rt_costs env; a = rt_try env attempt; costSum = c_add C costSum (at_cost a); tries = tries @ [attempt];
              answer = \<lparr>rx_out = at_out a, rx_cost = costSum, rx_dur = at_dur a, rx_err = at_err a, rx_tries = tries, rx_sleeps = sleeps\<rparr>
          in case at_err a of
               None \<Rightarrow> answer
             | Some e \<Rightarrow>
                 if is_suspension e then answer
                 else if stops_on_budget env pn attempt costSum then
                   (let spent = c_add C (pn_prior pn) costSum
                    in answer\<lparr>rx_err := Some (BudgetExhausted (retryBudgetExhaustedMessage C spent (rt_average env costSum attempt)
                         (pn_cap pn) (pn_id pn)) e)\<rparr>)
                 else if gives_up pn attempt e then answer
                 else
                   (let pause = (if pn_jitter pn then applyJitter (rt_draw env attempt) delay jitterFull else delay)
                    in case rt_sleep env attempt pause of
                         Some x \<Rightarrow> \<lparr>rx_out = [], rx_cost = costSum, rx_dur = 0, rx_err = Some (ContextError x), rx_tries = tries,
                           rx_sleeps = sleeps @ [(delay, pause)]\<rparr>
                       | None \<Rightarrow> retry_loop env pn (Suc attempt) (next_delay env pn delay) costSum a tries (sleeps @ [(delay, pause)])))"
  by pat_completeness auto
termination
  by (relation "measure (\<lambda>(env, pn, attempt, rest). Suc (pn_max pn) - attempt)") auto

definition runStepWithRetry :: "('c, 'f) retry_env \<Rightarrow> 'c RunInput \<Rightarrow> 'f retried_step \<Rightarrow> 'c \<Rightarrow> 'c retry_result" where
  "runStepWithRetry env inp st prior =
     (let once = (let a = rt_try env 1 in \<lparr>rx_out = at_out a, rx_cost = at_cost a, rx_dur = at_dur a, rx_err = at_err a,
            rx_tries = [1], rx_sleeps = []\<rparr>)
      in case retry_policy st of
           None \<Rightarrow> once
         | Some rp \<Rightarrow>
             if rp_MaxAttempts rp \<le> 1 then once
             else
               (let (minDelay, maxDelay, factor, jitter) = resolveBackoff (rt_factors env) (rp_Backoff rp);
                    pn = \<lparr>pn_id = rs_ID st,
                      pn_max = nat (if rp_MaxAttempts rp > retryMaxAttemptsCeiling then retryMaxAttemptsCeiling else rp_MaxAttempts rp),
                      pn_maxDelay = maxDelay, pn_factor = factor, pn_jitter = jitter,
                      pn_cap = effectiveCostCap (rt_costs env) inp, pn_prior = prior, pn_program = compileRetryOn env (rp_RetryOn rp)\<rparr>
                in retry_loop env pn 1 minDelay (c_zero (rt_costs env)) (no_attempt (rt_costs env)) [] []))"

subsection \<open>The loop over the calls of one tier\<close>

text \<open>An error of the agent runner: its text, and what \<^verbatim>\<open>errors.Is\<close> says of its identity.\<close>

record runner_error =
  re_text :: string
  re_stopped :: bool
  re_inBand :: bool

text \<open>Every marker is ASCII, so the lower case of the ASCII letters decides.\<close>

definition transientErrorMarkers :: "string list" where
  "transientErrorMarkers = [''429'', ''rate limit'', ''rate_limit'', ''too many requests'', ''timeout'', ''timed out'',
     ''deadline exceeded'', ''500'', ''502'', ''503'', ''504'', ''internal server error'', ''bad gateway'', ''service unavailable'',
     ''gateway timeout'', ''connection refused'', ''connection reset'', ''broken pipe'', ''eof'']"

fun contains :: "string \<Rightarrow> string \<Rightarrow> bool" where
  "contains [] marker = (marker = [])"
| "contains (c # cs) marker = (take (length marker) (c # cs) = marker \<or> contains cs marker)"

definition isTransientRunnerError :: "runner_error option \<Rightarrow> bool" where
  "isTransientRunnerError err =
     (case err of
        None \<Rightarrow> False
      | Some e \<Rightarrow>
          if re_stopped e then False
          else if re_inBand e then False
          else
            let msg = to_lower (re_text e)
            in if contains msg ''context canceled'' \<or> contains msg ''context deadline'' then False
               else list_ex (contains msg) transientErrorMarkers)"

definition retryAttemptsPerTier :: nat where "retryAttemptsPerTier = 2"
definition transientRetryBackoff :: int where "transientRetryBackoff = 800 * Millisecond"

record 'r runner_env =
  rn_ctx :: "nat \<Rightarrow> string option"
  rn_call :: "nat \<Rightarrow> 'r \<times> runner_error option"
  rn_output :: "'r \<Rightarrow> string"
  rn_draw :: "nat \<Rightarrow> int \<Rightarrow> int"
  rn_sleep :: "nat \<Rightarrow> int \<Rightarrow> string option"

datatype tier_error = TierContext string | TierRunner runner_error | TierEmpty

record 'r tier_result =
  tr_res :: "'r option"
  tr_err :: "tier_error option"
  tr_calls :: "nat list"

definition per_tier :: "'f retried_step \<Rightarrow> nat" where
  "per_tier st = (if stepHasExplicitRetry st then 1 else retryAttemptsPerTier)"

text \<open>\<open>tier_retry\<close>: whether the answer to a call is to be tried again in the same tier.\<close>

definition tier_retry :: "'r runner_env \<Rightarrow> nat \<Rightarrow> nat \<Rightarrow> 'r \<times> runner_error option \<Rightarrow> bool" where
  "tier_retry env n attempt a \<longleftrightarrow> attempt < n \<and>
     (case snd a of Some e \<Rightarrow> isTransientRunnerError (Some e) | None \<Rightarrow> blank (rn_output env (fst a)))"

function tier_loop :: "'r runner_env \<Rightarrow> nat \<Rightarrow> nat \<Rightarrow> 'r option \<Rightarrow> tier_error option \<Rightarrow> nat list \<Rightarrow> 'r tier_result" where
  "tier_loop env n attempt res err calls =
     (if attempt > n then \<lparr>tr_res = res, tr_err = err, tr_calls = calls\<rparr>
      else case rn_ctx env attempt of
        Some e \<Rightarrow> \<lparr>tr_res = None, tr_err = Some (TierContext e), tr_calls = calls\<rparr>
      | None \<Rightarrow>
          let a = rn_call env attempt; calls = calls @ [attempt];
              err = (case snd a of Some e \<Rightarrow> Some (TierRunner e) | None \<Rightarrow> None)
          in if tier_retry env n attempt a then
               (case rn_sleep env attempt (applyJitter (rn_draw env attempt) transientRetryBackoff jitterHalf) of
                  Some x \<Rightarrow> \<lparr>tr_res = None, tr_err = Some (TierContext x), tr_calls = calls\<rparr>
                | None \<Rightarrow> tier_loop env n (Suc attempt) (Some (fst a)) (if err = None then Some TierEmpty else err) calls)
             else \<lparr>tr_res = Some (fst a), tr_err = err, tr_calls = calls\<rparr>)"
  by pat_completeness auto
termination
  by (relation "measure (\<lambda>(env, n, attempt, rest). Suc n - attempt)") auto

definition runRunnerWithTransientRetry :: "'r runner_env \<Rightarrow> 'f retried_step \<Rightarrow> 'r tier_result" where
  "runRunnerWithTransientRetry env st = tier_loop env (per_tier st) 1 None None []"

subsection \<open>What the attempts of a step amount to\<close>

declare retry_loop.simps [simp del] tier_loop.simps [simp del]

definition spent_after :: "('c, 'f) retry_env \<Rightarrow> 'c \<Rightarrow> nat \<Rightarrow> nat \<Rightarrow> 'c" where
  "spent_after env c i n = foldl (c_add (rt_costs env)) c (map (\<lambda>k. at_cost (rt_try env k)) [i..<n])"

lemma spent_after_simps:
  "spent_after env c i i = c"
  "i < n \<Longrightarrow> spent_after env c i n = spent_after env (c_add (rt_costs env) c (at_cost (rt_try env i))) (Suc i) n"
  by (simp_all add: spent_after_def upt_conv_Cons)

text \<open>The attempt \<open>k\<close> failed in a way the loop retries.\<close>

definition retried :: "('c, 'f) retry_env \<Rightarrow> ('c, 'f) retry_plan \<Rightarrow> nat \<Rightarrow> 'c \<Rightarrow> bool" where
  "retried env pn k spent \<longleftrightarrow> (\<exists>e. at_err (rt_try env k) = Some e \<and> \<not> is_suspension e
     \<and> \<not> stops_on_budget env pn k spent \<and> \<not> gives_up pn k e)"

definition loop_result :: "('c, 'f) retry_env \<Rightarrow> ('c, 'f) retry_plan \<Rightarrow> nat \<Rightarrow> 'c \<Rightarrow> nat list \<Rightarrow> 'c retry_result \<Rightarrow> nat \<Rightarrow> bool" where
  "loop_result env pn i c tries r n \<longleftrightarrow> i \<le> n \<and> n \<le> Suc (pn_max pn) \<and> rx_tries r = tries @ [i..<n] \<and> rx_cost r = spent_after env c i n
     \<and> (\<forall>k. i \<le> k \<longrightarrow> Suc k < n \<longrightarrow> retried env pn k (spent_after env c i (Suc k)))
     \<and> (rx_err r = None \<longrightarrow> i < n \<and> at_err (rt_try env (n - 1)) = None \<and> rx_out r = at_out (rt_try env (n - 1)))"

lemma loop_result_stop:
  assumes "i \<le> pn_max pn" and "rx_tries r = tries @ [i]" and "rx_cost r = c_add (rt_costs env) c (at_cost (rt_try env i))"
    and "rx_err r = None \<Longrightarrow> at_err (rt_try env i) = None \<and> rx_out r = at_out (rt_try env i)"
  shows "loop_result env pn i c tries r (Suc i)"
  using assms by (simp add: loop_result_def spent_after_simps)

lemma loop_result_on:
  assumes "loop_result env pn (Suc i) (c_add (rt_costs env) c (at_cost (rt_try env i))) (tries @ [i]) r n"
    and "retried env pn i (c_add (rt_costs env) c (at_cost (rt_try env i)))" and "i \<le> pn_max pn"
  shows "loop_result env pn i c tries r n"
proof -
  let ?c = "c_add (rt_costs env) c (at_cost (rt_try env i))"
  have n: "Suc i \<le> n" using assms(1) by (simp add: loop_result_def)
  have "retried env pn k (spent_after env c i (Suc k))" if "i \<le> k" "Suc k < n" for k
  proof (cases "k = i")
    case True
    then show ?thesis using assms(2) by (simp add: spent_after_simps)
  next
    case False
    then have "retried env pn k (spent_after env ?c (Suc i) (Suc k))" using assms(1) that by (simp add: loop_result_def)
    then show ?thesis using that False by (simp add: spent_after_simps(2))
  qed
  then show ?thesis using assms(1) n by (simp add: loop_result_def spent_after_simps(2) upt_conv_Cons)
qed

lemma retry_loop_result:
  assumes "i \<le> pn_max pn"
  shows "\<exists>n. loop_result env pn i c tries (retry_loop env pn i delay c prev tries sleeps) n"
  using assms
proof (induction "Suc (pn_max pn) - i" arbitrary: i delay c prev tries sleeps)
  case (Suc m)
  note le = Suc.prems
  let ?a = "rt_try env i" and ?c = "c_add (rt_costs env) c (at_cost (rt_try env i))"
  show ?case
  proof (cases "rt_ctx env i")
    case (Some e)
    then show ?thesis using le by (intro exI [of _ i]) (simp add: retry_loop.simps loop_result_def spent_after_simps)
  next
    case None
    show ?thesis
    proof (cases "\<exists>e. at_err ?a = Some e \<and> \<not> is_suspension e \<and> \<not> stops_on_budget env pn i ?c \<and> \<not> gives_up pn i e")
      case False
      let ?r = "retry_loop env pn i delay c prev tries sleeps"
      have "rx_tries ?r = tries @ [i] \<and> rx_cost ?r = ?c \<and> (rx_err ?r = None \<longrightarrow> at_err ?a = None \<and> rx_out ?r = at_out ?a)"
        by (subst (1 2 3 4) retry_loop.simps) (use None le False in \<open>auto simp: Let_def split: option.split\<close>)
      then show ?thesis using le by (intro exI [of _ "Suc i"] loop_result_stop) simp_all
    next
      case True
      then obtain e where e: "at_err ?a = Some e" "\<not> is_suspension e" "\<not> stops_on_budget env pn i ?c" "\<not> gives_up pn i e" by blast
      then have re: "retried env pn i ?c" by (simp add: retried_def)
      have i: "Suc i \<le> pn_max pn" using e(4) le by (auto simp: gives_up_def)
      let ?p = "if pn_jitter pn then applyJitter (rt_draw env i) delay jitterFull else delay"
      show ?thesis
      proof (cases "rt_sleep env i ?p")
        case (Some x)
        then show ?thesis using None e le
          by (intro exI [of _ "Suc i"] loop_result_stop) (simp_all add: retry_loop.simps Let_def)
      next
        case sleep: None
        have step: "retry_loop env pn i delay c prev tries sleeps
            = retry_loop env pn (Suc i) (next_delay env pn delay) ?c ?a (tries @ [i]) (sleeps @ [(delay, ?p)])"
          using None e le sleep by (subst retry_loop.simps) (simp add: Let_def)
        obtain n where "loop_result env pn (Suc i) ?c (tries @ [i])
            (retry_loop env pn (Suc i) (next_delay env pn delay) ?c ?a (tries @ [i]) (sleeps @ [(delay, ?p)])) n"
          using Suc.hyps(1) [OF _ i] Suc.hyps(2) by fastforce
        then show ?thesis unfolding step using loop_result_on [OF _ re le] by blast
      qed
    qed
  qed
qed simp

definition plan_of :: "('c, 'f) retry_env \<Rightarrow> 'c RunInput \<Rightarrow> 'f retried_step \<Rightarrow> 'c \<Rightarrow> 'f RetryPolicy \<Rightarrow> ('c, 'f) retry_plan" where
  "plan_of env inp st prior rp =
     (let (minDelay, maxDelay, factor, jitter) = resolveBackoff (rt_factors env) (rp_Backoff rp)
      in \<lparr>pn_id = rs_ID st, pn_max = nat (min retryMaxAttemptsCeiling (rp_MaxAttempts rp)), pn_maxDelay = maxDelay,
           pn_factor = factor, pn_jitter = jitter, pn_cap = effectiveCostCap (rt_costs env) inp, pn_prior = prior,
           pn_program = compileRetryOn env (rp_RetryOn rp)\<rparr>)"

lemma runStepWithRetry_loop:
  assumes "retry_policy st = Some rp" and "1 < rp_MaxAttempts rp"
  shows "runStepWithRetry env inp st prior = retry_loop env (plan_of env inp st prior rp) 1
    (fst (resolveBackoff (rt_factors env) (rp_Backoff rp))) (c_zero (rt_costs env)) (no_attempt (rt_costs env)) [] []"
  using assms by (simp add: runStepWithRetry_def plan_of_def min_def split: prod.split)

lemma runStepWithRetry_once:
  assumes "\<And>rp. retry_policy st = Some rp \<Longrightarrow> rp_MaxAttempts rp \<le> 1"
  shows "runStepWithRetry env inp st prior = (let a = rt_try env 1 in \<lparr>rx_out = at_out a, rx_cost = at_cost a, rx_dur = at_dur a,
    rx_err = at_err a, rx_tries = [1], rx_sleeps = []\<rparr>)"
  using assms by (auto simp: runStepWithRetry_def Let_def split: option.split)

lemma plan_max: "1 < rp_MaxAttempts rp \<Longrightarrow> 1 \<le> pn_max (plan_of env inp st prior rp) \<and> pn_max (plan_of env inp st prior rp) \<le> 10
    \<and> int (pn_max (plan_of env inp st prior rp)) \<le> rp_MaxAttempts rp"
  by (auto simp: plan_of_def retryMaxAttemptsCeiling_def split: prod.split)

lemma active_retry:
  assumes "retry_policy st = Some rp" and "1 < rp_MaxAttempts rp"
  obtains n where "loop_result env (plan_of env inp st prior rp) 1 (c_zero (rt_costs env)) [] (runStepWithRetry env inp st prior) n"
proof -
  have "1 \<le> pn_max (plan_of env inp st prior rp)" using plan_max [OF assms(2), of env inp st prior] by blast
  from retry_loop_result [OF this] show thesis using that unfolding runStepWithRetry_loop [OF assms] by blast
qed

text \<open>
  A step is attempted at most as often as its policy says and never more than ten times, one attempt after
  the other; an attempt is repeated only after a failure, never after an output or a suspension, and with no
  expression in the policy never after the validation tiers are exhausted; an output is the last attempt's.
\<close>

theorem attempts_are_bounded:
  fixes st :: "'f retried_step"
  shows "\<exists>n. rx_tries (runStepWithRetry env inp st prior) = [1..<Suc n] \<and> n \<le> 10
    \<and> (\<forall>rp. retry_policy st = Some rp \<longrightarrow> n \<le> nat (max 1 (rp_MaxAttempts rp)))
    \<and> (\<forall>k. 1 \<le> k \<and> k < n \<longrightarrow> (\<exists>e. at_err (rt_try env k) = Some e \<and> \<not> is_suspension e
         \<and> (\<forall>rp. retry_policy st = Some rp \<longrightarrow> blank (rp_RetryOn rp) \<longrightarrow> \<not> is_exhausted e)))
    \<and> (rx_err (runStepWithRetry env inp st prior) = None \<longrightarrow>
         1 \<le> n \<and> at_err (rt_try env n) = None \<and> rx_out (runStepWithRetry env inp st prior) = at_out (rt_try env n))"
proof (cases "\<exists>rp. retry_policy st = Some rp \<and> 1 < rp_MaxAttempts rp")
  case True
  then obtain rp where rp: "retry_policy st = Some rp" "1 < rp_MaxAttempts rp" by blast
  let ?pn = "plan_of env inp st prior rp" and ?r = "runStepWithRetry env inp st prior"
  obtain m where m: "loop_result env ?pn 1 (c_zero (rt_costs env)) [] ?r m" by (rule active_retry [OF rp])
  have n: "m - 1 \<le> 10" "m - 1 \<le> nat (max 1 (rp_MaxAttempts rp))" "Suc (m - 1) = m"
    using m plan_max [OF rp(2), of env inp st prior] by (auto simp: loop_result_def)
  have "\<exists>e. at_err (rt_try env k) = Some e \<and> \<not> is_suspension e \<and> (blank (rp_RetryOn rp) \<longrightarrow> \<not> is_exhausted e)"
    if "1 \<le> k" "k < m - 1" for k
  proof -
    have "retried env ?pn k (spent_after env (c_zero (rt_costs env)) 1 (Suc k))" using m that by (simp add: loop_result_def)
    then show ?thesis
      by (auto simp: retried_def gives_up_def plan_of_def compileRetryOn_def evalRetryOn_def split: prod.splits)
  qed
  then show ?thesis using m n rp(1) by (intro exI [of _ "m - 1"]) (auto simp: loop_result_def)
next
  case False
  then have "runStepWithRetry env inp st prior = (let a = rt_try env 1 in \<lparr>rx_out = at_out a, rx_cost = at_cost a,
    rx_dur = at_dur a, rx_err = at_err a, rx_tries = [1], rx_sleeps = []\<rparr>)" by (intro runStepWithRetry_once) force
  then show ?thesis by (intro exI [of _ 1]) (auto simp: Let_def nat_eq_iff max_def)
qed

text \<open>
  C29. Retries respect the run's budget and report all they spent: under an active policy the cost of the step is
  the sum of the costs of all its attempts, failed ones included, and an attempt is repeated only while the cost of the
  run so far is below the cap and the average attempt would not take it over.
\<close>

theorem retries_stay_in_budget:
  assumes "retry_policy st = Some rp" and "1 < rp_MaxAttempts rp"
    and "r = runStepWithRetry env inp st prior" and "C = rt_costs env" and "cap = effectiveCostCap C inp"
  shows "rx_cost r = foldl (c_add C) (c_zero C) (map (\<lambda>k. at_cost (rt_try env k)) (rx_tries r))
    \<and> (\<forall>k. 1 \<le> k \<and> k < length (rx_tries r) \<longrightarrow>
         (let sum = foldl (c_add C) (c_zero C) (map (\<lambda>k. at_cost (rt_try env k)) [1..<Suc k]); spent = c_add C prior sum
          in c_less C (c_zero C) cap \<longrightarrow> \<not> c_le C cap spent \<and> \<not> c_less C cap (c_add C spent (rt_average env sum k))))"
proof -
  let ?pn = "plan_of env inp st prior rp"
  obtain m where m: "loop_result env ?pn 1 (c_zero C) [] r m"
    using active_retry [OF assms(1,2), of env inp prior] unfolding assms(3,4) by blast
  have pn: "pn_cap ?pn = cap" "pn_prior ?pn = prior" by (simp_all add: plan_of_def assms(4,5) split: prod.split)
  have "\<not> stops_on_budget env ?pn k (spent_after env (c_zero C) 1 (Suc k))" if "1 \<le> k" "Suc k < m" for k
    using m that by (auto simp: loop_result_def retried_def)
  then show ?thesis using m
    by (auto simp: loop_result_def stops_on_budget_def spent_after_def pn assms(4) Let_def)
qed

subsection \<open>The delays between attempts\<close>

lemma resolveBackoff_le: "resolveBackoff F bp = (lo, hi, f, j) \<Longrightarrow> lo \<le> hi"
  by (auto simp: resolveBackoff_def Let_def split: prod.splits if_splits)

definition sleeps_ok :: "int \<Rightarrow> int \<Rightarrow> bool \<Rightarrow> (int \<times> int) list \<Rightarrow> bool" where
  "sleeps_ok lo hi jitter sleeps \<longleftrightarrow>
     (\<forall>(delay, pause)\<in>set sleeps. lo \<le> delay \<and> delay \<le> hi \<and> (if jitter then 0 \<le> pause \<and> pause < delay else pause = delay))"

lemma retry_loop_sleeps:
  assumes "0 < lo" and "pn_maxDelay pn = hi" and "pn_jitter pn = j" and "lo \<le> hi"
    and grow: "\<And>d. lo \<le> d \<Longrightarrow> d \<le> hi \<Longrightarrow> d \<le> fa_scale (rt_factors env) (pn_factor pn) d"
    and draw: "\<And>k d. 0 < d \<Longrightarrow> 0 \<le> rt_draw env k d \<and> rt_draw env k d < d"
    and "sleeps_ok lo hi j sleeps" and "lo \<le> delay" "delay \<le> hi"
  shows "sleeps_ok lo hi j (rx_sleeps (retry_loop env pn i delay c prev tries sleeps))
    \<and> length (rx_sleeps (retry_loop env pn i delay c prev tries sleeps)) \<le> length sleeps + (pn_max pn - i)"
  using assms(7-9)
proof (induction "Suc (pn_max pn) - i" arbitrary: i delay c prev tries sleeps)
  case 0
  then show ?case by (subst (1 2) retry_loop.simps) simp
next
  case (Suc m)
  let ?a = "rt_try env i" and ?c = "c_add (rt_costs env) c (at_cost (rt_try env i))"
  let ?p = "if j then applyJitter (rt_draw env i) delay jitterFull else delay"
  let ?r = "retry_loop env pn i delay c prev tries sleeps"
  have more_ok: "sleeps_ok lo hi j (sleeps @ [(delay, ?p)])"
    using Suc.prems assms(1) draw [of delay i] by (auto simp: sleeps_ok_def applyJitter_def)
  have nxt: "lo \<le> next_delay env pn delay" "next_delay env pn delay \<le> hi"
    using grow [OF Suc.prems(2,3)] Suc.prems(2) assms(2,4) by (auto simp: next_delay_def Let_def)
  show ?case
  proof (cases "rx_sleeps ?r = sleeps")
    case True
    then show ?thesis using Suc.prems(1) by simp
  next
    case False
    then have i: "i < pn_max pn" and more: "rx_sleeps ?r = sleeps @ [(delay, ?p)]
        \<or> ?r = retry_loop env pn (Suc i) (next_delay env pn delay) ?c ?a (tries @ [i]) (sleeps @ [(delay, ?p)])"
      using assms(3) Suc.hyps(2) unfolding retry_loop.simps [of env pn i delay c prev tries sleeps]
      by (auto simp: Let_def gives_up_def split: option.splits if_splits)
    then show ?thesis
    proof (elim disjE)
      assume "rx_sleeps ?r = sleeps @ [(delay, ?p)]"
      then show ?thesis using more_ok i by simp
    next
      assume step: "?r = retry_loop env pn (Suc i) (next_delay env pn delay) ?c ?a (tries @ [i]) (sleeps @ [(delay, ?p)])"
      have "m = Suc (pn_max pn) - Suc i" using Suc.hyps(2) by simp
      note rest = Suc.hyps(1) [OF this more_ok nxt, of ?c ?a "tries @ [i]", folded step]
      have "length (rx_sleeps ?r) \<le> length (sleeps @ [(delay, ?p)]) + (pn_max pn - Suc i)" using rest by blast
      also have "\<dots> = length sleeps + (pn_max pn - i)" using i by simp
      finally show ?thesis using rest by blast
    qed
  qed
qed

text \<open>
  The delays between the attempts of a step stay between the policy's shortest and longest delay, there are at
  most nine of them, and a jittered sleep is shorter than its delay, as long as the shortest delay is positive and the
  multiplication by the factor neither shrinks a delay of the range nor overflows.
\<close>

theorem retry_delays_bounded:
  assumes "retry_policy st = Some rp" and "1 < rp_MaxAttempts rp"
    and "resolveBackoff (rt_factors env) (rp_Backoff rp) = (lo, hi, f, jitter)" and "0 < lo"
    and "\<And>d. lo \<le> d \<Longrightarrow> d \<le> hi \<Longrightarrow> d \<le> fa_scale (rt_factors env) f d"
    and "\<And>k d. 0 < d \<Longrightarrow> 0 \<le> rt_draw env k d \<and> rt_draw env k d < d"
  shows "length (rx_sleeps (runStepWithRetry env inp st prior)) \<le> 9
    \<and> (\<forall>(delay, pause)\<in>set (rx_sleeps (runStepWithRetry env inp st prior)).
         lo \<le> delay \<and> delay \<le> hi \<and> (if jitter then 0 \<le> pause \<and> pause < delay else pause = delay))"
proof -
  let ?pn = "plan_of env inp st prior rp"
  have pn: "pn_maxDelay ?pn = hi" "pn_jitter ?pn = jitter" "pn_factor ?pn = f" by (simp_all add: plan_of_def assms(3))
  have le: "lo \<le> hi" by (rule resolveBackoff_le [OF assms(3)])
  have "sleeps_ok lo hi jitter (rx_sleeps (retry_loop env ?pn 1 lo (c_zero (rt_costs env)) (no_attempt (rt_costs env)) [] []))
    \<and> length (rx_sleeps (retry_loop env ?pn 1 lo (c_zero (rt_costs env)) (no_attempt (rt_costs env)) [] [])) \<le> length ([] :: (int \<times> int) list) + (pn_max ?pn - 1)"
    by (rule retry_loop_sleeps [OF assms(4) pn(1,2) le]) (use assms(5,6) le in \<open>simp_all add: pn sleeps_ok_def\<close>)
  moreover have "pn_max ?pn \<le> 10" using plan_max [OF assms(2), of env inp st prior] by blast
  ultimately show ?thesis
    by (auto simp: runStepWithRetry_loop [OF assms(1,2)] assms(3) sleeps_ok_def)
qed

subsection \<open>The calls of one tier\<close>

definition tier_ok :: "'r runner_env \<Rightarrow> nat \<Rightarrow> nat \<Rightarrow> nat list \<Rightarrow> 'r tier_result \<Rightarrow> nat \<Rightarrow> bool" where
  "tier_ok env n i calls t m \<longleftrightarrow> i \<le> m \<and> m \<le> Suc n \<and> tr_calls t = calls @ [i..<m]
     \<and> (\<forall>k. i \<le> k \<longrightarrow> Suc k < m \<longrightarrow> tier_retry env n k (rn_call env k))
     \<and> (tr_err t = None \<longrightarrow> i < m \<and> snd (rn_call env (m - 1)) = None \<and> tr_res t = Some (fst (rn_call env (m - 1))))"

lemma tier_ok_on:
  assumes "tier_ok env n (Suc i) (calls @ [i]) t m" and "tier_retry env n i (rn_call env i)"
  shows "tier_ok env n i calls t m"
proof -
  have "tier_retry env n k (rn_call env k)" if "i \<le> k" "Suc k < m" for k
    using assms that by (cases "k = i") (auto simp: tier_ok_def)
  moreover have "Suc i \<le> m" using assms(1) by (simp add: tier_ok_def)
  ultimately show ?thesis using assms(1) by (simp add: tier_ok_def upt_conv_Cons)
qed

lemma tier_loop_calls:
  assumes "i \<le> n"
  shows "\<exists>m. tier_ok env n i calls (tier_loop env n i res err calls) m"
  using assms
proof (induction "Suc n - i" arbitrary: i res err calls)
  case (Suc w)
  let ?t = "tier_loop env n i res err calls"
  show ?case
  proof (cases "rn_ctx env i")
    case (Some e)
    then show ?thesis using Suc.prems by (intro exI [of _ i]) (simp add: tier_loop.simps tier_ok_def)
  next
    case None
    let ?e = "case snd (rn_call env i) of Some e \<Rightarrow> Some (TierRunner e) | None \<Rightarrow> None"
    let ?sl = "rn_sleep env i (applyJitter (rn_draw env i) transientRetryBackoff jitterHalf)"
    show ?thesis
    proof (cases "tier_retry env n i (rn_call env i) \<and> ?sl = None")
      case False
      have "tr_calls ?t = calls @ [i] \<and> (tr_err ?t = None \<longrightarrow> snd (rn_call env i) = None \<and> tr_res ?t = Some (fst (rn_call env i)))"
        by (subst (1 2 3) tier_loop.simps) (use None Suc.prems False in \<open>auto simp: Let_def split: option.splits\<close>)
      then show ?thesis using Suc.prems by (intro exI [of _ "Suc i"]) (auto simp: tier_ok_def)
    next
      case True
      have step: "?t = tier_loop env n (Suc i) (Some (fst (rn_call env i))) (if ?e = None then Some TierEmpty else ?e) (calls @ [i])"
        using None Suc.prems True by (subst tier_loop.simps) (simp add: Let_def)
      have "Suc i \<le> n" "w = Suc n - Suc i" using True Suc.hyps(2) by (simp_all add: tier_retry_def)
      from Suc.hyps(1) [OF this(2,1)] show ?thesis unfolding step using tier_ok_on True by blast
    qed
  qed
qed simp

text \<open>
  The agent runner is called at most twice in a tier, and only once where the step has a retry policy of its
  own, so the two loops never multiply; it is called again only after a transient error or an empty answer, and
  a result without an error is that of the last call.
\<close>

theorem tier_calls_bounded:
  "\<exists>m. tr_calls (runRunnerWithTransientRetry env st) = [1..<Suc m]
    \<and> m \<le> (if stepHasExplicitRetry st then 1 else 2)
    \<and> (m = 2 \<longrightarrow> (case snd (rn_call env 1) of Some e \<Rightarrow> isTransientRunnerError (Some e) | None \<Rightarrow> blank (rn_output env (fst (rn_call env 1)))))
    \<and> (tr_err (runRunnerWithTransientRetry env st) = None \<longrightarrow>
         1 \<le> m \<and> snd (rn_call env m) = None \<and> tr_res (runRunnerWithTransientRetry env st) = Some (fst (rn_call env m)))"
proof -
  have "1 \<le> per_tier st" by (simp add: per_tier_def retryAttemptsPerTier_def)
  from tier_loop_calls [OF this, of env "[]" None None] obtain m where
    t: "tier_ok env (per_tier st) 1 [] (runRunnerWithTransientRetry env st) m"
    unfolding runRunnerWithTransientRetry_def by blast
  have m: "1 \<le> m" "m \<le> Suc (per_tier st)" "tr_calls (runRunnerWithTransientRetry env st) = [1..<m]"
      "\<forall>k. 1 \<le> k \<longrightarrow> Suc k < m \<longrightarrow> tier_retry env (per_tier st) k (rn_call env k)"
      "tr_err (runRunnerWithTransientRetry env st) = None \<longrightarrow> 1 < m \<and> snd (rn_call env (m - 1)) = None
         \<and> tr_res (runRunnerWithTransientRetry env st) = Some (fst (rn_call env (m - 1)))"
    using t unfolding tier_ok_def append_Nil by blast+
  have "1 \<le> (1::nat) \<and> Suc 1 < m" if "m - 1 = 2" using that by simp
  then have "tier_retry env (per_tier st) 1 (rn_call env 1)" if "m - 1 = 2" using m(4) that by blast
  then have again: "m - 1 = 2 \<longrightarrow> (case snd (rn_call env 1) of Some e \<Rightarrow> isTransientRunnerError (Some e)
      | None \<Rightarrow> blank (rn_output env (fst (rn_call env 1))))" unfolding tier_retry_def by blast
  have "m - 1 \<le> (if stepHasExplicitRetry st then 1 else 2)" using m(2) by (auto simp: per_tier_def retryAttemptsPerTier_def)
  moreover have "Suc (m - 1) = m" using m(1) by simp
  moreover have "1 < m \<longrightarrow> 1 \<le> m - 1" by auto
  ultimately show ?thesis using m(3,5) again by (intro exI [of _ "m - 1"]) metis
qed

subsection \<open>A concrete step\<close>

definition demo_retry_env :: "(int, int) retry_env" where
  "demo_retry_env = \<lparr>rt_costs = int_costs, rt_average = (\<lambda>c k. c div int k),
     rt_factors = \<lparr>fa_positive = (\<lambda>f. 0 < f), fa_below_one = (\<lambda>f. f < 1), fa_one = 1, fa_two = 2, fa_scale = (*)\<rparr>,
     rt_compile = (\<lambda>_. None), rt_ctx = (\<lambda>_. None),
     rt_try = (\<lambda>k. if k < 3 then \<lparr>at_out = [], at_cost = 1, at_dur = 5, at_err = Some (RunnerError ''503'')\<rparr>
       else \<lparr>at_out = ''ok'', at_cost = 2, at_dur = 7, at_err = None\<rparr>),
     rt_draw = (\<lambda>_ d. d - 1), rt_sleep = (\<lambda>_ _. None)\<rparr>"

definition demo_retry_step :: "int retried_step" where
  "demo_retry_step = \<lparr>rs_ID = ''fetch'', rs_Retry = Some \<lparr>rp_MaxAttempts = 50, rp_Backoff = None, rp_RetryOn = []\<rparr>, rs_OnFail = []\<rparr>"

definition demo_runner_env :: "string runner_env" where
  "demo_runner_env = \<lparr>rn_ctx = (\<lambda>_. None), rn_call = (\<lambda>k. if k = 1 then ([], None) else (''done'', None)),
     rn_output = (\<lambda>x. x), rn_draw = (\<lambda>_ _. 0), rn_sleep = (\<lambda>_ _. None)\<rparr>"

lemma demo_retry_policy: "retry_policy demo_retry_step = Some \<lparr>rp_MaxAttempts = 50, rp_Backoff = None, rp_RetryOn = []\<rparr>"
  by (simp add: retry_policy_def demo_retry_step_def)

lemma attempts_are_bounded_witness:
  "\<exists>n. rx_tries (runStepWithRetry demo_retry_env demo_linear demo_retry_step 0) = [1..<Suc n] \<and> n \<le> 10"
  using attempts_are_bounded [of demo_retry_env demo_linear demo_retry_step 0] by blast

lemma retries_stay_in_budget_witness:
  "rx_cost (runStepWithRetry demo_retry_env demo_linear demo_retry_step 0) = 4"
proof -
  have "rx_tries (runStepWithRetry demo_retry_env demo_linear demo_retry_step 0) = [1, 2, 3]" by code_simp
  then show ?thesis
    using retries_stay_in_budget [OF demo_retry_policy _ refl refl refl, of demo_retry_env demo_linear 0]
    by (simp add: demo_retry_env_def int_costs_def)
qed

lemma retry_delays_bounded_witness:
  "list_all (\<lambda>(delay, pause). 1000000000 \<le> delay \<and> delay \<le> 60000000000 \<and> pause < delay)
     (rx_sleeps (runStepWithRetry demo_retry_env demo_linear demo_retry_step 0))"
proof -
  have "resolveBackoff (rt_factors demo_retry_env) (rp_Backoff \<lparr>rp_MaxAttempts = 50, rp_Backoff = None, rp_RetryOn = []\<rparr>)
      = (1000000000, 60000000000, 2, True)" by code_simp
  from retry_delays_bounded [OF demo_retry_policy _ this, of demo_linear 0] show ?thesis
    by (auto simp: demo_retry_env_def list_all_iff)
qed

lemma tier_calls_bounded_witness:
  "\<exists>m. tr_calls (runRunnerWithTransientRetry demo_runner_env demo_retry_step) = [1..<Suc m] \<and> m \<le> 1"
proof -
  have "stepHasExplicitRetry demo_retry_step" by code_simp
  then show ?thesis using tier_calls_bounded [of demo_runner_env demo_retry_step] by (simp only: if_True) blast
qed

end
