(* ===== verification/Leader_Lease.thy ===== *)
theory Leader_Lease
  imports Ledger_Prelude
begin

text \<open>
  The lease that elects one scheduler among the replicas on a database (\<^verbatim>\<open>internal/leader/lease.go\<close>).  Durations and
  instants are nanoseconds; the database clock counts the whole seconds of the same time.  A replica's
  attempt is three statements and a local update, and the statements of different replicas interleave.
\<close>

subsection \<open>The store\<close>

definition nanos :: int where "nanos = 1000000000"

definition DefaultScope :: string where "DefaultScope = ''scheduler''"
definition DefaultTTL :: int where "DefaultTTL = 60 * nanos"
definition DefaultRenewInterval :: int where "DefaultRenewInterval = 20 * nanos"

record lease_row =
  lr_holder_id :: string
  lr_acquired_at :: int
  lr_expires_at :: int
  lr_updated_at :: int

type_synonym lease_table = "string \<rightharpoonup> lease_row"

definition ttl_seconds :: "int \<Rightarrow> int" where
  "ttl_seconds ttl = (let s = go_div ttl nanos in if s \<le> 0 then 1 else s)"

definition upsert_lease :: "string \<Rightarrow> string \<Rightarrow> int \<Rightarrow> int \<Rightarrow> lease_table \<Rightarrow> lease_table" where
  "upsert_lease scope holder now expires db =
     (case db scope of
        None \<Rightarrow> db(scope \<mapsto> \<lparr>lr_holder_id = holder, lr_acquired_at = now, lr_expires_at = expires, lr_updated_at = now\<rparr>)
      | Some r \<Rightarrow>
          if lr_expires_at r \<le> now \<or> lr_holder_id r = holder
          then db(scope \<mapsto> \<lparr>lr_holder_id = holder,
                 lr_acquired_at = (if lr_holder_id r = holder then lr_acquired_at r else now),
                 lr_expires_at = expires, lr_updated_at = now\<rparr>)
          else db)"

text \<open>The read-back; without a row it is an error.\<close>

definition owner_check :: "string \<Rightarrow> string \<Rightarrow> int \<Rightarrow> lease_table \<Rightarrow> bool option" where
  "owner_check scope holder now db =
     (case db scope of None \<Rightarrow> None | Some r \<Rightarrow> Some (lr_holder_id r = holder \<and> lr_expires_at r > now))"

definition TryAcquire :: "string \<Rightarrow> string \<Rightarrow> int \<Rightarrow> int \<Rightarrow> lease_table \<Rightarrow> bool option \<times> lease_table" where
  "TryAcquire scope holder ttl now db =
     (let db = upsert_lease scope holder now (now + ttl_seconds ttl) db in (owner_check scope holder now db, db))"

definition ReleaseLease :: "string \<Rightarrow> string \<Rightarrow> lease_table \<Rightarrow> lease_table" where
  "ReleaseLease scope holder db =
     (case db scope of None \<Rightarrow> db | Some r \<Rightarrow> if lr_holder_id r = holder then db(scope := None) else db)"

subsection \<open>The participants\<close>

text \<open>Where a replica's attempt is; each place remembers the instant the attempt read the clock.\<close>

datatype attempt_phase = Idle | Clocked int int | Written int int | Answered int int bool

record Lease =
  le_scope :: string
  le_holderID :: string
  le_ttl :: int
  le_renew :: int
  le_held :: bool
  le_lastConfirmed :: int
  le_stopped :: bool
  le_phase :: attempt_phase

definition NewLease :: "string \<Rightarrow> string \<Rightarrow> int \<Rightarrow> int \<Rightarrow> string \<Rightarrow> Lease" where
  "NewLease scope holderID ttl renew randomHolderID =
     \<lparr>le_scope = scope, le_holderID = (if holderID = [] then randomHolderID else holderID),
      le_ttl = (if ttl \<le> 0 then DefaultTTL else ttl), le_renew = (if renew \<le> 0 then DefaultRenewInterval else renew),
      le_held = False, le_lastConfirmed = 0, le_stopped = False, le_phase = Idle\<rparr>"

record election =
  el_now :: int
  el_db :: lease_table
  el_lease :: "nat \<Rightarrow> Lease"

definition db_now :: "election \<Rightarrow> int" where
  "db_now s = el_now s div nanos"

definition IsLeader :: "election \<Rightarrow> nat \<Rightarrow> bool" where
  "IsLeader s i \<longleftrightarrow> (let l = el_lease s i in \<not> le_stopped l \<and> le_held l \<and> el_now s - le_lastConfirmed l < le_ttl l)"

datatype election_event =
    TimePasses int
  | ReadClock nat
  | WriteLease nat
  | ReadBack nat
  | Confirm nat
  | AttemptFails nat
  | LoopEnds nat
  | ReleaseOnStop nat

definition set_lease :: "nat \<Rightarrow> Lease \<Rightarrow> election \<Rightarrow> election" where
  "set_lease i l s = s\<lparr>el_lease := (el_lease s)(i := l)\<rparr>"

text \<open>
  \<open>attempt\<close> in its four sections, its error paths, the end of the loop, and the release of \<open>Stop\<close>, which waits
  for the end of the loop.  An event that is not possible is \<open>None\<close>.
\<close>

primrec election_step :: "election_event \<Rightarrow> election \<Rightarrow> election option" where
  "election_step (TimePasses dt) s = (if 0 \<le> dt then Some (s\<lparr>el_now := el_now s + dt\<rparr>) else None)"
| "election_step (ReadClock i) s = (let l = el_lease s i in
     if le_phase l = Idle \<and> \<not> le_stopped l then Some (set_lease i (l\<lparr>le_phase := Clocked (el_now s) (db_now s)\<rparr>) s) else None)"
| "election_step (WriteLease i) s = (let l = el_lease s i in
     case le_phase l of
       Clocked c now \<Rightarrow> Some ((set_lease i (l\<lparr>le_phase := Written c now\<rparr>) s)
         \<lparr>el_db := upsert_lease (le_scope l) (le_holderID l) now (now + ttl_seconds (le_ttl l)) (el_db s)\<rparr>)
     | _ \<Rightarrow> None)"
| "election_step (ReadBack i) s = (let l = el_lease s i in
     case le_phase l of
       Written c now \<Rightarrow> Some (set_lease i (l\<lparr>le_phase := (case owner_check (le_scope l) (le_holderID l) now (el_db s) of
         None \<Rightarrow> Idle | Some held \<Rightarrow> Answered c now held)\<rparr>) s)
     | _ \<Rightarrow> None)"
| "election_step (Confirm i) s = (let l = el_lease s i in
     case le_phase l of
       Answered c now held \<Rightarrow> Some (set_lease i (l\<lparr>le_held := held,
         le_lastConfirmed := (if held then el_now s else le_lastConfirmed l), le_phase := Idle\<rparr>) s)
     | _ \<Rightarrow> None)"
| "election_step (AttemptFails i) s = (let l = el_lease s i in
     case le_phase l of
       Clocked c now \<Rightarrow> Some (set_lease i (l\<lparr>le_phase := Idle\<rparr>) s)
     | Written c now \<Rightarrow> Some (set_lease i (l\<lparr>le_phase := Idle\<rparr>) s)
     | _ \<Rightarrow> None)"
| "election_step (LoopEnds i) s = (let l = el_lease s i in
     if le_phase l = Idle then Some (set_lease i (l\<lparr>le_stopped := True\<rparr>) s) else None)"
| "election_step (ReleaseOnStop i) s = (let l = el_lease s i in
     if le_stopped l
     then Some (if le_held l then s\<lparr>el_db := ReleaseLease (le_scope l) (le_holderID l) (el_db s)\<rparr> else s)
     else None)"

primrec election_run :: "election_event list \<Rightarrow> election \<Rightarrow> election option" where
  "election_run [] s = Some s"
| "election_run (e # es) s = (case election_step e s of None \<Rightarrow> None | Some t \<Rightarrow> election_run es t)"

text \<open>A run whose attempts all confirm within \<open>L\<close> of reading the clock.\<close>

primrec prompt :: "int \<Rightarrow> election_event \<Rightarrow> election \<Rightarrow> bool" where
  "prompt L (Confirm i) s = (case le_phase (el_lease s i) of Answered c now held \<Rightarrow> el_now s - c \<le> L | _ \<Rightarrow> True)"
| "prompt L (TimePasses dt) s = True" | "prompt L (ReadClock i) s = True" | "prompt L (WriteLease i) s = True"
| "prompt L (ReadBack i) s = True" | "prompt L (AttemptFails i) s = True" | "prompt L (LoopEnds i) s = True"
| "prompt L (ReleaseOnStop i) s = True"

definition prompt_step :: "int \<Rightarrow> election_event \<Rightarrow> election \<Rightarrow> election option" where
  "prompt_step L e s = (if prompt L e s then election_step e s else None)"

primrec prompt_run :: "int \<Rightarrow> election_event list \<Rightarrow> election \<Rightarrow> election option" where
  "prompt_run L [] s = Some s"
| "prompt_run L (e # es) s = (case prompt_step L e s of None \<Rightarrow> None | Some t \<Rightarrow> prompt_run L es t)"

interpretation prompt_runs: event_runs "prompt_step L" "prompt_run L" for L
  by unfold_locales simp_all

subsection \<open>The lease row\<close>

lemma ttl_seconds_pos: "0 < ttl_seconds ttl"
  by (simp add: ttl_seconds_def Let_def)

lemma upsert_lease_scope:
  "upsert_lease scope holder now expires db scope = (case db scope of
     None \<Rightarrow> Some \<lparr>lr_holder_id = holder, lr_acquired_at = now, lr_expires_at = expires, lr_updated_at = now\<rparr>
   | Some r \<Rightarrow> if lr_expires_at r \<le> now \<or> lr_holder_id r = holder
       then Some \<lparr>lr_holder_id = holder, lr_acquired_at = (if lr_holder_id r = holder then lr_acquired_at r else now),
         lr_expires_at = expires, lr_updated_at = now\<rparr> else Some r)"
  by (simp add: upsert_lease_def split: option.split)

text \<open>
  An attempt on the row takes it exactly when the row is free, expired, or the contender's own, and then until its
  new expiry; otherwise the row is left as it is and the contender is told so.  A renewal keeps the moment the
  leadership began.
\<close>

theorem acquire_takes_free_or_own:
  "fst (TryAcquire scope holder ttl now db) = Some (case db scope of None \<Rightarrow> True
       | Some r \<Rightarrow> lr_expires_at r \<le> now \<or> lr_holder_id r = holder)
   \<and> snd (TryAcquire scope holder ttl now db) scope = (case db scope of
       None \<Rightarrow> Some \<lparr>lr_holder_id = holder, lr_acquired_at = now, lr_expires_at = now + ttl_seconds ttl, lr_updated_at = now\<rparr>
     | Some r \<Rightarrow> if lr_expires_at r \<le> now \<or> lr_holder_id r = holder
         then Some (r\<lparr>lr_holder_id := holder, lr_acquired_at := (if lr_holder_id r = holder then lr_acquired_at r else now),
           lr_expires_at := now + ttl_seconds ttl, lr_updated_at := now\<rparr>) else Some r)"
  using ttl_seconds_pos [of ttl]
  by (auto simp: TryAcquire_def owner_check_def upsert_lease_scope split: option.split)

subsection \<open>The invariant of an election\<close>

text \<open>The replicas share a scope and have identities of their own.\<close>

definition one_election :: "string \<Rightarrow> election \<Rightarrow> bool" where
  "one_election sc s \<longleftrightarrow> (\<forall>i. le_scope (el_lease s i) = sc) \<and> inj (\<lambda>i. le_holderID (el_lease s i))"

text \<open>The claim of replica \<open>i\<close> from the database second \<open>n\<close>: it owns the row, or the time it asked for is over.\<close>

definition safe_claim :: "string \<Rightarrow> election \<Rightarrow> nat \<Rightarrow> int \<Rightarrow> bool" where
  "safe_claim sc s i n \<longleftrightarrow>
     (\<exists>r. el_db s sc = Some r \<and> lr_holder_id r = le_holderID (el_lease s i) \<and> n + ttl_seconds (le_ttl (el_lease s i)) \<le> lr_expires_at r)
     \<or> (n + ttl_seconds (le_ttl (el_lease s i))) * nanos \<le> el_now s"

primrec phase_ok :: "string \<Rightarrow> election \<Rightarrow> nat \<Rightarrow> attempt_phase \<Rightarrow> bool" where
  "phase_ok sc s i Idle = True"
| "phase_ok sc s i (Clocked c n) = (c \<le> el_now s \<and> n = c div nanos)"
| "phase_ok sc s i (Written c n) = (c \<le> el_now s \<and> n = c div nanos
     \<and> (\<forall>r. el_db s sc = Some r \<longrightarrow> lr_holder_id r = le_holderID (el_lease s i) \<longrightarrow> lr_expires_at r = n + ttl_seconds (le_ttl (el_lease s i))))"
| "phase_ok sc s i (Answered c n held) = (c \<le> el_now s \<and> n = c div nanos \<and> (held \<longrightarrow> safe_claim sc s i n))"

primrec phase_second :: "attempt_phase \<Rightarrow> int option" where
  "phase_second Idle = None" | "phase_second (Clocked c n) = Some n" | "phase_second (Written c n) = Some n"
| "phase_second (Answered c n held) = Some n"

definition claim_ok :: "int \<Rightarrow> string \<Rightarrow> election \<Rightarrow> nat \<Rightarrow> bool" where
  "claim_ok L sc s i \<longleftrightarrow> (\<exists>n. safe_claim sc s i n \<and> n * nanos \<le> el_now s
     \<and> le_lastConfirmed (el_lease s i) < (n + 1) * nanos + L
     \<and> (\<forall>m. phase_second (le_phase (el_lease s i)) = Some m \<longrightarrow> n \<le> m))"

definition replica_ok :: "int \<Rightarrow> string \<Rightarrow> election \<Rightarrow> nat \<Rightarrow> bool" where
  "replica_ok L sc s i \<longleftrightarrow> phase_ok sc s i (le_phase (el_lease s i))
     \<and> (le_stopped (el_lease s i) \<longrightarrow> le_phase (el_lease s i) = Idle)
     \<and> (le_held (el_lease s i) \<longrightarrow> \<not> le_stopped (el_lease s i) \<longrightarrow> claim_ok L sc s i)"

definition election_ok :: "int \<Rightarrow> string \<Rightarrow> election \<Rightarrow> bool" where
  "election_ok L sc s \<longleftrightarrow> one_election sc s \<and> (\<forall>i. replica_ok L sc s i)"

lemma div_nanos: "c div nanos * nanos \<le> c" "c < (c div nanos + 1) * nanos"
  by (simp_all add: nanos_def)

text \<open>
  Two states agree on a replica when it is where it was and no less time has passed, and its claim on the row
  was not taken before it ran out.
\<close>

definition carries :: "string \<Rightarrow> election \<Rightarrow> election \<Rightarrow> nat \<Rightarrow> bool" where
  "carries sc s t i \<longleftrightarrow> el_now s \<le> el_now t
     \<and> (\<forall>r. el_db s sc = Some r \<longrightarrow> lr_holder_id r = le_holderID (el_lease s i) \<longrightarrow>
          el_db t sc = Some r \<or> lr_expires_at r * nanos \<le> el_now t)
     \<and> (\<forall>r. el_db t sc = Some r \<longrightarrow> lr_holder_id r = le_holderID (el_lease s i) \<longrightarrow> el_db s sc = Some r)"

lemma safe_claim_carries:
  assumes "carries sc s t i" and "el_lease t i = el_lease s i" and "safe_claim sc s i n"
  shows "safe_claim sc t i n"
proof (cases "(n + ttl_seconds (le_ttl (el_lease s i))) * nanos \<le> el_now s")
  case True
  then show ?thesis using assms(1,2) by (auto simp: safe_claim_def carries_def)
next
  case False
  then obtain r where r: "el_db s sc = Some r" "lr_holder_id r = le_holderID (el_lease s i)"
      "n + ttl_seconds (le_ttl (el_lease s i)) \<le> lr_expires_at r"
    using assms(3) by (auto simp: safe_claim_def)
  then have "(n + ttl_seconds (le_ttl (el_lease s i))) * nanos \<le> lr_expires_at r * nanos" by (simp add: nanos_def)
  then show ?thesis using assms(1,2) r by (auto simp: safe_claim_def carries_def)
qed

lemma replica_ok_carries:
  assumes c: "carries sc s t i" and same: "el_lease t i = el_lease s i" and ok: "replica_ok L sc s i"
  shows "replica_ok L sc t i"
proof -
  have now: "el_now s \<le> el_now t" using c by (simp add: carries_def)
  note safe = safe_claim_carries [OF c same]
  have "phase_ok sc t i (le_phase (el_lease s i))"
    using ok now safe c by (cases "le_phase (el_lease s i)") (auto simp: replica_ok_def carries_def same)
  moreover have "claim_ok L sc s i \<Longrightarrow> claim_ok L sc t i"
    unfolding claim_ok_def same using safe now by (meson order_trans)
  ultimately show ?thesis using ok by (simp add: replica_ok_def same)
qed

lemma set_lease_simps [simp]:
  "el_now (set_lease i l s) = el_now s" "el_db (set_lease i l s) = el_db s" "el_lease (set_lease i l s) = (el_lease s)(i := l)"
  by (simp_all add: set_lease_def)

lemma carries_same: "el_db t = el_db s \<Longrightarrow> el_now s \<le> el_now t \<Longrightarrow> carries sc s t j"
  by (simp add: carries_def)

lemma identity_differs: "one_election sc s \<Longrightarrow> j \<noteq> i \<Longrightarrow> le_holderID (el_lease s j) \<noteq> le_holderID (el_lease s i)"
  by (auto simp: one_election_def inj_def)

lemma one_election_upd:
  assumes "one_election sc s" and "\<And>i. le_scope (el_lease t i) = le_scope (el_lease s i)"
    and "\<And>i. le_holderID (el_lease t i) = le_holderID (el_lease s i)"
  shows "one_election sc t"
  using assms by (simp add: one_election_def)

text \<open>One replica moves, the others are carried over.\<close>

lemma election_ok_move:
  assumes ok: "election_ok L sc s" and others: "\<And>j. j \<noteq> i \<Longrightarrow> el_lease t j = el_lease s j" "\<And>j. j \<noteq> i \<Longrightarrow> carries sc s t j"
    and "le_scope (el_lease t i) = le_scope (el_lease s i)" "le_holderID (el_lease t i) = le_holderID (el_lease s i)"
    and "replica_ok L sc t i"
  shows "election_ok L sc t"
proof -
  have "replica_ok L sc t j" for j
    using assms(6) replica_ok_carries [OF others(2,1)] ok by (cases "j = i") (auto simp: election_ok_def)
  moreover have "one_election sc t"
  proof (rule one_election_upd)
    show "one_election sc s" using ok by (simp add: election_ok_def)
    show "le_scope (el_lease t j) = le_scope (el_lease s j)" for j using others(1) assms(4) by (cases "j = i") auto
    show "le_holderID (el_lease t j) = le_holderID (el_lease s j)" for j using others(1) assms(5) by (cases "j = i") auto
  qed
  ultimately show ?thesis by (simp add: election_ok_def)
qed

lemma upsert_carries:
  assumes "one_election sc s" and "j \<noteq> i" and c: "c \<le> el_now s" "n = c div nanos"
    and t: "el_now t = el_now s" "el_db t = upsert_lease sc (le_holderID (el_lease s i)) n e (el_db s)"
  shows "carries sc s t j"
proof -
  have diff: "le_holderID (el_lease s j) \<noteq> le_holderID (el_lease s i)" by (rule identity_differs [OF assms(1,2)])
  have "n * nanos \<le> el_now s" using div_nanos(1) [of c] c by simp
  then have late: "x \<le> n \<Longrightarrow> x * nanos \<le> el_now s" for x using mult_right_mono [of x n nanos] by (simp add: nanos_def)
  show ?thesis unfolding carries_def t upsert_lease_scope
    using diff late by (auto split: option.split)
qed

lemma release_carries:
  assumes "one_election sc s" and "j \<noteq> i" and "el_now t = el_now s" "el_db t = ReleaseLease sc (le_holderID (el_lease s i)) (el_db s)"
  shows "carries sc s t j"
  using identity_differs [OF assms(1,2)] by (auto simp: carries_def assms(3,4) ReleaseLease_def split: option.splits if_splits)

lemma claim_ok_same:
  assumes "claim_ok L sc s i" and "el_now t = el_now s" "el_db t = el_db s"
    and "le_holderID (el_lease t i) = le_holderID (el_lease s i)" "le_ttl (el_lease t i) = le_ttl (el_lease s i)"
    "le_lastConfirmed (el_lease t i) = le_lastConfirmed (el_lease s i)"
    and "phase_second (le_phase (el_lease t i)) = None \<or> phase_second (le_phase (el_lease t i)) = phase_second (le_phase (el_lease s i))"
  shows "claim_ok L sc t i"
  using assms unfolding claim_ok_def safe_claim_def by auto

lemma election_ok_step:
  assumes step: "election_step e s = Some t" and quick: "prompt L e s" and ok: "election_ok L sc s"
  shows "election_ok L sc t"
proof (cases e)
  case (TimePasses dt)
  then have t: "t = s\<lparr>el_now := el_now s + dt\<rparr>" "0 \<le> dt" using step by (auto split: if_splits)
  have "replica_ok L sc t i" for i
    by (rule replica_ok_carries [of sc s t i]) (use ok t in \<open>auto simp: election_ok_def intro: carries_same\<close>)
  moreover have "one_election sc t" using ok by (simp add: election_ok_def one_election_def t)
  ultimately show ?thesis by (simp add: election_ok_def)
next
  case (ReadClock i)
  let ?l = "el_lease s i"
  have t: "t = set_lease i (?l\<lparr>le_phase := Clocked (el_now s) (db_now s)\<rparr>) s" "le_phase ?l = Idle" "\<not> le_stopped ?l"
    using step ReadClock by (auto simp: Let_def split: if_splits)
  have i: "replica_ok L sc s i" using ok by (simp add: election_ok_def)
  have "n \<le> el_now s div nanos" if "n * nanos \<le> el_now s" for n
    using div_nanos(2) [of "el_now s"] that by (simp add: nanos_def)
  then have "claim_ok L sc s i \<Longrightarrow> claim_ok L sc t i"
    unfolding claim_ok_def safe_claim_def by (auto simp: t(1) db_now_def)
  then have "replica_ok L sc t i" using i t(3) by (simp add: replica_ok_def t(1) db_now_def)
  then show ?thesis by (intro election_ok_move [OF ok, of i]) (auto simp: t(1) intro: carries_same)
next
  case (WriteLease i)
  let ?l = "el_lease s i"
  obtain c n where p: "le_phase ?l = Clocked c n" using step WriteLease by (auto simp: Let_def split: attempt_phase.splits)
  have i: "replica_ok L sc s i" and one: "one_election sc s" using ok by (simp_all add: election_ok_def)
  have sc: "le_scope ?l = sc" using one by (simp add: one_election_def)
  have t: "t = (set_lease i (?l\<lparr>le_phase := Written c n\<rparr>) s)\<lparr>el_db := upsert_lease sc (le_holderID ?l) n (n + ttl_seconds (le_ttl ?l)) (el_db s)\<rparr>"
    using step WriteLease p sc by (simp add: Let_def)
  have c: "c \<le> el_now s" "n = c div nanos" using i p by (simp_all add: replica_ok_def)
  have "claim_ok L sc s i \<Longrightarrow> claim_ok L sc t i"
    unfolding claim_ok_def safe_claim_def using p
    by (auto simp: t upsert_lease_scope split: option.splits if_splits)
  moreover have "phase_ok sc t i (Written c n)" using c by (auto simp: t upsert_lease_scope split: option.splits if_splits)
  ultimately have "replica_ok L sc t i" using i p by (simp add: replica_ok_def t)
  moreover have "carries sc s t j" if "j \<noteq> i" for j
    by (rule upsert_carries [OF one that c]) (simp_all add: t)
  ultimately show ?thesis by (intro election_ok_move [OF ok, of i]) (simp_all add: t)
next
  case (ReadBack i)
  let ?l = "el_lease s i"
  obtain c n where p: "le_phase ?l = Written c n" using step ReadBack by (auto simp: Let_def split: attempt_phase.splits)
  have i: "replica_ok L sc s i" and one: "one_election sc s" using ok by (simp_all add: election_ok_def)
  have sc: "le_scope ?l = sc" using one by (simp add: one_election_def)
  let ?p = "case owner_check sc (le_holderID ?l) n (el_db s) of None \<Rightarrow> Idle | Some held \<Rightarrow> Answered c n held"
  have t: "t = set_lease i (?l\<lparr>le_phase := ?p\<rparr>) s" using step ReadBack p sc by (simp add: Let_def)
  have "claim_ok L sc s i \<Longrightarrow> claim_ok L sc t i"
    by (erule claim_ok_same) (simp_all add: t p split: option.split)
  moreover have "phase_ok sc t i ?p" using i p
    by (auto simp: replica_ok_def t owner_check_def safe_claim_def split: option.splits)
  ultimately have "replica_ok L sc t i" using i p by (simp add: replica_ok_def t)
  then show ?thesis by (intro election_ok_move [OF ok, of i]) (auto simp: t intro: carries_same)
next
  case (Confirm i)
  let ?l = "el_lease s i"
  obtain c n h where p: "le_phase ?l = Answered c n h" using step Confirm by (auto simp: Let_def split: attempt_phase.splits)
  have i: "replica_ok L sc s i" using ok by (simp add: election_ok_def)
  have t: "t = set_lease i (?l\<lparr>le_held := h, le_lastConfirmed := (if h then el_now s else le_lastConfirmed ?l), le_phase := Idle\<rparr>) s"
    using step Confirm p by (simp add: Let_def)
  have "claim_ok L sc t i" if h
  proof -
    have c: "c \<le> el_now s" "n = c div nanos" "safe_claim sc s i n" using i p that by (auto simp: replica_ok_def)
    have "el_now s - c \<le> L" using quick Confirm p by simp
    then have "el_now s < (n + 1) * nanos + L" using div_nanos(2) [of c] c(2) by simp
    moreover have "n * nanos \<le> el_now s" using div_nanos(1) [of c] c(1,2) by simp
    moreover have "safe_claim sc t i n" using c(3) by (simp add: safe_claim_def t)
    ultimately show ?thesis using that by (auto simp: claim_ok_def t)
  qed
  then have "replica_ok L sc t i" using i p by (simp add: replica_ok_def t)
  then show ?thesis by (intro election_ok_move [OF ok, of i]) (auto simp: t intro: carries_same)
next
  case (AttemptFails i)
  let ?l = "el_lease s i"
  have i: "replica_ok L sc s i" using ok by (simp add: election_ok_def)
  have t: "t = set_lease i (?l\<lparr>le_phase := Idle\<rparr>) s" and p: "le_phase ?l \<noteq> Idle"
    using step AttemptFails by (auto simp: Let_def split: attempt_phase.splits)
  have "claim_ok L sc s i \<Longrightarrow> claim_ok L sc t i" by (erule claim_ok_same) (simp_all add: t)
  then have "replica_ok L sc t i" using i by (simp add: replica_ok_def t)
  then show ?thesis by (intro election_ok_move [OF ok, of i]) (auto simp: t intro: carries_same)
next
  case (LoopEnds i)
  let ?l = "el_lease s i"
  have t: "t = set_lease i (?l\<lparr>le_stopped := True\<rparr>) s" "le_phase ?l = Idle"
    using step LoopEnds by (auto simp: Let_def split: if_splits)
  then have "replica_ok L sc t i" by (simp add: replica_ok_def)
  then show ?thesis by (intro election_ok_move [OF ok, of i]) (auto simp: t intro: carries_same)
next
  case (ReleaseOnStop i)
  let ?l = "el_lease s i"
  have one: "one_election sc s" using ok by (simp add: election_ok_def)
  have st: "le_stopped ?l" and t: "t = (if le_held ?l then s\<lparr>el_db := ReleaseLease sc (le_holderID ?l) (el_db s)\<rparr> else s)"
    using step ReleaseOnStop one by (auto simp: Let_def one_election_def split: if_splits)
  show ?thesis
  proof (cases "le_held ?l")
    case True
    have "replica_ok L sc t i" using ok st by (simp add: replica_ok_def t election_ok_def)
    moreover have "carries sc s t j" if "j \<noteq> i" for j
      by (rule release_carries [OF one that]) (simp_all add: t True)
    ultimately show ?thesis by (intro election_ok_move [OF ok, of i]) (simp_all add: t)
  qed (use ok t in simp)
qed

lemma election_ok_run:
  assumes "prompt_run L es s = Some t" and "election_ok L sc s"
  shows "election_ok L sc t"
  using assms by (rule prompt_runs.run_invariant) (auto simp: prompt_step_def split: if_splits intro: election_ok_step)

lemma prompt_run_is_run: "prompt_run L es s = Some t \<Longrightarrow> election_run es s = Some t"
  by (induction es arbitrary: s) (auto simp: prompt_step_def split: option.splits if_splits)

text \<open>Before the first attempt nobody leads, whatever an earlier process left in the table.\<close>

definition before_election :: "string \<Rightarrow> election \<Rightarrow> bool" where
  "before_election sc s \<longleftrightarrow> one_election sc s \<and> (\<forall>i. le_phase (el_lease s i) = Idle \<and> \<not> le_held (el_lease s i))"

lemma election_ok_start: "before_election sc s \<Longrightarrow> election_ok L sc s"
  by (auto simp: before_election_def election_ok_def replica_ok_def)

text \<open>
  C32. Two replicas can both take themselves for the leader, but only briefly: if every attempt confirms within \<open>L\<close> of
  reading the database clock, one of the two stops leading within \<open>L\<close> and a second, plus what the truncation
  of its lease to whole seconds cut off.
\<close>

theorem leader_overlap_bounded:
  assumes "before_election sc s" and "prompt_run L es s = Some t"
    and "i \<noteq> j" and "IsLeader t i" and "IsLeader t j"
  shows "election_run es s = Some t \<and> (\<exists>k\<in>{i, j}. le_lastConfirmed (el_lease t k) + le_ttl (el_lease t k) - el_now t
    < L + nanos + (le_ttl (el_lease t k) - ttl_seconds (le_ttl (el_lease t k)) * nanos))"
proof -
  have ok: "election_ok L sc t" by (rule election_ok_run [OF assms(2) election_ok_start [OF assms(1)]])
  have one: "one_election sc t" using ok by (simp add: election_ok_def)
  have claim: "claim_ok L sc t k" if "IsLeader t k" for k
    using ok that by (auto simp: election_ok_def replica_ok_def IsLeader_def Let_def)
  obtain n m where n: "safe_claim sc t i n" "le_lastConfirmed (el_lease t i) < (n + 1) * nanos + L"
    and m: "safe_claim sc t j m" "le_lastConfirmed (el_lease t j) < (m + 1) * nanos + L"
    using claim [OF assms(4)] claim [OF assms(5)] unfolding claim_ok_def by blast
  have "le_holderID (el_lease t i) \<noteq> le_holderID (el_lease t j)" using identity_differs [OF one assms(3)] .
  then have "(n + ttl_seconds (le_ttl (el_lease t i))) * nanos \<le> el_now t \<or> (m + ttl_seconds (le_ttl (el_lease t j))) * nanos \<le> el_now t"
    using n(1) m(1) by (auto simp: safe_claim_def)
  then show ?thesis using n(2) m(2) prompt_run_is_run [OF assms(2)] by (auto simp: algebra_simps)
qed

subsection \<open>A concrete election\<close>

definition demo_election :: election where
  "demo_election = \<lparr>el_now = 900000000, el_db = Map.empty,
     el_lease = (\<lambda>i. NewLease DefaultScope (''replica-'' @ replicate i (CHR ''x'')) 0 0 ''r'')\<rparr>"

definition demo_attempt :: "nat \<Rightarrow> election_event list" where
  "demo_attempt i = [ReadClock i, WriteLease i, ReadBack i, Confirm i]"

definition demo_overlap :: "election_event list" where
  "demo_overlap = demo_attempt 0 @ [TimePasses 59100000000] @ demo_attempt 1"

lemma demo_before: "before_election DefaultScope demo_election"
  by (auto simp: before_election_def one_election_def demo_election_def NewLease_def inj_def)

text \<open>
  Even without any latency two replicas lead at once: the row of a lease taken at 0.9 seconds ends at 60, the local
  gate at 60.9.
\<close>

lemma leader_overlap_bounded_witness:
  "\<exists>t. election_run demo_overlap demo_election = Some t \<and> IsLeader t 0 \<and> IsLeader t 1
     \<and> (\<exists>k\<in>{0, 1}. le_lastConfirmed (el_lease t k) + le_ttl (el_lease t k) - el_now t
          < nanos + (le_ttl (el_lease t k) - ttl_seconds (le_ttl (el_lease t k)) * nanos))"
proof -
  have "case prompt_run 0 demo_overlap demo_election of None \<Rightarrow> False | Some t \<Rightarrow> IsLeader t 0 \<and> IsLeader t 1" by code_simp
  then obtain t where t: "prompt_run 0 demo_overlap demo_election = Some t" "IsLeader t 0" "IsLeader t 1"
    by (auto split: option.splits)
  from leader_overlap_bounded [OF demo_before t(1) _ t(2,3)] show ?thesis using t by simp
qed

end
