(* ===== verification/Paymaster.thy ===== *)
theory Paymaster
  imports Complex_Main Ledger_Prelude
begin

text \<open>
  Cost accounting (\<^verbatim>\<open>internal/paymaster\<close>): the ledger of what calls of language models cost, the budgets over
  scopes and calendar windows, what is spent of them (\<^verbatim>\<open>budgets.go\<close>), and the rate cards (\<^verbatim>\<open>pricing.go\<close>).
  Money is floating point in the code; here its operations are an argument.
\<close>

subsection \<open>Money\<close>

text \<open>
  The operations on \<^verbatim>\<open>float64\<close> and on the SQL type \<^verbatim>\<open>REAL\<close>: \<open>mo_sum\<close> is \<^verbatim>\<open>COALESCE(SUM(...), 0)\<close>,
  \<open>mo_price n r\<close> is \<^verbatim>\<open>float64(n) * r / 1e6\<close>, \<open>mo_util\<close> and \<open>mo_percent\<close> are a quotient and a percentage.
\<close>

record 'c money =
  mo_zero :: 'c
  mo_one :: 'c
  mo_add :: "'c \<Rightarrow> 'c \<Rightarrow> 'c"
  mo_sum :: "'c list \<Rightarrow> 'c"
  mo_price :: "int \<Rightarrow> 'c \<Rightarrow> 'c"
  mo_util :: "'c \<Rightarrow> 'c \<Rightarrow> 'c"
  mo_percent :: "'c \<Rightarrow> 'c \<Rightarrow> 'c"
  mo_warnThreshold :: 'c
  mo_max :: "'c \<Rightarrow> 'c \<Rightarrow> 'c"
  mo_less :: "'c \<Rightarrow> 'c \<Rightarrow> bool"
  mo_le :: "'c \<Rightarrow> 'c \<Rightarrow> bool"
  mo_finite :: "'c \<Rightarrow> bool"

definition positiveFinite :: "'c money \<Rightarrow> 'c \<Rightarrow> bool" where
  "positiveFinite M n \<longleftrightarrow> mo_finite M n \<and> mo_less M (mo_zero M) n"

subsection \<open>Time\<close>

text \<open>
  Instants are nanoseconds since 1970, from 1970 on.  A time column holds text, in one of two layouts: with
  three fractional digits (\<^verbatim>\<open>tsLayout\<close>) or with nine (\<^verbatim>\<open>tsformat\<close>).  \<open>text_less\<close> is the order of the texts: they
  agree up to the milliseconds, and there the shorter one has the letter \<^verbatim>\<open>Z\<close>, which is after every digit.
\<close>

datatype stamp = Millis int | Nanos int

definition ms :: int where "ms = 1000000"
definition hour :: int where "hour = 3600000 * ms"
definition day :: int where "day = 24 * hour"

definition ts_millis :: "int \<Rightarrow> stamp" where "ts_millis t = Millis (t div ms)"
definition ts_nanos :: "int \<Rightarrow> stamp" where "ts_nanos t = Nanos t"

fun text_less :: "stamp \<Rightarrow> stamp \<Rightarrow> bool" where
  "text_less (Millis a) (Millis b) \<longleftrightarrow> a < b"
| "text_less (Millis a) (Nanos b) \<longleftrightarrow> a < b div ms"
| "text_less (Nanos a) (Millis b) \<longleftrightarrow> a div ms \<le> b"
| "text_less (Nanos a) (Nanos b) \<longleftrightarrow> a < b"

text \<open>The calendar: the year of a day counted from 1 January of \<open>y\<close>, and the day of its month, from 0.\<close>

definition leap :: "int \<Rightarrow> bool" where
  "leap y \<longleftrightarrow> y mod 4 = 0 \<and> (y mod 100 \<noteq> 0 \<or> y mod 400 = 0)"

definition month_lengths :: "int \<Rightarrow> int list" where
  "month_lengths y = [31, if leap y then 29 else 28, 31, 30, 31, 30, 31, 31, 30, 31, 30, 31]"

definition year_length :: "int \<Rightarrow> int" where
  "year_length y = (if leap y then 366 else 365)"

fun month_loop :: "int list \<Rightarrow> int \<Rightarrow> int" where
  "month_loop [] d = d"
| "month_loop (m # mm) d = (if d < m then d else month_loop mm (d - m))"

function year_loop :: "int \<Rightarrow> int \<Rightarrow> int" where
  "year_loop y d = (if d < year_length y then month_loop (month_lengths y) d else year_loop (y + 1) (d - year_length y))"
  by pat_completeness auto
termination
  by (relation "measure (\<lambda>(y, d). nat d)") (auto simp: year_length_def split: if_splits)

declare year_loop.simps [simp del]

datatype BudgetWindow = WindowHour | WindowDay | WindowWeek | WindowMonth | WindowMission | WindowUnknown string

text \<open>The zero time of Go, in year 1.  1 January 1970 was a Thursday.\<close>

definition zero_instant :: int where "zero_instant = - 719162 * day"

definition windowStart :: "BudgetWindow \<Rightarrow> int \<Rightarrow> int option" where
  "windowStart w now =
     (let d = now div day
      in case w of
           WindowHour \<Rightarrow> Some (now - now mod hour)
         | WindowDay \<Rightarrow> Some (d * day)
         | WindowWeek \<Rightarrow> Some ((d - (d + 3) mod 7) * day)
         | WindowMonth \<Rightarrow> Some ((d - year_loop 1970 d) * day)
         | WindowMission \<Rightarrow> Some zero_instant
         | WindowUnknown s \<Rightarrow> None)"

subsection \<open>Budgets and the cost ledger\<close>

datatype ScopeKind = ScopeWorkspace | ScopeCrew | ScopeMission | ScopeAgent | ScopeUnknown string
datatype EnforcementMode = ModeSoft | ModeHard | ModeTiered | ModeUnknown string
datatype BillingMode = BillingUnset | BillingMetered | BillingFlatRate
datatype CostConfidence = ConfidenceUnset | ConfidencePrecise | ConfidenceEstimate | ConfidenceUnknown
datatype BudgetState = StateOK | StateWarn | StateExceeded

record Scope =
  sc_WorkspaceID :: string
  sc_CrewID :: string
  sc_AgentID :: string
  sc_MissionID :: string

record 'c Budget =
  bd_ID :: string
  bd_WorkspaceID :: string
  bd_ScopeKind :: ScopeKind
  bd_ScopeID :: string
  bd_Window :: BudgetWindow
  bd_LimitUSD :: 'c
  bd_Mode :: EnforcementMode
  bd_Enabled :: bool

record 'c modelPrice =
  pr_InputPerM :: 'c
  pr_OutputPerM :: 'c
  pr_CachedInputPerM :: 'c
  pr_CacheWritePerM :: 'c

record 'c ledger_row =
  lg_id :: string
  lg_workspace_id :: string
  lg_crew_id :: "string option"
  lg_agent_id :: "string option"
  lg_mission_id :: "string option"
  lg_ts :: stamp
  lg_provider :: string
  lg_model :: string
  lg_input_tokens :: int
  lg_output_tokens :: int
  lg_cached_input_tokens :: int
  lg_cache_creation_tokens :: int
  lg_cost_usd :: 'c
  lg_tags :: string
  lg_billing_mode :: BillingMode
  lg_cost_confidence :: CostConfidence
  lg_credential_id :: "string option"
  lg_rate :: "'c modelPrice"
  lg_quota :: "(string \<times> 'c) option"
  lg_subscription_plan :: "string option"

datatype reservation_state = Pending | Known | Unknown

record 'c reservation_row =
  rv_id :: string
  rv_ledger_id :: string
  rv_principal_id :: string
  rv_attempt_id :: string
  rv_credential_id :: string
  rv_max_input_tokens :: int
  rv_max_output_tokens :: int
  rv_reserved_usd :: 'c
  rv_rate_input_per_m :: 'c
  rv_rate_output_per_m :: 'c
  rv_rate_cached_per_m :: 'c
  rv_state :: reservation_state
  rv_input_tokens :: "int option"
  rv_output_tokens :: "int option"
  rv_cached_input_tokens :: "int option"

record 'c pay_db =
  budget_limits :: "'c Budget list"
  cost_ledger :: "'c ledger_row list"
  reservations :: "'c reservation_row list"

record 'c BudgetStatus =
  bs_Budget :: "'c Budget"
  bs_SpentUSD :: 'c
  bs_LimitUSD :: 'c
  bs_UtilPct :: 'c
  bs_State :: BudgetState

datatype 'c pay_error =
    ErrReservationDenied
  | ErrInvalidRequest string
  | BudgetExceeded "'c BudgetStatus list"
  | PayError string
  | NoRows
  | ConstraintFailed

definition nullable :: "string \<Rightarrow> string option" where
  "nullable s = (if s = [] then None else Some s)"

text \<open>The \<^verbatim>\<open>WHERE\<close> clause of the budgets that apply to a scope, and their order.\<close>

definition applicable :: "Scope \<Rightarrow> 'c Budget \<Rightarrow> bool" where
  "applicable s b \<longleftrightarrow> bd_Enabled b \<and> bd_WorkspaceID b = sc_WorkspaceID s
     \<and> (case bd_ScopeKind b of
          ScopeWorkspace \<Rightarrow> bd_ScopeID b = sc_WorkspaceID s
        | ScopeCrew \<Rightarrow> bd_ScopeID b = sc_CrewID s \<and> sc_CrewID s \<noteq> []
        | ScopeMission \<Rightarrow> bd_ScopeID b = sc_MissionID s \<and> sc_MissionID s \<noteq> []
        | ScopeAgent \<Rightarrow> bd_ScopeID b = sc_AgentID s \<and> sc_AgentID s \<noteq> []
        | ScopeUnknown x \<Rightarrow> False)"

definition scope_order :: "'c Budget \<Rightarrow> nat" where
  "scope_order b = (case bd_ScopeKind b of ScopeWorkspace \<Rightarrow> 0 | ScopeCrew \<Rightarrow> 1 | ScopeMission \<Rightarrow> 2 | ScopeAgent \<Rightarrow> 3
     | ScopeUnknown x \<Rightarrow> 4)"

text \<open>The windows in the order of their texts.\<close>

definition window_order :: "'c Budget \<Rightarrow> nat" where
  "window_order b = (case bd_Window b of WindowDay \<Rightarrow> 0 | WindowHour \<Rightarrow> 1 | WindowMission \<Rightarrow> 2 | WindowMonth \<Rightarrow> 3
     | WindowWeek \<Rightarrow> 4 | WindowUnknown s \<Rightarrow> 5)"

definition loadApplicableBudgets :: "'c pay_db \<Rightarrow> Scope \<Rightarrow> 'c Budget list" where
  "loadApplicableBudgets db s = sort_key (\<lambda>b. 6 * scope_order b + window_order b) (filter (applicable s) (budget_limits db))"

text \<open>The rows a budget is about: \<open>l.workspace_id = ? AND l.crew_id = ?\<close> and so on.\<close>

definition in_scope_of :: "'c Budget \<Rightarrow> 'c ledger_row \<Rightarrow> bool" where
  "in_scope_of b l \<longleftrightarrow> lg_workspace_id l = bd_WorkspaceID b
     \<and> (case bd_ScopeKind b of
          ScopeWorkspace \<Rightarrow> True
        | ScopeCrew \<Rightarrow> lg_crew_id l = Some (bd_ScopeID b)
        | ScopeMission \<Rightarrow> lg_mission_id l = Some (bd_ScopeID b)
        | ScopeAgent \<Rightarrow> lg_agent_id l = Some (bd_ScopeID b)
        | ScopeUnknown x \<Rightarrow> True)"

definition sumSpend :: "'c money \<Rightarrow> 'c pay_db \<Rightarrow> 'c Budget \<Rightarrow> int \<Rightarrow> 'c pay_error + 'c" where
  "sumSpend M db b now =
     (if (case bd_ScopeKind b of ScopeUnknown x \<Rightarrow> True | _ \<Rightarrow> False) then Inl (PayError ''unknown scope_kind'')
      else if bd_Window b = WindowMission
      then Inr (mo_sum M (map lg_cost_usd (filter (in_scope_of b) (cost_ledger db))))
      else case windowStart (bd_Window b) now of
             None \<Rightarrow> Inl (PayError ''unknown window'')
           | Some since \<Rightarrow> Inr (mo_sum M (map lg_cost_usd
               (filter (\<lambda>l. in_scope_of b l \<and> \<not> text_less (lg_ts l) (ts_millis since)) (cost_ledger db)))))"

text \<open>The pending reservations of earlier windows: \<^verbatim>\<open>restricted_cost_reservations r JOIN cost_ledger l ON l.id = r.ledger_id\<close>.\<close>

definition carried_rows :: "'c pay_db \<Rightarrow> 'c Budget \<Rightarrow> int \<Rightarrow> 'c ledger_row list" where
  "carried_rows db b start =
     concat (map (\<lambda>r. filter (\<lambda>l. lg_id l = rv_ledger_id r \<and> rv_state r = Pending \<and> in_scope_of b l
       \<and> text_less (lg_ts l) (ts_nanos start)) (cost_ledger db)) (reservations db))"

definition conservativeSumSpend :: "'c money \<Rightarrow> 'c pay_db \<Rightarrow> 'c Budget \<Rightarrow> int \<Rightarrow> 'c pay_error + 'c" where
  "conservativeSumSpend M db b now =
     (case sumSpend M db b now of
        Inl e \<Rightarrow> Inl e
      | Inr spent \<Rightarrow>
          if bd_Window b = WindowMission then Inr spent
          else case windowStart (bd_Window b) now of
                 None \<Rightarrow> Inl (PayError ''unknown window'')
               | Some start \<Rightarrow> Inr (mo_add M spent (mo_sum M (map lg_cost_usd (carried_rows db b start)))))"

definition deriveState :: "'c money \<Rightarrow> 'c \<Rightarrow> 'c \<Rightarrow> EnforcementMode \<Rightarrow> BudgetState" where
  "deriveState M spent limit mode =
     (if mo_le M limit (mo_zero M) then StateOK
      else
        let util = mo_util M spent limit
        in if mo_le M (mo_one M) util then StateExceeded
           else if (mode = ModeTiered \<or> mode = ModeSoft) \<and> mo_le M (mo_warnThreshold M) util then StateWarn
           else StateOK)"

definition status_of :: "'c money \<Rightarrow> 'c Budget \<Rightarrow> 'c \<Rightarrow> 'c BudgetStatus" where
  "status_of M b spent =
     \<lparr>bs_Budget = b, bs_SpentUSD = spent, bs_LimitUSD = bd_LimitUSD b,
      bs_UtilPct = (if mo_less M (mo_zero M) (bd_LimitUSD b) then mo_percent M spent (bd_LimitUSD b) else mo_zero M),
      bs_State = deriveState M spent (bd_LimitUSD b) (bd_Mode b)\<rparr>"

fun check_statuses :: "'c money \<Rightarrow> 'c pay_db \<Rightarrow> bool \<Rightarrow> int \<Rightarrow> 'c Budget list \<Rightarrow> 'c pay_error + 'c BudgetStatus list" where
  "check_statuses M db carryPending now [] = Inr []"
| "check_statuses M db carryPending now (b # bs) =
     (case (if carryPending then conservativeSumSpend M db b now else sumSpend M db b now) of
        Inl e \<Rightarrow> Inl e
      | Inr spent \<Rightarrow>
          (case check_statuses M db carryPending now bs of
             Inl e \<Rightarrow> Inl e
           | Inr ss \<Rightarrow> Inr (status_of M b spent # ss)))"

text \<open>\<^verbatim>\<open>Check\<close> is \<open>check_budgets\<close> without the pending reservations, \<^verbatim>\<open>CheckTx\<close> with them.\<close>

definition check_budgets :: "'c money \<Rightarrow> 'c pay_db \<Rightarrow> Scope \<Rightarrow> bool \<Rightarrow> int \<Rightarrow> 'c pay_error + 'c BudgetStatus list" where
  "check_budgets M db s carryPending now =
     (if sc_WorkspaceID s = [] then Inl (PayError ''workspace_id required'')
      else check_statuses M db carryPending now (loadApplicableBudgets db s))"

subsection \<open>Enforcement\<close>

text \<open>What was announced last of each budget (\<^verbatim>\<open>breachAnnounced\<close>): the period and the limit.\<close>

record breachIdentity =
  bi_WorkspaceID :: string
  bi_CrewID :: string
  bi_BudgetID :: string

datatype period = MissionPeriod | PeriodFrom stamp | UnknownPeriod string

definition periodIdentifier :: "BudgetWindow \<Rightarrow> int \<Rightarrow> period" where
  "periodIdentifier w now =
     (if w = WindowMission then MissionPeriod
      else case windowStart w now of
             None \<Rightarrow> UnknownPeriod (case w of WindowUnknown s \<Rightarrow> s | _ \<Rightarrow> [])
           | Some start \<Rightarrow> PeriodFrom (ts_millis start))"

type_synonym 'c breaches = "breachIdentity \<Rightarrow> (period \<times> 'c) option"

definition breach_identity :: "'c Budget \<Rightarrow> breachIdentity" where
  "breach_identity b = \<lparr>bi_WorkspaceID = bd_WorkspaceID b,
     bi_CrewID = (if bd_ScopeKind b = ScopeCrew then bd_ScopeID b else []), bi_BudgetID = bd_ID b\<rparr>"

text \<open>The loop around the compare-and-swap ends with one atomic change, or finds the breach announced.\<close>

definition announceBudgetBreach :: "'c Budget \<Rightarrow> int \<Rightarrow> 'c breaches \<Rightarrow> bool \<times> 'c breaches" where
  "announceBudgetBreach b now m =
     (let want = (periodIdentifier (bd_Window b) now, bd_LimitUSD b)
      in if m (breach_identity b) = Some want then (False, m) else (True, m(breach_identity b \<mapsto> want)))"

text \<open>The journal entries and the hook, for the status they carry.\<close>

datatype 'c pay_entry =
    BudgetWarning "'c BudgetStatus"
  | SoftOverLimit "'c BudgetStatus"
  | BudgetExceed "'c BudgetStatus"
  | OnBudgetExceeded "'c BudgetStatus"

fun enforce_loop :: "bool \<Rightarrow> int \<Rightarrow> 'c BudgetStatus list \<Rightarrow> 'c breaches \<Rightarrow> 'c BudgetStatus list \<times> 'c pay_entry list \<times> 'c breaches" where
  "enforce_loop journal now [] m = ([], [], m)"
| "enforce_loop journal now (s # ss) m =
     (case bs_State s of
        StateOK \<Rightarrow> enforce_loop journal now ss m
      | StateWarn \<Rightarrow>
          (let (blocking, entries, m) = enforce_loop journal now ss m
           in (blocking, (if journal then [BudgetWarning s] else []) @ entries, m))
      | StateExceeded \<Rightarrow>
          if bd_Mode (bs_Budget s) = ModeSoft
          then (let (blocking, entries, m) = enforce_loop journal now ss m
                in (blocking, (if journal then [SoftOverLimit s] else []) @ entries, m))
          else
            (let (fires, m) = announceBudgetBreach (bs_Budget s) now m;
                 (blocking, entries, m) = enforce_loop journal now ss m
             in (s # blocking, (if journal then [BudgetExceed s] else []) @ (if fires then [OnBudgetExceeded s] else []) @ entries, m)))"

text \<open>The two instants are those of \<^verbatim>\<open>Check\<close> and of the announcements.  \<open>None\<close> lets the call through.\<close>

definition Enforce :: "'c money \<Rightarrow> 'c pay_db \<Rightarrow> bool \<Rightarrow> Scope \<Rightarrow> int \<Rightarrow> int \<Rightarrow> 'c breaches
    \<Rightarrow> 'c pay_error option \<times> 'c pay_entry list \<times> 'c breaches" where
  "Enforce M db journal s now now' m =
     (case check_budgets M db s False now of
        Inl e \<Rightarrow> (Some e, [], m)
      | Inr statuses \<Rightarrow>
          (let (blocking, entries, m) = enforce_loop journal now' statuses m
           in (if blocking \<noteq> [] then Some (BudgetExceeded blocking) else None, entries, m)))"

subsection \<open>Rate cards\<close>

text \<open>The tables of \<^verbatim>\<open>pricing.go\<close> and the catalogue, by their keys.\<close>

record 'c rate_cards =
  rc_priceTable :: "string \<Rightarrow> 'c modelPrice option"
  rc_catalogPrice :: "string \<Rightarrow> string \<Rightarrow> 'c modelPrice option"
  rc_providerFallback :: "string \<Rightarrow> 'c modelPrice option"

datatype RateSource = SourceTable | SourceWildcard | SourceCatalog | SourceFallback | SourceNone

definition no_price :: "'c money \<Rightarrow> 'c modelPrice" where
  "no_price M = \<lparr>pr_InputPerM = mo_zero M, pr_OutputPerM = mo_zero M, pr_CachedInputPerM = mo_zero M, pr_CacheWritePerM = mo_zero M\<rparr>"

definition ExplainRate :: "'c money \<Rightarrow> 'c rate_cards \<Rightarrow> string \<Rightarrow> string \<Rightarrow> 'c modelPrice \<times> RateSource" where
  "ExplainRate M R provider model =
     (let prov = to_lower (trim_space provider); name = to_lower (trim_space model)
      in if prov = [] then (no_price M, SourceNone)
         else case rc_priceTable R (prov @ ''/'' @ name) of Some p \<Rightarrow> (p, SourceTable)
         | None \<Rightarrow> (case rc_priceTable R (prov @ ''/*'') of Some p \<Rightarrow> (p, SourceWildcard)
         | None \<Rightarrow> (case rc_catalogPrice R prov name of Some p \<Rightarrow> (p, SourceCatalog)
         | None \<Rightarrow> (case rc_providerFallback R prov of Some p \<Rightarrow> (p, SourceFallback)
         | None \<Rightarrow> (no_price M, SourceNone)))))"

definition lookupPrice :: "'c money \<Rightarrow> 'c rate_cards \<Rightarrow> string \<Rightarrow> string \<Rightarrow> 'c modelPrice" where
  "lookupPrice M R provider model =
     (let prov = to_lower (trim_space provider); name = to_lower (trim_space model)
      in if prov = [] then no_price M
         else case rc_priceTable R (prov @ ''/'' @ name) of Some p \<Rightarrow> p
         | None \<Rightarrow> (case rc_priceTable R (prov @ ''/*'') of Some p \<Rightarrow> p
         | None \<Rightarrow> (case rc_catalogPrice R prov name of Some p \<Rightarrow> p
         | None \<Rightarrow> (case rc_providerFallback R prov of Some p \<Rightarrow> p | None \<Rightarrow> no_price M))))"

definition Estimate :: "'c money \<Rightarrow> 'c rate_cards \<Rightarrow> string \<Rightarrow> string \<Rightarrow> int \<Rightarrow> int \<Rightarrow> int \<Rightarrow> int \<Rightarrow> 'c" where
  "Estimate M R provider model inTok outTok cachedIn cacheCreate =
     (let p = lookupPrice M R provider model; clamp = (\<lambda>n. if n < 0 then 0 else n)
      in mo_add M (mo_add M (mo_add M (mo_price M (clamp inTok) (pr_InputPerM p)) (mo_price M (clamp outTok) (pr_OutputPerM p)))
           (mo_price M (clamp cachedIn) (pr_CachedInputPerM p))) (mo_price M (clamp cacheCreate) (pr_CacheWritePerM p)))"

end
