(* ===== verification/Paymaster_Reserve.thy ===== *)
theory Paymaster_Reserve
  imports Paymaster
begin

text \<open>
  Reservations (\<^verbatim>\<open>reservations.go\<close>, \<^verbatim>\<open>trusted_reservations.go\<close>): the maximum cost of a call is debited before it is
  made and replaced once by its real cost; the ledger's other writer (\<^verbatim>\<open>Record\<close>); and the middleware around
  a call.  Each write is one transaction; a failed statement rolls it back.
\<close>

subsection \<open>Reserve\<close>

record ReservationRequest =
  rq_Scope :: Scope
  rq_PrincipalID :: string
  rq_AttemptID :: string
  rq_CredentialID :: string
  rq_Provider :: string
  rq_Model :: string
  rq_MaxInputTokens :: int
  rq_MaxOutputTokens :: int

record 'c reservationPolicy =
  po_requireWorkspace :: bool
  po_maxOutput :: int
  po_rate :: "'c modelPrice option"

definition max_input :: int where "max_input = 2097152"

definition request_ok :: "'c reservationPolicy \<Rightarrow> ReservationRequest \<Rightarrow> bool" where
  "request_ok po r \<longleftrightarrow> sc_WorkspaceID (rq_Scope r) \<noteq> []
     \<and> \<not> (po_requireWorkspace po \<and> (sc_AgentID (rq_Scope r) = [] \<or> rq_CredentialID r = []))
     \<and> rq_PrincipalID r \<noteq> [] \<and> rq_AttemptID r \<noteq> []
     \<and> 1 \<le> rq_MaxInputTokens r \<and> rq_MaxInputTokens r \<le> max_input
     \<and> 1 \<le> rq_MaxOutputTokens r \<and> rq_MaxOutputTokens r \<le> po_maxOutput po"

text \<open>The rate that proves a maximum: of the policy, of the table, or of the catalogue; never a fallback.\<close>

definition reservation_rate :: "'c rate_cards \<Rightarrow> 'c reservationPolicy \<Rightarrow> string \<Rightarrow> string \<Rightarrow> 'c modelPrice option" where
  "reservation_rate R po provider model =
     (case po_rate po of Some p \<Rightarrow> Some p
      | None \<Rightarrow> (case rc_priceTable R (provider @ ''/'' @ model) of Some p \<Rightarrow> Some p
      | None \<Rightarrow> rc_catalogPrice R provider model))"

definition rate_ok :: "'c money \<Rightarrow> 'c modelPrice \<Rightarrow> bool" where
  "rate_ok M p \<longleftrightarrow> positiveFinite M (pr_InputPerM p) \<and> positiveFinite M (pr_OutputPerM p)
     \<and> \<not> mo_less M (pr_CachedInputPerM p) (mo_zero M) \<and> mo_finite M (pr_CachedInputPerM p)
     \<and> \<not> mo_less M (pr_InputPerM p) (pr_CachedInputPerM p)"

definition maximum_cost :: "'c money \<Rightarrow> 'c modelPrice \<Rightarrow> ReservationRequest \<Rightarrow> 'c" where
  "maximum_cost M p r = mo_add M (mo_price M (rq_MaxInputTokens r) (pr_InputPerM p)) (mo_price M (rq_MaxOutputTokens r) (pr_OutputPerM p))"

text \<open>The loop over the budgets: every hard one must afford the cost; whether one of them caps the traffic.\<close>

fun admit_budgets :: "'c money \<Rightarrow> 'c pay_db \<Rightarrow> bool \<Rightarrow> int \<Rightarrow> 'c \<Rightarrow> 'c Budget list \<Rightarrow> bool \<Rightarrow> 'c pay_error + bool" where
  "admit_budgets M db requireWorkspace now cost [] capped = Inr capped"
| "admit_budgets M db requireWorkspace now cost (b # bs) capped =
     (if bd_Mode b = ModeSoft then admit_budgets M db requireWorkspace now cost bs capped
      else if (bd_Mode b \<noteq> ModeHard \<and> bd_Mode b \<noteq> ModeTiered) \<or> \<not> positiveFinite M (bd_LimitUSD b) then Inl ErrReservationDenied
      else
        case conservativeSumSpend M db b now of
          Inl e \<Rightarrow> Inl e
        | Inr spent \<Rightarrow>
            if \<not> mo_finite M spent \<or> mo_less M spent (mo_zero M) \<or> mo_less M (bd_LimitUSD b) (mo_add M spent cost)
            then Inl (BudgetExceeded [\<lparr>bs_Budget = b, bs_SpentUSD = mo_add M spent cost, bs_LimitUSD = bd_LimitUSD b,
              bs_UtilPct = mo_zero M, bs_State = StateExceeded\<rparr>])
            else admit_budgets M db requireWorkspace now cost bs
              (capped \<or> \<not> requireWorkspace \<or> bd_ScopeKind b = ScopeWorkspace))"

definition reservation_tags :: "bool \<Rightarrow> string" where
  "reservation_tags restricted =
     json_object [(if restricted then ''restricted_reservation'' else ''trusted_reservation'', ''true'')]"

definition reserved_ledger_row :: "string \<Rightarrow> int \<Rightarrow> ReservationRequest \<Rightarrow> bool \<Rightarrow> 'c modelPrice \<Rightarrow> 'c \<Rightarrow> 'c ledger_row" where
  "reserved_ledger_row x now r restricted p cost =
     \<lparr>lg_id = x, lg_workspace_id = sc_WorkspaceID (rq_Scope r), lg_crew_id = nullable (sc_CrewID (rq_Scope r)),
      lg_agent_id = nullable (sc_AgentID (rq_Scope r)), lg_mission_id = nullable (sc_MissionID (rq_Scope r)),
      lg_ts = ts_nanos now, lg_provider = to_lower (rq_Provider r), lg_model = to_lower (rq_Model r),
      lg_input_tokens = 0, lg_output_tokens = 0, lg_cached_input_tokens = 0, lg_cache_creation_tokens = 0,
      lg_cost_usd = cost, lg_tags = reservation_tags restricted, lg_billing_mode = BillingMetered,
      lg_cost_confidence = ConfidenceEstimate, lg_credential_id = nullable (rq_CredentialID r), lg_rate = p,
      lg_quota = None, lg_subscription_plan = None\<rparr>"

definition pending_reservation :: "string \<Rightarrow> ReservationRequest \<Rightarrow> 'c modelPrice \<Rightarrow> 'c \<Rightarrow> 'c reservation_row" where
  "pending_reservation x r p cost =
     \<lparr>rv_id = x, rv_ledger_id = x, rv_principal_id = rq_PrincipalID r, rv_attempt_id = rq_AttemptID r,
      rv_credential_id = rq_CredentialID r, rv_max_input_tokens = rq_MaxInputTokens r, rv_max_output_tokens = rq_MaxOutputTokens r,
      rv_reserved_usd = cost, rv_rate_input_per_m = pr_InputPerM p, rv_rate_output_per_m = pr_OutputPerM p,
      rv_rate_cached_per_m = pr_CachedInputPerM p, rv_state = Pending, rv_input_tokens = None, rv_output_tokens = None,
      rv_cached_input_tokens = None\<rparr>"

text \<open>The two inserts, with the primary keys and the unique ledger of a reservation.\<close>

definition insert_reservation :: "'c ledger_row \<Rightarrow> 'c reservation_row \<Rightarrow> 'c pay_db \<Rightarrow> 'c pay_error + (string \<times> 'c pay_db)" where
  "insert_reservation l r db =
     (if lg_id l \<in> set (map lg_id (cost_ledger db)) \<or> rv_id r \<in> set (map rv_id (reservations db))
         \<or> rv_ledger_id r \<in> set (map rv_ledger_id (reservations db))
      then Inl ConstraintFailed
      else Inr (rv_id r, db\<lparr>cost_ledger := cost_ledger db @ [l], reservations := reservations db @ [r]\<rparr>))"

definition reserve :: "'c money \<Rightarrow> 'c rate_cards \<Rightarrow> string \<Rightarrow> int \<Rightarrow> 'c reservationPolicy \<Rightarrow> ReservationRequest \<Rightarrow> 'c pay_db
    \<Rightarrow> ('c pay_error + string) \<times> 'c pay_db" where
  "reserve M R newid now po r db =
     in_tx db
       (if \<not> request_ok po r then Inl ErrReservationDenied
        else case reservation_rate R po (to_lower (rq_Provider r)) (to_lower (rq_Model r)) of
          None \<Rightarrow> Inl ErrReservationDenied
        | Some p \<Rightarrow>
            if \<not> rate_ok M p \<or> \<not> positiveFinite M (maximum_cost M p r) then Inl ErrReservationDenied
            else case admit_budgets M db (po_requireWorkspace po) now (maximum_cost M p r) (loadApplicableBudgets db (rq_Scope r)) False of
              Inl e \<Rightarrow> Inl e
            | Inr capped \<Rightarrow>
                if \<not> capped then Inl ErrReservationDenied
                else insert_reservation (reserved_ledger_row newid now r (po_requireWorkspace po) p (maximum_cost M p r))
                  (pending_reservation newid r p (maximum_cost M p r)) db)"

definition restricted_policy :: "'c reservationPolicy" where
  "restricted_policy = \<lparr>po_requireWorkspace = True, po_maxOutput = 32768, po_rate = None\<rparr>"

definition Reserve :: "'c money \<Rightarrow> 'c rate_cards \<Rightarrow> string \<Rightarrow> int \<Rightarrow> ReservationRequest \<Rightarrow> 'c pay_db
    \<Rightarrow> ('c pay_error + string) \<times> 'c pay_db" where
  "Reserve M R newid now r db = reserve M R newid now restricted_policy r db"

subsection \<open>Settle\<close>

record ReservationUsage =
  us_Known :: bool
  us_Conservative :: bool
  us_InputTokens :: int
  us_OutputTokens :: int
  us_CachedInputTokens :: int

definition usage_bounded :: "'c reservation_row \<Rightarrow> ReservationUsage \<Rightarrow> bool" where
  "usage_bounded r u \<longleftrightarrow> us_Known u \<and> 0 \<le> us_InputTokens u \<and> 0 \<le> us_OutputTokens u \<and> 0 \<le> us_CachedInputTokens u
     \<and> us_CachedInputTokens u \<le> us_InputTokens u \<and> us_InputTokens u \<le> rv_max_input_tokens r \<and> us_OutputTokens u \<le> rv_max_output_tokens r"

definition usage_cost :: "'c money \<Rightarrow> 'c reservation_row \<Rightarrow> ReservationUsage \<Rightarrow> 'c" where
  "usage_cost M r u =
     mo_add M (mo_add M (mo_price M (us_InputTokens u - us_CachedInputTokens u) (rv_rate_input_per_m r))
       (mo_price M (us_CachedInputTokens u) (rv_rate_cached_per_m r))) (mo_price M (us_OutputTokens u) (rv_rate_output_per_m r))"

text \<open>Whether the usage is accepted: within the bounds of the reservation, in tokens and in money.\<close>

definition usage_valid :: "'c money \<Rightarrow> 'c reservation_row \<Rightarrow> ReservationUsage \<Rightarrow> bool" where
  "usage_valid M r u \<longleftrightarrow> usage_bounded r u \<and> mo_finite M (usage_cost M r u) \<and> \<not> mo_less M (usage_cost M r u) (mo_zero M)
     \<and> \<not> mo_less M (rv_reserved_usd r) (usage_cost M r u)"

definition usageInput :: "bool \<Rightarrow> int \<Rightarrow> int" where
  "usageInput valid n = (if valid then n else 0)"

definition settle_reservation_row :: "bool \<Rightarrow> ReservationUsage \<Rightarrow> 'c reservation_row \<Rightarrow> 'c reservation_row" where
  "settle_reservation_row valid u r =
     r\<lparr>rv_state := (if valid then Known else Unknown), rv_input_tokens := (if valid then Some (us_InputTokens u) else None),
       rv_output_tokens := (if valid then Some (us_OutputTokens u) else None),
       rv_cached_input_tokens := (if valid then Some (us_CachedInputTokens u) else None)\<rparr>"

definition settle_ledger_row :: "bool \<Rightarrow> 'c \<Rightarrow> ReservationUsage \<Rightarrow> 'c ledger_row \<Rightarrow> 'c ledger_row" where
  "settle_ledger_row valid cost u l =
     l\<lparr>lg_cost_usd := cost,
       lg_cost_confidence := (if valid \<and> \<not> us_Conservative u then ConfidencePrecise else ConfidenceEstimate),
       lg_input_tokens := usageInput valid (us_InputTokens u), lg_output_tokens := usageInput valid (us_OutputTokens u),
       lg_cached_input_tokens := usageInput valid (us_CachedInputTokens u)\<rparr>"

definition Settle :: "'c money \<Rightarrow> string \<Rightarrow> ReservationUsage \<Rightarrow> 'c pay_db \<Rightarrow> ('c pay_error + unit) \<times> 'c pay_db" where
  "Settle M x u db =
     in_tx db
       (if x = [] then Inl ErrReservationDenied
        else case find (\<lambda>r. rv_id r = x) (reservations db) of
          None \<Rightarrow> Inl NoRows
        | Some r \<Rightarrow>
            let valid = usage_valid M r u; want = (if valid then Known else Unknown);
                cost = (if valid then usage_cost M r u else rv_reserved_usd r)
            in if rv_state r \<noteq> Pending
               then if rv_state r = want \<and> (\<not> valid \<or> (rv_input_tokens r = Some (us_InputTokens u)
                        \<and> rv_output_tokens r = Some (us_OutputTokens u) \<and> rv_cached_input_tokens r = Some (us_CachedInputTokens u)))
                    then Inr ((), db) else Inl ErrReservationDenied
               else Inr ((), db\<lparr>reservations := upd_where (\<lambda>q. rv_id q = x \<and> rv_state q = Pending) (settle_reservation_row valid u) (reservations db),
                 cost_ledger := upd_where (\<lambda>l. lg_id l = rv_ledger_id r) (settle_ledger_row valid cost u) (cost_ledger db)\<rparr>))"

subsection \<open>Record\<close>

text \<open>A call as \<^verbatim>\<open>Record\<close> gets it; \<open>ca_Tags\<close> is the JSON text of its tags, \<open>ca_TS\<close> its instant unless it is zero.\<close>

record 'c Call =
  ca_CredentialID :: string
  ca_Scope :: Scope
  ca_Provider :: string
  ca_Model :: string
  ca_InputTokens :: int
  ca_OutputTokens :: int
  ca_CachedInputTokens :: int
  ca_CacheCreationTokens :: int
  ca_CostUSD :: 'c
  ca_Tags :: string
  ca_TS :: "int option"
  ca_BillingMode :: BillingMode
  ca_Confidence :: CostConfidence
  ca_SubscriptionPlan :: string
  ca_Quota :: "string \<times> 'c"

datatype 'c call_entry = LLMCall "'c Call" string | LLMCacheHit "'c Call" string | CostIncurred "'c Call" string

text \<open>The defaults \<^verbatim>\<open>Record\<close> fills in: the time, the billing mode, and what a flat rate forces.\<close>

definition normalized_call :: "'c money \<Rightarrow> int \<Rightarrow> 'c Call \<Rightarrow> 'c Call" where
  "normalized_call M now c =
     (let c = c\<lparr>ca_TS := Some (case ca_TS c of None \<Rightarrow> now | Some t \<Rightarrow> t),
            ca_BillingMode := (if ca_BillingMode c = BillingUnset then BillingMetered else ca_BillingMode c)\<rparr>
      in if ca_BillingMode c = BillingFlatRate then c\<lparr>ca_CostUSD := mo_zero M, ca_Confidence := ConfidenceUnknown\<rparr>
         else if ca_Confidence c = ConfidenceUnset then c\<lparr>ca_Confidence := ConfidenceEstimate\<rparr> else c)"

definition recorded_row :: "'c money \<Rightarrow> 'c rate_cards \<Rightarrow> string \<Rightarrow> int \<Rightarrow> 'c Call \<Rightarrow> 'c ledger_row" where
  "recorded_row M R newid now c =
     \<lparr>lg_id = newid, lg_workspace_id = sc_WorkspaceID (ca_Scope c), lg_crew_id = nullable (sc_CrewID (ca_Scope c)),
      lg_agent_id = nullable (sc_AgentID (ca_Scope c)), lg_mission_id = nullable (sc_MissionID (ca_Scope c)),
      lg_ts = ts_millis (case ca_TS c of None \<Rightarrow> now | Some t \<Rightarrow> t), lg_provider = ca_Provider c, lg_model = ca_Model c,
      lg_input_tokens = ca_InputTokens c, lg_output_tokens = ca_OutputTokens c, lg_cached_input_tokens = ca_CachedInputTokens c,
      lg_cache_creation_tokens = ca_CacheCreationTokens c, lg_cost_usd = ca_CostUSD c, lg_tags = ca_Tags c,
      lg_billing_mode = ca_BillingMode c, lg_cost_confidence = ca_Confidence c, lg_credential_id = nullable (ca_CredentialID c),
      lg_rate = lookupPrice M R (ca_Provider c) (ca_Model c),
      lg_quota = (if fst (ca_Quota c) = [] then None else Some (ca_Quota c)), lg_subscription_plan = nullable (ca_SubscriptionPlan c)\<rparr>"

text \<open>The journal entries of a recorded call; the share of cached tokens is exact below \<open>2 ^ 53\<close> tokens.\<close>

definition record_entries :: "'c money \<Rightarrow> 'c Call \<Rightarrow> string \<Rightarrow> 'c call_entry list" where
  "record_entries M c x =
     [LLMCall c x]
     @ (if 0 < ca_CachedInputTokens c \<and> 0 < ca_InputTokens c \<and> ca_InputTokens c \<le> 2 * ca_CachedInputTokens c then [LLMCacheHit c x] else [])
     @ (if ca_BillingMode c = BillingMetered \<and> mo_less M (mo_zero M) (ca_CostUSD c) then [CostIncurred c x] else [])"

definition Record :: "'c money \<Rightarrow> 'c rate_cards \<Rightarrow> bool \<Rightarrow> string \<Rightarrow> int \<Rightarrow> 'c Call \<Rightarrow> 'c pay_db
    \<Rightarrow> ('c pay_error + string) \<times> 'c call_entry list \<times> 'c pay_db" where
  "Record M R journal newid now c db =
     (if sc_WorkspaceID (ca_Scope c) = [] then (Inl (ErrInvalidRequest ''workspace_id required''), [], db)
      else if ca_Provider c = [] \<or> ca_Model c = [] then (Inl (ErrInvalidRequest ''provider and model required''), [], db)
      else
        let c = normalized_call M now c
        in if newid \<in> set (map lg_id (cost_ledger db)) then (Inl ConstraintFailed, [], db)
           else (Inr newid, if journal then record_entries M c newid else [],
             db\<lparr>cost_ledger := cost_ledger db @ [recorded_row M R newid now c]\<rparr>))"

subsection \<open>Reservations of the host's own calls\<close>

text \<open>The cost of a model in the catalogue (\<^verbatim>\<open>modelcatalog\<close>): a base block of rates and tiers by context length.\<close>

record 'c rate_block =
  rb_input :: 'c
  rb_output :: 'c
  rb_cacheRead :: "'c option"
  rb_cacheWrite :: "'c option"

record 'c model_cost =
  mc_base :: "'c rate_block"
  mc_tiers :: "(string \<times> int \<times> 'c rate_block) list"

definition resolve_block :: "'c rate_block \<Rightarrow> 'c modelPrice" where
  "resolve_block b =
     \<lparr>pr_InputPerM = rb_input b, pr_OutputPerM = rb_output b,
      pr_CachedInputPerM = (case rb_cacheRead b of None \<Rightarrow> rb_input b | Some x \<Rightarrow> x),
      pr_CacheWritePerM = (case rb_cacheWrite b of None \<Rightarrow> rb_input b | Some x \<Rightarrow> x)\<rparr>"

definition RatesAt :: "'c model_cost \<Rightarrow> int \<Rightarrow> 'c modelPrice" where
  "RatesAt c contextToks =
     resolve_block (fst (foldl (\<lambda>(sel, best) (ty, size, b). if contextToks > size \<and> size > best then (b, size) else (sel, best))
       (mc_base c, - 1) (mc_tiers c)))"

definition raise_rates :: "'c money \<Rightarrow> 'c modelPrice \<Rightarrow> 'c modelPrice \<Rightarrow> 'c modelPrice" where
  "raise_rates M p q =
     \<lparr>pr_InputPerM = mo_max M (pr_InputPerM p) (pr_InputPerM q), pr_OutputPerM = mo_max M (pr_OutputPerM p) (pr_OutputPerM q),
      pr_CachedInputPerM = mo_max M (pr_CachedInputPerM p) (pr_CachedInputPerM q),
      pr_CacheWritePerM = mo_max M (pr_CacheWritePerM p) (pr_CacheWritePerM q)\<rparr>"

fun ceiling_loop :: "'c money \<Rightarrow> 'c model_cost option \<Rightarrow> int list \<Rightarrow> 'c modelPrice \<Rightarrow> 'c modelPrice option" where
  "ceiling_loop M c [] highest = Some highest"
| "ceiling_loop M c (toks # contexts) highest =
     (case c of
        None \<Rightarrow> None
      | Some cost \<Rightarrow>
          let p = RatesAt cost toks
          in if \<not> positiveFinite M (pr_InputPerM p) \<or> \<not> positiveFinite M (pr_OutputPerM p)
                \<or> \<not> mo_finite M (pr_CachedInputPerM p) \<or> mo_less M (pr_CachedInputPerM p) (mo_zero M)
                \<or> \<not> mo_finite M (pr_CacheWritePerM p) \<or> mo_less M (pr_CacheWritePerM p) (mo_zero M)
             then None else ceiling_loop M c contexts (raise_rates M highest p))"

definition trustedCeilingRates :: "'c money \<Rightarrow> 'c model_cost option \<Rightarrow> int \<Rightarrow> 'c modelPrice option" where
  "trustedCeilingRates M c maxInput =
     (if maxInput < 1 \<or> maxInput > max_input then None
      else
        let tiers = (case c of None \<Rightarrow> [] | Some cost \<Rightarrow> mc_tiers cost)
        in if list_ex (\<lambda>(ty, size, b). ty \<noteq> ''context'' \<or> size < 0) tiers then None
           else map_option (\<lambda>p. p\<lparr>pr_InputPerM := mo_max M (pr_InputPerM p) (mo_max M (pr_CacheWritePerM p) (pr_CachedInputPerM p))\<rparr>)
             (ceiling_loop M c (0 # map (\<lambda>(ty, size, b). size + 1) (filter (\<lambda>(ty, size, b). size < maxInput) tiers)) (no_price M)))"

record CallRequest =
  cq_Bounds :: "(int \<times> int) option"
  cq_Scope :: Scope
  cq_Provider :: string
  cq_Model :: string
  cq_BillingMode :: BillingMode
  cq_SubscriptionPlan :: string

text \<open>The catalogue answers a model, and whether the model has a cost; identifiers of the host are fresh.\<close>

type_synonym 'c catalogue = "string \<Rightarrow> string \<Rightarrow> 'c model_cost option option"

definition hard_budget :: "'c Budget \<Rightarrow> bool" where
  "hard_budget b \<longleftrightarrow> bd_Mode b = ModeHard \<or> bd_Mode b = ModeTiered"

definition trusted_request :: "CallRequest \<Rightarrow> string \<Rightarrow> int \<times> int \<Rightarrow> ReservationRequest" where
  "trusted_request req callID bounds =
     \<lparr>rq_Scope = cq_Scope req, rq_PrincipalID = ''trusted-host'', rq_AttemptID = callID, rq_CredentialID = [],
      rq_Provider = to_lower (cq_Provider req), rq_Model = to_lower (cq_Model req), rq_MaxInputTokens = fst bounds, rq_MaxOutputTokens = snd bounds\<rparr>"

text \<open>
  \<open>Inr None\<close> is a call no hard budget caps.  The budgets are read before the transaction of \<open>reserve\<close>; \<open>between\<close> is
  what other writers do in that gap.
\<close>

definition trustedReservation :: "'c money \<Rightarrow> 'c rate_cards \<Rightarrow> 'c catalogue \<Rightarrow> string \<Rightarrow> string \<Rightarrow> int \<Rightarrow> ('c pay_db \<Rightarrow> 'c pay_db)
    \<Rightarrow> CallRequest \<Rightarrow> 'c pay_db \<Rightarrow> ('c pay_error + string option) \<times> 'c pay_db" where
  "trustedReservation M R cat callID newid now between req db =
     (if \<not> list_ex hard_budget (loadApplicableBudgets db (cq_Scope req)) then (Inr None, db)
      else case cq_Bounds req of
        None \<Rightarrow> (Inl ErrReservationDenied, db)
      | Some bounds \<Rightarrow>
          (case cat (to_lower (cq_Provider req)) (to_lower (cq_Model req)) of
             None \<Rightarrow> (Inl ErrReservationDenied, db)
           | Some c \<Rightarrow>
               (case trustedCeilingRates M c (fst bounds) of
                  None \<Rightarrow> (Inl ErrReservationDenied, db)
                | Some p \<Rightarrow>
                    (case reserve M R newid now \<lparr>po_requireWorkspace = False, po_maxOutput = max_input, po_rate = Some p\<rparr>
                            (trusted_request req callID bounds) (between db) of
                       (Inl e, db) \<Rightarrow> (Inl e, db) | (Inr x, db) \<Rightarrow> (Inr (Some x), db)))))"

definition MaxInt64 :: int where "MaxInt64 = 9223372036854775807"

text \<open>What a provider answered; \<open>cr_Tags\<close> is the JSON text of its tags.\<close>

record 'c CallResponse =
  cr_UsageKnown :: bool
  cr_InputTokens :: int
  cr_OutputTokens :: int
  cr_CachedInputTokens :: int
  cr_CacheCreationTokens :: int
  cr_CostUSD :: 'c
  cr_Tags :: string
  cr_CompletedAt :: "int option"
  cr_Confidence :: CostConfidence
  cr_Quota :: "string \<times> 'c"

definition trusted_usage :: "'c CallResponse \<Rightarrow> bool \<Rightarrow> ReservationUsage" where
  "trusted_usage resp failed =
     (let plausible = 0 \<le> cr_InputTokens resp \<and> 0 \<le> cr_CachedInputTokens resp \<and> 0 \<le> cr_CacheCreationTokens resp
            \<and> cr_InputTokens resp \<le> MaxInt64 - cr_CachedInputTokens resp;
          total = (if plausible then cr_InputTokens resp + cr_CachedInputTokens resp else cr_InputTokens resp);
          fits = plausible \<and> total \<le> MaxInt64 - cr_CacheCreationTokens resp;
          total = (if fits then total + cr_CacheCreationTokens resp else total)
      in \<lparr>us_Known = \<not> failed \<and> cr_UsageKnown resp \<and> fits, us_Conservative = True, us_InputTokens = total,
          us_OutputTokens = cr_OutputTokens resp, us_CachedInputTokens = cr_CachedInputTokens resp\<rparr>)"

text \<open>The errors of a call of the middleware: of the provider, or joined from the settlement and the read after it.\<close>

datatype 'c call_error = CallFailed string | PayFailed "'c pay_error list"

definition joined :: "'c pay_error option list \<Rightarrow> 'c call_error option" where
  "joined es = (case concat (map (\<lambda>e. case e of None \<Rightarrow> [] | Some x \<Rightarrow> [x]) es) of [] \<Rightarrow> None | x # xs \<Rightarrow> Some (PayFailed (x # xs)))"

definition settled_call :: "'c money \<Rightarrow> CallRequest \<Rightarrow> 'c CallResponse \<Rightarrow> 'c Call" where
  "settled_call M req resp =
     \<lparr>ca_CredentialID = [], ca_Scope = cq_Scope req, ca_Provider = cq_Provider req, ca_Model = cq_Model req,
      ca_InputTokens = cr_InputTokens resp, ca_OutputTokens = cr_OutputTokens resp, ca_CachedInputTokens = cr_CachedInputTokens resp,
      ca_CacheCreationTokens = cr_CacheCreationTokens resp, ca_CostUSD = cr_CostUSD resp, ca_Tags = cr_Tags resp,
      ca_TS = cr_CompletedAt resp, ca_BillingMode = BillingMetered, ca_Confidence = cr_Confidence resp, ca_SubscriptionPlan = [],
      ca_Quota = ([], mo_zero M)\<rparr>"

text \<open>
  After the settlement the row is read back, and for known usage its token channels are corrected.  \<open>between\<close> is what
  other writers do between the settlement and that read.
\<close>

definition settleTrusted :: "'c money \<Rightarrow> bool \<Rightarrow> int \<Rightarrow> ('c pay_db \<Rightarrow> 'c pay_db) \<Rightarrow> CallRequest \<Rightarrow> 'c CallResponse \<Rightarrow> string option
    \<Rightarrow> string \<Rightarrow> 'c pay_db \<Rightarrow> ('c CallResponse \<times> 'c call_error option) \<times> 'c call_entry list \<times> 'c pay_db" where
  "settleTrusted M journal now between req resp callErr x db =
     (let (settled, db) = Settle M x (trusted_usage resp (callErr \<noteq> None)) db;
          settlementErr = (case settled of Inl e \<Rightarrow> Some e | Inr u \<Rightarrow> None);
          db = between db;
          row = find (\<lambda>l. lg_id l = x) (cost_ledger db);
          res = find (\<lambda>r. rv_ledger_id r = x) (reservations db);
          completed = (case cr_CompletedAt resp of None \<Rightarrow> Some now | Some t \<Rightarrow> Some t)
      in case (row, res) of
           (Some l, Some r) \<Rightarrow>
             (let db = (if rv_state r = Known
                    then db\<lparr>cost_ledger := upd_where (\<lambda>l. lg_id l = x) (\<lambda>l. l\<lparr>lg_input_tokens := cr_InputTokens resp,
                      lg_cache_creation_tokens := cr_CacheCreationTokens resp\<rparr>) (cost_ledger db)\<rparr> else db);
                  resp = resp\<lparr>cr_CostUSD := lg_cost_usd l, cr_Confidence := lg_cost_confidence l, cr_CompletedAt := completed\<rparr>;
                  c = settled_call M req resp
              in ((resp, case callErr of Some e \<Rightarrow> Some (CallFailed e) | None \<Rightarrow> joined [settlementErr]),
                  if journal then [LLMCall c x] @ (if mo_less M (mo_zero M) (lg_cost_usd l) then [CostIncurred c x] else []) else [], db))
         | _ \<Rightarrow> ((resp\<lparr>cr_CompletedAt := completed\<rparr>,
                 case callErr of Some e \<Rightarrow> Some (CallFailed e) | None \<Rightarrow> joined [settlementErr, Some NoRows]), [], db))"

subsection \<open>The middleware\<close>

definition priced_response :: "'c money \<Rightarrow> 'c rate_cards \<Rightarrow> int \<Rightarrow> ('c \<Rightarrow> bool) \<Rightarrow> CallRequest \<Rightarrow> 'c CallResponse \<Rightarrow> 'c CallResponse" where
  "priced_response M R now is_zero req resp =
     (let resp = (if cq_BillingMode req = BillingFlatRate then resp\<lparr>cr_CostUSD := mo_zero M, cr_Confidence := ConfidenceUnknown\<rparr>
        else if is_zero (cr_CostUSD resp)
        then resp\<lparr>cr_CostUSD := Estimate M R (cq_Provider req) (cq_Model req) (cr_InputTokens resp) (cr_OutputTokens resp)
               (cr_CachedInputTokens resp) (cr_CacheCreationTokens resp),
             cr_Confidence := (if cr_Confidence resp = ConfidenceUnset then ConfidenceEstimate else cr_Confidence resp)\<rparr>
        else if cr_Confidence resp = ConfidenceUnset then resp\<lparr>cr_Confidence := ConfidencePrecise\<rparr> else resp)
      in resp\<lparr>cr_CompletedAt := (case cr_CompletedAt resp of None \<Rightarrow> Some now | Some t \<Rightarrow> Some t)\<rparr>)"

definition recordFromResponse :: "'c money \<Rightarrow> 'c rate_cards \<Rightarrow> ('c \<Rightarrow> bool) \<Rightarrow> bool \<Rightarrow> string \<Rightarrow> int \<Rightarrow> CallRequest \<Rightarrow> 'c CallResponse \<Rightarrow> 'c pay_db
    \<Rightarrow> ('c CallResponse \<times> 'c pay_error option) \<times> 'c call_entry list \<times> 'c pay_db" where
  "recordFromResponse M R is_zero journal newid now req resp db =
     (let resp = priced_response M R now is_zero req resp;
          (answer, entries, db) = Record M R journal newid now ((settled_call M req resp)\<lparr>ca_BillingMode := cq_BillingMode req,
            ca_SubscriptionPlan := cq_SubscriptionPlan req, ca_Quota := cr_Quota resp\<rparr>) db
      in ((resp, case answer of Inl e \<Rightarrow> Some e | Inr x \<Rightarrow> None), entries, db))"

text \<open>
  One call: its instants and fresh identifiers, the provider, and what other writers do at the gaps between its
  transactions (before it, before the reservation, during the call, after the settlement).
\<close>

record 'c call_env =
  ce_money :: "'c money"
  ce_cards :: "'c rate_cards"
  ce_catalogue :: "'c catalogue"
  ce_is_zero :: "'c \<Rightarrow> bool"
  ce_journal :: bool
  ce_now :: "nat \<Rightarrow> int"
  ce_id :: "nat \<Rightarrow> string"
  ce_others :: "nat \<Rightarrow> 'c pay_db \<Rightarrow> 'c pay_db"
  ce_provider :: "CallRequest \<Rightarrow> bool \<Rightarrow> 'c CallResponse \<times> string option"
  ce_no_response :: "'c CallResponse"

text \<open>\<open>mr_called\<close> is the database when the provider was called, with the marker \<^verbatim>\<open>ReservationActive\<close>.\<close>

record 'c call_result =
  mr_response :: "'c CallResponse"
  mr_error :: "'c call_error option"
  mr_called :: "('c pay_db \<times> bool) option"
  mr_entries :: "'c pay_entry list \<times> 'c call_entry list"
  mr_db :: "'c pay_db"

definition Middleware :: "'c call_env \<Rightarrow> CallRequest \<Rightarrow> 'c pay_db \<Rightarrow> 'c breaches \<Rightarrow> 'c call_result \<times> 'c breaches" where
  "Middleware env req db m =
     (let M = ce_money env; R = ce_cards env; db = ce_others env 0 db; flat = (cq_BillingMode req = BillingFlatRate);
          (refused, warnings, m) = (if flat then (None, [], m)
            else Enforce M db (ce_journal env) (cq_Scope req) (ce_now env 0) (ce_now env 1) m);
          stop = (\<lambda>e db. \<lparr>mr_response = ce_no_response env, mr_error = Some (PayFailed [e]), mr_called = None,
            mr_entries = (warnings, []), mr_db = db\<rparr>)
      in case refused of
           Some e \<Rightarrow> (stop e db, m)
         | None \<Rightarrow>
             (case (if flat then (Inr None, db)
                    else trustedReservation M R (ce_catalogue env) (ce_id env 0) (ce_id env 1) (ce_now env 2) (ce_others env 2)
                      req (ce_others env 1 db)) of
                (Inl e, db) \<Rightarrow> (stop e db, m)
              | (Inr (Some x), db) \<Rightarrow>
                  (let (resp, callErr) = ce_provider env req True;
                       ((resp, err), entries, after) = settleTrusted M (ce_journal env) (ce_now env 3) (ce_others env 4) req resp callErr x
                         (ce_others env 3 db)
                   in (\<lparr>mr_response = resp, mr_error = err, mr_called = Some (db, True), mr_entries = (warnings, entries), mr_db = after\<rparr>, m))
              | (Inr None, db) \<Rightarrow>
                  (let (resp, callErr) = ce_provider env req False;
                       ((resp, recordErr), entries, after) = recordFromResponse M R (ce_is_zero env) (ce_journal env) (ce_id env 2)
                         (ce_now env 3) req resp (ce_others env 3 db)
                   in (\<lparr>mr_response = resp,
                        mr_error = (case callErr of Some e \<Rightarrow> Some (CallFailed e) | None \<Rightarrow> joined [recordErr]),
                        mr_called = Some (db, False), mr_entries = (warnings, entries), mr_db = after\<rparr>, m))))"

end
