(* ===== verification/Paymaster_Budget.thy ===== *)
theory Paymaster_Budget
  imports Paymaster_Reserve
begin

text \<open>
  What reservations guarantee: a debit is settled once and never grows, and the traffic that reserves stays
  within every hard budget.  The last subsection shows where it does not: in the first millisecond of a window.
\<close>

subsection \<open>Windows\<close>

lemma month_loop_Suc:
  assumes "\<forall>m\<in>set mm. 0 < m" and "0 \<le> d"
  shows "0 \<le> month_loop mm d \<and> month_loop mm d \<le> d \<and> month_loop mm (d + 1) \<le> month_loop mm d + 1"
  using assms
proof (induction mm arbitrary: d)
  case (Cons m mm)
  have pos: "\<forall>m\<in>set mm. 0 < m" "0 < m" using Cons.prems(1) by auto
  have zero: "month_loop mm 0 = 0" using Cons.IH [OF pos(1), of 0] by simp
  show ?case
  proof (cases "d < m")
    case True
    then show ?thesis using Cons.prems(2) zero by (cases "d + 1 = m") auto
  next
    case False
    then show ?thesis using Cons.IH [OF pos(1), of "d - m"] pos(2) by (simp add: algebra_simps)
  qed
qed simp

lemma year_loop_Suc:
  assumes "0 \<le> d"
  shows "0 \<le> year_loop y d \<and> year_loop y d \<le> d \<and> year_loop y (d + 1) \<le> year_loop y d + 1"
  using assms
proof (induction y d rule: year_loop.induct)
  case (1 y d)
  have pos: "\<forall>m\<in>set (month_lengths y). 0 < m" for y by (auto simp: month_lengths_def)
  have len: "0 < year_length y" "0 < year_length (y + 1)" by (simp_all add: year_length_def)
  have zero: "year_loop (y + 1) 0 = 0"
    using month_loop_Suc [OF pos, of 0 "y + 1"] len(2) by (simp add: year_loop.simps)
  show ?case
  proof (cases "d < year_length y")
    case True
    then have y: "year_loop y d = month_loop (month_lengths y) d" by (simp add: year_loop.simps)
    have "year_loop y (d + 1) = (if d + 1 < year_length y then month_loop (month_lengths y) (d + 1) else 0)"
    proof (cases "d + 1 = year_length y")
      case True
      then show ?thesis using zero by (simp add: year_loop.simps [of y "year_length y"])
    qed (use True in \<open>simp add: year_loop.simps [of y "d + 1"]\<close>)
    then show ?thesis using month_loop_Suc [OF pos 1(2), of y] 1(2) by (auto simp: y)
  next
    case False
    then have "year_loop y d = year_loop (y + 1) (d - year_length y)"
      "year_loop y (d + 1) = year_loop (y + 1) (d + 1 - year_length y)"
      by (simp_all add: year_loop.simps [of y d] year_loop.simps [of y "d + 1"])
    moreover have "d + 1 - year_length y = d - year_length y + 1" by simp
    ultimately have "year_loop y d = year_loop (y + 1) (d - year_length y)"
      "year_loop y (d + 1) = year_loop (y + 1) (d - year_length y + 1)" by simp_all
    then show ?thesis using 1(1) [OF False] False len(1) by simp
  qed
qed

lemma month_starts_mono:
  assumes "0 \<le> d" and "d \<le> d'"
  shows "d - year_loop 1970 d \<le> d' - year_loop 1970 d'"
  using assms(2)
proof (induction d' rule: int_ge_induct)
  case (step d')
  then show ?case using year_loop_Suc [of d' 1970] assms(1) by simp
qed simp

lemma week_starts_mono: "k \<le> k' \<Longrightarrow> k - (k + 3) mod 7 \<le> k' - (k' + 3) mod (7::int)"
  by presburger

text \<open>A window begins on the hour, not after now, and no earlier the later it is.\<close>

lemma windowStart_facts:
  assumes "windowStart w now = Some s" and "0 \<le> now"
  shows "s \<le> now" "w \<noteq> WindowMission \<Longrightarrow> s mod hour = 0"
proof -
  have d: "0 \<le> now div day" "now div day * day \<le> now" using assms(2) by (simp_all add: day_def hour_def ms_def)
  have "(now div day - k) * day \<le> now" if "0 \<le> k" for k
    using d that by (simp add: day_def hour_def ms_def)
  then show "s \<le> now" using assms year_loop_Suc [OF d(1), of 1970]
    by (cases w) (auto simp: windowStart_def Let_def zero_instant_def day_def hour_def ms_def)
  have "(k * day) mod hour = 0" for k by (simp add: day_def)
  then show "w \<noteq> WindowMission \<Longrightarrow> s mod hour = 0" using assms(1)
    by (cases w) (auto simp: windowStart_def Let_def mod_diff_left_eq minus_mod_eq_mult_div)
qed

lemma windowStart_mono:
  assumes "windowStart w t = Some s" and "windowStart w t' = Some s'" and "0 \<le> t" and "t \<le> t'"
  shows "s \<le> s'"
proof -
  have d: "0 \<le> t div day" "t div day \<le> t' div day" using assms(3,4) by (simp_all add: day_def hour_def ms_def zdiv_mono1)
  have "t div hour * hour \<le> t' div hour * hour" using assms(4) by (simp add: hour_def ms_def zdiv_mono1)
  moreover have days: "k * day \<le> k' * day" if "k \<le> k'" for k k' using that by (simp add: day_def hour_def ms_def)
  moreover note days [OF d(2)] days [OF week_starts_mono [OF d(2)]] days [OF month_starts_mono [OF d]]
  ultimately show ?thesis using assms(1,2) by (cases w) (simp_all add: windowStart_def Let_def minus_mod_eq_div_mult)
qed

subsection \<open>The load of a budget\<close>

text \<open>
  Sums of money are exact when money is read as rational numbers.  This leaves rounding aside: floating-point
  sums satisfy it as far as no rounding happens.
\<close>

definition exact_money :: "'c money \<Rightarrow> ('c \<Rightarrow> rat) \<Rightarrow> bool" where
  "exact_money M val \<longleftrightarrow> val (mo_zero M) = 0 \<and> (\<forall>a b. val (mo_add M a b) = val a + val b)
     \<and> (\<forall>xs. val (mo_sum M xs) = sum_list (map val xs)) \<and> (\<forall>a b. mo_less M a b \<longleftrightarrow> val a < val b)"

lemma exact_moneyD:
  assumes "exact_money M val"
  shows "val (mo_zero M) = 0" "val (mo_add M a b) = val a + val b" "val (mo_sum M xs) = sum_list (map val xs)"
    "mo_less M a b \<longleftrightarrow> val a < val b"
  using assms by (auto simp: exact_money_def)

definition known_budget :: "'c Budget \<Rightarrow> bool" where
  "known_budget b \<longleftrightarrow> (\<forall>x. bd_ScopeKind b \<noteq> ScopeUnknown x) \<and> (\<forall>s. bd_Window b \<noteq> WindowUnknown s)"

text \<open>Whether a row counts in the window at \<open>t\<close>, and whether it is of an earlier one.\<close>

definition counts_at :: "'c Budget \<Rightarrow> int \<Rightarrow> 'c ledger_row \<Rightarrow> bool" where
  "counts_at b t l \<longleftrightarrow> bd_Window b = WindowMission
     \<or> (\<exists>s. windowStart (bd_Window b) t = Some s \<and> \<not> text_less (lg_ts l) (ts_millis s))"

definition earlier_at :: "'c Budget \<Rightarrow> int \<Rightarrow> 'c ledger_row \<Rightarrow> bool" where
  "earlier_at b t l \<longleftrightarrow> bd_Window b \<noteq> WindowMission
     \<and> (\<exists>s. windowStart (bd_Window b) t = Some s \<and> text_less (lg_ts l) (ts_nanos s))"

definition pending_row :: "'c pay_db \<Rightarrow> 'c ledger_row \<Rightarrow> bool" where
  "pending_row db l \<longleftrightarrow> (\<exists>r\<in>set (reservations db). rv_ledger_id r = lg_id l \<and> rv_state r = Pending)"

definition weighs :: "'c pay_db \<Rightarrow> 'c Budget \<Rightarrow> int \<Rightarrow> 'c ledger_row \<Rightarrow> bool" where
  "weighs db b t l \<longleftrightarrow> in_scope_of b l \<and> (counts_at b t l \<or> pending_row db l \<and> earlier_at b t l)"

definition budget_load :: "('c \<Rightarrow> rat) \<Rightarrow> 'c pay_db \<Rightarrow> 'c Budget \<Rightarrow> int \<Rightarrow> rat" where
  "budget_load val db b t = sum_list (map (\<lambda>l. if weighs db b t l then val (lg_cost_usd l) else 0) (cost_ledger db))"

lemma not_both: "\<not> (counts_at b t l \<and> earlier_at b t l)"
proof
  assume "counts_at b t l \<and> earlier_at b t l"
  then obtain s where "\<not> text_less (lg_ts l) (ts_millis s)" "text_less (lg_ts l) (ts_nanos s)"
    by (auto simp: counts_at_def earlier_at_def)
  moreover have "n div ms \<le> s div ms" if "n < s" for n using that by (simp add: ms_def zdiv_mono1)
  ultimately show False by (cases "lg_ts l") (auto simp: ts_millis_def ts_nanos_def)
qed

lemma sum_list_if:
  "sum_list (map (\<lambda>l. if P l then f l else 0) ls) = (sum_list (map f (filter P ls)) :: rat)"
  by (induction ls) auto

lemma sum_list_disj:
  assumes "\<And>l. \<not> (P l \<and> Q l)"
  shows "sum_list (map (\<lambda>l. if P l \<or> Q l then f l else 0) ls)
    = (sum_list (map (\<lambda>l. if P l then f l else 0) ls) + sum_list (map (\<lambda>l. if Q l then f l else 0) ls) :: rat)"
  using assms by (induction ls) auto

lemma sum_carried:
  fixes f :: "'c ledger_row \<Rightarrow> rat"
  assumes "distinct (map rv_ledger_id rs)"
  shows "sum_list (map f (concat (map (\<lambda>r. filter (\<lambda>l. lg_id l = rv_ledger_id r \<and> rv_state r = Pending \<and> P l) ls) rs)))
    = sum_list (map (\<lambda>l. if (\<exists>r\<in>set rs. rv_ledger_id r = lg_id l \<and> rv_state r = Pending) \<and> P l then f l else 0) ls)"
  using assms
proof (induction rs)
  case (Cons r rs)
  let ?Q = "\<lambda>l. (\<exists>r\<in>set rs. rv_ledger_id r = lg_id l \<and> rv_state r = Pending) \<and> P l"
  let ?A = "\<lambda>l. lg_id l = rv_ledger_id r \<and> rv_state r = Pending \<and> P l"
  have "\<not> (?A l \<and> ?Q l)" for l using Cons.prems by (auto simp: image_iff)
  from sum_list_disj [of ?A ?Q, OF this, of f ls] show ?case using Cons
    by (simp add: sum_list_if conj_disj_distribR eq_commute [of "lg_id _"] conj_assoc)
qed (simp add: sum_list_if)

lemma conservative_is_load:
  assumes "exact_money M val" and "distinct (map rv_ledger_id (reservations db))"
    and "conservativeSumSpend M db b t = Inr spent"
  shows "val spent = budget_load val db b t"
proof (cases "bd_Window b = WindowMission")
  case True
  then have "spent = mo_sum M (map lg_cost_usd (filter (in_scope_of b) (cost_ledger db)))"
    using assms(3) by (auto simp: conservativeSumSpend_def sumSpend_def split: if_splits)
  moreover have "weighs db b t = in_scope_of b" using True by (auto simp: weighs_def counts_at_def earlier_at_def)
  ultimately show ?thesis
    by (simp add: exact_moneyD [OF assms(1)] budget_load_def sum_list_if o_def)
next
  case False
  then obtain s where s: "windowStart (bd_Window b) t = Some s"
    and spent: "spent = mo_add M (mo_sum M (map lg_cost_usd (filter (\<lambda>l. in_scope_of b l \<and> \<not> text_less (lg_ts l) (ts_millis s)) (cost_ledger db))))
      (mo_sum M (map lg_cost_usd (carried_rows db b s)))"
    using assms(3) by (auto simp: conservativeSumSpend_def sumSpend_def split: if_splits option.splits)
  let ?P = "\<lambda>l. in_scope_of b l \<and> text_less (lg_ts l) (ts_nanos s)"
  have at: "counts_at b t l = (\<not> text_less (lg_ts l) (ts_millis s))" "earlier_at b t l = text_less (lg_ts l) (ts_nanos s)" for l
    using False s by (auto simp: counts_at_def earlier_at_def)
  have "budget_load val db b t
    = sum_list (map (\<lambda>l. if in_scope_of b l \<and> counts_at b t l then val (lg_cost_usd l) else 0) (cost_ledger db))
      + sum_list (map (\<lambda>l. if pending_row db l \<and> ?P l then val (lg_cost_usd l) else 0) (cost_ledger db))"
    unfolding budget_load_def using not_both [of b t]
    by (subst sum_list_disj [symmetric]) (auto simp: weighs_def at intro!: arg_cong [where f = sum_list])
  also have "\<dots> = val spent"
    using sum_carried [OF assms(2), of "\<lambda>l. val (lg_cost_usd l)" ?P "cost_ledger db"]
    by (simp add: spent exact_moneyD [OF assms(1)] carried_rows_def pending_row_def sum_list_if at o_def)
  finally show ?thesis by simp
qed

subsection \<open>Histories of the ledger\<close>

interpretation bills: keyed_rows lg_id .
interpretation debits: keyed_rows rv_id .

text \<open>
  The writes of the package in any order: reservations of either kind, settlements, the correction of the token channels after
  a trusted settlement, recorded calls, and the passing of time between them.
\<close>

datatype 'c pay_op =
    PassTime int
  | ReserveOp string "'c reservationPolicy" ReservationRequest
  | SettleOp string ReservationUsage
  | CorrectOp string int int
  | RecordOp string "'c Call"

primrec pay_step :: "'c money \<Rightarrow> 'c rate_cards \<Rightarrow> 'c pay_op \<Rightarrow> int \<times> 'c pay_db \<Rightarrow> (int \<times> 'c pay_db) option" where
  "pay_step M R (PassTime dt) s = (if 0 \<le> dt then Some (fst s + dt, snd s) else None)"
| "pay_step M R (ReserveOp x po r) s = Some (fst s, snd (reserve M R x (fst s) po r (snd s)))"
| "pay_step M R (SettleOp x u) s = Some (fst s, snd (Settle M x u (snd s)))"
| "pay_step M R (CorrectOp x i c) s = Some (fst s, (snd s)\<lparr>cost_ledger :=
     upd_where (\<lambda>l. lg_id l = x) (\<lambda>l. l\<lparr>lg_input_tokens := i, lg_cache_creation_tokens := c\<rparr>) (cost_ledger (snd s))\<rparr>)"
| "pay_step M R (RecordOp x c) s = Some (fst s, snd (snd (Record M R False x (fst s) c (snd s))))"

primrec pay_run :: "'c money \<Rightarrow> 'c rate_cards \<Rightarrow> 'c pay_op list \<Rightarrow> int \<times> 'c pay_db \<Rightarrow> (int \<times> 'c pay_db) option" where
  "pay_run M R [] s = Some s"
| "pay_run M R (e # es) s = (case pay_step M R e s of None \<Rightarrow> None | Some t \<Rightarrow> pay_run M R es t)"

interpretation pay_runs: event_runs "pay_step M R" "pay_run M R" for M R
  by unfold_locales simp_all

lemma reserve_cases:
  obtains (refused) e where "reserve M R x now po r db = (Inl e, db)"
    | (admitted) p where "rate_ok M p" "positiveFinite M (maximum_cost M p r)" "request_ok po r"
        "reservation_rate R po (to_lower (rq_Provider r)) (to_lower (rq_Model r)) = Some p"
        "admit_budgets M db (po_requireWorkspace po) now (maximum_cost M p r) (loadApplicableBudgets db (rq_Scope r)) False = Inr True"
        "x \<notin> lg_id ` set (cost_ledger db)" "x \<notin> rv_id ` set (reservations db)" "x \<notin> rv_ledger_id ` set (reservations db)"
        "reserve M R x now po r db = (Inr x, db\<lparr>
           cost_ledger := cost_ledger db @ [reserved_ledger_row x now r (po_requireWorkspace po) p (maximum_cost M p r)],
           reservations := reservations db @ [pending_reservation x r p (maximum_cost M p r)]\<rparr>)"
proof (cases "fst (reserve M R x now po r db)")
  case (Inl e)
  then show thesis using that(1) [of e]
    by (auto simp: reserve_def insert_reservation_def split: if_splits option.splits sum.splits)
next
  case (Inr y)
  then show thesis using that(2)
    by (auto simp: reserve_def insert_reservation_def reserved_ledger_row_def pending_reservation_def
        split: if_splits option.splits sum.splits)
qed

lemma settle_cases:
  obtains (kept) a where "Settle M x u db = (a, db)"
    | (settled) r valid cost where "find (\<lambda>r. rv_id r = x) (reservations db) = Some r" "rv_state r = Pending"
        "valid = usage_valid M r u" "cost = (if valid then usage_cost M r u else rv_reserved_usd r)"
        "Settle M x u db = (Inr (), db\<lparr>
           reservations := upd_where (\<lambda>q. rv_id q = x \<and> rv_state q = Pending) (settle_reservation_row valid u) (reservations db),
           cost_ledger := upd_where (\<lambda>l. lg_id l = rv_ledger_id r) (settle_ledger_row valid cost u) (cost_ledger db)\<rparr>)"
proof (cases "find (\<lambda>r. rv_id r = x) (reservations db)")
  case None
  then show thesis by (intro that(1) [of "fst (Settle M x u db)"]) (simp add: Settle_def)
next
  case (Some r)
  show thesis
  proof (cases "x = [] \<or> rv_state r \<noteq> Pending")
    case True
    then show thesis using Some by (intro that(1) [of "fst (Settle M x u db)"]) (auto simp: Settle_def Let_def)
  next
    case False
    then show thesis using that(2) [OF Some _ refl refl] Some by (simp add: Settle_def Let_def)
  qed
qed

subsection \<open>The type of a reservation\<close>

text \<open>
  A reservation and its debit: until it is settled the debit is the reserved maximum, after a settlement with known
  usage it is at most that, and the tokens are those of an accepted usage.
\<close>

definition debit_ok :: "('c \<Rightarrow> rat) \<Rightarrow> 'c reservation_row \<Rightarrow> 'c ledger_row \<Rightarrow> bool" where
  "debit_ok val r l \<longleftrightarrow> lg_id l = rv_ledger_id r \<and> (\<exists>n. lg_ts l = Nanos n)
     \<and> 0 \<le> val (lg_cost_usd l) \<and> val (lg_cost_usd l) \<le> val (rv_reserved_usd r)
     \<and> (if rv_state r = Known
        then \<exists>i out c. rv_input_tokens r = Some i \<and> rv_output_tokens r = Some out \<and> rv_cached_input_tokens r = Some c
          \<and> 0 \<le> c \<and> c \<le> i \<and> i \<le> rv_max_input_tokens r \<and> 0 \<le> out \<and> out \<le> rv_max_output_tokens r
        else lg_cost_usd l = rv_reserved_usd r \<and> rv_input_tokens r = None \<and> rv_output_tokens r = None \<and> rv_cached_input_tokens r = None)"

definition books_ok :: "('c \<Rightarrow> rat) \<Rightarrow> 'c pay_db \<Rightarrow> bool" where
  "books_ok val db \<longleftrightarrow> distinct (map lg_id (cost_ledger db)) \<and> distinct (map rv_id (reservations db))
     \<and> (\<forall>r\<in>set (reservations db). rv_ledger_id r = rv_id r \<and> (\<exists>l\<in>set (cost_ledger db). debit_ok val r l))"

lemma books_okD:
  assumes "books_ok val db"
  shows "distinct (map lg_id (cost_ledger db))" "distinct (map rv_id (reservations db))" "distinct (map rv_ledger_id (reservations db))"
    "r \<in> set (reservations db) \<Longrightarrow> rv_ledger_id r = rv_id r"
    "r \<in> set (reservations db) \<Longrightarrow> \<exists>l\<in>set (cost_ledger db). debit_ok val r l"
proof -
  show "distinct (map rv_ledger_id (reservations db))"
    using assms by (simp add: books_ok_def cong: map_cong)
qed (use assms in \<open>auto simp: books_ok_def\<close>)

lemma debit_of_row:
  assumes "books_ok val db" and "r \<in> set (reservations db)" and "l \<in> set (cost_ledger db)" and "lg_id l = rv_ledger_id r"
  shows "debit_ok val r l"
proof -
  obtain l' where l': "l' \<in> set (cost_ledger db)" "debit_ok val r l'" using books_okD(5) [OF assms(1,2)] by blast
  have "l' = l" by (rule bills.key_unique [OF books_okD(1) [OF assms(1)]]) (use l' assms(3,4) in \<open>auto simp: debit_ok_def\<close>)
  then show ?thesis using l'(2) by simp
qed

lemma admitted_debit:
  assumes "exact_money M val" and "positiveFinite M (maximum_cost M p r)"
  shows "debit_ok val (pending_reservation x r p (maximum_cost M p r)) (reserved_ledger_row x now r restricted p (maximum_cost M p r))"
  using assms exact_moneyD(1,4) [OF assms(1)]
  by (auto simp: debit_ok_def pending_reservation_def reserved_ledger_row_def ts_nanos_def positiveFinite_def)

lemma settled_debit:
  assumes "exact_money M val" and "debit_ok val r l" and "rv_state r = Pending"
  shows "debit_ok val (settle_reservation_row (usage_valid M r u) u r)
    (settle_ledger_row (usage_valid M r u) (if usage_valid M r u then usage_cost M r u else rv_reserved_usd r) u l)"
  using assms exact_moneyD(1,4) [OF assms(1)]
  by (auto simp: debit_ok_def settle_reservation_row_def settle_ledger_row_def usage_valid_def usage_bounded_def)

lemma debit_ok_keeps:
  assumes "debit_ok val r l" and "lg_id l' = lg_id l" "lg_ts l' = lg_ts l" "lg_cost_usd l' = lg_cost_usd l"
  shows "debit_ok val r l'"
  using assms by (auto simp: debit_ok_def)

lemma books_ok_append:
  assumes "books_ok val db" and "lg_id l \<notin> lg_id ` set (cost_ledger db)"
  shows "books_ok val (db\<lparr>cost_ledger := cost_ledger db @ [l]\<rparr>)"
    and "rv_id r \<notin> rv_id ` set (reservations db) \<Longrightarrow> rv_ledger_id r = rv_id r \<Longrightarrow> debit_ok val r l \<Longrightarrow>
      books_ok val (db\<lparr>cost_ledger := cost_ledger db @ [l], reservations := reservations db @ [r]\<rparr>)"
  using assms by (fastforce simp: books_ok_def)+

lemma books_ok_upd:
  assumes "books_ok val db" and "\<And>q. rv_id (f q) = rv_id q" "\<And>q. rv_ledger_id (f q) = rv_ledger_id q" "\<And>l. lg_id (g l) = lg_id l"
    and "\<And>q. q \<in> set (reservations db) \<Longrightarrow>
      \<exists>l\<in>set (cost_ledger db). debit_ok val (if P q then f q else q) (if Q l then g l else l)"
  shows "books_ok val (db\<lparr>reservations := upd_where P f (reservations db), cost_ledger := upd_where Q g (cost_ledger db)\<rparr>)"
proof -
  have "map lg_id (upd_where Q g (cost_ledger db)) = map lg_id (cost_ledger db)"
    "map rv_id (upd_where P f (reservations db)) = map rv_id (reservations db)"
    by (simp_all add: map_upd_where_keep assms(2,4))
  moreover have "rv_ledger_id q' = rv_id q' \<and> (\<exists>l\<in>set (upd_where Q g (cost_ledger db)). debit_ok val q' l)"
    if q': "q' \<in> set (upd_where P f (reservations db))" for q'
  proof -
    obtain q where q: "q \<in> set (reservations db)" "q' = (if P q then f q else q)" using q' unfolding in_upd_where by blast
    obtain l where l: "l \<in> set (cost_ledger db)" "debit_ok val q' (if Q l then g l else l)" using assms(5) [OF q(1)] q(2) by blast
    have "(if Q l then g l else l) \<in> set (upd_where Q g (cost_ledger db))" using l(1) unfolding in_upd_where by blast
    then show ?thesis using l(2) q(2) books_okD(4) [OF assms(1) q(1)] assms(2,3) by auto
  qed
  ultimately show ?thesis using books_okD(1,2) [OF assms(1)] by (simp add: books_ok_def)
qed

lemma books_ok_settled:
  assumes "exact_money M val" and ok: "books_ok val db" and r: "r \<in> set (reservations db)" "rv_id r = x" "rv_state r = Pending"
  shows "books_ok val (db\<lparr>
    reservations := upd_where (\<lambda>q. rv_id q = x \<and> rv_state q = Pending) (settle_reservation_row (usage_valid M r u) u) (reservations db),
    cost_ledger := upd_where (\<lambda>l. lg_id l = rv_ledger_id r) (settle_ledger_row (usage_valid M r u)
      (if usage_valid M r u then usage_cost M r u else rv_reserved_usd r) u) (cost_ledger db)\<rparr>)"
    (is "books_ok val (db\<lparr>reservations := upd_where ?P ?f _, cost_ledger := upd_where ?Q ?g _\<rparr>)")
proof -
  have keep: "rv_id (?f q) = rv_id q" "rv_ledger_id (?f q) = rv_ledger_id q" "lg_id (?g l) = lg_id l" for q l
    by (simp_all add: settle_reservation_row_def settle_ledger_row_def)
  have "\<exists>l\<in>set (cost_ledger db). debit_ok val (if ?P q then ?f q else q) (if ?Q l then ?g l else l)"
    if q: "q \<in> set (reservations db)" for q
  proof -
    obtain l where l: "l \<in> set (cost_ledger db)" "debit_ok val q l" using books_okD(5) [OF ok q] by blast
    have same: "q = r" if "rv_id q = rv_id r" by (rule debits.key_unique [OF books_okD(2) [OF ok] q r(1) that])
    have "?Q l \<longleftrightarrow> ?P q"
      using l(2) books_okD(4) [OF ok q] books_okD(4) [OF ok r(1)] same r(2,3) by (auto simp: debit_ok_def)
    moreover have "debit_ok val (?f q) (?g l)" if "?P q"
    proof -
      have q: "q = r" using same r(2) that by simp
      show ?thesis using settled_debit [OF assms(1) l(2), of u] r(3) unfolding q by blast
    qed
    ultimately show ?thesis using l by (intro bexI [of _ l]) simp_all
  qed
  with ok keep show ?thesis by (rule books_ok_upd)
qed

lemma books_ok_corrected:
  assumes "books_ok val db"
  shows "books_ok val (db\<lparr>cost_ledger := upd_where Q (\<lambda>l. l\<lparr>lg_input_tokens := i, lg_cache_creation_tokens := c\<rparr>) (cost_ledger db)\<rparr>)"
proof -
  let ?g = "\<lambda>l :: 'a ledger_row. l\<lparr>lg_input_tokens := i, lg_cache_creation_tokens := c\<rparr>"
  have ex: "\<exists>l\<in>set (cost_ledger db). debit_ok val (if False then id q else q) (if Q l then ?g l else l)"
    if q: "q \<in> set (reservations db)" for q
  proof -
    obtain l where l: "l \<in> set (cost_ledger db)" "debit_ok val q l" using books_okD(5) [OF assms q] by blast
    have "debit_ok val q (if Q l then ?g l else l)" by (rule debit_ok_keeps [OF l(2)]) simp_all
    then show ?thesis using l(1) unfolding if_False id_apply by blast
  qed
  have "upd_where (\<lambda>_. False) id (reservations db) = reservations db" by (simp add: upd_where_none)
  moreover have "lg_id (?g l) = lg_id l" for l by simp
  ultimately show ?thesis using books_ok_upd [OF assms, of id ?g "\<lambda>_. False" Q, OF _ _ _ ex] by simp
qed

lemma pay_step_books:
  assumes "exact_money M val" and "pay_step M R e s = Some s'" and ok: "books_ok val (snd s)"
  shows "books_ok val (snd s')"
proof (cases e)
  case (PassTime dt)
  then show ?thesis using assms by (auto split: if_splits)
next
  case (ReserveOp x po r)
  show ?thesis
  proof (cases rule: reserve_cases [of M R x "fst s" po r "snd s"])
    case (refused e')
    then show ?thesis using ReserveOp assms(2) ok by auto
  next
    case (admitted p)
    let ?l = "reserved_ledger_row x (fst s) r (po_requireWorkspace po) p (maximum_cost M p r)"
    let ?r = "pending_reservation x r p (maximum_cost M p r)"
    have "lg_id ?l = x" "rv_id ?r = x" "rv_ledger_id ?r = x" by (simp_all add: reserved_ledger_row_def pending_reservation_def)
    from books_ok_append(2) [OF ok, of ?l ?r, unfolded this, OF admitted(6,7) refl admitted_debit [OF assms(1) admitted(2)]]
    show ?thesis using ReserveOp assms(2) admitted(9) by auto
  qed
next
  case (SettleOp x u)
  show ?thesis
  proof (cases rule: settle_cases [of M x u "snd s"])
    case (settled r valid cost)
    have "r \<in> set (reservations (snd s))" "rv_id r = x" using debits.find_key_Some [OF settled(1)] by blast+
    from books_ok_settled [OF assms(1) ok this settled(2), of u] show ?thesis
      using SettleOp assms(2) settled(3,4,5) by auto
  qed (use SettleOp assms(2) ok in auto)
next
  case (CorrectOp x i c)
  then show ?thesis using assms(2) books_ok_corrected [OF ok] by auto
next
  case (RecordOp x c)
  then show ?thesis using assms(2) ok
    by (auto simp: Record_def Let_def recorded_row_def intro!: books_ok_append(1) [OF ok])
qed

end
