(* ===== verification/Paymaster_Limits.thy ===== *)
theory Paymaster_Limits
  imports Paymaster_Budget
begin

text \<open>
  The guarantees of reservations: the rows stay typed, a settlement takes effect once, the traffic that reserves
  keeps within every hard budget, and a capped call is paid for before it is made.
\<close>

subsection \<open>Rows stay typed\<close>

lemma pay_run_books:
  assumes "pay_run M R es s = Some s'" and "exact_money M val" and "books_ok val (snd s)"
  shows "books_ok val (snd s')"
  by (rule pay_runs.run_invariant [OF assms(1), where I = "\<lambda>s. books_ok val (snd s)"])
    (use assms(2,3) pay_step_books in blast)+

text \<open>
  C36. On every history that begins without rows, each reservation has exactly one debit in the ledger, stamped by its
  reservation.  Until usage is known the debit is the whole reserved maximum and no tokens are stored; with known
  usage it lies between zero and that maximum and the tokens are within the reserved bounds.
\<close>

theorem reservations_stay_typed:
  assumes "exact_money M val" and "pay_run M R es (t0, db0) = Some (t, db)"
    and "cost_ledger db0 = []" and "reservations db0 = []" and "r \<in> set (reservations db)"
  shows "\<exists>l. {l' \<in> set (cost_ledger db). lg_id l' = rv_ledger_id r} = {l}
     \<and> 0 \<le> val (lg_cost_usd l) \<and> val (lg_cost_usd l) \<le> val (rv_reserved_usd r)
     \<and> (case rv_state r of
          Known \<Rightarrow> \<exists>i out c. rv_input_tokens r = Some i \<and> rv_output_tokens r = Some out \<and> rv_cached_input_tokens r = Some c
            \<and> 0 \<le> c \<and> c \<le> i \<and> i \<le> rv_max_input_tokens r \<and> 0 \<le> out \<and> out \<le> rv_max_output_tokens r
        | _ \<Rightarrow> lg_cost_usd l = rv_reserved_usd r \<and> rv_input_tokens r = None \<and> rv_output_tokens r = None \<and> rv_cached_input_tokens r = None)"
proof -
  have ok: "books_ok val db" using pay_run_books [OF assms(2,1)] assms(3,4) by (simp add: books_ok_def)
  obtain l where l: "l \<in> set (cost_ledger db)" "debit_ok val r l" using books_okD(5) [OF ok assms(5)] by blast
  have "{l' \<in> set (cost_ledger db). lg_id l' = rv_ledger_id r} = {l}"
    using l bills.key_unique [OF books_okD(1) [OF ok]] by (auto simp: debit_ok_def)
  then show ?thesis using l(2) by (intro exI [of _ l]) (cases "rv_state r"; simp add: debit_ok_def)
qed

subsection \<open>Settlement\<close>

lemma usage_valid_settled [simp]: "usage_valid M (settle_reservation_row valid u r) v = usage_valid M r v"
  by (simp add: usage_valid_def usage_bounded_def usage_cost_def settle_reservation_row_def)

text \<open>What a successful settlement leaves behind.\<close>

lemma settled_row:
  assumes "Settle M x u db = (Inr (), db1)" and "find (\<lambda>r. rv_id r = x) (reservations db) = Some r"
  obtains r1 where "find (\<lambda>r. rv_id r = x) (reservations db1) = Some r1" "rv_state r1 = (if usage_valid M r u then Known else Unknown)"
    "usage_valid M r u \<Longrightarrow> rv_input_tokens r1 = Some (us_InputTokens u) \<and> rv_output_tokens r1 = Some (us_OutputTokens u)
      \<and> rv_cached_input_tokens r1 = Some (us_CachedInputTokens u)"
    "\<And>v. usage_valid M r1 v = usage_valid M r v" "x \<noteq> []"
proof (cases "rv_state r = Pending")
  case False
  then show thesis using that [of r] assms by (auto simp: Settle_def Let_def split: if_splits)
next
  case True
  have x: "rv_id r = x" using debits.find_key_Some [OF assms(2)] by blast
  have "db1 = snd (Settle M x u db)" "x \<noteq> []" using assms by (auto simp: Settle_def)
  then have "find (\<lambda>r. rv_id r = x) (reservations db1) = Some (settle_reservation_row (usage_valid M r u) u r)"
    using True x assms(2) debits.find_key_upd [of "reservations db" "\<lambda>q. rv_id q = x \<and> rv_state q = Pending"
        "settle_reservation_row (usage_valid M r u) u" x]
    by (simp add: Settle_def Let_def settle_reservation_row_def)
  from that [OF this] show thesis using \<open>x \<noteq> []\<close> by (simp add: settle_reservation_row_def usage_valid_def usage_bounded_def usage_cost_def)
qed

text \<open>
  C35. A settlement takes effect once: after a call of \<open>Settle\<close> has succeeded no later call for the same reservation
  changes a row.  It succeeds exactly when it says the same again (unknown usage, or known usage with the same
  tokens), and is denied otherwise.
\<close>

theorem settle_once:
  assumes "Settle M x u db = (Inr (), db1)" and "find (\<lambda>r. rv_id r = x) (reservations db) = Some r"
  shows "Settle M x v db1 =
     (if usage_valid M r v = usage_valid M r u
         \<and> (usage_valid M r u \<longrightarrow> us_InputTokens v = us_InputTokens u \<and> us_OutputTokens v = us_OutputTokens u
             \<and> us_CachedInputTokens v = us_CachedInputTokens u)
      then Inr () else Inl ErrReservationDenied, db1)"
  by (rule settled_row [OF assms]) (auto simp: Settle_def Let_def)

subsection \<open>Hard budgets hold\<close>

text \<open>A row stamped by a reservation in the first millisecond of an hour.\<close>

definition edge_row :: "'c ledger_row \<Rightarrow> bool" where
  "edge_row l \<longleftrightarrow> (case lg_ts l of Nanos n \<Rightarrow> n mod hour < ms | Millis m \<Rightarrow> False)"

text \<open>Away from those, a row that weighs on a budget later weighs on it now.\<close>

lemma weighs_earlier:
  assumes "weighs db b t' l" and "0 \<le> t" "t \<le> t'" and "\<not> edge_row l" and "pending_row db l \<longrightarrow> (\<exists>n. lg_ts l = Nanos n)"
  shows "weighs db b t l"
proof (cases "bd_Window b = WindowMission")
  case False
  then obtain s' where s': "windowStart (bd_Window b) t' = Some s'"
    using assms(1) by (auto simp: weighs_def counts_at_def earlier_at_def)
  then obtain s where s: "windowStart (bd_Window b) t = Some s" by (cases "bd_Window b") (auto simp: windowStart_def Let_def)
  have le: "s \<le> s'" "s div ms \<le> s' div ms" "s mod hour = 0"
    using windowStart_mono [OF s s' assms(2,3)] windowStart_facts(2) [OF s assms(2) False] by (simp_all add: ms_def zdiv_mono1)
  have late: "s div ms < n div ms" if "s \<le> n" "\<not> n mod hour < ms" for n
  proof -
    have "n mod hour = (n - s) mod hour" using le(3) by (simp add: mod_diff_eq [symmetric])
    also have "\<dots> \<le> n - s" using that(1) by (simp add: hour_def ms_def zmod_le_nonneg_dividend)
    finally show ?thesis using that(2) by (simp add: ms_def)
  qed
  show ?thesis
  proof (cases "counts_at b t' l")
    case True
    then have "counts_at b t l" using False s s' le(2)
      by (cases "lg_ts l") (auto simp: counts_at_def ts_millis_def)
    then show ?thesis using assms(1) by (simp add: weighs_def)
  next
    case pend: False
    then obtain n where n: "lg_ts l = Nanos n" using assms(1,5) by (auto simp: weighs_def)
    then have "n < s \<or> s div ms < n div ms" using late [of n] assms(4) by (cases "s \<le> n") (auto simp: edge_row_def)
    then have "counts_at b t l \<or> earlier_at b t l" using False s n
      by (auto simp: counts_at_def earlier_at_def ts_millis_def ts_nanos_def)
    then show ?thesis using assms(1) pend by (auto simp: weighs_def)
  qed
qed (use assms in \<open>auto simp: weighs_def counts_at_def earlier_at_def\<close>)

lemma load_mono:
  assumes "\<And>l. l \<in> set (cost_ledger db) \<Longrightarrow> (if weighs db' b t' (h l) then val (lg_cost_usd (h l)) else 0)
      \<le> (if weighs db b t l then val (lg_cost_usd l) else 0)"
    and "cost_ledger db' = map h (cost_ledger db)"
  shows "budget_load val db' b t' \<le> budget_load val db b t"
  unfolding budget_load_def assms(2) map_map comp_def by (rule sum_list_mono) (rule assms(1))

lemma admit_spec:
  assumes "admit_budgets M db rw now cost bs c = Inr k" and "b \<in> set bs" and "bd_Mode b \<noteq> ModeSoft"
  shows "\<exists>spent. conservativeSumSpend M db b now = Inr spent \<and> \<not> mo_less M (bd_LimitUSD b) (mo_add M spent cost)"
  using assms by (induction bs arbitrary: c) (auto split: if_splits sum.splits)

text \<open>A row with the columns of a scope is one of the budget's only if the budget applies to the scope.\<close>

definition own_budget :: "'c Budget \<Rightarrow> bool" where
  "own_budget b \<longleftrightarrow> bd_Enabled b \<and> hard_budget b \<and> known_budget b
     \<and> (bd_ScopeKind b = ScopeWorkspace \<longrightarrow> bd_ScopeID b = bd_WorkspaceID b)"

lemma in_scope_applicable:
  assumes "own_budget b" and "in_scope_of b l" and "lg_workspace_id l = sc_WorkspaceID s" "lg_crew_id l = nullable (sc_CrewID s)"
    "lg_agent_id l = nullable (sc_AgentID s)" "lg_mission_id l = nullable (sc_MissionID s)"
  shows "applicable s b"
  using assms by (auto simp: own_budget_def known_budget_def in_scope_of_def applicable_def nullable_def split: ScopeKind.splits if_splits)

lemma loads_applicable: "b \<in> set (loadApplicableBudgets db s) \<longleftrightarrow> b \<in> set (budget_limits db) \<and> applicable s b"
  by (auto simp: loadApplicableBudgets_def)

definition on_budget :: "('c \<Rightarrow> rat) \<Rightarrow> 'c Budget \<Rightarrow> int \<times> 'c pay_db \<Rightarrow> bool" where
  "on_budget val b s \<longleftrightarrow> books_ok val (snd s) \<and> 0 \<le> fst s \<and> b \<in> set (budget_limits (snd s))
     \<and> (\<forall>l\<in>set (cost_ledger (snd s)). in_scope_of b l \<longrightarrow> 0 \<le> val (lg_cost_usd l))
     \<and> budget_load val (snd s) b (fst s) \<le> val (bd_LimitUSD b)"

lemma pending_stamped:
  assumes "books_ok val db" and "l \<in> set (cost_ledger db)" and "pending_row db l"
  shows "\<exists>n. lg_ts l = Nanos n"
  using assms debit_of_row [OF assms(1) _ assms(2)] by (auto simp: pending_row_def debit_ok_def)

lemma on_budget_time:
  assumes "on_budget val b (t, db)" and "t \<le> t'" and "\<not> list_ex edge_row (cost_ledger db)"
  shows "on_budget val b (t', db)"
proof -
  have "budget_load val db b t' \<le> budget_load val db b t"
  proof (rule load_mono [where h = id])
    fix l assume l: "l \<in> set (cost_ledger db)"
    have "weighs db b t l" if "weighs db b t' l"
      by (rule weighs_earlier [OF that _ assms(2)]) (use assms(1,3) l pending_stamped in \<open>auto simp: on_budget_def list_ex_iff\<close>)
    then show "(if weighs db b t' (id l) then val (lg_cost_usd (id l)) else 0) \<le> (if weighs db b t l then val (lg_cost_usd l) else 0)"
      using assms(1) l by (auto simp: on_budget_def weighs_def)
  qed simp
  then show ?thesis using assms(1,2) by (auto simp: on_budget_def)
qed

lemma on_budget_append:
  assumes "on_budget val b (t, db)" and "books_ok val db'" and "budget_limits db' = budget_limits db" "cost_ledger db' = cost_ledger db @ [l]"
    and "\<And>l. l \<in> set (cost_ledger db) \<Longrightarrow> pending_row db' l = pending_row db l"
    and "in_scope_of b l \<Longrightarrow> 0 \<le> val (lg_cost_usd l) \<and> budget_load val db b t + val (lg_cost_usd l) \<le> val (bd_LimitUSD b)"
  shows "on_budget val b (t, db')"
proof -
  have "weighs db' b t l = weighs db b t l" if "l \<in> set (cost_ledger db)" for l
    using assms(5) [OF that] by (simp add: weighs_def)
  then have "budget_load val db' b t = budget_load val db b t + (if weighs db' b t l then val (lg_cost_usd l) else 0)"
    by (simp add: budget_load_def assms(4) cong: map_cong)
  then show ?thesis using assms(1-4,6) by (auto simp: on_budget_def weighs_def)
qed

lemma on_budget_shrinks:
  assumes "on_budget val b (t, db)" and "books_ok val db'" and "budget_limits db' = budget_limits db"
    and "cost_ledger db' = map h (cost_ledger db)"
    and "\<And>l. l \<in> set (cost_ledger db) \<Longrightarrow> in_scope_of b (h l) = in_scope_of b l \<and> lg_ts (h l) = lg_ts l
      \<and> (pending_row db' (h l) \<longrightarrow> pending_row db l) \<and> val (lg_cost_usd (h l)) \<le> val (lg_cost_usd l)
      \<and> (in_scope_of b l \<longrightarrow> 0 \<le> val (lg_cost_usd (h l)))"
  shows "on_budget val b (t, db')"
proof -
  have "budget_load val db' b t \<le> budget_load val db b t"
  proof (rule load_mono [OF _ assms(4)])
    fix l assume l: "l \<in> set (cost_ledger db)"
    have "weighs db b t l" if "weighs db' b t (h l)"
      using that assms(5) [OF l] by (auto simp: weighs_def counts_at_def earlier_at_def)
    then show "(if weighs db' b t (h l) then val (lg_cost_usd (h l)) else 0) \<le> (if weighs db b t l then val (lg_cost_usd l) else 0)"
      using assms(1) assms(5) [OF l] l by (auto simp: on_budget_def weighs_def)
  qed
  then show ?thesis using assms by (auto simp: on_budget_def)
qed

lemma on_budget_reserve:
  assumes "exact_money M val" and "on_budget val b (t, db)" and "own_budget b"
  shows "on_budget val b (t, snd (reserve M R x t po r db))"
proof (cases rule: reserve_cases [of M R x t po r db])
  case (admitted p)
  let ?l = "reserved_ledger_row x t r (po_requireWorkspace po) p (maximum_cost M p r)"
  let ?r = "pending_reservation x r p (maximum_cost M p r)"
  have ok: "books_ok val db" and b: "b \<in> set (budget_limits db)" using assms(2) by (simp_all add: on_budget_def)
  have row: "lg_id ?l = x" "rv_id ?r = x" "rv_ledger_id ?r = x" "lg_cost_usd ?l = maximum_cost M p r"
    by (simp_all add: reserved_ledger_row_def pending_reservation_def)
  have paid: "0 \<le> val (lg_cost_usd ?l) \<and> budget_load val db b t + val (lg_cost_usd ?l) \<le> val (bd_LimitUSD b)" if "in_scope_of b ?l"
  proof -
    have "applicable (rq_Scope r) b" by (rule in_scope_applicable [OF assms(3) that]) (simp_all add: reserved_ledger_row_def)
    then have "b \<in> set (loadApplicableBudgets db (rq_Scope r))" using b by (simp add: loads_applicable)
    moreover have "bd_Mode b \<noteq> ModeSoft" using assms(3) by (auto simp: own_budget_def hard_budget_def)
    ultimately obtain spent where "conservativeSumSpend M db b t = Inr spent" "\<not> mo_less M (bd_LimitUSD b) (mo_add M spent (maximum_cost M p r))"
      using admit_spec [OF admitted(5)] by blast
    then show ?thesis using conservative_is_load [OF assms(1) books_okD(3) [OF ok]] admitted(2) exact_moneyD [OF assms(1)]
      by (auto simp: row(4) positiveFinite_def)
  qed
  have pend: "pending_row (db\<lparr>cost_ledger := cost_ledger db @ [?l], reservations := reservations db @ [?r]\<rparr>) l = pending_row db l"
    if "l \<in> set (cost_ledger db)" for l
    using that admitted(6) row(3) by (auto simp: pending_row_def)
  have "books_ok val (db\<lparr>cost_ledger := cost_ledger db @ [?l], reservations := reservations db @ [?r]\<rparr>)"
    by (rule books_ok_append(2) [OF ok]) (use admitted(6,7) admitted_debit [OF assms(1) admitted(2)] in \<open>simp_all add: row\<close>)
  from on_budget_append [OF assms(2) this _ _ pend paid]
  have "on_budget val b (t, db\<lparr>cost_ledger := cost_ledger db @ [?l], reservations := reservations db @ [?r]\<rparr>)" by simp
  then show ?thesis by (simp add: admitted(9))
qed (use assms(2) in simp)

lemma in_scope_settled [simp]:
  "in_scope_of b (settle_ledger_row valid cost u l) = in_scope_of b l" "lg_ts (settle_ledger_row valid cost u l) = lg_ts l"
  "lg_cost_usd (settle_ledger_row valid cost u l) = cost"
  "in_scope_of b (l\<lparr>lg_input_tokens := i, lg_cache_creation_tokens := c\<rparr>) = in_scope_of b l"
  by (simp_all add: in_scope_of_def settle_ledger_row_def cong: ScopeKind.case_cong)

lemma on_budget_settle:
  assumes "exact_money M val" and "on_budget val b (t, db)"
  shows "on_budget val b (t, snd (Settle M x u db))"
proof (cases rule: settle_cases [of M x u db])
  case (settled r valid cost)
  let ?g = "settle_ledger_row valid cost u"
  let ?h = "\<lambda>l. if lg_id l = rv_ledger_id r then ?g l else l"
  let ?db = "snd (Settle M x u db)"
  have ok: "books_ok val db" using assms(2) by (simp add: on_budget_def)
  have r: "r \<in> set (reservations db)" "rv_id r = x" using debits.find_key_Some [OF settled(1)] by blast+
  have step: "pay_step M R (SettleOp x u) (t, db) = Some (t, ?db)" for R by simp
  have cost: "0 \<le> val cost \<and> val cost \<le> val (lg_cost_usd l)" if "l \<in> set (cost_ledger db)" "lg_id l = rv_ledger_id r" for l
  proof -
    have d: "debit_ok val r l" by (rule debit_of_row [OF ok r(1) that])
    have "lg_cost_usd l = rv_reserved_usd r" "0 \<le> val (rv_reserved_usd r)" using d settled(2) by (auto simp: debit_ok_def)
    then show ?thesis using settled(3,4) exact_moneyD(1,4) [OF assms(1)] by (auto simp: usage_valid_def)
  qed
  have pend: "pending_row db l" if p: "pending_row ?db (?h l)" for l
  proof -
    let ?P = "\<lambda>q. rv_id q = x \<and> rv_state q = Pending"
    have "reservations ?db = upd_where ?P (settle_reservation_row valid u) (reservations db)" by (simp add: settled(5))
    moreover have "lg_id (?h l) = lg_id l" by (simp add: settle_ledger_row_def)
    moreover obtain q' where "q' \<in> set (reservations ?db)" "rv_ledger_id q' = lg_id (?h l)" "rv_state q' = Pending"
      using p unfolding pending_row_def by blast
    ultimately have q': "q' \<in> set (upd_where ?P (settle_reservation_row valid u) (reservations db))"
        "rv_ledger_id q' = lg_id l" "rv_state q' = Pending" by simp_all
    from q'(1) obtain q where q: "q \<in> set (reservations db)" "q' = (if ?P q then settle_reservation_row valid u q else q)"
      unfolding in_upd_where by blast
    have "rv_state (settle_reservation_row valid u q) \<noteq> Pending" by (simp add: settle_reservation_row_def)
    then have "q' = q" using q(2) q'(3) by metis
    then show ?thesis using q(1) q'(2,3) unfolding pending_row_def by blast
  qed
  show ?thesis
  proof (rule on_budget_shrinks [OF assms(2)])
    show "books_ok val ?db" using pay_step_books [OF assms(1) step] ok by simp
    show "budget_limits ?db = budget_limits db" "cost_ledger ?db = map ?h (cost_ledger db)" by (simp_all add: settled(5) upd_where_def)
    fix l assume l: "l \<in> set (cost_ledger db)"
    show "in_scope_of b (?h l) = in_scope_of b l \<and> lg_ts (?h l) = lg_ts l \<and> (pending_row ?db (?h l) \<longrightarrow> pending_row db l)
        \<and> val (lg_cost_usd (?h l)) \<le> val (lg_cost_usd l) \<and> (in_scope_of b l \<longrightarrow> 0 \<le> val (lg_cost_usd (?h l)))"
      using pend [of l] cost [OF l] assms(2) l by (auto simp: on_budget_def)
  qed
qed (use assms(2) in simp)

lemma on_budget_correct:
  assumes "on_budget val b (t, db)"
  shows "on_budget val b (t, db\<lparr>cost_ledger :=
    upd_where (\<lambda>l. lg_id l = x) (\<lambda>l. l\<lparr>lg_input_tokens := i, lg_cache_creation_tokens := c\<rparr>) (cost_ledger db)\<rparr>)"
    (is "on_budget val b (t, ?db)")
proof (rule on_budget_shrinks [OF assms])
  show "books_ok val ?db" using assms books_ok_corrected by (auto simp: on_budget_def)
  show "cost_ledger ?db = map (\<lambda>l. if lg_id l = x then l\<lparr>lg_input_tokens := i, lg_cache_creation_tokens := c\<rparr> else l) (cost_ledger db)"
    by (simp add: upd_where_def)
qed (use assms in \<open>auto simp: pending_row_def on_budget_def\<close>)

lemma on_budget_record:
  assumes "exact_money M val" and "on_budget val b (t, db)" and "own_budget b"
    and "ca_BillingMode c = BillingFlatRate \<or> \<not> applicable (ca_Scope c) b"
  shows "on_budget val b (t, snd (snd (Record M R j x t c db)))"
proof (cases "snd (snd (Record M R j x t c db)) = db")
  case False
  let ?l = "recorded_row M R x t (normalized_call M t c)"
  have fresh: "x \<notin> lg_id ` set (cost_ledger db)"
    and row: "snd (snd (Record M R j x t c db)) = db\<lparr>cost_ledger := cost_ledger db @ [?l]\<rparr>"
    using False by (auto simp: Record_def Let_def split: if_splits)
  have scope: "ca_Scope (normalized_call M t c) = ca_Scope c" by (simp add: normalized_call_def Let_def)
  have "applicable (ca_Scope c) b" if "in_scope_of b ?l"
    by (rule in_scope_applicable [OF assms(3) that]) (simp_all add: recorded_row_def scope)
  moreover have "lg_cost_usd ?l = mo_zero M" if "ca_BillingMode c = BillingFlatRate"
    using that by (simp add: recorded_row_def normalized_call_def Let_def)
  ultimately have paid: "0 \<le> val (lg_cost_usd ?l) \<and> budget_load val db b t + val (lg_cost_usd ?l) \<le> val (bd_LimitUSD b)" if "in_scope_of b ?l"
    using that assms(2,4) exact_moneyD(1) [OF assms(1)] by (auto simp: on_budget_def)
  have "books_ok val (db\<lparr>cost_ledger := cost_ledger db @ [?l]\<rparr>)"
    by (rule books_ok_append(1)) (use assms(2) fresh in \<open>simp_all add: on_budget_def recorded_row_def\<close>)
  from on_budget_append [OF assms(2) this _ _ _ paid] show ?thesis unfolding row by (simp add: pending_row_def)
qed (use assms(2) in simp)

text \<open>Rows keep their stamps, so a row of an edge stays one.\<close>

lemma step_stamps:
  assumes "pay_step M R e s = Some s'"
  shows "\<exists>ts. map lg_ts (cost_ledger (snd s')) = map lg_ts (cost_ledger (snd s)) @ ts" and "budget_limits (snd s') = budget_limits (snd s)"
proof -
  have "(\<exists>ts. map lg_ts (cost_ledger (snd s')) = map lg_ts (cost_ledger (snd s)) @ ts) \<and> budget_limits (snd s') = budget_limits (snd s)"
  proof (cases e)
    case (ReserveOp x po r)
    then show ?thesis using assms by (cases rule: reserve_cases [of M R x "fst s" po r "snd s"]) auto
  next
    case (SettleOp x u)
    then show ?thesis using assms
      by (cases rule: settle_cases [of M x u "snd s"]) (auto simp: map_upd_where_keep settle_ledger_row_def)
  qed (use assms in \<open>auto simp: map_upd_where_keep Record_def Let_def split: if_splits\<close>)
  then show "\<exists>ts. map lg_ts (cost_ledger (snd s')) = map lg_ts (cost_ledger (snd s)) @ ts" "budget_limits (snd s') = budget_limits (snd s)"
    by blast+
qed

lemma edge_rows_stay:
  assumes "pay_step M R e s = Some s'" and "list_ex edge_row (cost_ledger (snd s))"
  shows "list_ex edge_row (cost_ledger (snd s'))"
proof -
  obtain ts where "map lg_ts (cost_ledger (snd s')) = map lg_ts (cost_ledger (snd s)) @ ts" using step_stamps(1) [OF assms(1)] by blast
  then have "lg_ts ` set (cost_ledger (snd s)) \<subseteq> lg_ts ` set (cost_ledger (snd s'))" by (metis list.set_map set_append sup_ge1)
  then show ?thesis using assms(2) by (force simp: list_ex_iff edge_row_def)
qed

lemma on_budget_step:
  assumes "exact_money M val" and "own_budget b" and "pay_step M R e s = Some s'" and "on_budget val b s"
    and "\<not> list_ex edge_row (cost_ledger (snd s))"
    and "\<And>x c. e = RecordOp x c \<Longrightarrow> ca_BillingMode c = BillingFlatRate \<or> \<not> applicable (ca_Scope c) b"
  shows "on_budget val b s'"
proof -
  have s: "on_budget val b (fst s, snd s)" using assms(4) by simp
  show ?thesis
  proof (cases e)
    case (PassTime dt)
    then show ?thesis using assms(3,5) on_budget_time [OF s, of "fst s + dt"] by (auto split: if_splits)
  next
    case (ReserveOp x po r)
    then show ?thesis using assms(3) on_budget_reserve [OF assms(1) s assms(2)] by auto
  next
    case (SettleOp x u)
    then show ?thesis using assms(3) on_budget_settle [OF assms(1) s] by auto
  next
    case (CorrectOp x i c)
    then show ?thesis using assms(3) on_budget_correct [OF s] by auto
  next
    case (RecordOp x c)
    then show ?thesis using assms(3) on_budget_record [OF assms(1) s assms(2) assms(6) [OF RecordOp]] by auto
  qed
qed


text \<open>
  A reservation stamped in the first millisecond of a window is counted by no sum: its nine-digit stamp is
  before the three-digit text of the start of the window, and not before the nine-digit text.  So neither the spending of
  the window nor the debits carried over from earlier windows contain it, as long as the window lasts.
\<close>

theorem edge_rows_uncounted:
  assumes "windowStart (bd_Window b) t = Some s" and "bd_Window b \<noteq> WindowMission" and "0 \<le> t"
    and "lg_ts l = ts_nanos n" and "s \<le> n" and "n < s + ms"
  shows "conservativeSumSpend M (db\<lparr>cost_ledger := cost_ledger db @ [l]\<rparr>) b t = conservativeSumSpend M db b t"
proof -
  have "s mod hour = 0" by (rule windowStart_facts(2) [OF assms(1,3,2)])
  then obtain k where "s = hour * k" by (auto simp: mod_eq_0_iff_dvd elim: dvdE)
  then have s: "s = ms * (3600000 * k)" by (simp add: hour_def)
  then have "n div ms = 3600000 * k" using assms(5,6) by (intro int_div_pos_eq [where r = "n - s"]) simp_all
  moreover have "s div ms = 3600000 * k" by (simp add: s ms_def)
  ultimately have "n div ms = s div ms" by simp
  then have l: "text_less (lg_ts l) (ts_millis s)" "\<not> text_less (lg_ts l) (ts_nanos s)"
    using assms(4,5) by (simp_all add: ts_nanos_def ts_millis_def)
  then have "carried_rows (db\<lparr>cost_ledger := cost_ledger db @ [l]\<rparr>) b s = carried_rows db b s" by (simp add: carried_rows_def)
  then show ?thesis using assms(1,2) l(1) by (simp add: conservativeSumSpend_def sumSpend_def)
qed

subsection \<open>Capped calls are paid for first\<close>

lemma trusted_capped:
  assumes "trustedReservation M R cat callID newid now between req db = (Inr y, db')"
    and "b \<in> set (budget_limits db)" "applicable (cq_Scope req) b" "hard_budget b"
  obtains bounds p where "y = Some newid" "cq_Bounds req = Some bounds" "positiveFinite M (maximum_cost M p (trusted_request req callID bounds))"
    "admit_budgets M (between db) False now (maximum_cost M p (trusted_request req callID bounds))
       (loadApplicableBudgets (between db) (cq_Scope req)) False = Inr True"
    "db' = (between db)\<lparr>
       cost_ledger := cost_ledger (between db) @ [reserved_ledger_row newid now (trusted_request req callID bounds) False p
         (maximum_cost M p (trusted_request req callID bounds))],
       reservations := reservations (between db) @ [pending_reservation newid (trusted_request req callID bounds) p
         (maximum_cost M p (trusted_request req callID bounds))]\<rparr>"
proof -
  have capped: "list_ex hard_budget (loadApplicableBudgets db (cq_Scope req))"
    using assms(2-4) by (auto simp: list_ex_iff loads_applicable)
  then obtain bounds p where bp: "cq_Bounds req = Some bounds"
      "reserve M R newid now \<lparr>po_requireWorkspace = False, po_maxOutput = max_input, po_rate = Some p\<rparr> (trusted_request req callID bounds) (between db)
        = (Inr (the y), db')" "y \<noteq> None"
    using assms(1) by (auto simp: trustedReservation_def split: if_splits option.splits sum.splits prod.splits)
  then show thesis
  proof (cases rule: reserve_cases [of M R newid now "\<lparr>po_requireWorkspace = False, po_maxOutput = max_input, po_rate = Some p\<rparr>"
        "trusted_request req callID bounds" "between db"])
    case (admitted q)
    have scope: "rq_Scope (trusted_request req callID bounds) = cq_Scope req" by (simp add: trusted_request_def)
    show thesis using that [of bounds q] bp admitted(2,5,9) by (auto simp: scope)
  qed simp
qed

text \<open>
  C34. A call a hard budget applies to is paid for before it is made: when the middleware calls the provider, a pending
  reservation of this call is committed with a debit of its full maximum, and every budget that is not soft
  afforded that maximum on top of what was spent and pending.
\<close>

theorem capped_call_is_prepaid:
  assumes "Middleware env req db m = (res, m')" and "cq_BillingMode req \<noteq> BillingFlatRate" and "mr_called res = Some (d, active)"
    and "b \<in> set (budget_limits (ce_others env 1 (ce_others env 0 db)))" "applicable (cq_Scope req) b" "hard_budget b"
  shows "active \<and> (\<exists>r\<in>set (reservations d). \<exists>l\<in>set (cost_ledger d).
     rv_id r = ce_id env 1 \<and> rv_state r = Pending \<and> lg_id l = rv_ledger_id r \<and> lg_cost_usd l = rv_reserved_usd r
     \<and> positiveFinite (ce_money env) (rv_reserved_usd r) \<and> cq_Bounds req = Some (rv_max_input_tokens r, rv_max_output_tokens r)
     \<and> (let paid = ce_others env 2 (ce_others env 1 (ce_others env 0 db))
        in \<forall>c\<in>set (loadApplicableBudgets paid (cq_Scope req)). bd_Mode c = ModeSoft
             \<or> (\<exists>spent. conservativeSumSpend (ce_money env) paid c (ce_now env 2) = Inr spent
                  \<and> \<not> mo_less (ce_money env) (bd_LimitUSD c) (mo_add (ce_money env) spent (rv_reserved_usd r)))))"
proof -
  let ?paid = "ce_others env 2 (ce_others env 1 (ce_others env 0 db))" and ?r = "trusted_request req (ce_id env 0)"
  let ?T = "trustedReservation (ce_money env) (ce_cards env) (ce_catalogue env) (ce_id env 0) (ce_id env 1) (ce_now env 2) (ce_others env 2)
    req (ce_others env 1 (ce_others env 0 db))"
  obtain y where y: "?T = (Inr y, d)" "active \<longleftrightarrow> y \<noteq> None"
    using assms(1-3) by (auto simp: Middleware_def Let_def split: prod.splits option.splits sum.splits)
  obtain bounds p where t: "y = Some (ce_id env 1)" "cq_Bounds req = Some bounds"
      "positiveFinite (ce_money env) (maximum_cost (ce_money env) p (?r bounds))"
      "admit_budgets (ce_money env) ?paid False (ce_now env 2)
        (maximum_cost (ce_money env) p (?r bounds))
        (loadApplicableBudgets ?paid (cq_Scope req)) False = Inr True"
      "d = ?paid\<lparr>
       cost_ledger := cost_ledger ?paid @ [reserved_ledger_row (ce_id env 1) (ce_now env 2)
         (?r bounds) False p (maximum_cost (ce_money env) p (?r bounds))],
       reservations := reservations ?paid @ [pending_reservation (ce_id env 1)
         (?r bounds) p (maximum_cost (ce_money env) p (?r bounds))]\<rparr>"
    by (rule trusted_capped [OF y(1) assms(4-6)])
  have bounds: "rq_MaxInputTokens (?r bounds) = fst bounds"
    "rq_MaxOutputTokens (?r bounds) = snd bounds" by (simp_all add: trusted_request_def)
  show ?thesis using y(2) t(1-3) admit_spec [OF t(4)]
    by (auto simp: t(5) reserved_ledger_row_def pending_reservation_def bounds Let_def)
qed

subsection \<open>Concrete books\<close>

definition int_money :: "int money" where
  "int_money = \<lparr>mo_zero = 0, mo_one = 1, mo_add = (+), mo_sum = sum_list, mo_price = (*), mo_util = (div),
     mo_percent = (\<lambda>a b. a * 100 div b), mo_warnThreshold = 1, mo_max = max, mo_less = (<), mo_le = (\<le>), mo_finite = (\<lambda>_. True)\<rparr>"

lemma int_money_exact: "exact_money int_money of_int"
proof -
  have "(of_int (sum_list xs) :: rat) = sum_list (map of_int xs)" for xs :: "int list" by (induction xs) simp_all
  then show ?thesis by (simp add: exact_money_def int_money_def)
qed

definition demo_rate :: "int modelPrice" where
  "demo_rate = \<lparr>pr_InputPerM = 1, pr_OutputPerM = 2, pr_CachedInputPerM = 0, pr_CacheWritePerM = 1\<rparr>"

definition demo_cards :: "int rate_cards" where
  "demo_cards = \<lparr>rc_priceTable = (\<lambda>k. if k = ''acme/m1'' then Some demo_rate else None), rc_catalogPrice = (\<lambda>_ _. None),
     rc_providerFallback = (\<lambda>_. None)\<rparr>"

definition demo_budget :: "int Budget" where
  "demo_budget = \<lparr>bd_ID = ''cap'', bd_WorkspaceID = ''ws'', bd_ScopeKind = ScopeWorkspace, bd_ScopeID = ''ws'', bd_Window = WindowHour,
     bd_LimitUSD = 10, bd_Mode = ModeHard, bd_Enabled = True\<rparr>"

definition demo_books :: "int pay_db" where
  "demo_books = \<lparr>budget_limits = [demo_budget], cost_ledger = [], reservations = []\<rparr>"

text \<open>A request of at most eight tokens in and one out, which costs at most ten.\<close>

definition demo_scope :: Scope where
  "demo_scope = \<lparr>sc_WorkspaceID = ''ws'', sc_CrewID = ''crew'', sc_AgentID = ''agent'', sc_MissionID = []\<rparr>"

definition demo_reserve :: "string \<Rightarrow> int pay_op" where
  "demo_reserve x = ReserveOp x restricted_policy \<lparr>rq_Scope = demo_scope, rq_PrincipalID = ''human'', rq_AttemptID = x,
     rq_CredentialID = ''key'', rq_Provider = ''Acme'', rq_Model = ''M1'', rq_MaxInputTokens = 8, rq_MaxOutputTokens = 1\<rparr>"

definition demo_usage :: ReservationUsage where
  "demo_usage = \<lparr>us_Known = True, us_Conservative = False, us_InputTokens = 3, us_OutputTokens = 1, us_CachedInputTokens = 1\<rparr>"

text \<open>Two reservations where only one fits, and a settlement of the first.\<close>

definition demo_settled :: "int pay_db" where
  "demo_settled = snd (the (pay_run int_money demo_cards [demo_reserve ''a'', demo_reserve ''b'', SettleOp ''a'' demo_usage] (2 * ms, demo_books)))"

lemma demo_settled_run:
  "pay_run int_money demo_cards [demo_reserve ''a'', demo_reserve ''b'', SettleOp ''a'' demo_usage] (2 * ms, demo_books)
    = Some (2 * ms, demo_settled)"
  by code_simp

lemma reservations_stay_typed_witness:
  "\<exists>l. {l' \<in> set (cost_ledger demo_settled). lg_id l' = ''a''} = {l} \<and> (of_int (lg_cost_usd l) :: rat) \<le> 10"
proof -
  let ?r = "hd (reservations demo_settled)"
  have r: "?r \<in> set (reservations demo_settled)" "rv_ledger_id ?r = ''a''" "rv_reserved_usd ?r = 10" by code_simp+
  from reservations_stay_typed [OF int_money_exact demo_settled_run _ _ r(1)] show ?thesis
    by (auto simp: r demo_books_def)
qed

lemma settle_once_witness:
  "Settle int_money ''a'' demo_usage demo_settled = (Inr (), demo_settled)
    \<and> Settle int_money ''a'' (demo_usage\<lparr>us_OutputTokens := 0\<rparr>) demo_settled = (Inl ErrReservationDenied, demo_settled)"
proof -
  let ?db = "snd (the (pay_run int_money demo_cards [demo_reserve ''a''] (2 * ms, demo_books)))" and ?r = "hd (reservations demo_settled)"
  have s: "Settle int_money ''a'' demo_usage ?db = (Inr (), demo_settled)" by code_simp
  have f: "find (\<lambda>r. rv_id r = ''a'') (reservations ?db) = Some (hd (reservations ?db))" by code_simp
  have v: "usage_valid int_money (hd (reservations ?db)) demo_usage" "usage_valid int_money (hd (reservations ?db)) (demo_usage\<lparr>us_OutputTokens := 0\<rparr>)"
    by code_simp+
  show ?thesis using settle_once [OF s f, of demo_usage] settle_once [OF s f, of "demo_usage\<lparr>us_OutputTokens := 0\<rparr>"] v
    by (simp add: demo_usage_def)
qed


text \<open>Within the first millisecond of an hour the limit of ten is spent twice, and no sum shows it.\<close>

definition demo_overspent :: "int pay_db" where
  "demo_overspent = snd (the (pay_run int_money demo_cards [demo_reserve ''a'', demo_reserve ''b''] (hour, demo_books)))"

lemma edge_rows_uncounted_witness:
  "pay_run int_money demo_cards [demo_reserve ''a'', demo_reserve ''b''] (hour, demo_books) = Some (hour, demo_overspent)
    \<and> map lg_cost_usd (cost_ledger demo_overspent) = [10, 10] \<and> bd_LimitUSD demo_budget = 10
    \<and> conservativeSumSpend int_money demo_overspent demo_budget hour = Inr 0"
proof -
  let ?l = "\<lambda>k. cost_ledger demo_overspent ! k" and ?db = "demo_overspent\<lparr>cost_ledger := []\<rparr>"
  have w: "windowStart (bd_Window demo_budget) hour = Some hour" "bd_Window demo_budget \<noteq> WindowMission" "0 \<le> hour" "hour \<le> hour" "hour < hour + ms"
    by code_simp+
  have l: "lg_ts (?l 0) = ts_nanos hour" "lg_ts (?l 1) = ts_nanos hour" by code_simp+
  have "cost_ledger demo_overspent = [?l 0, ?l 1]" by code_simp
  then have "demo_overspent = ?db\<lparr>cost_ledger := cost_ledger (?db\<lparr>cost_ledger := cost_ledger ?db @ [?l 0]\<rparr>) @ [?l 1]\<rparr>" by simp
  then have "conservativeSumSpend int_money demo_overspent demo_budget hour = conservativeSumSpend int_money ?db demo_budget hour"
    using edge_rows_uncounted [OF w(1-3) l(1) w(4,5), of int_money ?db]
      edge_rows_uncounted [OF w(1-3) l(2) w(4,5), of int_money "?db\<lparr>cost_ledger := [?l 0]\<rparr>"] by simp
  moreover have "conservativeSumSpend int_money ?db demo_budget hour = Inr 0" by code_simp
  moreover have "pay_run int_money demo_cards [demo_reserve ''a'', demo_reserve ''b''] (hour, demo_books) = Some (hour, demo_overspent)"
    "map lg_cost_usd (cost_ledger demo_overspent) = [10, 10]" by code_simp+
  ultimately show ?thesis by (simp add: demo_budget_def)
qed

definition demo_call_env :: "int call_env" where
  "demo_call_env = \<lparr>ce_money = int_money, ce_cards = demo_cards,
     ce_catalogue = (\<lambda>_ _. Some (Some \<lparr>mc_base = \<lparr>rb_input = 1, rb_output = 2, rb_cacheRead = None, rb_cacheWrite = None\<rparr>, mc_tiers = []\<rparr>)),
     ce_is_zero = (\<lambda>c. c = 0), ce_journal = True, ce_now = (\<lambda>_. 2 * ms), ce_id = (\<lambda>k. ''c'' @ nat_digits k), ce_others = (\<lambda>_ db. db),
     ce_provider = (\<lambda>_ _. (\<lparr>cr_UsageKnown = True, cr_InputTokens = 2, cr_OutputTokens = 1, cr_CachedInputTokens = 1, cr_CacheCreationTokens = 0,
       cr_CostUSD = 0, cr_Tags = ''{}'', cr_CompletedAt = None, cr_Confidence = ConfidenceUnset, cr_Quota = ([], 0)\<rparr>, None)),
     ce_no_response = \<lparr>cr_UsageKnown = False, cr_InputTokens = 0, cr_OutputTokens = 0, cr_CachedInputTokens = 0, cr_CacheCreationTokens = 0,
       cr_CostUSD = 0, cr_Tags = ''{}'', cr_CompletedAt = None, cr_Confidence = ConfidenceUnset, cr_Quota = ([], 0)\<rparr>\<rparr>"

definition demo_paid_call :: CallRequest where
  "demo_paid_call = \<lparr>cq_Bounds = Some (4, 1), cq_Scope = demo_scope, cq_Provider = ''acme'', cq_Model = ''m1'', cq_BillingMode = BillingMetered,
     cq_SubscriptionPlan = []\<rparr>"

definition demo_called :: "int call_result" where
  "demo_called = fst (Middleware demo_call_env demo_paid_call demo_books (\<lambda>_. None))"

text \<open>The call is debited six before it is made and five after it.\<close>

lemma capped_call_is_prepaid_witness:
  "\<exists>d. mr_called demo_called = Some (d, True) \<and> (\<exists>r\<in>set (reservations d). \<exists>l\<in>set (cost_ledger d). rv_id r = ''c1'' \<and> rv_state r = Pending
       \<and> lg_id l = rv_ledger_id r \<and> lg_cost_usd l = rv_reserved_usd r)
     \<and> map lg_cost_usd (cost_ledger (mr_db demo_called)) = [5]"
proof -
  obtain m' where m: "Middleware demo_call_env demo_paid_call demo_books (\<lambda>_. None) = (demo_called, m')"
    by (cases "Middleware demo_call_env demo_paid_call demo_books (\<lambda>_. None)") (simp add: demo_called_def)
  let ?d = "fst (the (mr_called demo_called))"
  have c: "mr_called demo_called = Some (?d, snd (the (mr_called demo_called)))" "map lg_cost_usd (cost_ledger (mr_db demo_called)) = [5]"
    "ce_id demo_call_env 1 = ''c1''" by code_simp+
  have b: "demo_budget \<in> set (budget_limits (ce_others demo_call_env 1 (ce_others demo_call_env 0 demo_books)))"
    "applicable (cq_Scope demo_paid_call) demo_budget" "hard_budget demo_budget" "cq_BillingMode demo_paid_call \<noteq> BillingFlatRate"
    by (simp_all add: demo_call_env_def demo_books_def demo_budget_def demo_paid_call_def demo_scope_def applicable_def hard_budget_def)
  show ?thesis using capped_call_is_prepaid [OF m b(4) c(1) b(1-3)] c by auto
qed

end
