(* ===== verification/Spec2Isabelle.thy ===== *)
theory Spec2Isabelle
  imports Work_Admission Work_Lifecycle Work_Sweeps Work_Host Policy_Decisions Policy_Resolver Statuses
    Quiesce_Holds Dispatch_Properties Routine_Schedule Routine_Registry Routine_Retry Leader_Lease
    Paymaster_Limits
begin

text \<open>
  A verification library for the control plane of crewship: the durable work ledger, the dispatcher
  that executes what the ledger holds, the quiet window that keeps both out of a consistent backup,
  the schedulers that run the steps of a routine with their run slots and retries, the election of the
  leader, the books of what calls of language models cost, the policy decisions, and the status graphs.

  \<^bold>\<open>The program.\<close>  Producers (webhooks, schedules, chat, the API) commit work to the ledger
  (\<^verbatim>\<open>internal/work\<close>).  A dispatcher (\<^verbatim>\<open>internal/dispatch\<close>) claims one item at a time within the shared
  limits, records the start intent, runs it and reports the outcome under the run identifier and the
  generation it was given; leases, recovery and cancellation are store operations that other
  processes run beside it.  A backup opens a quiet window (\<^verbatim>\<open>internal/quiesce\<close>): writers enter a gate, and a
  window closes it, drains the writers and then holds.  A routine (\<^verbatim>\<open>internal/pipeline\<close>) is a list of steps,
  run one after the other or, where they declare or reveal what they need, concurrently in waves; the
  outputs of finished steps are stored, so that a killed run can be resumed.  A run first takes a slot of its
  concurrency key from the registry of live runs, and each of its steps is retried within its policy and
  the cost cap.  Where several instances share a database, \<^verbatim>\<open>internal/leader\<close> elects the one that runs the
  schedules, by a lease with a renewed expiry.  Calls of language models are billed by \<^verbatim>\<open>internal/paymaster\<close>: where a
  hard budget applies, the maximum cost is reserved before the call and settled after it.  \<^verbatim>\<open>internal/policy\<close> decides what an agent may do
  on its own, \<^verbatim>\<open>internal/statuses\<close> which status changes of issues, missions and tasks are legal.

  \<^bold>\<open>Theories.\<close>
  \<^item> \<open>Ledger_Prelude\<close>: tables as lists of rows (\<open>upd_where\<close>, \<open>count_where\<close>, keyed lookup as the locale
    \<open>keyed_rows\<close>), transactions (\<open>in_tx\<close>), instants and the other lemmas the components share.
  \<^item> \<open>Work_State\<close> (\<^verbatim>\<open>work.go\<close>), \<open>Work_Store\<close> (\<^verbatim>\<open>store.go\<close>), \<open>Work_Claim\<close> (\<^verbatim>\<open>claim.go\<close>,
    \<^verbatim>\<open>claim_legacy.go\<close>), \<open>Work_Transition\<close> (\<^verbatim>\<open>transition.go\<close>), \<open>Work_Ingress\<close> (\<^verbatim>\<open>delivery.go\<close>,
    \<^verbatim>\<open>capacity.go\<close>), \<open>Work_Retention\<close> (\<^verbatim>\<open>retention.go\<close>), \<open>Work_Outcomes\<close> (\<^verbatim>\<open>host_chat.go\<close>,
    \<^verbatim>\<open>assignment.go\<close>, \<^verbatim>\<open>run_results.go\<close>, \<^verbatim>\<open>retained_result.go\<close>): the rows as records and every operation
    as a function from the database to an error or an answer with the new database.  SQL statements
    are filters, updates and inserts on the tables, with the unique and check constraints of the schema.
  \<^item> \<open>Ledger_Protocol\<close>: the ledger as an abstract step relation; \<open>Work_Refinement\<close> and
    \<open>Work_Simulation\<close>: the abstraction of the tables, the invariant \<open>good\<close>, and the simulation: every
    command of the store, in any schedule (\<open>run_commands\<close>), is steps of the protocol.
  \<^item> \<open>Work_Properties\<close>, \<open>Work_Admission\<close>, \<open>Work_Lifecycle\<close>, \<open>Work_Deliveries\<close>, \<open>Work_Arrivals\<close>,
    \<open>Work_Sweeps\<close>, \<open>Work_Attempts\<close>, \<open>Work_Host\<close>: what holds of every reachable ledger and of each
    operation on it: exclusivity, fencing, admission within the limits, recovery, cancellation,
    deliveries, retention, the lifetime of an attempt and the turns a host runs.
  \<^item> \<open>Dispatch\<close> (\<^verbatim>\<open>dispatcher.go\<close>, \<^verbatim>\<open>runtime.go\<close>): the dispatcher's operations over a world of ledger, clock
    and script; \<open>Dispatch_Paths\<close>: the locale of relations that hold of every path of store calls;
    \<open>Dispatch_Properties\<close>: its three interpretations and the guarantees of claiming, supervision and
    settlement.
  \<^item> \<open>Quiesce\<close> (\<^verbatim>\<open>quiesce.go\<close>, \<^verbatim>\<open>writers.go\<close>, \<^verbatim>\<open>runs.go\<close>, \<^verbatim>\<open>writer_owner.go\<close>): the critical sections of
    the gate and their interleavings; \<open>Quiesce_Holds\<close> (\<^verbatim>\<open>holds.go\<close>): the holds and the pause predicates.
  \<^item> \<open>Routine_Graph\<close> (\<^verbatim>\<open>dag.go\<close>: \<^verbatim>\<open>validateDAG\<close>, \<^verbatim>\<open>deriveAutoNeeds\<close>; \<^verbatim>\<open>dsl.go\<close>: \<^verbatim>\<open>collectReachableNeeds\<close>): the step
    graph of a routine and its check.  \<open>Routine_Run\<close> (\<^verbatim>\<open>executor.go\<close>: \<^verbatim>\<open>runDSL\<close>, \<^verbatim>\<open>runLinearStep\<close>, the gates, the
    stored projection, the labels of a cancelled run): the result of a run, the sequential scheduler and its
    resumption.  \<open>Routine_Dag\<close> (\<^verbatim>\<open>runDAG\<close>, \<^verbatim>\<open>executeOneStep\<close>): the sections of the scheduler's goroutine and of the
    steps', as functions on the shared state; a run is any list of events the state admits, and the move
    relation, its invariants and a measure follow.  \<open>Routine_Schedule\<close>: what holds of every such run.
  \<^item> \<open>Routine_Registry\<close> (\<^verbatim>\<open>run_registry.go\<close>): the live runs and the slot counters, as critical sections under
    the registry's mutex; \<open>Routine_Retry\<close> (\<^verbatim>\<open>executor_retry.go\<close>, \<^verbatim>\<open>executor_retry_cel.go\<close>): the attempt loop of a
    step and the escalation of its tiers.
  \<^item> \<open>Leader_Lease\<close> (\<^verbatim>\<open>internal/leader/lease.go\<close>): the lease row, the candidates' tries and renewals, and the
    interleavings of their calls with the passing of time.
  \<^item> \<open>Paymaster\<close> (\<^verbatim>\<open>types.go\<close>, \<^verbatim>\<open>budgets.go\<close>, \<^verbatim>\<open>pricing.go\<close> of \<^verbatim>\<open>internal/paymaster\<close>): the tables, calendar windows, what is
    spent of a budget, enforcement and rate cards; \<open>Paymaster_Reserve\<close> (\<^verbatim>\<open>reservations.go\<close>, \<^verbatim>\<open>trusted_reservations.go\<close>,
    \<^verbatim>\<open>ledger.go\<close>, \<^verbatim>\<open>middleware.go\<close>): the writes and the middleware around a call; \<open>Paymaster_Budget\<close>: the load of a budget
    as a sum over rows and the invariant of the books; \<open>Paymaster_Limits\<close>: the guarantees of reservations, and the
    first millisecond of a window, where they fail.
  \<^item> \<open>Policy\<close>, \<open>Policy_Decisions\<close> (\<^verbatim>\<open>types.go\<close>, \<^verbatim>\<open>approval_mode.go\<close>), \<open>Policy_Resolver\<close> (\<^verbatim>\<open>resolver.go\<close>):
    the decision matrix and the caching resolver, as one call and as interleaved calls.
  \<^item> \<open>Statuses\<close> (\<^verbatim>\<open>transitions.go\<close>): the status graphs and the breadth-first \<open>RouteTo\<close>.

  \<^bold>\<open>Interfaces.\<close>  Keyed tables (\<open>keyed_rows\<close>), systems that refine a step relation (\<open>refined_system\<close>), fenced
  operations (\<open>fenced_op\<close>, provided by six operations of the store), the frontier of the route search
  (\<open>frontier\<close>) paths of store calls (\<open>call_path\<close>) and
  histories of events (\<open>event_runs\<close>: the concurrent scheduler, the registry, the election and the
  writes of the paymaster) are locales; each is interpreted on the definitions that provide it.

  \<^bold>\<open>Arguments.\<close>  What the code takes from outside is an argument: the clock, fresh identifiers, random draws,
  the digest, the JSON size of a result, the free space of the disk, the answers of the runtime, of the
  authorizer, of a busy probe and of the writer-owner check.  No hypothesis is made about them beyond
  the range of the random draws, the arithmetic of the two theorems on delays and on budgets, and the latency of an election.  In \<open>Dispatch\<close> a script says, for each store call, what other parties do
  before it and whether it is lost before or after its transaction; a script that has run out is
  a quiet and working store.  For a routine the step runner, the tier resolver, the template renderer, the
  database and the context answer through the environment or the events, and the arithmetic of costs, which
  is floating point in the code, is a parameter without laws.  The retry loops take the answers of the attempts,
  the jitter, the interruption of a sleep, the multiplication by the backoff factor and the evaluator of the
  \<^verbatim>\<open>retry_on\<close> expressions, which is a third-party package, in the same way.

  The money of \<open>Paymaster\<close> is an argument too; its theorems suppose exact sums (\<open>exact_money\<close>), which leaves rounding aside.
  Stamps are compared as the code compares them, as texts of two layouts.

  \<^bold>\<open>Termination and bounds.\<close>  Every loop is shown to end, without fuel: the backoff window by the distance to
  the attempt, the two sweeps by the deliveries behind the cursor, the route search by the statuses not yet
  reached, the check of a step graph by the counters left, a concurrent run by \<open>moves_left\<close>, the retry loops by the
  attempts left; the walk back over the predecessors, which alone may not end, is a partial function, and the
  search is shown to call it only where it does.  Integers of the ledger are unbounded: its counters are 64-bit
  in the code and grow by one per operation.

  \<^bold>\<open>Not modelled.\<close>  Logging, metrics, tickers and HTTP; the waiting loops of the gate, which repeat a modelled
  section; the release callbacks of a window; of the pipeline the step runners, the save gate, schedules,
  webhooks, waitpoints, the rows of step executions and the \<^verbatim>\<open>state_write\<close> store; the migrations, read for the constraints only; and the
  packages of \<^verbatim>\<open>internal\<close> not named above (the orchestrator, which calls containers and
  language models, the API handlers, storage and transport), which use the ledger only through its operations.
\<close>

subsection \<open>The quiet window and the dispatcher\<close>

lemma enter_refused:
  assumes "Holding s" "g_writers s i = None" "g_entering s i = None"
  shows "\<not> snd (enter_background i s)"
  using assms
  by (auto simp: enter_background_def enter_commit_def writer_carried_def inside_def Holding_def Let_def split: option.splits)

text \<open>C21. While a quiet window is open, closing or held, dispatch stands still: a claim and a recovery pass, which enter
  the gate as writers of their own, change nothing on the ledger or its script, whatever else is configured, and
  the consumers of the queue, which ask \<open>QueuePaused\<close> or \<open>AdmitQueue\<close>, are refused.\<close>

theorem held_window_stops_dispatch:
  assumes "Holding s" and "g_writers s i = None" and "g_entering s i = None"
  shows "claimOne env cfg paused (snd (enter_background i s)) newid authz dnow w = ((False, None), None, w)
     \<and> dispatch_recover (snd (enter_background i s)) w = (None, w)
     \<and> QueuePaused s h \<and> \<not> snd (AdmitQueue h i s)"
  using enter_refused [OF assms] assms(1)
  by (auto simp: claimOne_def dispatch_recover_def QueuePaused_def AdmitQueue_def)

lemma held_window_stops_dispatch_witness:
  "claimOne demo_env demo_config False (snd (enter_background 5 (gate_run demo_window (new_gate 0)))) ''r1'' None 2
     (demo_world demo_accepted []) = ((False, None), None, demo_world demo_accepted [])"
proof -
  let ?s = "gate_run demo_window (new_gate 0)"
  have "Holding ?s" "g_writers ?s 5 = None" "g_entering ?s 5 = None" by code_simp+
  from held_window_stops_dispatch [OF this] show ?thesis by blast
qed

end
